(* ===== verification/Prelude.thy ===== *)
theory Prelude
  imports Main "HOL-Library.AList"
begin

text \<open>
  Shared material of the development: the collections of facts, generic lemmas on
  association lists (the model of a Python dict that keeps insertion order), on bounded
  logs, and the two interfaces that the stateful components share: a state whose
  operations keep an invariant, and a state some of whose operations keep a fact.
\<close>

named_theorems py_simps \<open>evaluation rules of the Python primitives\<close>
named_theorems op_defs \<open>definitions of a component's operations\<close>
named_theorems keeps \<open>facts that say what an operation keeps\<close>

subsection \<open>Dicts as association lists\<close>

type_synonym ('k, 'v) dict = "('k \<times> 'v) list"

abbreviation keys :: "('k, 'v) dict \<Rightarrow> 'k list" where
  "keys d \<equiv> map fst d"

text \<open>\<open>d.get(k)\<close>, \<open>d[k] = v\<close>, \<open>del d[k]\<close>, \<open>d.setdefault(k, v)\<close>.\<close>

definition dget :: "('k, 'v) dict \<Rightarrow> 'k \<Rightarrow> 'v option" where
  "dget d k = map_of d k"

definition dput :: "'k \<Rightarrow> 'v \<Rightarrow> ('k, 'v) dict \<Rightarrow> ('k, 'v) dict" where
  "dput k v d = AList.update k v d"

definition ddel :: "'k \<Rightarrow> ('k, 'v) dict \<Rightarrow> ('k, 'v) dict" where
  "ddel k d = filter (\<lambda>p. fst p \<noteq> k) d"

definition dhas :: "('k, 'v) dict \<Rightarrow> 'k \<Rightarrow> bool" where
  "dhas d k = (dget d k \<noteq> None)"

definition dsetdefault :: "'k \<Rightarrow> 'v \<Rightarrow> ('k, 'v) dict \<Rightarrow> ('k, 'v) dict" where
  "dsetdefault k v d = (if dhas d k then d else dput k v d)"

lemma dget_Nil [simp]: "dget [] k = None"
  by (simp add: dget_def)

lemma dget_Cons [simp]: "dget ((k', v) # d) k = (if k = k' then Some v else dget d k)"
  by (simp add: dget_def)

lemma dget_dput [simp]: "dget (dput k v d) k' = (if k' = k then Some v else dget d k')"
  by (simp add: dget_def dput_def update_conv')

lemma dget_ddel [simp]: "dget (ddel k d) k' = (if k' = k then None else dget d k')"
  by (induction d) (auto simp: ddel_def)

lemma dhas_Nil [simp]: "dhas [] k = False"
  by (simp add: dhas_def)

lemma dhas_dput [simp]: "dhas (dput k v d) k' = (k' = k \<or> dhas d k')"
  by (auto simp: dhas_def)

lemma dhas_ddel [simp]: "dhas (ddel k d) k' = (k' \<noteq> k \<and> dhas d k')"
  by (auto simp: dhas_def)

lemma dhas_keys: "dhas d k \<longleftrightarrow> k \<in> set (keys d)"
  by (auto simp: dhas_def dget_def map_of_eq_None_iff)

lemma keys_dput: "set (keys (dput k v d)) = insert k (set (keys d))"
  unfolding dput_def by (simp add: dom_update)

lemma distinct_dput [intro, simp]: "distinct (keys d) \<Longrightarrow> distinct (keys (dput k v d))"
  by (simp add: dput_def distinct_update)

lemma distinct_ddel [intro, simp]: "distinct (keys d) \<Longrightarrow> distinct (keys (ddel k d))"
  by (simp add: ddel_def distinct_map_filter)

lemma set_dput: "x \<in> set (dput k v d) \<Longrightarrow> x = (k, v) \<or> x \<in> set d"
  by (induction d) (auto simp: dput_def split: if_splits)

lemma set_ddel [simp]: "set (ddel k d) = {p \<in> set d. fst p \<noteq> k}"
  by (auto simp: ddel_def)

lemma dget_in_set: "dget d k = Some v \<Longrightarrow> (k, v) \<in> set d"
  by (simp add: dget_def map_of_SomeD)

lemma dget_dsetdefault:
  "dget (dsetdefault k v d) k' = (if k' = k \<and> dget d k = None then Some v else dget d k')"
  by (auto simp: dsetdefault_def dhas_def)

lemma dhas_dsetdefault [simp]: "dhas (dsetdefault k v d) k' = (k' = k \<or> dhas d k')"
  by (auto simp: dsetdefault_def)

lemma distinct_dsetdefault [intro, simp]:
  "distinct (keys d) \<Longrightarrow> distinct (keys (dsetdefault k v d))"
  by (simp add: dsetdefault_def)

subsection \<open>Bounded logs\<close>

text \<open>\<open>xs[-n:]\<close> for \<open>n > 0\<close>: the last \<open>n\<close> elements.\<close>

definition last_n :: "nat \<Rightarrow> 'a list \<Rightarrow> 'a list" where
  "last_n n xs = drop (length xs - n) xs"

lemma length_last_n [simp]: "length (last_n n xs) = min n (length xs)"
  by (simp add: last_n_def)

lemma set_last_n: "x \<in> set (last_n n xs) \<Longrightarrow> x \<in> set xs"
  unfolding last_n_def by (rule in_set_dropD)

lemma last_n_append1: "0 < n \<Longrightarrow> x \<in> set (last_n n (xs @ [x]))"
  unfolding last_n_def by (simp add: drop_append)

text \<open>The records of a capped log: append, then keep the last \<open>n\<close>.\<close>

definition log_append :: "nat \<Rightarrow> 'a \<Rightarrow> 'a list \<Rightarrow> 'a list" where
  "log_append n x xs = last_n n (xs @ [x])"

lemma length_log_append: "length (log_append n x xs) \<le> n"
  by (simp add: log_append_def)

lemma set_log_append: "y \<in> set (log_append n x xs) \<Longrightarrow> y = x \<or> y \<in> set xs"
  unfolding log_append_def by (drule set_last_n) auto

subsection \<open>Operations that keep an invariant\<close>

text \<open>
  The contract of a component with state: every operation keeps the invariant. A client
  that runs any sequence of operations keeps it too.
\<close>

locale invariant_system =
  fixes opr :: "'o \<Rightarrow> 's \<Rightarrow> 's"
    and inv :: "'s \<Rightarrow> bool"
  assumes opr_inv: "inv s \<Longrightarrow> inv (opr a s)"
begin

lemma run_inv: "inv s \<Longrightarrow> inv (fold opr as s)"
  by (induction as arbitrary: s) (auto simp: opr_inv)

lemma run_prefix_inv: "inv s \<Longrightarrow> inv (fold opr (take n as) s)"
  by (rule run_inv)

end

text \<open>
  An extension: a fact (a guard that holds, a terminal status) that every operation
  outside a named set keeps while the invariant holds.
\<close>

locale stable_system = invariant_system +
  fixes releases :: "'o \<Rightarrow> bool"
    and fact :: "'s \<Rightarrow> bool"
  assumes opr_fact: "inv s \<Longrightarrow> fact s \<Longrightarrow> \<not> releases a \<Longrightarrow> fact (opr a s)"
begin

lemma run_fact:
  "inv s \<Longrightarrow> fact s \<Longrightarrow> list_all (\<lambda>a. \<not> releases a) as \<Longrightarrow> fact (fold opr as s)"
proof (induction as arbitrary: s)
  case Nil
  then show ?case by simp
next
  case (Cons a as)
  then have "inv (opr a s)" and "fact (opr a s)"
    by (auto intro: opr_inv opr_fact)
  with Cons show ?case by simp
qed

lemma run_fact_witness:
  assumes "inv s" and "fact s" and "\<not> fact (fold opr as s)"
  shows "\<exists>a \<in> set as. releases a"
  using assms run_fact [of s as] by (auto simp: list_all_iff)

end

end
