(* ===== verification/PyBase.thy ===== *)
theory PyBase
  imports Prelude Complex_Main "HOL-Library.List_Lexorder" "HOL-Library.Char_ord"
begin

text \<open>
  The parts of Python's built-in types that the modelled code uses: characters and
  strings (code points 0 to 255), decimal conversion, the values that \<open>json.loads\<close>
  returns with their truth value and their \<open>str()\<close>, and ISO timestamps.
\<close>

subsection \<open>Characters\<close>

definition chr_code :: "char \<Rightarrow> nat" where
  "chr_code c = of_char c"

text \<open>\<open>str.isspace\<close> on code points below 256.\<close>

definition is_space :: "char \<Rightarrow> bool" where
  "is_space c = (let n = chr_code c in
     (9 \<le> n \<and> n \<le> 13) \<or> (28 \<le> n \<and> n \<le> 32) \<or> n = 133 \<or> n = 160)"

definition is_digit :: "char \<Rightarrow> bool" where
  "is_digit c = (let n = chr_code c in 48 \<le> n \<and> n \<le> 57)"

definition is_upper_ascii :: "char \<Rightarrow> bool" where
  "is_upper_ascii c = (let n = chr_code c in 65 \<le> n \<and> n \<le> 90)"

definition is_lower_ascii :: "char \<Rightarrow> bool" where
  "is_lower_ascii c = (let n = chr_code c in 97 \<le> n \<and> n \<le> 122)"

definition is_alpha_ascii :: "char \<Rightarrow> bool" where
  "is_alpha_ascii c = (is_upper_ascii c \<or> is_lower_ascii c)"

text \<open>\<open>str.lower\<close> on one code point below 256.\<close>

definition lower_char :: "char \<Rightarrow> char" where
  "lower_char c = (let n = chr_code c in
     if (65 \<le> n \<and> n \<le> 90) \<or> (192 \<le> n \<and> n \<le> 214) \<or> (216 \<le> n \<and> n \<le> 222)
     then char_of (n + 32) else c)"

definition newline :: char where
  "newline = char_of (10::nat)"

text \<open>The same on the bits of the code point, for evaluation.\<close>

lemma chr_code_Char:
  "chr_code (Char b0 b1 b2 b3 b4 b5 b6 b7) = of_bool b0 + 2 * of_bool b1 + 4 * of_bool b2 + 8 * of_bool b3
     + 16 * of_bool b4 + 32 * of_bool b5 + 64 * of_bool b6 + 128 * of_bool b7"
  by (simp add: chr_code_def)

lemma lower_char_bits [code]:
  "lower_char (Char b0 b1 b2 b3 b4 b5 b6 b7) =
     (if b6 \<and> \<not> b5 \<and> (if b7 then \<not> (b0 \<and> b1 \<and> b2 \<and> b4) else (b0 \<or> b1 \<or> b2 \<or> b3 \<or> b4) \<and> \<not> (b4 \<and> b3 \<and> (b2 \<or> b1 \<and> b0)))
      then Char b0 b1 b2 b3 b4 True b6 b7 else Char b0 b1 b2 b3 b4 b5 b6 b7)"
  by (cases b0; cases b1; cases b2; cases b3; cases b4; cases b5; cases b6; cases b7)
    (simp_all add: lower_char_def chr_code_Char Let_def char_of_def bit_numeral_rec bit_Suc_0_iff)
lemma is_space_bits [code]:
  "is_space (Char b0 b1 b2 b3 b4 b5 b6 b7) =
     (if b7 then \<not> b6 \<and> (if b5 then \<not> (b0 \<or> b1 \<or> b2 \<or> b3 \<or> b4) else b0 \<and> \<not> b1 \<and> b2 \<and> \<not> b3 \<and> \<not> b4)
      else \<not> b6 \<and> (if b5 then \<not> (b0 \<or> b1 \<or> b2 \<or> b3 \<or> b4)
        else if b4 then b3 \<and> b2 else b3 \<and> (b0 \<or> b1 \<or> b2) \<and> \<not> (b2 \<and> b1)))"
  by (cases b0; cases b1; cases b2; cases b3; cases b4; cases b5; cases b6; cases b7)
    (simp_all add: is_space_def chr_code_Char Let_def)

lemma is_digit_bits [code]:
  "is_digit (Char b0 b1 b2 b3 b4 b5 b6 b7) = (\<not> b7 \<and> \<not> b6 \<and> b5 \<and> b4 \<and> \<not> (b3 \<and> (b2 \<or> b1)))"
  by (cases b0; cases b1; cases b2; cases b3; cases b4; cases b5; cases b6; cases b7)
    (simp_all add: is_digit_def chr_code_Char Let_def)

lemma is_upper_bits [code]:
  "is_upper_ascii (Char b0 b1 b2 b3 b4 b5 b6 b7) = (\<not> b7 \<and> b6 \<and> \<not> b5 \<and>
     (b0 \<or> b1 \<or> b2 \<or> b3 \<or> b4) \<and> \<not> (b4 \<and> b3 \<and> (b2 \<or> b1 \<and> b0)))"
  by (cases b0; cases b1; cases b2; cases b3; cases b4; cases b5; cases b6; cases b7)
    (simp_all add: is_upper_ascii_def chr_code_Char Let_def)

lemma is_lower_bits [code]:
  "is_lower_ascii (Char b0 b1 b2 b3 b4 b5 b6 b7) = (\<not> b7 \<and> b6 \<and> b5 \<and>
     (b0 \<or> b1 \<or> b2 \<or> b3 \<or> b4) \<and> \<not> (b4 \<and> b3 \<and> (b2 \<or> b1 \<and> b0)))"
  by (cases b0; cases b1; cases b2; cases b3; cases b4; cases b5; cases b6; cases b7)
    (simp_all add: is_lower_ascii_def chr_code_Char Let_def)

subsection \<open>Strings\<close>

definition lower :: "string \<Rightarrow> string" where
  "lower s = map lower_char s"

definition lstrip :: "string \<Rightarrow> string" where
  "lstrip s = dropWhile is_space s"

definition strip :: "string \<Rightarrow> string" where
  "strip s = rev (dropWhile is_space (rev (dropWhile is_space s)))"

definition strip_chars :: "string \<Rightarrow> string \<Rightarrow> string" where
  "strip_chars cs s =
     rev (dropWhile (\<lambda>c. c \<in> set cs) (rev (dropWhile (\<lambda>c. c \<in> set cs) s)))"

definition startswith :: "string \<Rightarrow> string \<Rightarrow> bool" where
  "startswith s p = (take (length p) s = p)"

definition endswith :: "string \<Rightarrow> string \<Rightarrow> bool" where
  "endswith s p = startswith (rev s) (rev p)"

fun substr_in :: "string \<Rightarrow> string \<Rightarrow> bool" where
  "substr_in p [] = (p = [])"
| "substr_in p (c # s) = (startswith (c # s) p \<or> substr_in p s)"

fun split_on :: "char \<Rightarrow> string \<Rightarrow> string list" where
  "split_on d [] = [[]]"
| "split_on d (c # s) =
     (if c = d then [] # split_on d s
      else (case split_on d s of w # ws \<Rightarrow> (c # w) # ws | [] \<Rightarrow> [[c]]))"

fun join_with :: "string \<Rightarrow> string list \<Rightarrow> string" where
  "join_with d [] = []"
| "join_with d [w] = w"
| "join_with d (w # v # ws) = w @ d @ join_with d (v # ws)"

definition replace_char :: "char \<Rightarrow> string \<Rightarrow> string \<Rightarrow> string" where
  "replace_char c r s = concat (map (\<lambda>x. if x = c then r else [x]) s)"

lemma startswith_append [simp]: "startswith (p @ s) p"
  by (simp add: startswith_def)

lemma startswith_iff: "startswith s p \<longleftrightarrow> (\<exists>t. s = p @ t)"
  by (metis append_eq_conv_conj startswith_def append_take_drop_id)

lemma endswith_append [simp]: "endswith (s @ p) p"
  by (simp add: endswith_def)

lemma endswith_iff: "endswith s p \<longleftrightarrow> (\<exists>t. s = t @ p)"
proof
  assume "endswith s p"
  then obtain t where "rev s = rev p @ t"
    by (auto simp: endswith_def startswith_iff)
  then have "s = rev t @ p" by (metis rev_append rev_rev_ident)
  then show "\<exists>t. s = t @ p" ..
qed (auto simp: endswith_def)

lemma strip_Nil [simp]: "strip [] = []"
  by (simp add: strip_def)

lemma split_on_nonempty [simp]: "split_on d s \<noteq> []"
  by (induction s) (auto split: list.splits)

lemma split_on_no_sep: "d \<notin> set s \<Longrightarrow> split_on d s = [s]"
  by (induction s) auto

lemma split_on_append_sep: "d \<notin> set w \<Longrightarrow> split_on d (w @ d # s) = w # split_on d s"
  by (induction w) auto

lemma split_on_append: "split_on c (a @ c # b) = split_on c a @ split_on c b"
  by (induction a) (auto split: list.splits)

lemma split_join:
  "ws \<noteq> [] \<Longrightarrow> (\<And>w. w \<in> set ws \<Longrightarrow> d \<notin> set w) \<Longrightarrow> split_on d (join_with [d] ws) = ws"
proof (induction "[d]" ws rule: join_with.induct)
  case (3 w v ws)
  then show ?case by (simp add: split_on_append_sep)
qed (auto simp: split_on_no_sep)

lemma split_on_sep_free: "w \<in> set (split_on d s) \<Longrightarrow> d \<notin> set w"
proof (induction s arbitrary: w)
  case (Cons e s)
  obtain v ws where vs: "split_on d s = v # ws"
    by (cases "split_on d s") auto
  with Cons.IH have "u \<in> set (v # ws) \<Longrightarrow> d \<notin> set u" for u by simp
  with Cons.prems vs show ?case by (auto split: if_splits)
qed simp

subsection \<open>Decimal numbers\<close>

definition digit_char :: "nat \<Rightarrow> char" where
  "digit_char n = char_of (48 + n)"

fun nat_str :: "nat \<Rightarrow> string" where
  "nat_str n = (if n < 10 then [digit_char n] else nat_str (n div 10) @ [digit_char (n mod 10)])"

declare nat_str.simps [simp del]

definition int_str :: "int \<Rightarrow> string" where
  "int_str i = (if i < 0 then ''-'' @ nat_str (nat (- i)) else nat_str (nat i))"

definition digit_val :: "char \<Rightarrow> nat" where
  "digit_val c = chr_code c - 48"

text \<open>
  The digits of \<open>int(s)\<close>: a nonempty run of digits in which single underscores may
  separate digits.
\<close>

fun parse_digits :: "nat \<Rightarrow> string \<Rightarrow> nat option" where
  "parse_digits a [] = Some a"
| "parse_digits a (c # s) =
     (if is_digit c then parse_digits (10 * a + digit_val c) s
      else if c = CHR ''_'' then
        (case s of [] \<Rightarrow> None
         | e # t \<Rightarrow> if is_digit e then parse_digits (10 * a + digit_val e) t else None)
      else None)"

definition parse_nat :: "string \<Rightarrow> nat option" where
  "parse_nat s = (case s of [] \<Rightarrow> None
     | c # t \<Rightarrow> if is_digit c then parse_digits (digit_val c) t else None)"

definition int_of_str :: "string \<Rightarrow> int option" where
  "int_of_str s = (case strip s of
       [] \<Rightarrow> None
     | c # t \<Rightarrow> (if c = CHR ''-'' then map_option (\<lambda>n. - int n) (parse_nat t)
                else if c = CHR ''+'' then map_option int (parse_nat t)
                else map_option int (parse_nat (c # t))))"

lemma chr_code_digit_char: "n < 10 \<Longrightarrow> chr_code (digit_char n) = 48 + n"
  by (simp add: chr_code_def digit_char_def)

lemma is_digit_digit_char: "n < 10 \<Longrightarrow> is_digit (digit_char n)"
  by (simp add: is_digit_def chr_code_digit_char)

lemma digit_val_digit_char: "n < 10 \<Longrightarrow> digit_val (digit_char n) = n"
  by (simp add: digit_val_def chr_code_digit_char)

lemma nat_str_nonempty: "nat_str n \<noteq> []"
  by (subst nat_str.simps) simp

lemma parse_digits_append_digit:
  "parse_digits a s = Some b \<Longrightarrow> is_digit c \<Longrightarrow> parse_digits a (s @ [c]) = Some (10 * b + digit_val c)"
proof (induction a s rule: parse_digits.induct)
  case (2 a c' s)
  then show ?case by (cases s) (auto split: if_splits)
qed simp

lemma parse_nat_append_digit:
  "parse_nat s = Some b \<Longrightarrow> is_digit c \<Longrightarrow> parse_nat (s @ [c]) = Some (10 * b + digit_val c)"
  by (cases s) (auto simp: parse_nat_def parse_digits_append_digit split: if_splits)

lemma parse_nat_str: "parse_nat (nat_str n) = Some n"
proof (induction n rule: nat_str.induct)
  case (1 n)
  show ?case
  proof (cases "n < 10")
    case True
    then show ?thesis
      by (subst nat_str.simps) (simp add: parse_nat_def is_digit_digit_char digit_val_digit_char)
  next
    case False
    with 1 have IH: "parse_nat (nat_str (n div 10)) = Some (n div 10)" by simp
    have "parse_nat (nat_str (n div 10) @ [digit_char (n mod 10)]) = Some n"
      using parse_nat_append_digit [OF IH is_digit_digit_char]
      by (simp add: digit_val_digit_char)
    with False show ?thesis by (subst nat_str.simps) simp
  qed
qed

subsection \<open>JSON values\<close>

text \<open>
  What \<open>json.loads\<close> returns. A float carries its value and the text of its
  \<open>repr\<close> (the shortest decimal that reads back, which the model does not compute).
  An object is an association list in insertion order.
\<close>

datatype json =
    JNull
  | JBool bool
  | JInt int
  | JFloat rat string
  | JStr string
  | JList "json list"
  | JObj "(string \<times> json) list"

text \<open>\<open>bool(v)\<close>.\<close>

fun truthy :: "json \<Rightarrow> bool" where
  "truthy JNull = False"
| "truthy (JBool b) = b"
| "truthy (JInt i) = (i \<noteq> 0)"
| "truthy (JFloat r s) = (r \<noteq> 0)"
| "truthy (JStr s) = (s \<noteq> [])"
| "truthy (JList xs) = (xs \<noteq> [])"
| "truthy (JObj d) = (d \<noteq> [])"

text \<open>\<open>a or b\<close>.\<close>

definition py_or :: "json \<Rightarrow> json \<Rightarrow> json" where
  "py_or a b = (if truthy a then a else b)"

text \<open>\<open>d.get(k)\<close> and \<open>d.get(k, v)\<close> on an object's items.\<close>

type_synonym jobj = "(string, json) dict"

definition jget :: "jobj \<Rightarrow> string \<Rightarrow> json" where
  "jget d k = (case dget d k of None \<Rightarrow> JNull | Some v \<Rightarrow> v)"

definition jget_or :: "jobj \<Rightarrow> string \<Rightarrow> json \<Rightarrow> json" where
  "jget_or d k v = (case dget d k of None \<Rightarrow> v | Some w \<Rightarrow> w)"

lemma jget_Nil [simp]: "jget [] k = JNull"
  by (simp add: jget_def)

lemma jget_Cons [simp]: "jget ((k', v) # d) k = (if k = k' then v else jget d k)"
  by (simp add: jget_def)

lemma jget_dput [simp]: "jget (dput k v d) k' = (if k' = k then v else jget d k')"
  by (simp add: jget_def)

lemma jget_or_Nil [simp]: "jget_or [] k v = v"
  by (simp add: jget_or_def)

lemma jget_or_Cons [simp]: "jget_or ((k', w) # d) k v = (if k = k' then w else jget_or d k v)"
  by (simp add: jget_or_def)

lemma jget_or_dput [simp]: "jget_or (dput k w d) k' v = (if k' = k then w else jget_or d k' v)"
  by (simp add: jget_or_def)

lemma jget_ddel [simp]: "jget (ddel k d) k' = (if k' = k then JNull else jget d k')"
  by (simp add: jget_def)

lemma jget_or_ddel [simp]: "jget_or (ddel k d) k' v = (if k' = k then v else jget_or d k' v)"
  by (simp add: jget_or_def)

lemma jget_dsetdefault [simp]:
  "jget (dsetdefault k v d) k' = (if k' = k \<and> \<not> dhas d k then v else jget d k')"
  by (auto simp: jget_def dget_dsetdefault dhas_def)

lemma jget_or_dsetdefault [simp]:
  "jget_or (dsetdefault k v d) k' u = (if k' = k \<and> \<not> dhas d k then v else jget_or d k' u)"
  by (auto simp: jget_or_def dget_dsetdefault dhas_def)

text \<open>\<open>repr\<close> of a string: the quotes it chooses and the characters it escapes.\<close>

definition hex_digit :: "nat \<Rightarrow> char" where
  "hex_digit n = (if n < 10 then digit_char n else char_of (87 + n))"

definition repr_char :: "char \<Rightarrow> char \<Rightarrow> string" where
  "repr_char q c = (let n = chr_code c in
     if c = q \<or> n = 92 then [CHR 0x5C, c]
     else if n = 10 then [CHR 0x5C, CHR ''n'']
     else if n = 13 then [CHR 0x5C, CHR ''r'']
     else if n = 9 then [CHR 0x5C, CHR ''t'']
     else if n < 32 \<or> (127 \<le> n \<and> n \<le> 160) \<or> n = 173
       then [CHR 0x5C, CHR ''x'', hex_digit (n div 16), hex_digit (n mod 16)]
     else [c])"

definition repr_str :: "string \<Rightarrow> string" where
  "repr_str s = (let q = (if CHR 0x27 \<in> set s \<and> CHR 0x22 \<notin> set s then CHR 0x22 else CHR 0x27)
     in [q] @ concat (map (repr_char q) s) @ [q])"

fun py_repr :: "json \<Rightarrow> string"
and repr_items :: "json list \<Rightarrow> string"
and repr_pairs :: "(string \<times> json) list \<Rightarrow> string" where
  "py_repr JNull = ''None''"
| "py_repr (JBool b) = (if b then ''True'' else ''False'')"
| "py_repr (JInt i) = int_str i"
| "py_repr (JFloat r s) = s"
| "py_repr (JStr s) = repr_str s"
| "py_repr (JList xs) = ''['' @ repr_items xs @ '']''"
| "py_repr (JObj d) = ''{'' @ repr_pairs d @ ''}''"
| "repr_items [] = []"
| "repr_items [x] = py_repr x"
| "repr_items (x # y # xs) = py_repr x @ '', '' @ repr_items (y # xs)"
| "repr_pairs [] = []"
| "repr_pairs [(k, v)] = repr_str k @ '': '' @ py_repr v"
| "repr_pairs ((k, v) # kv # d) = repr_str k @ '': '' @ py_repr v @ '', '' @ repr_pairs (kv # d)"

text \<open>\<open>str(v)\<close>.\<close>

definition py_str :: "json \<Rightarrow> string" where
  "py_str v = (case v of JStr s \<Rightarrow> s | _ \<Rightarrow> py_repr v)"

lemma py_str_JStr [simp]: "py_str (JStr s) = s"
  by (simp add: py_str_def)

text \<open>\<open>json.dumps(v)\<close>: ASCII output, the default separators.\<close>

definition json_char :: "char \<Rightarrow> string" where
  "json_char c = (let n = chr_code c in
     if n = 34 \<or> n = 92 then [CHR 0x5C, c]
     else if n = 10 then [CHR 0x5C, CHR ''n'']
     else if n = 13 then [CHR 0x5C, CHR ''r'']
     else if n = 9 then [CHR 0x5C, CHR ''t'']
     else if n = 8 then [CHR 0x5C, CHR ''b'']
     else if n = 12 then [CHR 0x5C, CHR ''f'']
     else if n < 32 \<or> 127 \<le> n
       then [CHR 0x5C, CHR ''u'', CHR ''0'', CHR ''0'', hex_digit (n div 16), hex_digit (n mod 16)]
     else [c])"

definition json_str :: "string \<Rightarrow> string" where
  "json_str s = [CHR 0x22] @ concat (map json_char s) @ [CHR 0x22]"

fun json_dumps :: "json \<Rightarrow> string"
and dumps_items :: "json list \<Rightarrow> string"
and dumps_pairs :: "(string \<times> json) list \<Rightarrow> string" where
  "json_dumps JNull = ''null''"
| "json_dumps (JBool b) = (if b then ''true'' else ''false'')"
| "json_dumps (JInt i) = int_str i"
| "json_dumps (JFloat r s) = s"
| "json_dumps (JStr s) = json_str s"
| "json_dumps (JList xs) = ''['' @ dumps_items xs @ '']''"
| "json_dumps (JObj d) = ''{'' @ dumps_pairs d @ ''}''"
| "dumps_items [] = []"
| "dumps_items [x] = json_dumps x"
| "dumps_items (x # y # xs) = json_dumps x @ '', '' @ dumps_items (y # xs)"
| "dumps_pairs [] = []"
| "dumps_pairs [(k, v)] = json_str k @ '': '' @ json_dumps v"
| "dumps_pairs ((k, v) # kv # d) = json_str k @ '': '' @ json_dumps v @ '', '' @ dumps_pairs (kv # d)"

text \<open>\<open>json.dump(..., sort_keys=True)\<close> writes every object with its keys in order.\<close>

fun json_sort :: "json \<Rightarrow> json" where
  "json_sort (JList xs) = JList (map json_sort xs)"
| "json_sort (JObj d) = JObj (sort_key fst (map (\<lambda>kv. (fst kv, json_sort (snd kv))) d))"
| "json_sort v = v"

text \<open>Sorting by the key is stable, so a look-up finds what it found before.\<close>

lemma dget_sort_key [simp]: "dget (sort_key fst d) k = dget d k" for d :: "('k :: linorder, 'v) dict"
proof -
  have "map_of xs k = map_of (filter (\<lambda>p. fst p = k) xs) k" for xs :: "('k, 'v) dict"
    by (induction xs) auto
  then show ?thesis unfolding dget_def by (metis sort_key_stable)
qed

lemma dhas_sort_key [simp]: "dhas (sort_key fst d) k = dhas d k" for d :: "('k :: linorder, 'v) dict"
  by (simp add: dhas_def)

text \<open>\<open>int(v)\<close>: \<open>None\<close> is the TypeError or ValueError.\<close>

definition trunc_rat :: "rat \<Rightarrow> int" where
  "trunc_rat r = (if r < 0 then - \<lfloor>- r\<rfloor> else \<lfloor>r\<rfloor>)"

fun py_int :: "json \<Rightarrow> int option" where
  "py_int (JBool b) = Some (if b then 1 else 0)"
| "py_int (JInt i) = Some i"
| "py_int (JFloat r s) = Some (trunc_rat r)"
| "py_int (JStr s) = int_of_str s"
| "py_int _ = None"

text \<open>\<open>isinstance(v, str)\<close> and the string, when it is one.\<close>

fun as_str :: "json \<Rightarrow> string option" where
  "as_str (JStr s) = Some s"
| "as_str _ = None"

subsection \<open>ISO timestamps\<close>

text \<open>
  A timestamp text: one that \<open>datetime.fromisoformat\<close> reads as the instant \<open>t\<close>
  (microseconds since the epoch; \<open>datetime.now(timezone.utc).isoformat()\<close> writes one),
  or a text it rejects. The empty text is \<open>NoIso ''''\<close>.
\<close>

datatype isotime = Iso int | NoIso string

fun iso_instant :: "isotime \<Rightarrow> int option" where
  "iso_instant (Iso t) = Some t"
| "iso_instant (NoIso s) = None"

subsection \<open>The environment\<close>

type_synonym environ = "string \<Rightarrow> string option"

end
