(* ===== verification/PyRegex.thy ===== *)
theory PyRegex
  imports PyBase
begin

text \<open>
  An executable model of the part of Python's \<open>re\<close> that the code uses: backtracking
  matching with the priorities of a Perl-style engine, captured groups, \<open>search\<close>,
  \<open>finditer\<close> and \<open>sub\<close> of a run of characters. A pattern of the source is
  transcribed symbol by symbol into the datatype (\<open>RLine\<close> and \<open>RLineEnd\<close> are \<open>^\<close> and \<open>$\<close> under \<open>re.M\<close>, \<open>RBound\<close> is \<open>\\b\<close>), and all its ways to match are listed in
  the order the engine tries them; the engine's answer is the first.
\<close>

subsection \<open>Patterns\<close>

datatype re =
    REps
  | RChr "char \<Rightarrow> bool"
  | RSeq re re
  | RAlt re re
  | RStar re
  | RLazyStar re
  | RGroup nat re
  | RBegin
  | RLine
  | RLineEnd
  | RBound
  | REnd

text \<open>\<open>\\w\<close> on code points below 256.\<close>

definition word_char :: "char \<Rightarrow> bool" where
  "word_char c = (let n = chr_code c in
     is_alpha_ascii c \<or> is_digit c \<or> c = CHR ''_''
     \<or> n \<in> {170, 178, 179, 181, 185, 186, 188, 189, 190} \<or> (192 \<le> n \<and> n \<noteq> 215 \<and> n \<noteq> 247))"

fun word_start :: "string \<Rightarrow> bool" where
  "word_start [] = False"
| "word_start (c # s) = word_char c"

definition rlit :: "string \<Rightarrow> re" where
  "rlit s = foldr (\<lambda>c r. RSeq (RChr (\<lambda>x. x = c)) r) s REps"

text \<open>A literal under \<open>re.IGNORECASE\<close>.\<close>

definition rilit :: "string \<Rightarrow> re" where
  "rilit s = foldr (\<lambda>c r. RSeq (RChr (\<lambda>x. lower_char x = lower_char c)) r) s REps"

definition rplus :: "re \<Rightarrow> re" where
  "rplus r = RSeq r (RStar r)"

definition rlazyplus :: "re \<Rightarrow> re" where
  "rlazyplus r = RSeq r (RLazyStar r)"

definition ropt :: "re \<Rightarrow> re" where
  "ropt r = RAlt r REps"

fun rseqs :: "re list \<Rightarrow> re" where
  "rseqs [] = REps"
| "rseqs [r] = r"
| "rseqs (r # q # rs) = RSeq r (rseqs (q # rs))"

fun ralts :: "re list \<Rightarrow> re" where
  "ralts [] = RChr (\<lambda>_. False)"
| "ralts [r] = r"
| "ralts (r # q # rs) = RAlt r (ralts (q # rs))"

subsection \<open>Matching\<close>

text \<open>
  A state of the matcher: the groups captured so far (latest first), the text before the
  position (reversed) and the text after it.
\<close>

type_synonym mstate = "(nat \<times> string) list \<times> string \<times> string"

definition m_caps :: "mstate \<Rightarrow> (nat \<times> string) list" where
  "m_caps st = fst st"

definition m_before :: "mstate \<Rightarrow> string" where
  "m_before st = fst (snd st)"

definition m_rest :: "mstate \<Rightarrow> string" where
  "m_rest st = snd (snd st)"

text \<open>
  Greedy and lazy repetition of a step. The number bounds the iterations; an iteration
  that consumes nothing ends the repetition, so the length of the rest is always enough.
\<close>

fun star_run :: "(mstate \<Rightarrow> mstate list) \<Rightarrow> nat \<Rightarrow> mstate \<Rightarrow> mstate list" where
  "star_run f 0 st = [st]"
| "star_run f (Suc n) st =
     concat (map (\<lambda>t. if length (m_rest t) < length (m_rest st) then star_run f n t else [])
       (f st)) @ [st]"

fun lazy_run :: "(mstate \<Rightarrow> mstate list) \<Rightarrow> nat \<Rightarrow> mstate \<Rightarrow> mstate list" where
  "lazy_run f 0 st = [st]"
| "lazy_run f (Suc n) st =
     st # concat (map (\<lambda>t. if length (m_rest t) < length (m_rest st) then lazy_run f n t else [])
       (f st))"

primrec rmatch :: "re \<Rightarrow> mstate \<Rightarrow> mstate list" where
  "rmatch REps st = [st]"
| "rmatch (RChr p) st =
     (case m_rest st of [] \<Rightarrow> []
      | c # s \<Rightarrow> if p c then [(m_caps st, c # m_before st, s)] else [])"
| "rmatch (RSeq r q) st = concat (map (rmatch q) (rmatch r st))"
| "rmatch (RAlt r q) st = rmatch r st @ rmatch q st"
| "rmatch (RStar r) st = star_run (rmatch r) (length (m_rest st)) st"
| "rmatch (RLazyStar r) st = lazy_run (rmatch r) (length (m_rest st)) st"
| "rmatch (RGroup n r) st =
     map (\<lambda>t. ((n, rev (take (length (m_before t) - length (m_before st)) (m_before t))) # m_caps t,
                m_before t, m_rest t))
       (rmatch r st)"
| "rmatch RBegin st = (if m_before st = [] then [st] else [])"
| "rmatch RLine st = (if m_before st = [] \<or> hd (m_before st) = newline then [st] else [])"
| "rmatch RLineEnd st = (if m_rest st = [] \<or> hd (m_rest st) = newline then [st] else [])"
| "rmatch RBound st = (if word_start (m_before st) \<noteq> word_start (m_rest st) then [st] else [])"
| "rmatch REnd st = (if m_rest st = [] \<or> m_rest st = [newline] then [st] else [])"

text \<open>A match object: the text before it, its text (group 0), its groups, the text after it.\<close>

record rmatch_obj =
  mo_before :: string
  mo_text :: string
  mo_groups :: "(nat \<times> string) list"
  mo_after :: string

definition mk_match :: "string \<Rightarrow> mstate \<Rightarrow> rmatch_obj" where
  "mk_match bef t =
     \<lparr>mo_before = rev bef,
      mo_text = rev (take (length (m_before t) - length bef) (m_before t)),
      mo_groups = m_caps t,
      mo_after = m_rest t\<rparr>"

text \<open>\<open>m.group(n)\<close>; \<open>None\<close> for a group that did not take part.\<close>

definition mgroup :: "rmatch_obj \<Rightarrow> nat \<Rightarrow> string option" where
  "mgroup m n = map_of (mo_groups m) n"

definition match_at :: "re \<Rightarrow> string \<Rightarrow> string \<Rightarrow> rmatch_obj option" where
  "match_at r bef s = (case rmatch r ([], bef, s) of [] \<Rightarrow> None | t # _ \<Rightarrow> Some (mk_match bef t))"

definition re_match :: "re \<Rightarrow> string \<Rightarrow> rmatch_obj option" where
  "re_match r s = match_at r [] s"

fun search_from :: "re \<Rightarrow> string \<Rightarrow> string \<Rightarrow> rmatch_obj option" where
  "search_from r bef [] = match_at r bef []"
| "search_from r bef (c # s) =
     (case match_at r bef (c # s) of Some m \<Rightarrow> Some m | None \<Rightarrow> search_from r (c # bef) s)"

definition re_search :: "re \<Rightarrow> string \<Rightarrow> rmatch_obj option" where
  "re_search r s = search_from r [] s"

definition re_found :: "re \<Rightarrow> string \<Rightarrow> bool" where
  "re_found r s = (re_search r s \<noteq> None)"

text \<open>
  \<open>finditer\<close>: the next search starts where the match ended, one character later
  after an empty match. The number bounds the matches; the length plus one is enough.
\<close>

fun finditer_from :: "nat \<Rightarrow> re \<Rightarrow> string \<Rightarrow> string \<Rightarrow> rmatch_obj list" where
  "finditer_from 0 r bef s = []"
| "finditer_from (Suc n) r bef s =
     (case search_from r bef s of None \<Rightarrow> []
      | Some m \<Rightarrow> m #
          (if mo_text m \<noteq> [] then
             finditer_from n r (rev (mo_text m) @ rev (mo_before m)) (mo_after m)
           else (case mo_after m of [] \<Rightarrow> []
                 | c # t \<Rightarrow> finditer_from n r (c # rev (mo_before m)) t)))"

definition re_finditer :: "re \<Rightarrow> string \<Rightarrow> rmatch_obj list" where
  "re_finditer r s = finditer_from (Suc (length s)) r [] s"

text \<open>\<open>re.sub(r"[class]+", w, s)\<close>: every maximal run of the class becomes \<open>w\<close>.\<close>

fun sub_runs :: "(char \<Rightarrow> bool) \<Rightarrow> string \<Rightarrow> bool \<Rightarrow> string \<Rightarrow> string" where
  "sub_runs p w inrun [] = []"
| "sub_runs p w inrun (c # s) =
     (if p c then (if inrun then [] else w) @ sub_runs p w True s
      else c # sub_runs p w False s)"

definition re_sub_runs :: "(char \<Rightarrow> bool) \<Rightarrow> string \<Rightarrow> string \<Rightarrow> string" where
  "re_sub_runs p w s = sub_runs p w False s"

text \<open>\<open>re.sub(pattern, "", s)\<close>.\<close>

fun cut_matches :: "nat \<Rightarrow> rmatch_obj list \<Rightarrow> string \<Rightarrow> string" where
  "cut_matches k [] s = drop k s"
| "cut_matches k (m # ms) s = take (length (mo_before m) - k) (drop k s)
     @ cut_matches (length (mo_before m) + length (mo_text m)) ms s"

definition re_delete :: "re \<Rightarrow> string \<Rightarrow> string" where
  "re_delete r s = cut_matches 0 (re_finditer r s) s"

subsection \<open>What a match is\<close>

text \<open>Matching only moves the position forward over the text.\<close>

definition advances :: "mstate \<Rightarrow> mstate \<Rightarrow> bool" where
  "advances st t \<longleftrightarrow> (\<exists>w. m_rest st = w @ m_rest t \<and> m_before t = rev w @ m_before st)"

lemma advances_refl: "advances st st"
  by (simp add: advances_def)

lemma advances_trans: "advances st t \<Longrightarrow> advances t u \<Longrightarrow> advances st u"
  unfolding advances_def by (metis append_assoc rev_append)

lemma star_run_advances:
  assumes f: "\<And>st t. t \<in> set (f st) \<Longrightarrow> advances st t"
  shows "t \<in> set (star_run f n st) \<Longrightarrow> advances st t"
proof (induction n arbitrary: st)
  case 0
  then show ?case by (simp add: advances_refl)
next
  case (Suc n)
  then show ?case
    by (auto simp: advances_refl split: if_splits intro: advances_trans f)
qed

lemma lazy_run_advances:
  assumes f: "\<And>st t. t \<in> set (f st) \<Longrightarrow> advances st t"
  shows "t \<in> set (lazy_run f n st) \<Longrightarrow> advances st t"
proof (induction n arbitrary: st)
  case 0
  then show ?case by (simp add: advances_refl)
next
  case (Suc n)
  then show ?case
    by (auto simp: advances_refl split: if_splits intro: advances_trans f)
qed

lemma rmatch_advances: "t \<in> set (rmatch r st) \<Longrightarrow> advances st t"
proof (induction r arbitrary: st t)
  case (RChr p)
  then show ?case
    by (auto simp: advances_def m_rest_def m_before_def split: list.splits if_splits)
next
  case (RSeq r q)
  then obtain u where "u \<in> set (rmatch r st)" and "t \<in> set (rmatch q u)"
    by auto
  then show ?case using RSeq.IH advances_trans by blast
next
  case (RStar r)
  have "t \<in> set (star_run (rmatch r) (length (m_rest st)) st)"
    using RStar.prems by simp
  with RStar.IH show ?case by (rule star_run_advances)
next
  case (RLazyStar r)
  have "t \<in> set (lazy_run (rmatch r) (length (m_rest st)) st)"
    using RLazyStar.prems by simp
  with RLazyStar.IH show ?case by (rule lazy_run_advances)
next
  case (RGroup n r)
  then obtain u where u: "u \<in> set (rmatch r st)"
      "m_rest t = m_rest u" "m_before t = m_before u"
    by (auto simp: m_rest_def m_before_def)
  from RGroup.IH [OF u(1)] show ?case by (simp add: advances_def u)
qed (auto simp: advances_refl split: if_splits)

lemma match_at_text:
  assumes "match_at r bef s = Some m"
  shows "mo_before m = rev bef \<and> s = mo_text m @ mo_after m"
proof -
  from assms obtain t ts where t: "rmatch r ([], bef, s) = t # ts" "m = mk_match bef t"
    by (auto simp: match_at_def split: list.splits)
  then have "advances ([], bef, s) t" using rmatch_advances [of t r "([], bef, s)"] by simp
  then show ?thesis
    by (auto simp: advances_def t mk_match_def m_rest_def m_before_def)
qed

lemma search_from_text:
  "search_from r bef s = Some m \<Longrightarrow> rev bef @ s = mo_before m @ mo_text m @ mo_after m"
proof (induction r bef s rule: search_from.induct)
  case (1 r bef)
  then show ?case using match_at_text [of r bef "[]" m] by auto
next
  case (2 r bef c s)
  show ?case
  proof (cases "match_at r bef (c # s)")
    case None
    with 2 show ?thesis by simp
  next
    case (Some m')
    with 2 have "match_at r bef (c # s) = Some m" by simp
    from match_at_text [OF this] show ?thesis by simp
  qed
qed

lemma re_search_text: "re_search r s = Some m \<Longrightarrow> s = mo_before m @ mo_text m @ mo_after m"
  using search_from_text [of r "[]" s m] by (simp add: re_search_def)

text \<open>A pattern found nowhere matches at no position; a match at a position is found.\<close>

lemma search_from_none:
  "search_from r bef (p @ s) = None \<Longrightarrow> match_at r (rev p @ bef) s = None"
proof (induction p arbitrary: bef)
  case Nil
  then show ?case by (cases s) (auto split: option.splits)
next
  case (Cons c p)
  then have "search_from r (c # bef) (p @ s) = None" by (auto split: option.splits)
  from Cons.IH [OF this] show ?case by simp
qed

lemma re_found_at:
  assumes "match_at r (rev p) s \<noteq> None"
  shows "re_found r (p @ s)"
proof (rule ccontr)
  assume "\<not> re_found r (p @ s)"
  then have "search_from r [] (p @ s) = None" by (simp add: re_found_def re_search_def)
  from search_from_none [OF this] assms show False by simp
qed

lemma rmatch_rlit: "rmatch (rlit w) (caps, bef, w @ s) = [(caps, rev w @ bef, s)]"
  by (induction w arbitrary: bef)
    (simp_all add: rlit_def m_rest_def m_before_def m_caps_def)

lemma rmatch_rilit:
  "map lower_char v = map lower_char w \<Longrightarrow> rmatch (rilit w) (caps, bef, v @ s) = [(caps, rev v @ bef, s)]"
proof (induction w arbitrary: bef v)
  case Nil
  then show ?case by (simp add: rilit_def)
next
  case (Cons c w)
  then obtain d v' where v: "v = d # v'" "lower_char d = lower_char c"
      "map lower_char v' = map lower_char w"
    by (cases v) auto
  with Cons.IH [OF v(3), of "d # bef"] show ?case
    by (simp add: rilit_def m_rest_def m_before_def m_caps_def)
qed

lemma sub_runs_clean:
  assumes "list_all (\<lambda>c. \<not> p c) w"
  shows "list_all (\<lambda>c. \<not> p c) (sub_runs p w b s)"
  using assms by (induction p w b s rule: sub_runs.induct) auto

lemma sub_runs_id: "list_all (\<lambda>c. \<not> p c) s \<Longrightarrow> sub_runs p w b s = s"
  by (induction s arbitrary: b) auto

subsection \<open>Runs of a class in a pattern\<close>

lemma rlit_match:
  "rmatch (rlit s) (caps, bef, u) = (if startswith u s then [(caps, rev s @ bef, drop (length s) u)] else [])"
proof (induction s arbitrary: bef u)
  case Nil
  then show ?case by (simp add: rlit_def startswith_def)
next
  case (Cons c s)
  then show ?case
    by (cases u) (auto simp: rlit_def startswith_def m_caps_def m_before_def m_rest_def)
qed

text \<open>A run of characters of a class that the rest does not continue: the longest way comes first.\<close>

lemma star_chr_run:
  assumes "list_all p w" and "s = [] \<or> \<not> p (hd s)" and "length w \<le> n"
  shows "star_run (rmatch (RChr p)) n (caps, bef, w @ s)
    = map (\<lambda>i. (caps, rev (take i w) @ bef, drop i w @ s)) (rev [0..<Suc (length w)])"
  using assms
proof (induction w arbitrary: bef n)
  case Nil
  then have "rmatch (RChr p) (caps, bef, s) = []" by (cases s) (auto simp: m_rest_def)
  then show ?case by (cases n) simp_all
next
  case (Cons x w)
  then obtain k where n: "n = Suc k" "length w \<le> k" by (cases n) auto
  have "star_run (rmatch (RChr p)) n (caps, bef, (x # w) @ s)
    = star_run (rmatch (RChr p)) k (caps, x # bef, w @ s) @ [(caps, bef, (x # w) @ s)]"
    using Cons.prems(1) by (simp add: n m_rest_def m_caps_def m_before_def)
  also have "\<dots> = map (\<lambda>i. (caps, rev (take i w) @ x # bef, drop i w @ s)) (rev [0..<Suc (length w)]) @ [(caps, bef, (x # w) @ s)]"
    using Cons.IH [OF _ Cons.prems(2) n(2), of "x # bef"] Cons.prems(1) by (simp del: rmatch.simps upt_Suc)
  also have "\<dots> = map (\<lambda>i. (caps, rev (take i (x # w)) @ bef, drop i (x # w) @ s)) (map Suc (rev [0..<Suc (length w)]) @ [0])"
    by simp
  also have "map Suc (rev [0..<Suc (length w)]) @ [0] = rev [0..<Suc (length (x # w))]"
  proof -
    have "[0..<Suc (length (x # w))] = 0 # map Suc [0..<Suc (length w)]"
      unfolding map_Suc_upt length_Cons by (rule upt_conv_Cons) simp
    then show ?thesis by (simp only: rev.simps rev_map)
  qed
  finally show ?case .
qed

text \<open>When only the longest way lets the rest match.\<close>

lemma star_then:
  assumes "list_all p w" and "\<not> p c" and "\<And>caps bef x u. p x \<Longrightarrow> rmatch q (caps, bef, x # u) = []"
  shows "concat (map (rmatch q) (rmatch (RStar (RChr p)) (caps, bef, w @ c # s))) = rmatch q (caps, rev w @ bef, c # s)"
proof -
  let ?h = "\<lambda>i. (caps, rev (take i w) @ bef, drop i w @ c # s)"
  have "rmatch q (?h i) = []" if "i < length w" for i
  proof -
    from that have "drop i w = (w ! i) # drop (Suc i) w" by (simp add: Cons_nth_drop_Suc)
    moreover have "p (w ! i)" using assms(1) that by (simp add: list_all_length)
    ultimately show ?thesis using assms(3) by simp
  qed
  then have "concat (map (rmatch q) (map ?h (rev [0..<length w]))) = []" by simp
  moreover have "rmatch (RStar (RChr p)) (caps, bef, w @ c # s) = map ?h (rev [0..<Suc (length w)])"
    using star_chr_run [OF assms(1), of "c # s" "length w + length s + 1" caps bef] assms(2)
    by (simp add: m_rest_def del: upt_Suc)
  ultimately show ?thesis by simp
qed

lemma plus_then:
  assumes "list_all p w" and "w \<noteq> []" and "\<not> p c" and "\<And>caps bef x u. p x \<Longrightarrow> rmatch q (caps, bef, x # u) = []"
  shows "rmatch (RSeq (rplus (RChr p)) q) (caps, bef, w @ c # s) = rmatch q (caps, rev w @ bef, c # s)"
proof -
  obtain x v where w: "w = x # v" using assms(2) by (cases w) auto
  have "rmatch (RSeq (rplus (RChr p)) q) (caps, bef, w @ c # s)
    = concat (map (rmatch q) (rmatch (RStar (RChr p)) (caps, x # bef, v @ c # s)))"
    using assms(1) by (simp add: w rplus_def m_rest_def m_caps_def m_before_def)
  also have "\<dots> = rmatch q (caps, rev v @ x # bef, c # s)"
  proof (rule star_then)
    show "list_all p v" using assms(1) by (simp add: w)
  qed (fact assms(3), rule assms(4))
  finally show ?thesis by (simp add: w)
qed

end
