(* ===== verification/BreakerState.thy ===== *)
theory BreakerState
  imports PyBase
begin

text \<open>
  The Gate 8 circuit breaker, \<open>gate_quality_state.py\<close>: the document kept in
  \<open>gate_quality_state.json\<close>, every operation on it, and the locked read-modify-write
  of the file. A formatted reason is kept as the values it is built from. A fail rate is
  the exact rational; the module's two readings of the clock are two arguments.
\<close>

subsection \<open>Tunables\<close>

definition BREAKER_FAIL_THRESHOLD_SINGLE :: rat where
  "BREAKER_FAIL_THRESHOLD_SINGLE = 40 / 100"

definition BREAKER_FAIL_THRESHOLD_RUNNING :: rat where
  "BREAKER_FAIL_THRESHOLD_RUNNING = 30 / 100"

definition BREAKER_RUNNING_WINDOW :: nat where
  "BREAKER_RUNNING_WINDOW = 3"

definition MIN_COHORT_SIZE :: int where
  "MIN_COHORT_SIZE = 4"

definition MAX_REBUILDS :: int where
  "MAX_REBUILDS = 3"

lemmas tunables = BREAKER_FAIL_THRESHOLD_SINGLE_def BREAKER_FAIL_THRESHOLD_RUNNING_def
  BREAKER_RUNNING_WINDOW_def MIN_COHORT_SIZE_def MAX_REBUILDS_def

text \<open>\<open>round(x, 3)\<close>: to the nearest thousandth, ties to even.\<close>

definition round_half_even :: "rat \<Rightarrow> int" where
  "round_half_even r = (let f = \<lfloor>r\<rfloor>; d = r - of_int f in
     if d < 1 / 2 then f else if d > 1 / 2 then f + 1 else if even f then f else f + 1)"

definition round3 :: "rat \<Rightarrow> rat" where
  "round3 r = of_int (round_half_even (r * 1000)) / 1000"

subsection \<open>The document\<close>

record cohort =
  coh_id :: string
  coh_size :: int
  coh_rate :: rat
  coh_at :: isotime

datatype change_reason =
    SingleTrip string int rat
  | WindowTrip
  | CleanClose string int
  | ReTrip string int rat
  | ManualSet string string string
  | AutoRecovered int

record retry =
  attempts :: int
  last_failed_at :: "isotime option"
  last_error :: "string option"
  in_cohorts :: "string list"

record quarantine =
  quarantined_at :: isotime
  q_reason :: string
  attempts_when :: int

record retirement =
  retired_at :: isotime
  r_reason :: string

datatype brk_note =
    NRelease isotime string string
  | NRetire isotime string string
  | NUnretire isotime string string
  | NSetState isotime string string string
  | NAutoRecover isotime change_reason
  | NDropped isotime "string list"

record brk =
  state :: string
  state_changed_at :: "isotime option"
  state_reason :: "change_reason option"
  recent_cohorts :: "cohort list"
  file_retries :: "(string, retry) dict"
  quarantined :: "(string, quarantine) dict"
  retired :: "(string, retirement) dict"
  op_notes :: "brk_note list"

definition default_state :: brk where
  "default_state = \<lparr>state = ''closed'', state_changed_at = None, state_reason = None,
     recent_cohorts = [], file_retries = [], quarantined = [], retired = [], op_notes = []\<rparr>"

definition add_note :: "brk_note \<Rightarrow> brk \<Rightarrow> brk" where
  "add_note n d = d\<lparr>op_notes := log_append 50 n (op_notes d)\<rparr>"

definition move_to :: "string \<Rightarrow> isotime \<Rightarrow> change_reason \<Rightarrow> brk \<Rightarrow> brk" where
  "move_to s t r d = d\<lparr>state := s, state_changed_at := Some t, state_reason := Some r\<rparr>"

subsection \<open>Cohorts and the breaker's state\<close>

definition record_cohort :: "isotime \<Rightarrow> isotime \<Rightarrow> string \<Rightarrow> int \<Rightarrow> rat \<Rightarrow> brk \<Rightarrow> brk" where
  "record_cohort t_obs t_chg cid sz rate d0 =
     (let c = \<lparr>coh_id = cid, coh_size = sz, coh_rate = round3 rate, coh_at = t_obs\<rparr>;
          d = d0\<lparr>recent_cohorts := last_n 20 (recent_cohorts d0 @ [c])\<rparr>
      in
      if state d = ''closed'' then
        (if sz \<ge> MIN_COHORT_SIZE \<and> rate \<ge> BREAKER_FAIL_THRESHOLD_SINGLE
         then move_to ''tripped'' t_chg (SingleTrip cid sz rate) d
         else
           (let recent = filter (\<lambda>c. coh_size c \<ge> MIN_COHORT_SIZE)
                           (last_n BREAKER_RUNNING_WINDOW (recent_cohorts d))
            in if length recent \<ge> BREAKER_RUNNING_WINDOW
                  \<and> list_all (\<lambda>c. coh_rate c \<ge> BREAKER_FAIL_THRESHOLD_RUNNING) recent
               then move_to ''tripped'' t_chg WindowTrip d
               else d))
      else if state d = ''half-open'' then
        (if sz \<ge> MIN_COHORT_SIZE \<and> rate = 0
         then move_to ''closed'' t_chg (CleanClose cid sz) d
         else if sz \<ge> MIN_COHORT_SIZE \<and> rate \<ge> BREAKER_FAIL_THRESHOLD_SINGLE
         then move_to ''tripped'' t_chg (ReTrip cid sz rate) d
         else d)
      else d)"

text \<open>\<open>set_breaker_state\<close>: a state other than closed or half-open is refused (ValueError).\<close>

definition set_breaker_state :: "isotime \<Rightarrow> isotime \<Rightarrow> string \<Rightarrow> string \<Rightarrow> brk \<Rightarrow> brk option" where
  "set_breaker_state t_chg t_note new reason d =
     (if new \<noteq> ''closed'' \<and> new \<noteq> ''half-open'' then None
      else Some (add_note (NSetState t_note (state d) new reason)
             (move_to new t_chg (ManualSet (state d) new reason) d)))"

text \<open>
  Whether \<open>maybe_auto_recover\<close> steps a stale trip, from the snapshot alone: \<open>now\<close>
  in microseconds, \<open>secs\<close> the configured age. No failing cohort may have been observed
  at or after the trip.
\<close>

definition failing_since :: "int \<Rightarrow> brk \<Rightarrow> bool" where
  "failing_since t d = list_ex
     (\<lambda>c. (case iso_instant (coh_at c) of None \<Rightarrow> False | Some obs \<Rightarrow> obs \<ge> t)
          \<and> coh_rate c \<ge> BREAKER_FAIL_THRESHOLD_RUNNING)
     (recent_cohorts d)"

definition recover_due :: "int \<Rightarrow> int \<Rightarrow> brk \<Rightarrow> int option" where
  "recover_due secs now d =
     (if secs \<le> 0 then None
      else if state d \<noteq> ''tripped'' then None
      else (case Option.bind (state_changed_at d) iso_instant of
              None \<Rightarrow> None
            | Some t \<Rightarrow> if now - t < secs * 1000000 then None
                        else if failing_since t d then None else Some t))"

definition maybe_auto_recover :: "int \<Rightarrow> int \<Rightarrow> isotime \<Rightarrow> isotime \<Rightarrow> brk \<Rightarrow> string option \<times> brk" where
  "maybe_auto_recover secs now t_chg t_note d =
     (case recover_due secs now d of None \<Rightarrow> (None, d)
      | Some t \<Rightarrow> (Some ''half-open'',
          add_note (NAutoRecover t_note (AutoRecovered (now - t)))
            (move_to ''half-open'' t_chg (AutoRecovered (now - t)) d)))"

subsection \<open>Per-file accounting\<close>

definition record_failure :: "isotime \<Rightarrow> string \<Rightarrow> string \<Rightarrow> string \<Rightarrow> brk \<Rightarrow> brk" where
  "record_failure t file err cid d =
     (let e = (case dget (file_retries d) file of
                 None \<Rightarrow> \<lparr>attempts = 0, last_failed_at = None, last_error = None, in_cohorts = []\<rparr>
               | Some e \<Rightarrow> e);
          cs = (if cid \<in> set (in_cohorts e) then in_cohorts e else log_append 10 cid (in_cohorts e))
      in d\<lparr>file_retries := dput file
             \<lparr>attempts = attempts e + 1, last_failed_at = Some t,
              last_error = Some (take 200 err), in_cohorts = cs\<rparr> (file_retries d)\<rparr>)"

definition clear_retry :: "string \<Rightarrow> brk \<Rightarrow> bool \<times> brk" where
  "clear_retry file d =
     (if dhas (file_retries d) file
      then (True, d\<lparr>file_retries := ddel file (file_retries d)\<rparr>) else (False, d))"

definition record_quarantine :: "isotime \<Rightarrow> string \<Rightarrow> string \<Rightarrow> int \<Rightarrow> brk \<Rightarrow> brk" where
  "record_quarantine t file reason n d =
     d\<lparr>quarantined := dsetdefault file
         \<lparr>quarantined_at = t, q_reason = reason, attempts_when = n\<rparr> (quarantined d)\<rparr>"

definition release_quarantine :: "isotime \<Rightarrow> string \<Rightarrow> string \<Rightarrow> brk \<Rightarrow> bool \<times> brk" where
  "release_quarantine t file note_text d =
     (let changed = dhas (quarantined d) file \<or> dhas (file_retries d) file;
          d1 = d\<lparr>quarantined := ddel file (quarantined d),
                 file_retries := ddel file (file_retries d)\<rparr>
      in (changed, if note_text \<noteq> [] then add_note (NRelease t file note_text) d1 else d1))"

definition retire :: "isotime \<Rightarrow> isotime \<Rightarrow> string \<Rightarrow> string \<Rightarrow> brk \<Rightarrow> brk" where
  "retire t t_note file reason d =
     (let why = (if reason \<noteq> [] then reason else ''no reason given'')
      in if dhas (retired d) file then d
         else add_note (NRetire t_note file why)
           (d\<lparr>retired := dput file \<lparr>retired_at = t, r_reason = why\<rparr> (retired d),
              quarantined := ddel file (quarantined d),
              file_retries := ddel file (file_retries d)\<rparr>))"

definition unretire :: "isotime \<Rightarrow> string \<Rightarrow> string \<Rightarrow> brk \<Rightarrow> bool \<times> brk" where
  "unretire t file note_text d =
     (if \<not> dhas (retired d) file then (False, d)
      else (True, add_note (NUnretire t file note_text)
                    (d\<lparr>retired := ddel file (retired d)\<rparr>)))"

subsection \<open>Keys that identify no artifact\<close>

definition SERVICE_UNIT_MEMBERS :: "string list" where
  "SERVICE_UNIT_MEMBERS =
     [''service.toml'', ''__init__.py'', ''router.py'', ''logic.py'', ''contract.py'']"

definition is_nonidentifying :: "string \<Rightarrow> bool" where
  "is_nonidentifying key =
     (if key = [] \<or> CHR ''/'' \<in> set key \<or> CHR 0x5C \<in> set key then False
      else key \<in> set SERVICE_UNIT_MEMBERS)"

definition drop_keys :: "('k \<Rightarrow> bool) \<Rightarrow> ('k, 'v) dict \<Rightarrow> ('k, 'v) dict" where
  "drop_keys p d = filter (\<lambda>kv. \<not> p (fst kv)) d"

definition drop_nonidentifying_keys :: "isotime \<Rightarrow> brk \<Rightarrow> string list \<times> brk" where
  "drop_nonidentifying_keys t d =
     (let dropped = map (\<lambda>k. ''quarantined:'' @ k) (filter is_nonidentifying (keys (quarantined d)))
                  @ map (\<lambda>k. ''file_retries:'' @ k) (filter is_nonidentifying (keys (file_retries d)))
      in if dropped = [] then ([], d)
         else (dropped, add_note (NDropped t dropped)
                (d\<lparr>quarantined := drop_keys is_nonidentifying (quarantined d),
                   file_retries := drop_keys is_nonidentifying (file_retries d)\<rparr>)))"

text \<open>
  \<open>release_stale_missing\<close>: the two injected probes, at the root and anywhere below it,
  are the arguments; the entries swept are those of one snapshot.
\<close>

definition stale_note :: "bool \<Rightarrow> string" where
  "stale_note at_root = ''auto: missing_on_disk flag stale; file present on disk ('' @
     (if at_root then ''at root'' else ''elsewhere under root'') @ '')''"

fun release_stale_loop :: "isotime \<Rightarrow> (string \<Rightarrow> bool) \<Rightarrow> (string \<Rightarrow> bool) \<Rightarrow>
    (string \<times> quarantine) list \<Rightarrow> brk \<Rightarrow> string list \<times> brk" where
  "release_stale_loop t exists_at_root found_below [] d = ([], d)"
| "release_stale_loop t exists_at_root found_below ((file, q) # qs) d =
     (if \<not> substr_in ''missing_on_disk'' (q_reason q)
      then release_stale_loop t exists_at_root found_below qs d
      else if exists_at_root file \<or> found_below file then
        (let (changed, d1) = release_quarantine t file (stale_note (exists_at_root file)) d;
             (released, d2) = release_stale_loop t exists_at_root found_below qs d1
         in (if changed then file # released else released, d2))
      else release_stale_loop t exists_at_root found_below qs d)"

definition release_stale_missing :: "isotime \<Rightarrow> (string \<Rightarrow> bool) \<Rightarrow> (string \<Rightarrow> bool) \<Rightarrow>
    brk \<Rightarrow> string list \<times> brk" where
  "release_stale_missing t exists_at_root found_below d =
     release_stale_loop t exists_at_root found_below (quarantined d) d"

subsection \<open>The generator's question\<close>

datatype rebuild_answer = RetiredAt retirement | QuarantinedAt quarantine | BudgetExhausted int | RebuildOk

definition retry_count :: "string \<Rightarrow> brk \<Rightarrow> int" where
  "retry_count file d = (case dget (file_retries d) file of None \<Rightarrow> 0 | Some e \<Rightarrow> attempts e)"

definition rebuild_answer_of :: "string \<Rightarrow> brk \<Rightarrow> rebuild_answer" where
  "rebuild_answer_of file d =
     (case dget (retired d) file of Some r \<Rightarrow> RetiredAt r | None \<Rightarrow>
      case dget (quarantined d) file of Some q \<Rightarrow> QuarantinedAt q | None \<Rightarrow>
      if retry_count file d \<ge> MAX_REBUILDS then BudgetExhausted (retry_count file d) else RebuildOk)"

text \<open>\<open>may_rebuild\<close> first steps a stale trip and drops the keys that identify nothing.\<close>

definition may_rebuild :: "int \<Rightarrow> int \<Rightarrow> isotime \<Rightarrow> string \<Rightarrow> brk \<Rightarrow> (bool \<times> rebuild_answer) \<times> brk" where
  "may_rebuild secs now t file d0 =
     (let d1 = snd (maybe_auto_recover secs now t t d0);
          d2 = snd (drop_nonidentifying_keys t d1);
          a = rebuild_answer_of file d2
      in ((a = RebuildOk, a), d2))"

text \<open>A trip is never reported as such.\<close>

definition get_breaker_state :: "int \<Rightarrow> int \<Rightarrow> isotime \<Rightarrow> brk \<Rightarrow> string \<times> brk" where
  "get_breaker_state secs now t d0 =
     (let d = snd (maybe_auto_recover secs now t t d0)
      in (if state d = ''tripped'' then ''half-open'' else state d, d))"

subsection \<open>The state file\<close>

text \<open>
  The document as stored may lack top-level keys, which the reader fills in. The file is
  absent, blank, unparseable or holds a document.
\<close>

record brk_doc =
  d_state :: "string option"
  d_changed_at :: "isotime option option"
  d_reason :: "change_reason option option"
  d_cohorts :: "cohort list option"
  d_retries :: "(string, retry) dict option"
  d_quarantined :: "(string, quarantine) dict option"
  d_retired :: "(string, retirement) dict option"
  d_notes :: "brk_note list option"

definition or_default :: "'a \<Rightarrow> 'a option \<Rightarrow> 'a" where
  "or_default v x = (case x of None \<Rightarrow> v | Some w \<Rightarrow> w)"

definition fill_defaults :: "brk_doc \<Rightarrow> brk" where
  "fill_defaults j = \<lparr>
     state = or_default (state default_state) (d_state j),
     state_changed_at = or_default (state_changed_at default_state) (d_changed_at j),
     state_reason = or_default (state_reason default_state) (d_reason j),
     recent_cohorts = or_default (recent_cohorts default_state) (d_cohorts j),
     file_retries = or_default (file_retries default_state) (d_retries j),
     quarantined = or_default (quarantined default_state) (d_quarantined j),
     retired = or_default (retired default_state) (d_retired j),
     op_notes = or_default (op_notes default_state) (d_notes j)\<rparr>"

definition dump_state :: "brk \<Rightarrow> brk_doc" where
  "dump_state d = \<lparr>d_state = Some (state d), d_changed_at = Some (state_changed_at d),
     d_reason = Some (state_reason d), d_cohorts = Some (recent_cohorts d),
     d_retries = Some (file_retries d), d_quarantined = Some (quarantined d),
     d_retired = Some (retired d), d_notes = Some (op_notes d)\<rparr>"

datatype state_file = NoFile | BlankFile | CorruptFile string | StoredDoc brk_doc

text \<open>
  The directory that holds the state file: the file, the backups of corrupt files made
  beside it, and whether another process holds the lock past the five seconds waited for.
\<close>

record brk_world =
  sfile :: state_file
  backups :: "state_file list"
  lock_busy :: bool

datatype brk_error = LockTimeout | BadState string

text \<open>
  \<open>with _LockedStateFile() as data\<close>. A missing file is created with the defaults
  before the lock is tried. A corrupt file is renamed to a backup while its handle stays
  open, so what the block leaves is written to the backup.
\<close>

definition with_locked :: "(brk \<Rightarrow> 'a \<times> brk) \<Rightarrow> brk_world \<Rightarrow> (brk_error + 'a) \<times> brk_world" where
  "with_locked f w0 =
     (let w = (if sfile w0 = NoFile then w0\<lparr>sfile := StoredDoc (dump_state default_state)\<rparr> else w0)
      in if lock_busy w then (Inl LockTimeout, w)
         else (case sfile w of
             StoredDoc j \<Rightarrow> (let (a, d) = f (fill_defaults j)
                in (Inr a, w\<lparr>sfile := StoredDoc (dump_state d)\<rparr>))
           | CorruptFile s \<Rightarrow> (let (a, d) = f default_state
                in (Inr a, w\<lparr>sfile := NoFile, backups := StoredDoc (dump_state d) # backups w\<rparr>))
           | _ \<Rightarrow> (let (a, d) = f default_state
                in (Inr a, w\<lparr>sfile := StoredDoc (dump_state d)\<rparr>))))"

definition seq_op :: "(brk_world \<Rightarrow> (brk_error + 'a) \<times> brk_world) \<Rightarrow>
    ('a \<Rightarrow> brk_world \<Rightarrow> (brk_error + 'b) \<times> brk_world) \<Rightarrow>
    brk_world \<Rightarrow> (brk_error + 'b) \<times> brk_world" where
  "seq_op m k w = (case m w of (Inl e, w') \<Rightarrow> (Inl e, w') | (Inr a, w') \<Rightarrow> k a w')"

definition snapshot :: "brk_world \<Rightarrow> (brk_error + brk) \<times> brk_world" where
  "snapshot = with_locked (\<lambda>d. (d, d))"

text \<open>Sweeps that look at a snapshot first and take the write lock only when needed.\<close>

definition drop_keys_w :: "isotime \<Rightarrow> brk_world \<Rightarrow> (brk_error + string list) \<times> brk_world" where
  "drop_keys_w t = seq_op snapshot (\<lambda>snap w.
     if \<not> list_ex is_nonidentifying (keys (quarantined snap) @ keys (file_retries snap))
     then (Inr [], w) else with_locked (drop_nonidentifying_keys t) w)"

text \<open>
  The write half of the recovery works on the state read under the lock, with the age
  measured on the snapshot.
\<close>

definition recover_locked :: "int \<Rightarrow> isotime \<Rightarrow> isotime \<Rightarrow> brk \<Rightarrow> string option \<times> brk" where
  "recover_locked age t_chg t_note d =
     (if state d \<noteq> ''tripped'' then (None, d)
      else (Some ''half-open'', add_note (NAutoRecover t_note (AutoRecovered age))
              (move_to ''half-open'' t_chg (AutoRecovered age) d)))"

definition auto_recover_w :: "int \<Rightarrow> int \<Rightarrow> isotime \<Rightarrow> isotime \<Rightarrow> brk_world \<Rightarrow>
    (brk_error + string option) \<times> brk_world" where
  "auto_recover_w secs now t_chg t_note w0 =
     (if secs \<le> 0 then (Inr None, w0)
      else seq_op snapshot (\<lambda>snap w.
        (case recover_due secs now snap of None \<Rightarrow> (Inr None, w)
         | Some t \<Rightarrow> with_locked (recover_locked (now - t) t_chg t_note) w)) w0)"

definition is_quarantined_w :: "isotime \<Rightarrow> string \<Rightarrow> brk_world \<Rightarrow> (brk_error + bool) \<times> brk_world" where
  "is_quarantined_w t file = seq_op (drop_keys_w t) (\<lambda>_.
     seq_op snapshot (\<lambda>snap w. (Inr (dhas (quarantined snap) file), w)))"

definition is_retired_w :: "string \<Rightarrow> brk_world \<Rightarrow> (brk_error + bool) \<times> brk_world" where
  "is_retired_w file = seq_op snapshot (\<lambda>snap w. (Inr (dhas (retired snap) file), w))"

definition may_rebuild_w :: "int \<Rightarrow> int \<Rightarrow> isotime \<Rightarrow> string \<Rightarrow> brk_world \<Rightarrow>
    (brk_error + (bool \<times> rebuild_answer)) \<times> brk_world" where
  "may_rebuild_w secs now t file = seq_op (auto_recover_w secs now t t) (\<lambda>_.
     seq_op (drop_keys_w t) (\<lambda>_.
     seq_op snapshot (\<lambda>snap w.
       (Inr (let a = rebuild_answer_of file snap in (a = RebuildOk, a)), w))))"

definition record_quarantine_w :: "isotime \<Rightarrow> string \<Rightarrow> string \<Rightarrow> int \<Rightarrow> brk_world \<Rightarrow>
    (brk_error + quarantine option) \<times> brk_world" where
  "record_quarantine_w t file reason n = with_locked (\<lambda>d.
     let d' = record_quarantine t file reason n d in (dget (quarantined d') file, d'))"

definition set_breaker_state_w :: "isotime \<Rightarrow> isotime \<Rightarrow> string \<Rightarrow> string \<Rightarrow> brk_world \<Rightarrow>
    (brk_error + brk) \<times> brk_world" where
  "set_breaker_state_w t_chg t_note new reason w =
     (if new \<noteq> ''closed'' \<and> new \<noteq> ''half-open'' then (Inl (BadState new), w)
      else with_locked (\<lambda>d. case set_breaker_state t_chg t_note new reason d of
               None \<Rightarrow> (d, d) | Some d' \<Rightarrow> (d', d')) w)"

subsection \<open>The operations as one type\<close>

datatype brk_op =
    RecordCohort isotime isotime string int rat
  | RecordFailure isotime string string string
  | ClearRetry string
  | RecordQuarantine isotime string string int
  | ReleaseQuarantine isotime string string
  | Retire isotime isotime string string
  | Unretire isotime string string
  | SetState isotime isotime string string
  | AutoRecover int int isotime isotime
  | DropKeys isotime
  | ReleaseStale isotime "string \<Rightarrow> bool" "string \<Rightarrow> bool"

fun apply_op :: "brk_op \<Rightarrow> brk \<Rightarrow> brk" where
  "apply_op (RecordCohort t1 t2 cid sz rate) d = record_cohort t1 t2 cid sz rate d"
| "apply_op (RecordFailure t file err cid) d = record_failure t file err cid d"
| "apply_op (ClearRetry file) d = snd (clear_retry file d)"
| "apply_op (RecordQuarantine t file r n) d = record_quarantine t file r n d"
| "apply_op (ReleaseQuarantine t file nt) d = snd (release_quarantine t file nt d)"
| "apply_op (Retire t1 t2 file r) d = retire t1 t2 file r d"
| "apply_op (Unretire t file nt) d = snd (unretire t file nt d)"
| "apply_op (SetState t1 t2 s r) d = (case set_breaker_state t1 t2 s r d of None \<Rightarrow> d | Some d' \<Rightarrow> d')"
| "apply_op (AutoRecover secs now t1 t2) d = snd (maybe_auto_recover secs now t1 t2 d)"
| "apply_op (DropKeys t) d = snd (drop_nonidentifying_keys t d)"
| "apply_op (ReleaseStale t at_root below) d = snd (release_stale_missing t at_root below d)"

subsection \<open>The invariant of the document\<close>

definition retry_ok :: "retry \<Rightarrow> bool" where
  "retry_ok e = (attempts e \<ge> 1 \<and> length (in_cohorts e) \<le> 10)"

definition brk_wf :: "brk \<Rightarrow> bool" where
  "brk_wf d \<longleftrightarrow>
     state d \<in> {''closed'', ''tripped'', ''half-open''}
     \<and> (state d \<noteq> ''closed'' \<longrightarrow> state_changed_at d \<noteq> None \<and> state_reason d \<noteq> None)
     \<and> length (recent_cohorts d) \<le> 20
     \<and> length (op_notes d) \<le> 50
     \<and> distinct (keys (file_retries d))
     \<and> distinct (keys (quarantined d))
     \<and> distinct (keys (retired d))
     \<and> (\<forall>kv \<in> set (file_retries d). retry_ok (snd kv))"

lemma brk_wfI [intro?]:
  assumes "state d \<in> {''closed'', ''tripped'', ''half-open''}"
    and "state d \<noteq> ''closed'' \<Longrightarrow> state_changed_at d \<noteq> None \<and> state_reason d \<noteq> None"
    and "length (recent_cohorts d) \<le> 20" and "length (op_notes d) \<le> 50"
    and "distinct (keys (file_retries d))" and "distinct (keys (quarantined d))"
    and "distinct (keys (retired d))"
    and "\<And>k e. (k, e) \<in> set (file_retries d) \<Longrightarrow> retry_ok e"
  shows "brk_wf d"
  using assms by (auto simp: brk_wf_def)

lemma brk_wf_default [simp]: "brk_wf default_state"
  by (simp add: brk_wf_def default_state_def)

lemma brk_wfD:
  assumes "brk_wf d"
  shows "distinct (keys (file_retries d))" and "distinct (keys (quarantined d))"
    and "distinct (keys (retired d))" and "\<And>kv. kv \<in> set (file_retries d) \<Longrightarrow> retry_ok (snd kv)"
  using assms by (auto simp: brk_wf_def)

lemma brk_wf_update:
  "brk_wf d \<Longrightarrow> distinct (keys R) \<Longrightarrow> brk_wf (d\<lparr>retired := R\<rparr>)"
  "brk_wf d \<Longrightarrow> distinct (keys Q) \<Longrightarrow> brk_wf (d\<lparr>quarantined := Q\<rparr>)"
  "brk_wf d \<Longrightarrow> distinct (keys F) \<Longrightarrow> (\<And>kv. kv \<in> set F \<Longrightarrow> retry_ok (snd kv)) \<Longrightarrow>
     brk_wf (d\<lparr>file_retries := F\<rparr>)"
  by (auto simp: brk_wf_def)

lemma add_note_wf [intro, simp]: "brk_wf d \<Longrightarrow> brk_wf (add_note n d)"
  using length_log_append [of 50 n "op_notes d"] by (simp add: brk_wf_def add_note_def)

lemma move_to_wf [intro]:
  "brk_wf d \<Longrightarrow> s \<in> {''closed'', ''tripped'', ''half-open''} \<Longrightarrow> brk_wf (move_to s t r d)"
  by (simp add: brk_wf_def move_to_def)

text \<open>What the two helpers leave alone.\<close>

lemma add_note_frame [simp]:
  "state (add_note n d) = state d" "recent_cohorts (add_note n d) = recent_cohorts d"
  "file_retries (add_note n d) = file_retries d" "quarantined (add_note n d) = quarantined d"
  "retired (add_note n d) = retired d" "state_changed_at (add_note n d) = state_changed_at d"
  by (simp_all add: add_note_def)

lemma move_to_frame [simp]:
  "state (move_to s t r d) = s" "recent_cohorts (move_to s t r d) = recent_cohorts d"
  "file_retries (move_to s t r d) = file_retries d" "quarantined (move_to s t r d) = quarantined d"
  "retired (move_to s t r d) = retired d" "state_changed_at (move_to s t r d) = Some t"
  by (simp_all add: move_to_def)

lemma record_cohort_wf [keeps]: "brk_wf d \<Longrightarrow> brk_wf (record_cohort t1 t2 cid sz rate d)"
proof -
  assume wf: "brk_wf d"
  let ?c = "\<lparr>coh_id = cid, coh_size = sz, coh_rate = round3 rate, coh_at = t1\<rparr>"
  let ?d = "d\<lparr>recent_cohorts := last_n 20 (recent_cohorts d @ [?c])\<rparr>"
  from wf have "brk_wf ?d" by (simp add: brk_wf_def)
  then show ?thesis
    unfolding record_cohort_def Let_def by (auto intro: move_to_wf)
qed

lemma record_failure_wf [keeps]: "brk_wf d \<Longrightarrow> brk_wf (record_failure t file err cid d)"
proof -
  assume wf: "brk_wf d"
  let ?e = "case dget (file_retries d) file of
      None \<Rightarrow> \<lparr>attempts = 0, last_failed_at = None, last_error = None, in_cohorts = []\<rparr>
    | Some e \<Rightarrow> e"
  have "attempts ?e \<ge> 0" and "length (in_cohorts ?e) \<le> 10"
    using wf by (auto simp: brk_wf_def retry_ok_def split: option.splits dest!: dget_in_set)
  with wf length_log_append [of 10 cid "in_cohorts ?e"] show ?thesis
    unfolding record_failure_def Let_def brk_wf_def
    by (auto simp: retry_ok_def dest!: set_dput)
qed

lemma drop_keys_subset: "set (drop_keys p d) \<subseteq> set d"
  by (auto simp: drop_keys_def)

lemma distinct_drop_keys [intro, simp]: "distinct (keys d) \<Longrightarrow> distinct (keys (drop_keys p d))"
  by (simp add: drop_keys_def distinct_map_filter)

lemma dget_drop_keys [simp]: "dget (drop_keys p d) k = (if p k then None else dget d k)"
  by (induction d) (auto simp: drop_keys_def)

lemma without_retries_wf:
  "brk_wf d \<Longrightarrow> brk_wf (d\<lparr>quarantined := ddel f (quarantined d), file_retries := ddel f (file_retries d)\<rparr>)"
  by (auto simp: brk_wf_def)

lemma retired_upd_wf:
  "brk_wf d \<Longrightarrow> distinct (keys R) \<Longrightarrow>
     brk_wf (d\<lparr>retired := R, quarantined := ddel f (quarantined d), file_retries := ddel f (file_retries d)\<rparr>)"
  by (auto simp: brk_wf_def)

lemma release_quarantine_wf [keeps]:
  "brk_wf d \<Longrightarrow> brk_wf (snd (release_quarantine t file nt d))"
  by (simp add: release_quarantine_def Let_def without_retries_wf)

lemma clear_retry_wf [keeps]: "brk_wf d \<Longrightarrow> brk_wf (snd (clear_retry file d))"
  by (auto simp: clear_retry_def brk_wf_def)

lemma record_quarantine_wf [keeps]: "brk_wf d \<Longrightarrow> brk_wf (record_quarantine t file r n d)"
  by (simp add: record_quarantine_def brk_wf_def)

lemma retire_wf [keeps]: "brk_wf d \<Longrightarrow> brk_wf (retire t1 t2 file r d)"
  by (auto simp: retire_def Let_def intro!: add_note_wf retired_upd_wf dest: brk_wfD)

lemma unretire_wf [keeps]: "brk_wf d \<Longrightarrow> brk_wf (snd (unretire t file nt d))"
  by (auto simp: unretire_def intro!: add_note_wf brk_wf_update dest: brk_wfD)

lemma set_breaker_state_wf [keeps]:
  "brk_wf d \<Longrightarrow> set_breaker_state t1 t2 s r d = Some d' \<Longrightarrow> brk_wf d'"
  by (auto simp: set_breaker_state_def split: if_splits intro!: add_note_wf move_to_wf)

lemma maybe_auto_recover_wf [keeps]:
  "brk_wf d \<Longrightarrow> brk_wf (snd (maybe_auto_recover secs now t1 t2 d))"
  by (auto simp: maybe_auto_recover_def split: option.splits intro!: add_note_wf move_to_wf)

lemma drop_nonidentifying_keys_wf [keeps]:
  "brk_wf d \<Longrightarrow> brk_wf (snd (drop_nonidentifying_keys t d))"
  by (auto simp: drop_nonidentifying_keys_def Let_def
      intro!: add_note_wf brk_wf_update dest: brk_wfD subsetD [OF drop_keys_subset])

lemma release_stale_loop_wf:
  "brk_wf d \<Longrightarrow> brk_wf (snd (release_stale_loop t p q qs d))"
proof (induction qs arbitrary: d)
  case (Cons kv qs)
  obtain k e where kv: "kv = (k, e)" by (cases kv)
  have "brk_wf (snd (release_quarantine t k (stale_note (p k)) d))"
    using Cons.prems by (rule release_quarantine_wf)
  with Cons show ?case
    by (simp add: kv Let_def split_beta)
qed simp

lemma release_stale_missing_wf [keeps]:
  "brk_wf d \<Longrightarrow> brk_wf (snd (release_stale_missing t p q d))"
  unfolding release_stale_missing_def by (rule release_stale_loop_wf)

lemma apply_op_wf: "brk_wf d \<Longrightarrow> brk_wf (apply_op a d)"
  by (cases a) (auto intro: keeps split: option.splits)

interpretation brk_sys: invariant_system apply_op brk_wf
  by unfold_locales (rule apply_op_wf)

subsection \<open>What keeps a file blocked\<close>

lemma retired_ops [simp]:
  "retired (record_cohort t1 t2 cid sz rate d) = retired d"
  "retired (record_failure t f err cid d) = retired d"
  "retired (snd (clear_retry f d)) = retired d"
  "retired (record_quarantine t f r n d) = retired d"
  "retired (snd (release_quarantine t f nt d)) = retired d"
  "retired (snd (maybe_auto_recover secs now t1 t2 d)) = retired d"
  "retired (snd (drop_nonidentifying_keys t d)) = retired d"
  by (auto simp: record_cohort_def record_failure_def clear_retry_def record_quarantine_def
      release_quarantine_def maybe_auto_recover_def drop_nonidentifying_keys_def Let_def
      split: option.splits)

lemma retired_release_stale [simp]: "retired (snd (release_stale_missing t p q d)) = retired d"
proof -
  have "retired (snd (release_stale_loop t p q qs d)) = retired d" for qs
    by (induction qs arbitrary: d) (auto simp: Let_def split_beta)
  then show ?thesis by (simp add: release_stale_missing_def)
qed

lemma retired_set_state:
  "set_breaker_state t1 t2 s r d = Some d' \<Longrightarrow> retired d' = retired d"
  by (auto simp: set_breaker_state_def split: if_splits)

fun unretires :: "string \<Rightarrow> brk_op \<Rightarrow> bool" where
  "unretires f (Unretire t g nt) = (g = f)"
| "unretires f _ = False"

lemma retired_kept:
  "dhas (retired d) f \<Longrightarrow> \<not> unretires f a \<Longrightarrow> dhas (retired (apply_op a d)) f"
  by (cases a) (auto simp: retire_def unretire_def Let_def retired_set_state split: option.splits)

interpretation retired_stays: stable_system apply_op brk_wf "unretires f" "\<lambda>d. dhas (retired d) f"
  for f :: string
  by unfold_locales (rule retired_kept)

lemma retire_dhas [simp]: "dhas (retired (retire t1 t2 f r d)) f"
  by (simp add: retire_def Let_def)

lemma retired_blocks:
  "dhas (retired d) f \<Longrightarrow> \<exists>r. fst (may_rebuild secs now t f d) = (False, RetiredAt r)"
  by (auto simp: may_rebuild_def rebuild_answer_of_def Let_def dhas_def)

text \<open>The retry counter: only an operation that forgives a file lowers it.\<close>

fun forgives :: "string \<Rightarrow> brk_op \<Rightarrow> bool" where
  "forgives f (ClearRetry g) = (g = f)"
| "forgives f (ReleaseQuarantine t g nt) = (g = f)"
| "forgives f (Retire t1 t2 g r) = (g = f)"
| "forgives f (DropKeys t) = is_nonidentifying f"
| "forgives f (ReleaseStale t p q) = (p f \<or> q f)"
| "forgives f _ = False"

fun fails_file :: "string \<Rightarrow> brk_op \<Rightarrow> bool" where
  "fails_file f (RecordFailure t g err cid) = (g = f)"
| "fails_file f _ = False"

lemma retry_count_record_failure:
  "retry_count f (record_failure t g err cid d) = retry_count f d + (if g = f then 1 else 0)"
  by (auto simp: retry_count_def record_failure_def Let_def split: option.splits)

lemma retry_count_retries: "file_retries d = file_retries d' \<Longrightarrow> retry_count f d = retry_count f d'"
  by (simp add: retry_count_def)

lemma file_retries_ops [simp]:
  "file_retries (record_cohort t1 t2 cid sz rate d) = file_retries d"
  "file_retries (record_quarantine t f r n d) = file_retries d"
  "file_retries (snd (maybe_auto_recover secs now t1 t2 d)) = file_retries d"
  "file_retries (snd (unretire t f nt d)) = file_retries d"
  by (auto simp: record_cohort_def record_quarantine_def maybe_auto_recover_def unretire_def Let_def
      split: option.splits)

lemma retry_count_release_other:
  "g \<noteq> f \<Longrightarrow> retry_count f (snd (release_quarantine t g nt d)) = retry_count f d"
  by (simp add: release_quarantine_def retry_count_def Let_def)

lemma retry_count_release_stale:
  "\<not> p f \<Longrightarrow> \<not> q f \<Longrightarrow> retry_count f (snd (release_stale_loop t p q qs d)) = retry_count f d"
proof (induction qs arbitrary: d)
  case (Cons kv qs)
  obtain k e where kv: "kv = (k, e)" by (cases kv)
  show ?case
  proof (cases "k = f")
    case True
    with Cons show ?thesis by (simp add: kv)
  next
    case False
    with Cons show ?thesis by (simp add: kv Let_def split_beta retry_count_release_other)
  qed
qed simp

lemma retry_count_step:
  assumes "\<not> forgives f a"
  shows "retry_count f (apply_op a d) = retry_count f d + (if fails_file f a then 1 else 0)"
proof (cases a)
  case (SetState t1 t2 s r)
  then show ?thesis
    by (auto simp: set_breaker_state_def retry_count_def split: if_splits)
next
  case (ReleaseStale t p q)
  with assms show ?thesis
    by (simp add: release_stale_missing_def retry_count_release_stale)
next
  case (DropKeys t)
  with assms show ?thesis
    by (simp add: drop_nonidentifying_keys_def Let_def retry_count_def)
next
  case (ClearRetry g)
  with assms show ?thesis by (auto simp: clear_retry_def retry_count_def)
next
  case (Retire t1 t2 g r)
  with assms show ?thesis by (auto simp: retire_def retry_count_def Let_def)
next
  case (ReleaseQuarantine t g nt)
  with assms show ?thesis by (auto simp: retry_count_release_other)
qed (auto simp: retry_count_record_failure intro!: retry_count_retries)

lemma retry_count_run:
  "list_all (\<lambda>a. \<not> forgives f a) as \<Longrightarrow>
     retry_count f (fold apply_op as d) = retry_count f d + int (length (filter (fails_file f) as))"
  by (induction as arbitrary: d) (auto simp: retry_count_step)

lemma exhausted_blocks:
  assumes "retry_count f d \<ge> MAX_REBUILDS" and "\<not> is_nonidentifying f"
  shows "fst (fst (may_rebuild secs now t f d)) = False"
proof -
  let ?d1 = "snd (maybe_auto_recover secs now t t d)"
  let ?d2 = "snd (drop_nonidentifying_keys t ?d1)"
  have "retry_count f ?d2 = retry_count f d"
    using assms(2) by (auto simp: drop_nonidentifying_keys_def Let_def retry_count_def)
  with assms show ?thesis
    by (auto simp: may_rebuild_def rebuild_answer_of_def Let_def split: option.splits)
qed

lemma retry_count_nonneg: "brk_wf d \<Longrightarrow> 0 \<le> retry_count f d"
  by (auto simp: retry_count_def retry_ok_def split: option.splits
      dest!: dget_in_set brk_wfD(4))

subsection \<open>How the breaker moves\<close>

text \<open>The abstract machine: the transitions that an automatic operation may make.\<close>

inductive brk_moves :: "string \<Rightarrow> string \<Rightarrow> bool" where
  trips: "brk_moves ''closed'' ''tripped''"
| retrips: "brk_moves ''half-open'' ''tripped''"
| recovers: "brk_moves ''tripped'' ''half-open''"
| closes: "brk_moves ''half-open'' ''closed''"
| stays: "brk_moves s s"

inductive_cases from_tripped: "brk_moves ''tripped'' s"
inductive_simps brk_moves_iff: "brk_moves s s'"

fun manual :: "brk_op \<Rightarrow> bool" where
  "manual (SetState t1 t2 s r) = True"
| "manual _ = False"

lemma state_ops [simp]:
  "state (record_failure t f err cid d) = state d"
  "state (snd (clear_retry f d)) = state d"
  "state (record_quarantine t f r n d) = state d"
  "state (snd (release_quarantine t f nt d)) = state d"
  "state (retire t1 t2 f r d) = state d"
  "state (snd (unretire t f nt d)) = state d"
  "state (snd (drop_nonidentifying_keys t d)) = state d"
  by (auto simp: record_failure_def clear_retry_def record_quarantine_def release_quarantine_def
      retire_def unretire_def drop_nonidentifying_keys_def Let_def)

lemma stale_frame:
  "state (snd (release_stale_missing t p q d)) = state d"
  "recent_cohorts (snd (release_stale_missing t p q d)) = recent_cohorts d"
  "state_changed_at (snd (release_stale_missing t p q d)) = state_changed_at d"
proof -
  let ?same = "\<lambda>d d'. state d' = state d \<and> recent_cohorts d' = recent_cohorts d
    \<and> state_changed_at d' = state_changed_at d"
  have "?same d (snd (release_stale_loop t p q qs d))" for qs
    by (induction qs arbitrary: d) (auto simp: Let_def split_beta release_quarantine_def)
  then show "state (snd (release_stale_missing t p q d)) = state d"
    "recent_cohorts (snd (release_stale_missing t p q d)) = recent_cohorts d"
    "state_changed_at (snd (release_stale_missing t p q d)) = state_changed_at d"
    by (simp_all add: release_stale_missing_def)
qed

lemma recover_state:
  "state (snd (maybe_auto_recover secs now t1 t2 d)) =
     (if recover_due secs now d = None then state d else ''half-open'')"
  by (auto simp: maybe_auto_recover_def split: option.splits)

lemma recover_due_tripped: "recover_due secs now d = Some t \<Longrightarrow> state d = ''tripped''"
  by (auto simp: recover_due_def split: if_splits)

lemma cohort_moves: "brk_moves (state d) (state (record_cohort t1 t2 cid sz rate d))"
  by (auto simp: record_cohort_def Let_def brk_moves_iff)

lemma recover_moves: "brk_moves (state d) (state (snd (maybe_auto_recover secs now t1 t2 d)))"
proof (cases "recover_due secs now d")
  case None
  then show ?thesis by (simp add: recover_state brk_moves.stays)
next
  case (Some t)
  from recover_due_tripped [OF this] Some show ?thesis
    by (simp add: recover_state brk_moves.recovers)
qed

lemma apply_op_moves: "\<not> manual a \<Longrightarrow> brk_moves (state d) (state (apply_op a d))"
  by (cases a) (auto simp: cohort_moves recover_moves stale_frame intro: brk_moves.stays)

text \<open>Closing takes a clean cohort of sufficient size.\<close>

fun clean_cohort :: "brk_op \<Rightarrow> bool" where
  "clean_cohort (RecordCohort t1 t2 cid sz rate) = (sz \<ge> MIN_COHORT_SIZE \<and> rate = 0)"
| "clean_cohort _ = False"

lemma not_closed_kept:
  assumes "brk_wf d" and "state d \<noteq> ''closed''" and "\<not> (manual a \<or> clean_cohort a)"
  shows "state (apply_op a d) \<noteq> ''closed''"
  using assms
  by (cases a) (auto simp: record_cohort_def Let_def recover_state stale_frame)

interpretation not_closed: stable_system apply_op brk_wf "\<lambda>a. manual a \<or> clean_cohort a"
    "\<lambda>d. state d \<noteq> ''closed''"
  by unfold_locales (rule not_closed_kept)

text \<open>A trip needs evidence.\<close>

definition bad_window :: "cohort list \<Rightarrow> bool" where
  "bad_window cs \<longleftrightarrow> (let w = last_n 3 cs in length w = 3 \<and>
     list_all (\<lambda>c. coh_size c \<ge> MIN_COHORT_SIZE \<and> coh_rate c \<ge> BREAKER_FAIL_THRESHOLD_RUNNING) w)"

lemma filter_all_length:
  "length (filter P xs) \<ge> length xs \<Longrightarrow> filter P xs = xs"
  by (metis filter_id_conv length_filter_less linorder_not_less)

lemma window_iff:
  "(let recent = filter (\<lambda>c. coh_size c \<ge> MIN_COHORT_SIZE) (last_n BREAKER_RUNNING_WINDOW cs) in
      length recent \<ge> BREAKER_RUNNING_WINDOW
      \<and> list_all (\<lambda>c. coh_rate c \<ge> BREAKER_FAIL_THRESHOLD_RUNNING) recent) \<longleftrightarrow> bad_window cs"
  (is "?code \<longleftrightarrow> _")
proof
  let ?f = "filter (\<lambda>c. coh_size c \<ge> MIN_COHORT_SIZE) (last_n 3 cs)"
  assume c: ?code
  then have len: "length ?f \<ge> 3" by (simp add: Let_def BREAKER_RUNNING_WINDOW_def)
  moreover have "length (last_n 3 cs) \<le> 3" by simp
  ultimately have f: "?f = last_n 3 cs" by (intro filter_all_length) linarith
  with len have "length (last_n 3 cs) = 3" by simp
  moreover have "list_all (\<lambda>c. coh_size c \<ge> MIN_COHORT_SIZE) (last_n 3 cs)"
    using f by (metis (mono_tags, lifting) filter_id_conv list_all_iff)
  ultimately show "bad_window cs"
    using c f by (simp add: bad_window_def Let_def BREAKER_RUNNING_WINDOW_def list_all_iff)
next
  assume b: "bad_window cs"
  then have "filter (\<lambda>c. coh_size c \<ge> MIN_COHORT_SIZE) (last_n 3 cs) = last_n 3 cs"
    by (auto simp: bad_window_def Let_def list_all_iff)
  with b show ?code
    by (simp add: bad_window_def Let_def BREAKER_RUNNING_WINDOW_def list_all_iff)
qed

definition with_cohort :: "isotime \<Rightarrow> string \<Rightarrow> int \<Rightarrow> rat \<Rightarrow> brk \<Rightarrow> cohort list" where
  "with_cohort t cid sz rate d = last_n 20 (recent_cohorts d @
     [\<lparr>coh_id = cid, coh_size = sz, coh_rate = round3 rate, coh_at = t\<rparr>])"

lemma record_cohort_cohorts [simp]:
  "recent_cohorts (record_cohort t1 t2 cid sz rate d) = with_cohort t1 cid sz rate d"
  by (simp add: record_cohort_def with_cohort_def Let_def)

lemma record_cohort_closed:
  "state d = ''closed'' \<Longrightarrow>
     state (record_cohort t1 t2 cid sz rate d) =
       (if sz \<ge> MIN_COHORT_SIZE \<and> rate \<ge> BREAKER_FAIL_THRESHOLD_SINGLE \<or> bad_window (with_cohort t1 cid sz rate d)
        then ''tripped'' else ''closed'')"
  unfolding window_iff [symmetric]
  by (simp add: record_cohort_def with_cohort_def Let_def)

lemma trip_evidence:
  assumes "state d \<noteq> ''tripped''" and "state (apply_op a d) = ''tripped''"
  shows "\<exists>t1 t2 cid sz rate. a = RecordCohort t1 t2 cid sz rate \<and>
    (sz \<ge> MIN_COHORT_SIZE \<and> rate \<ge> BREAKER_FAIL_THRESHOLD_SINGLE
     \<or> state d = ''closed'' \<and> bad_window (recent_cohorts (apply_op a d)))"
proof (cases a)
  case (RecordCohort t1 t2 cid sz rate)
  show ?thesis
  proof (cases "state d = ''closed''")
    case True
    with RecordCohort assms show ?thesis
      by (auto simp: record_cohort_closed split: if_splits)
  next
    case False
    with RecordCohort assms show ?thesis
      by (auto simp: record_cohort_def Let_def split: if_splits)
  qed
next
  case (SetState t1 t2 s r)
  with assms show ?thesis by (auto simp: set_breaker_state_def split: if_splits)
qed (use assms in \<open>auto simp: recover_state stale_frame split: if_splits\<close>)

text \<open>Rounding to thousandths keeps a rate at or above thirty percent.\<close>

lemma round_half_even_ge: "of_int k \<le> r \<Longrightarrow> k \<le> round_half_even r"
proof -
  assume "of_int k \<le> r"
  then have "k \<le> \<lfloor>r\<rfloor>" by (simp add: le_floor_iff)
  then show ?thesis by (simp add: round_half_even_def Let_def)
qed

lemma round3_running: "BREAKER_FAIL_THRESHOLD_RUNNING \<le> rate \<Longrightarrow> BREAKER_FAIL_THRESHOLD_RUNNING \<le> round3 rate"
proof -
  assume "BREAKER_FAIL_THRESHOLD_RUNNING \<le> rate"
  then have "of_int 300 \<le> rate * 1000" by (simp add: BREAKER_FAIL_THRESHOLD_RUNNING_def)
  then have "300 \<le> round_half_even (rate * 1000)" by (rule round_half_even_ge)
  then have "(300::rat) \<le> of_int (round_half_even (rate * 1000))" by linarith
  then show ?thesis by (simp add: BREAKER_FAIL_THRESHOLD_RUNNING_def round3_def)
qed

lemma last_n_last_n: "m \<le> n \<Longrightarrow> last_n m (last_n n xs) = last_n m xs"
proof -
  assume "m \<le> n"
  then have "length xs - (length xs - n) - m + (length xs - n) = length xs - m" by linarith
  then show ?thesis by (simp only: last_n_def drop_drop length_drop)
qed

lemma last_n_snoc3:
  "length w = 3 \<Longrightarrow> last_n 3 (xs @ w) = w"
  by (simp add: last_n_def)

definition bad_cohort :: "brk_op \<Rightarrow> bool" where
  "bad_cohort a = (case a of RecordCohort t1 t2 cid sz rate \<Rightarrow>
     sz \<ge> MIN_COHORT_SIZE \<and> rate \<ge> BREAKER_FAIL_THRESHOLD_RUNNING | _ \<Rightarrow> False)"

definition bad_rec :: "cohort \<Rightarrow> bool" where
  "bad_rec c = (coh_size c \<ge> MIN_COHORT_SIZE \<and> coh_rate c \<ge> BREAKER_FAIL_THRESHOLD_RUNNING)"

text \<open>The number of bad cohorts at the end of the list.\<close>

definition bad_tail :: "cohort list \<Rightarrow> nat" where
  "bad_tail cs = length (takeWhile bad_rec (rev cs))"

lemma bad_tail_snoc: "bad_tail (cs @ [c]) = (if bad_rec c then Suc (bad_tail cs) else 0)"
  by (simp add: bad_tail_def)

lemma rev_last_n: "rev (last_n n xs) = take n (rev xs)"
  by (simp add: last_n_def take_rev)

lemma bad_tail_last_n: "bad_tail (last_n n cs) = min n (bad_tail cs)"
proof -
  have "length (takeWhile P (take n ys)) = min n (length (takeWhile P ys))" for P and ys :: "cohort list"
    by (induction ys arbitrary: n) (auto simp: take_Cons split: nat.splits)
  then show ?thesis by (simp add: bad_tail_def rev_last_n)
qed

lemma length_takeWhile_full: "length (takeWhile P ys) = length ys \<longleftrightarrow> list_all P ys"
  by (induction ys) auto

lemma bad_window_tail: "bad_window cs \<longleftrightarrow> bad_tail cs \<ge> 3"
proof -
  let ?w = "last_n 3 cs"
  have "bad_tail ?w = length ?w \<longleftrightarrow> list_all bad_rec ?w"
    using length_takeWhile_full [of bad_rec "rev ?w"] by (simp add: bad_tail_def list_all_rev)
  moreover have "bad_tail ?w \<le> length ?w"
    by (metis bad_tail_def length_rev length_takeWhile_le)
  moreover have "length ?w \<le> 3" by simp
  ultimately have "length ?w = 3 \<and> list_all bad_rec ?w \<longleftrightarrow> bad_tail ?w \<ge> 3" by linarith
  then show ?thesis
    by (simp add: bad_window_def Let_def bad_rec_def [abs_def] bad_tail_last_n)
qed

text \<open>A bad cohort lengthens the tail, up to what the log keeps.\<close>

lemma bad_tail_with_cohort:
  assumes "sz \<ge> MIN_COHORT_SIZE" and "rate \<ge> BREAKER_FAIL_THRESHOLD_RUNNING"
  shows "bad_tail (with_cohort t cid sz rate d) = min 20 (Suc (bad_tail (recent_cohorts d)))"
  using assms round3_running [of rate]
  by (simp add: with_cohort_def bad_tail_last_n bad_tail_snoc bad_rec_def)

lemma tripped_stays_cohort:
  "state d = ''tripped'' \<Longrightarrow> state (record_cohort t1 t2 cid sz rate d) = ''tripped''"
  by (simp add: record_cohort_def Let_def)

lemma bad_cohort_step:
  assumes "bad_cohort a" and "state d = ''closed'' \<or> state d = ''tripped''"
    and "state d = ''tripped'' \<or> bad_tail (recent_cohorts d) \<ge> n"
  shows "(state (apply_op a d) = ''closed'' \<or> state (apply_op a d) = ''tripped'')
    \<and> (state (apply_op a d) = ''tripped''
       \<or> n + 1 < 3 \<and> bad_tail (recent_cohorts (apply_op a d)) \<ge> n + 1)"
proof -
  obtain t1 t2 cid sz rate where a: "a = RecordCohort t1 t2 cid sz rate"
      and sz: "sz \<ge> MIN_COHORT_SIZE" and rate: "rate \<ge> BREAKER_FAIL_THRESHOLD_RUNNING"
    using assms(1) by (auto simp: bad_cohort_def split: brk_op.splits)
  show ?thesis
  proof (cases "state d = ''tripped''")
    case True
    then show ?thesis by (simp add: a tripped_stays_cohort)
  next
    case False
    with assms have "state d = ''closed''" and "bad_tail (recent_cohorts d) \<ge> n" by auto
    then show ?thesis
      using bad_tail_with_cohort [OF sz rate, of t1 cid d]
      by (auto simp: a record_cohort_closed bad_window_tail)
  qed
qed

subsection \<open>A stale trip recovers\<close>

text \<open>What keeps a trip at \<open>tc\<close> from going stale: a manual set, an automatic step, or a
  cohort at or above the running threshold.\<close>

fun disturbs_trip :: "brk_op \<Rightarrow> bool" where
  "disturbs_trip (RecordCohort t1 t2 cid sz rate) = (round3 rate \<ge> BREAKER_FAIL_THRESHOLD_RUNNING)"
| "disturbs_trip (SetState t1 t2 s r) = True"
| "disturbs_trip (AutoRecover secs now t1 t2) = True"
| "disturbs_trip _ = False"

definition stale_trip :: "int \<Rightarrow> brk \<Rightarrow> bool" where
  "stale_trip tc d = (state d = ''tripped'' \<and> state_changed_at d = Some (Iso tc) \<and> \<not> failing_since tc d)"

lemma stale_trip_frame:
  "state d' = state d \<Longrightarrow> state_changed_at d' = state_changed_at d \<Longrightarrow>
     recent_cohorts d' = recent_cohorts d \<Longrightarrow> stale_trip tc d' = stale_trip tc d"
  by (simp add: stale_trip_def failing_since_def)

lemma stale_trip_kept:
  assumes "brk_wf d" and "stale_trip tc d" and "\<not> disturbs_trip a"
  shows "stale_trip tc (apply_op a d)"
proof (cases a)
  case (RecordCohort t1 t2 cid sz rate)
  with assms have rate: "\<not> round3 rate \<ge> BREAKER_FAIL_THRESHOLD_RUNNING" by simp
  let ?d = "apply_op a d"
  from assms RecordCohort have "state ?d = ''tripped''" "state_changed_at ?d = Some (Iso tc)"
    by (simp_all add: stale_trip_def record_cohort_def Let_def)
  moreover have "\<not> failing_since tc ?d"
    using assms rate RecordCohort
    by (auto simp: stale_trip_def failing_since_def list_ex_iff with_cohort_def dest!: set_last_n)
  ultimately show ?thesis by (simp add: stale_trip_def)
next
  case (ReleaseStale t p q)
  have "stale_trip tc (apply_op a d) = stale_trip tc d"
    by (rule stale_trip_frame) (simp_all add: ReleaseStale stale_frame)
  with assms(2) show ?thesis by simp
qed (use assms in \<open>auto simp: stale_trip_def failing_since_def record_failure_def clear_retry_def
    record_quarantine_def release_quarantine_def retire_def unretire_def
    drop_nonidentifying_keys_def Let_def\<close>)

interpretation stale_trips: stable_system apply_op brk_wf disturbs_trip "stale_trip tc"
  for tc :: int
  by unfold_locales (rule stale_trip_kept)

lemma stale_trip_recovers:
  assumes "stale_trip tc d" and "0 < secs" and "now - tc \<ge> secs * 1000000"
  shows "fst (get_breaker_state secs now t d) = ''half-open''"
    and "state (snd (get_breaker_state secs now t d)) = ''half-open''"
  using assms
  by (simp_all add: stale_trip_def get_breaker_state_def maybe_auto_recover_def recover_due_def Let_def)

lemma fresh_trip_stale:
  assumes "state d = ''closed''" and "state (record_cohort (Iso t1) (Iso tc) cid sz rate d) = ''tripped''"
    and "t1 < tc" and "\<forall>c \<in> set (recent_cohorts d). \<forall>t. iso_instant (coh_at c) = Some t \<longrightarrow> t < tc"
  shows "stale_trip tc (record_cohort (Iso t1) (Iso tc) cid sz rate d)"
proof -
  let ?d = "record_cohort (Iso t1) (Iso tc) cid sz rate d"
  have "state_changed_at ?d = Some (Iso tc)"
    using assms(1,2) by (auto simp: record_cohort_def Let_def split: if_splits)
  moreover have "\<not> failing_since tc ?d"
    using assms(3,4)
    by (fastforce simp: failing_since_def list_ex_iff with_cohort_def dest!: set_last_n split: option.splits)
  ultimately show ?thesis using assms(2) by (simp add: stale_trip_def)
qed

subsection \<open>What the sweep of stale flags releases\<close>

definition stale_released :: "(string \<Rightarrow> bool) \<Rightarrow> (string \<Rightarrow> bool) \<Rightarrow> string \<times> quarantine \<Rightarrow> bool" where
  "stale_released p q kv =
     (substr_in ''missing_on_disk'' (q_reason (snd kv)) \<and> (p (fst kv) \<or> q (fst kv)))"

lemma release_quarantine_parts:
  "fst (release_quarantine t f nt d) = (dhas (quarantined d) f \<or> dhas (file_retries d) f)"
  "quarantined (snd (release_quarantine t f nt d)) = ddel f (quarantined d)"
  by (simp_all add: release_quarantine_def Let_def)

lemma release_stale_loop_spec:
  assumes "distinct (keys qs)" and "\<And>k. k \<in> set (keys qs) \<Longrightarrow> dhas (quarantined d) k"
  shows "fst (release_stale_loop t p q qs d) = map fst (filter (stale_released p q) qs)
    \<and> dget (quarantined (snd (release_stale_loop t p q qs d))) f =
        (if f \<in> set (map fst (filter (stale_released p q) qs)) then None else dget (quarantined d) f)"
  using assms
proof (induction qs arbitrary: d)
  case Nil
  then show ?case by simp
next
  case (Cons kv qs)
  obtain k e where kv: "kv = (k, e)" by (cases kv)
  show ?case
  proof (cases "stale_released p q kv")
    case False
    then show ?thesis using Cons.IH [of d] Cons.prems
      by (auto simp: kv stale_released_def)
  next
    case True
    let ?d = "snd (release_quarantine t k (stale_note (p k)) d)"
    have "dhas (quarantined ?d) x" if "x \<in> set (keys qs)" for x
      using that Cons.prems by (auto simp: kv release_quarantine_parts)
    note IH = Cons.IH [of ?d, OF _ this]
    have "dhas (quarantined d) k" using Cons.prems by (simp add: kv)
    then show ?thesis using IH Cons.prems True
      by (auto simp: kv stale_released_def Let_def split_beta release_quarantine_parts)
  qed
qed

subsection \<open>The file holds what was written\<close>

lemma fill_dump [simp]: "fill_defaults (dump_state d) = d"
  by (simp add: fill_defaults_def dump_state_def or_default_def)

lemma dhas_drop_keys [simp]: "dhas (drop_keys p d) k = (\<not> p k \<and> dhas d k)"
  by (simp add: dhas_def)

subsection \<open>Properties\<close>

text \<open>C11: from the default document, every sequence of breaker operations keeps the
  document well formed: one of the three states, a time and a reason with every state that is not
  the initial one, at most 20 cohorts and 50 notes, one entry per file in each table, and retry
  entries that count at least one attempt and list at most ten cohorts.\<close>

theorem breaker_run_wf: "brk_wf (fold apply_op ops default_state)"
  by (rule brk_sys.run_inv) simp

text \<open>C23: three cohorts in a row of sufficient size, each at or above the running threshold,
  leave a closed breaker tripped, whatever was recorded before them; a tripped breaker stays so.\<close>

theorem three_bad_cohorts_trip:
  assumes "bad_cohort a1" and "bad_cohort a2" and "bad_cohort a3"
    and "state d = ''closed'' \<or> state d = ''tripped''"
  shows "state (fold apply_op [a1, a2, a3] d) = ''tripped''"
  using bad_cohort_step [OF assms(1,4), of 0]
    bad_cohort_step [OF assms(2), of "apply_op a1 d" 1]
    bad_cohort_step [OF assms(3), of "apply_op a2 (apply_op a1 d)" 2]
  by auto

theorem three_bad_cohorts_trip_witness:
  "state (fold apply_op [RecordCohort (Iso 1) (Iso 2) ''c1'' 4 (3/10),
     RecordCohort (Iso 3) (Iso 4) ''c2'' 5 (39/100), RecordCohort (Iso 5) (Iso 6) ''c3'' 9 (35/100)]
     default_state) = ''tripped''"
  by (rule three_bad_cohorts_trip)
    (simp_all add: bad_cohort_def MIN_COHORT_SIZE_def BREAKER_FAIL_THRESHOLD_RUNNING_def default_state_def)

text \<open>A breaker that is not closed becomes closed again only through a manual set or a
  cohort of sufficient size without a single failure.\<close>

theorem closing_needs_proof:
  assumes "brk_wf d" and "state d \<noteq> ''closed''" and "state (fold apply_op ops d) = ''closed''"
  shows "\<exists>a \<in> set ops. manual a \<or> clean_cohort a"
  using not_closed.run_fact_witness [of d ops] assms by blast

theorem closing_needs_proof_witness:
  "\<exists>a \<in> set [RecordCohort (Iso 1) (Iso 2) ''c1'' 4 (1/2), AutoRecover 3600 9000000000 (Iso 3) (Iso 4),
      RecordCohort (Iso 5) (Iso 6) ''c2'' 4 0]. manual a \<or> clean_cohort a"
proof (rule closing_needs_proof)
  let ?d = "default_state\<lparr>state := ''half-open'', state_changed_at := Some (Iso 0),
    state_reason := Some WindowTrip\<rparr>"
  show "brk_wf ?d" by (simp add: brk_wf_def default_state_def)
  show "state ?d \<noteq> ''closed''" by simp
  show "state (fold apply_op [RecordCohort (Iso 1) (Iso 2) ''c1'' 4 (1/2),
      AutoRecover 3600 9000000000 (Iso 3) (Iso 4), RecordCohort (Iso 5) (Iso 6) ''c2'' 4 0] ?d) = ''closed''"
    by (simp add: record_cohort_def move_to_def MIN_COHORT_SIZE_def BREAKER_FAIL_THRESHOLD_SINGLE_def
        BREAKER_FAIL_THRESHOLD_RUNNING_def maybe_auto_recover_def recover_due_def failing_since_def
        default_state_def last_n_def add_note_def log_append_def)
qed

text \<open>A retired file is refused by \<open>may_rebuild\<close> with its retirement after any run of
  operations that does not unretire that very file.\<close>

theorem retired_file_stays_refused:
  assumes "brk_wf d" and "dhas (retired d) f" and "list_all (\<lambda>a. \<not> unretires f a) ops"
  shows "\<exists>r. fst (may_rebuild secs now t f (fold apply_op ops d)) = (False, RetiredAt r)"
  using retired_stays.run_fact [OF assms] by (rule retired_blocks)

theorem retired_file_stays_refused_witness:
  "\<exists>r. fst (may_rebuild 21600 5 (Iso 5) ''m.py''
     (fold apply_op [ReleaseQuarantine (Iso 3) ''m.py'' ''x'', ClearRetry ''m.py'', Unretire (Iso 4) ''n.py'' ''y'']
       (retire (Iso 1) (Iso 1) ''m.py'' ''dead'' default_state))) = (False, RetiredAt r)"
  by (rule retired_file_stays_refused) (simp_all add: retire_wf)

text \<open>C38: three recorded failures of an artifact, in any run without an operation that
  forgives it, exhaust its budget: \<open>may_rebuild\<close> then answers no.\<close>

theorem retry_budget_is_enforced:
  assumes "brk_wf d" and "\<not> is_nonidentifying f" and "list_all (\<lambda>a. \<not> forgives f a) ops"
    and "length (filter (fails_file f) ops) \<ge> 3"
  shows "fst (fst (may_rebuild secs now t f (fold apply_op ops d))) = False"
proof (rule exhausted_blocks)
  show "retry_count f (fold apply_op ops d) \<ge> MAX_REBUILDS"
    using retry_count_run [OF assms(3), of d] retry_count_nonneg [OF assms(1), of f] assms(4)
    by (simp add: MAX_REBUILDS_def)
qed (rule assms(2))

theorem retry_budget_is_enforced_witness:
  "fst (fst (may_rebuild 21600 5 (Iso 5) ''m.py''
     (fold apply_op [RecordFailure (Iso 1) ''m.py'' ''boom'' ''c1'', RecordFailure (Iso 2) ''m.py'' ''boom'' ''c1'',
       ClearRetry ''n.py'', RecordFailure (Iso 3) ''m.py'' ''boom'' ''c2''] default_state))) = False"
  by (rule retry_budget_is_enforced) (simp_all add: is_nonidentifying_def SERVICE_UNIT_MEMBERS_def)

text \<open>C24: a trip at time \<open>tc\<close> of a closed breaker, followed by any operations that neither
  move the breaker by hand or automatically nor record a failing cohort, is left for half-open by the
  first read of the breaker's state once the configured age has passed: the automatic recovery is
  never blocked by the trip's own cohort, observed before it.\<close>

theorem stale_trip_is_released:
  assumes "brk_wf d" and "state d = ''closed''"
    and "state (record_cohort (Iso t1) (Iso tc) cid sz rate d) = ''tripped''" and "t1 < tc"
    and "\<forall>c \<in> set (recent_cohorts d). \<forall>t. iso_instant (coh_at c) = Some t \<longrightarrow> t < tc"
    and "list_all (\<lambda>a. \<not> disturbs_trip a) ops"
    and "0 < secs" and "now - tc \<ge> secs * 1000000"
  shows "state (snd (get_breaker_state secs now t
    (fold apply_op ops (record_cohort (Iso t1) (Iso tc) cid sz rate d)))) = ''half-open''"
  using stale_trips.run_fact [OF record_cohort_wf fresh_trip_stale, OF assms(1-6)] assms(7,8)
  by (rule stale_trip_recovers(2))

theorem stale_trip_is_released_witness:
  "state (snd (get_breaker_state 10 20000000 (Iso 20000000)
    (fold apply_op [RecordCohort (Iso 3) (Iso 4) ''c2'' 4 0, RecordFailure (Iso 5) ''m.py'' ''e'' ''c2'']
      (record_cohort (Iso 1) (Iso 2) ''c1'' 4 (1/2) default_state)))) = ''half-open''"
  by (rule stale_trip_is_released)
    (simp_all add: record_cohort_def default_state_def MIN_COHORT_SIZE_def move_to_def round3_def
      round_half_even_def BREAKER_FAIL_THRESHOLD_RUNNING_def BREAKER_FAIL_THRESHOLD_SINGLE_def brk_wf_def)

text \<open>The sweep of stale quarantines releases exactly the entries whose reason says the
  file was missing on disk and whose file one of the two probes finds, in the table's order; every
  other quarantine stays as it was.\<close>

theorem release_stale_missing_exact:
  assumes "distinct (keys (quarantined d))"
  shows "fst (release_stale_missing t p q d) = map fst (filter (stale_released p q) (quarantined d))
    \<and> dget (quarantined (snd (release_stale_missing t p q d))) f =
        (if f \<in> set (map fst (filter (stale_released p q) (quarantined d))) then None
         else dget (quarantined d) f)"
  unfolding release_stale_missing_def
  by (rule release_stale_loop_spec [OF assms]) (simp add: dhas_keys)

theorem release_stale_missing_exact_witness:
  "fst (release_stale_missing (Iso 9) (\<lambda>f. f = ''a.py'') (\<lambda>f. f = ''b.py'')
     (default_state\<lparr>quarantined :=
        [(''a.py'', \<lparr>quarantined_at = Iso 1, q_reason = ''missing_on_disk'', attempts_when = 1\<rparr>),
         (''b.py'', \<lparr>quarantined_at = Iso 2, q_reason = ''retry cap'', attempts_when = 3\<rparr>)]\<rparr>)) = [''a.py'']"
  by (subst conjunct1 [OF release_stale_missing_exact [where f = "[]"]])
    (simp_all add: stale_released_def startswith_def)

text \<open>What one locked operation leaves in a readable state file is what the next one
  finds; but the operation that meets a corrupt file leaves its result in the renamed backup only, so
  that a quarantine recorded then is reported as recorded and is gone at the next question.\<close>

theorem quarantine_and_the_state_file:
  "\<not> lock_busy w \<Longrightarrow> \<not> is_nonidentifying file \<Longrightarrow>
     fst (is_quarantined_w t file (snd (record_quarantine_w t file r n w)))
       = Inr (case sfile w of CorruptFile s \<Rightarrow> False | _ \<Rightarrow> True)"
  by (cases "sfile w")
    (auto simp: is_quarantined_w_def record_quarantine_w_def drop_keys_w_def seq_op_def
      snapshot_def with_locked_def Let_def fill_dump record_quarantine_def dhas_dsetdefault
      dhas_drop_keys drop_nonidentifying_keys_def default_state_def split: if_splits option.splits)

theorem quarantine_and_the_state_file_witness:
  "fst (is_quarantined_w (Iso 1) ''m.py'' (snd (record_quarantine_w (Iso 1) ''m.py'' ''capped'' 3
     \<lparr>sfile = CorruptFile ''{'', backups = [], lock_busy = False\<rparr>))) = Inr False"
  by (subst quarantine_and_the_state_file) (simp_all add: is_nonidentifying_def SERVICE_UNIT_MEMBERS_def)

end
