(* ===== verification/PyFs.thy ===== *)
theory PyFs
  imports PyBase
begin

text \<open>
  Paths as \<open>pathlib.PurePosixPath\<close> has them, and a file system: files with their
  content and modification time, the directories that exist, and the paths on which the
  operating system refuses a read or a write (so that every \<open>except\<close> branch of the code
  is reachable in the model). An operation that raises returns \<open>None\<close>. The contract
  that the components use is the locale \<open>file_store\<close>, interpreted on the model here.
\<close>

subsection \<open>Paths\<close>

datatype path = Path (path_abs: bool) (path_parts: "string list")

definition path_of :: "string \<Rightarrow> path" where
  "path_of s = Path (startswith s ''/'')
     (filter (\<lambda>w. w \<noteq> [] \<and> w \<noteq> ''.'') (split_on (CHR ''/'') s))"

definition path_str :: "path \<Rightarrow> string" where
  "path_str p = (if path_abs p then ''/'' @ join_with ''/'' (path_parts p)
     else if path_parts p = [] then ''.'' else join_with ''/'' (path_parts p))"

text \<open>\<open>p / q\<close>: an absolute right side replaces the left one.\<close>

definition path_join :: "path \<Rightarrow> path \<Rightarrow> path" where
  "path_join p q = (if path_abs q then q else Path (path_abs p) (path_parts p @ path_parts q))"

text \<open>\<open>d / n\<close> for a plain file name.\<close>

definition path_child :: "path \<Rightarrow> string \<Rightarrow> path" where
  "path_child d n = Path (path_abs d) (path_parts d @ [n])"

definition path_name :: "path \<Rightarrow> string" where
  "path_name p = (if path_parts p = [] then [] else last (path_parts p))"

definition path_parent :: "path \<Rightarrow> path" where
  "path_parent p = Path (path_abs p) (butlast (path_parts p))"

definition with_name :: "path \<Rightarrow> string \<Rightarrow> path" where
  "with_name p n = path_child (path_parent p) n"

text \<open>
  \<open>p.stem\<close>: the name up to its last dot, when that dot is neither its first nor its
  last character.
\<close>

definition last_dot :: "string \<Rightarrow> nat option" where
  "last_dot s = (if CHR ''.'' \<in> set s
     then Some (length s - 1 - length (takeWhile (\<lambda>c. c \<noteq> CHR ''.'') (rev s))) else None)"

definition name_stem :: "string \<Rightarrow> string" where
  "name_stem s = (case last_dot s of None \<Rightarrow> s
     | Some i \<Rightarrow> if 0 < i \<and> i < length s - 1 then take i s else s)"

definition path_stem :: "path \<Rightarrow> string" where
  "path_stem p = name_stem (path_name p)"

lemma path_name_child [simp]: "path_name (path_child d n) = n"
  by (simp add: path_name_def path_child_def)

lemma path_parent_child [simp]: "path_parent (path_child d n) = d"
  by (simp add: path_parent_def path_child_def)

lemma path_child_inj [simp]: "path_child d n = path_child d' n' \<longleftrightarrow> d = d' \<and> n = n'"
  by (cases d; cases d') (auto simp: path_child_def)

lemma path_child_not_self [simp]: "path_child d n \<noteq> d"
  by (cases d) (auto simp: path_child_def)

lemma path_child_name: "path_parts p \<noteq> [] \<Longrightarrow> path_child (path_parent p) (path_name p) = p"
  by (cases p) (auto simp: path_child_def path_parent_def path_name_def)

text \<open>
  The order of paths, which \<open>sorted\<close> uses: the parts are compared as a list, with the
  root of an absolute path as its first part.
\<close>

definition path_cparts :: "path \<Rightarrow> string list" where
  "path_cparts p = (if path_abs p then ''/'' # path_parts p else path_parts p)"

instantiation path :: linorder
begin

definition less_eq_path :: "path \<Rightarrow> path \<Rightarrow> bool" where
  "less_eq_path p q \<longleftrightarrow> path_cparts p < path_cparts q \<or>
     path_cparts p = path_cparts q \<and> (path_abs p \<longrightarrow> path_abs q)"

definition less_path :: "path \<Rightarrow> path \<Rightarrow> bool" where
  "less_path p q \<longleftrightarrow> p \<le> q \<and> \<not> q \<le> (p :: path)"

instance
proof
  fix p q r :: path
  show "p < q \<longleftrightarrow> p \<le> q \<and> \<not> q \<le> p" by (simp add: less_path_def)
  show "p \<le> p" by (simp add: less_eq_path_def)
  show "p \<le> q \<or> q \<le> p" by (auto simp: less_eq_path_def)
  show "p \<le> q \<Longrightarrow> q \<le> r \<Longrightarrow> p \<le> r"
    by (auto simp: less_eq_path_def)
  show "p \<le> q \<Longrightarrow> q \<le> p \<Longrightarrow> p = q"
    by (cases p; cases q) (auto simp: less_eq_path_def path_cparts_def split: if_splits)
qed

end

subsection \<open>Files\<close>

text \<open>
  What a reader of a file sees: a text that \<open>json.loads\<close> accepts, given by the value
  it reads (this is what \<open>json.dumps\<close> wrote), or any other text.
\<close>

datatype content = Doc json | Text string

text \<open>\<open>json.loads\<close> of a file's text; \<open>None\<close> is the ValueError.\<close>

fun json_loads :: "content \<Rightarrow> json option" where
  "json_loads (Doc j) = Some j"
| "json_loads (Text s) = None"

record fentry =
  body :: content
  mtime :: int

record fs =
  files :: "(path, fentry) dict"
  dirs :: "path list"
  noread :: "path list"
  nowrite :: "path list"

definition fs_get :: "fs \<Rightarrow> path \<Rightarrow> fentry option" where
  "fs_get f p = dget (files f) p"

definition is_file :: "fs \<Rightarrow> path \<Rightarrow> bool" where
  "is_file f p = (fs_get f p \<noteq> None)"

definition is_dir :: "fs \<Rightarrow> path \<Rightarrow> bool" where
  "is_dir f p = (p \<in> set (dirs f))"

definition fs_exists :: "fs \<Rightarrow> path \<Rightarrow> bool" where
  "fs_exists f p = (is_file f p \<or> is_dir f p)"

text \<open>
  \<open>p.stat().st_size\<close>: the bytes of the UTF-8 text; a document is sized by the text that
  \<open>json.dumps\<close> writes by default.
\<close>

definition utf8_size :: "string \<Rightarrow> nat" where
  "utf8_size s = sum_list (map (\<lambda>c. if chr_code c < 128 then 1 else 2) s)"

fun content_size :: "content \<Rightarrow> nat" where
  "content_size (Text s) = utf8_size s"
| "content_size (Doc j) = length (json_dumps j)"

definition content_text :: "content \<Rightarrow> string" where
  "content_text c = (case c of Text s \<Rightarrow> s | Doc j \<Rightarrow> json_dumps j)"

definition read_text :: "fs \<Rightarrow> path \<Rightarrow> content option" where
  "read_text f p = (if p \<in> set (noread f) then None else map_option body (fs_get f p))"

text \<open>\<open>json.loads(p.read_text())\<close>: \<open>None\<close> when either raises.\<close>

definition read_json :: "fs \<Rightarrow> path \<Rightarrow> json option" where
  "read_json f p = Option.bind (read_text f p) json_loads"

text \<open>Storing a file: its directory must exist and neither may be refused.\<close>

definition fs_put :: "path \<Rightarrow> fentry \<Rightarrow> fs \<Rightarrow> fs option" where
  "fs_put p x f =
     (if p \<in> set (nowrite f) \<or> is_dir f p \<or> \<not> is_dir f (path_parent p) then None
      else Some (f\<lparr>files := dput p x (files f)\<rparr>))"

definition write_text :: "int \<Rightarrow> path \<Rightarrow> content \<Rightarrow> fs \<Rightarrow> fs option" where
  "write_text now p c f = fs_put p \<lparr>body = c, mtime = now\<rparr> f"

definition unlink :: "path \<Rightarrow> fs \<Rightarrow> fs option" where
  "unlink p f = (if p \<in> set (nowrite f) \<or> \<not> is_file f p then None
     else Some (f\<lparr>files := ddel p (files f)\<rparr>))"

text \<open>\<open>os.replace(src, dst)\<close>: an existing destination file is overwritten.\<close>

definition fs_replace :: "path \<Rightarrow> path \<Rightarrow> fs \<Rightarrow> fs option" where
  "fs_replace src dst f =
     (case fs_get f src of None \<Rightarrow> None
      | Some x \<Rightarrow>
        (if src \<in> set (nowrite f) \<or> dst \<in> set (nowrite f) \<or> is_dir f dst
            \<or> \<not> is_dir f (path_parent dst) then None
         else Some (f\<lparr>files := dput dst x (ddel src (files f))\<rparr>)))"

text \<open>\<open>p.mkdir(parents=True, exist_ok=True)\<close>.\<close>

definition path_ancestors :: "path \<Rightarrow> path list" where
  "path_ancestors p = map (\<lambda>n. Path (path_abs p) (take n (path_parts p))) [0..<Suc (length (path_parts p))]"

definition mkdirs :: "path \<Rightarrow> fs \<Rightarrow> fs option" where
  "mkdirs p f =
     (if list_ex (\<lambda>q. is_file f q \<or> (q \<in> set (nowrite f) \<and> \<not> is_dir f q)) (path_ancestors p) then None
      else Some (f\<lparr>dirs := remdups (path_ancestors p @ dirs f)\<rparr>))"

text \<open>\<open>d.iterdir()\<close> restricted to files, in the directory's own order.\<close>

definition iterdir_files :: "fs \<Rightarrow> path \<Rightarrow> path list" where
  "iterdir_files f d = filter (\<lambda>p. path_parts p \<noteq> [] \<and> path_parent p = d) (keys (files f))"

subsection \<open>The contract of a file store\<close>

locale file_store =
  fixes fget :: "'s \<Rightarrow> path \<Rightarrow> fentry option"
    and fput :: "path \<Rightarrow> fentry \<Rightarrow> 's \<Rightarrow> 's option"
    and fmove :: "path \<Rightarrow> path \<Rightarrow> 's \<Rightarrow> 's option"
  assumes get_put: "fput p x s = Some t \<Longrightarrow> fget t q = (if q = p then Some x else fget s q)"
    and get_move: "fmove p q s = Some t \<Longrightarrow>
      fget t r = (if r = q then fget s p else if r = p then None else fget s r)"
    and move_source: "fmove p q s = Some t \<Longrightarrow> fget s p \<noteq> None"
begin

text \<open>Writing a temporary file and moving it over the target changes the target only.\<close>

lemma put_then_move:
  assumes "fput tmp x s = Some t" and "fmove tmp p t = Some u"
  shows "fget u r = (if r = p then Some x else if r = tmp then None else fget s r)"
  using get_put [OF assms(1)] get_move [OF assms(2)] by auto

text \<open>A move to a free place loses nothing: the content is at the target.\<close>

lemma move_keeps_content:
  assumes "fmove p q s = Some t" and "fget s q = None \<or> q = p"
  shows "ran (fget t) = ran (fget s)"
proof
  show "ran (fget t) \<subseteq> ran (fget s)"
    by (auto simp: ran_def get_move [OF assms(1)] split: if_splits)
next
  show "ran (fget s) \<subseteq> ran (fget t)"
  proof
    fix x
    assume "x \<in> ran (fget s)"
    then obtain r where r: "fget s r = Some x" by (auto simp: ran_def)
    have "fget t (if r = p then q else r) = Some x"
      using r assms(2) get_move [OF assms(1)] by auto
    then show "x \<in> ran (fget t)" by (auto simp: ran_def)
  qed
qed

end

text \<open>A store that can also delete.\<close>

locale deleting_store = file_store +
  fixes fdel :: "path \<Rightarrow> 's \<Rightarrow> 's option"
  assumes get_del: "fdel p s = Some t \<Longrightarrow> fget t q = (if q = p then None else fget s q)"
    and del_source: "fdel p s = Some t \<Longrightarrow> fget s p \<noteq> None"
begin

lemma put_then_del:
  assumes "fput p x s = Some t" and "fdel q t = Some u" and "p \<noteq> q"
  shows "fget u p = Some x" and "fget u q = None"
  using get_put [OF assms(1)] get_del [OF assms(2)] assms(3) by auto

end

interpretation pfs: deleting_store fs_get fs_put fs_replace unlink
  by unfold_locales
    (auto simp: fs_get_def fs_put_def fs_replace_def unlink_def is_file_def
      split: option.splits if_splits)

lemmas fs_put_get = pfs.get_put
lemmas fs_replace_get = pfs.get_move
lemmas unlink_get = pfs.get_del

lemma write_text_get:
  "write_text now p c f = Some g \<Longrightarrow>
     fs_get g q = (if q = p then Some \<lparr>body = c, mtime = now\<rparr> else fs_get f q)"
  unfolding write_text_def by (rule fs_put_get)

lemma mkdirs_get [simp]: "mkdirs p f = Some g \<Longrightarrow> fs_get g q = fs_get f q"
  by (auto simp: mkdirs_def fs_get_def split: if_splits)

text \<open>What an operation leaves alone: the refusals, and (but for \<open>mkdirs\<close>) the directories.\<close>

lemma fs_put_frame:
  "fs_put p x f = Some g \<Longrightarrow> dirs g = dirs f \<and> noread g = noread f \<and> nowrite g = nowrite f"
  by (auto simp: fs_put_def split: if_splits)

lemma fs_replace_frame:
  "fs_replace p q f = Some g \<Longrightarrow> dirs g = dirs f \<and> noread g = noread f \<and> nowrite g = nowrite f"
  by (auto simp: fs_replace_def split: option.splits if_splits)

lemma unlink_frame:
  "unlink p f = Some g \<Longrightarrow> dirs g = dirs f \<and> noread g = noread f \<and> nowrite g = nowrite f"
  by (auto simp: unlink_def split: if_splits)

lemma mkdirs_frame:
  "mkdirs p f = Some g \<Longrightarrow> noread g = noread f \<and> nowrite g = nowrite f \<and> files g = files f"
  by (auto simp: mkdirs_def split: if_splits)

lemma mkdirs_dir:
  assumes "mkdirs p f = Some g"
  shows "is_dir g p" and "is_dir f q \<Longrightarrow> is_dir g q"
proof -
  have "p \<in> set (path_ancestors p)"
    by (cases p) (force simp: path_ancestors_def)
  with assms show "is_dir g p" and "is_dir f q \<Longrightarrow> is_dir g q"
    by (auto simp: mkdirs_def is_dir_def split: if_splits)
qed

lemma distinct_files_ops:
  "distinct (keys (files f)) \<Longrightarrow> fs_put p x f = Some g \<Longrightarrow> distinct (keys (files g))"
  "distinct (keys (files f)) \<Longrightarrow> fs_replace p q f = Some g \<Longrightarrow> distinct (keys (files g))"
  "distinct (keys (files f)) \<Longrightarrow> unlink p f = Some g \<Longrightarrow> distinct (keys (files g))"
  "distinct (keys (files f)) \<Longrightarrow> mkdirs p f = Some g \<Longrightarrow> distinct (keys (files g))"
  by (auto simp: fs_put_def fs_replace_def unlink_def mkdirs_def split: option.splits if_splits)

lemma iterdir_files_iff:
  "p \<in> set (iterdir_files f d) \<longleftrightarrow> is_file f p \<and> path_parts p \<noteq> [] \<and> path_parent p = d"
  using dhas_keys [of "files f" p]
  by (auto simp: iterdir_files_def is_file_def fs_get_def dhas_def)

subsection \<open>Writing through a temporary file\<close>

text \<open>The shape \<open>tmp.write_text(...); tmp.replace(p)\<close>.\<close>

definition atomic_write :: "int \<Rightarrow> path \<Rightarrow> content \<Rightarrow> fs \<Rightarrow> fs option" where
  "atomic_write now p c f =
     (let tmp = with_name p (path_name p @ ''.tmp'') in
      Option.bind (write_text now tmp c f) (fs_replace tmp p))"

lemma atomic_write_get:
  assumes "atomic_write now p c f = Some g"
  shows "fs_get g q =
    (if q = p then Some \<lparr>body = c, mtime = now\<rparr>
     else if q = with_name p (path_name p @ ''.tmp'') then None else fs_get f q)"
  using assms pfs.put_then_move
  by (auto simp: atomic_write_def Let_def write_text_def split: Option.bind_splits)

lemma atomic_write_frame:
  "atomic_write now p c f = Some g \<Longrightarrow>
     dirs g = dirs f \<and> noread g = noread f \<and> nowrite g = nowrite f"
  unfolding atomic_write_def Let_def write_text_def
  by (cases "fs_put (with_name p (path_name p @ ''.tmp'')) \<lparr>body = c, mtime = now\<rparr> f")
    (use fs_put_frame fs_replace_frame in \<open>fastforce+\<close>)

text \<open>In a directory that exists, with nothing refused, the write succeeds.\<close>

lemma atomic_write_succeeds:
  assumes "is_dir f d" and "nowrite f = []" and "\<not> is_dir f (path_child d n)"
    and "\<not> is_dir f (path_child d (n @ ''.tmp''))"
  shows "\<exists>g. atomic_write now (path_child d n) c f = Some g"
  using assms
  by (simp add: atomic_write_def Let_def write_text_def fs_put_def fs_replace_def with_name_def
      is_dir_def fs_get_def)

subsection \<open>A directory in working order\<close>

text \<open>\<open>d / name\<close> for a name that may hold separators.\<close>

definition dir_file :: "path \<Rightarrow> string \<Rightarrow> path" where
  "dir_file d n = path_join d (path_of n)"

lemma dir_file_plain: "CHR ''/'' \<notin> set n \<Longrightarrow> n \<noteq> [] \<Longrightarrow> n \<noteq> ''.'' \<Longrightarrow> dir_file d n = path_child d n"
  by (cases n) (auto simp: dir_file_def path_join_def path_of_def path_child_def split_on_no_sep startswith_def)

text \<open>A directory whose ancestors exist, with nothing refused and no directory inside it.\<close>

definition work_dir :: "fs \<Rightarrow> path \<Rightarrow> bool" where
  "work_dir f d \<longleftrightarrow> list_all (\<lambda>q. is_dir f q \<and> \<not> is_file f q) (path_ancestors d)
     \<and> noread f = [] \<and> nowrite f = []
     \<and> list_all (\<lambda>q. path_parts q = [] \<or> path_parent q \<noteq> d) (dirs f)"

lemma path_ancestors_self: "p \<in> set (path_ancestors p)"
  by (cases p) (force simp: path_ancestors_def)

lemma path_ancestors_length: "q \<in> set (path_ancestors p) \<Longrightarrow> length (path_parts q) \<le> length (path_parts p)"
  by (auto simp: path_ancestors_def)

lemma child_not_ancestor: "path_child d n \<notin> set (path_ancestors d)"
  using path_ancestors_length [of "path_child d n" d] by (auto simp: path_child_def)

lemma work_dirD:
  assumes "work_dir f d"
  shows "is_dir f d" and "noread f = []" and "nowrite f = []" and "\<not> is_dir f (path_child d n)"
proof -
  show "is_dir f d" "noread f = []" "nowrite f = []"
    using assms path_ancestors_self [of d] by (auto simp: work_dir_def list_all_iff)
  show "\<not> is_dir f (path_child d n)"
  proof
    assume "is_dir f (path_child d n)"
    with assms have "path_parts (path_child d n) = [] \<or> path_parent (path_child d n) \<noteq> d"
      by (auto simp: work_dir_def list_all_iff is_dir_def)
    then show False by (simp add: path_child_def path_parent_def split: path.splits)
  qed
qed

lemma work_dir_same_dirs:
  assumes "work_dir f d" and "dirs g = dirs f \<and> noread g = noread f \<and> nowrite g = nowrite f"
    and "\<And>q. q \<in> set (path_ancestors d) \<Longrightarrow> fs_get g q = fs_get f q"
  shows "work_dir g d"
  using assms by (auto simp: work_dir_def list_all_iff is_dir_def is_file_def)

lemma work_dir_mkdirs:
  assumes "work_dir f d"
  shows "\<exists>g. mkdirs d f = Some g \<and> work_dir g d \<and> files g = files f"
proof -
  have anc: "q \<in> set (path_ancestors d) \<Longrightarrow> is_dir f q \<and> \<not> is_file f q" for q
    using assms by (auto simp: work_dir_def list_all_iff)
  have sub: "set (path_ancestors d) \<subseteq> set (dirs f)"
    using anc by (auto simp: is_dir_def)
  have "mkdirs d f = Some (f\<lparr>dirs := remdups (path_ancestors d @ dirs f)\<rparr>)" (is "_ = Some ?g")
    using anc by (auto simp: mkdirs_def list_ex_iff)
  moreover have "work_dir ?g d"
    using assms sub by (auto simp: work_dir_def list_all_iff is_dir_def is_file_def fs_get_def)
  ultimately show ?thesis by auto
qed

lemma work_dir_write:
  assumes "work_dir f d"
  shows "\<exists>g. write_text now (path_child d n) c f = Some g \<and> work_dir g d"
proof -
  obtain g where g: "write_text now (path_child d n) c f = Some g"
    using work_dirD [OF assms] by (auto simp: write_text_def fs_put_def)
  have "work_dir g d"
  proof (rule work_dir_same_dirs [OF assms])
    show "dirs g = dirs f \<and> noread g = noread f \<and> nowrite g = nowrite f"
      using g unfolding write_text_def by (rule fs_put_frame)
    show "fs_get g q = fs_get f q" if "q \<in> set (path_ancestors d)" for q
      using that child_not_ancestor [of d n] write_text_get [OF g] by auto
  qed
  with g show ?thesis by auto
qed

lemma work_dir_atomic:
  assumes "work_dir f d"
  shows "\<exists>g. atomic_write now (path_child d n) c f = Some g \<and> work_dir g d"
proof -
  obtain g where g: "atomic_write now (path_child d n) c f = Some g"
    using atomic_write_succeeds work_dirD [OF assms] by blast
  have "work_dir g d"
  proof (rule work_dir_same_dirs [OF assms])
    show "dirs g = dirs f \<and> noread g = noread f \<and> nowrite g = nowrite f"
      using g by (rule atomic_write_frame)
    show "fs_get g q = fs_get f q" if "q \<in> set (path_ancestors d)" for q
      using that child_not_ancestor [of d] atomic_write_get [OF g] by (auto simp: with_name_def)
  qed
  with g show ?thesis by auto
qed

lemma work_dir_unlink:
  assumes "work_dir f d" and "is_file f (path_child d n)"
  shows "\<exists>g. unlink (path_child d n) f = Some g \<and> work_dir g d"
proof -
  obtain g where g: "unlink (path_child d n) f = Some g"
    using work_dirD [OF assms(1)] assms(2) by (auto simp: unlink_def)
  have "work_dir g d"
  proof (rule work_dir_same_dirs [OF assms(1)])
    show "dirs g = dirs f \<and> noread g = noread f \<and> nowrite g = nowrite f"
      using g by (rule unlink_frame)
    show "fs_get g q = fs_get f q" if "q \<in> set (path_ancestors d)" for q
      using that child_not_ancestor [of d n] unlink_get [OF g] by auto
  qed
  with g show ?thesis by auto
qed

lemma read_json_get: "noread f = [] \<Longrightarrow> fs_get f p = Some x \<Longrightarrow> read_json f p = json_loads (body x)"
  by (simp add: read_json_def read_text_def)

end
