(* ===== verification/BuildCompletion.thy ===== *)
theory BuildCompletion
  imports PyFs
begin

text \<open>
  \<open>zo_sentinel/build_completion.py\<close>: when a directive counts as built, how one is
  parked for good, and the ghost counter kept beside its sentinels. A directive is the object
  that its JSON file holds. A function that swallows an error returns the file system as
  the error left it; an error that escapes is \<open>None\<close>.
\<close>

definition MIN_OUTPUT_BYTES :: nat where
  "MIN_OUTPUT_BYTES = 32"

definition MAX_GHOST_ATTEMPTS :: int where
  "MAX_GHOST_ATTEMPTS = 3"

definition EDIT_TASK_PREFIXES :: "string list" where
  "EDIT_TASK_PREFIXES = [''wire_'', ''rewire_'', ''unwire_'', ''integrate_'', ''migrate_'',
     ''refactor_'', ''patch_'']"

definition is_edit_task :: "jobj \<Rightarrow> bool" where
  "is_edit_task d =
     (let name = py_str (py_or (jget d ''task'') (py_or (jget d ''directive_id'')
                   (py_or (jget d ''key'') (py_or (jget d ''id'') (JStr [])))))
      in list_ex (startswith name) EDIT_TASK_PREFIXES)"

subsection \<open>Parking\<close>

definition failed_path :: "path \<Rightarrow> string \<Rightarrow> path" where
  "failed_path d did = dir_file d (did @ ''.failed.json'')"

definition done_path :: "path \<Rightarrow> string \<Rightarrow> path" where
  "done_path d did = dir_file d (did @ ''.done.json'')"

text \<open>A directory given as \<open>None\<close> raises inside the loop and is passed over.\<close>

fun failed_quarantined :: "fs \<Rightarrow> string \<Rightarrow> path option list \<Rightarrow> bool" where
  "failed_quarantined f did [] = False"
| "failed_quarantined f did (None # ds) = failed_quarantined f did ds"
| "failed_quarantined f did (Some d # ds) =
     (fs_exists f (failed_path d did) \<or> failed_quarantined f did ds)"

definition park_payload :: "string \<Rightarrow> string \<Rightarrow> string \<Rightarrow> content" where
  "park_payload did reason whn = Doc (JObj [(''directive_id'', JStr did),
     (''reason'', JStr reason), (''failed_at'', JStr whn)])"

definition park_one :: "int \<Rightarrow> string \<Rightarrow> content \<Rightarrow> path option \<Rightarrow> bool \<times> fs \<Rightarrow> bool \<times> fs" where
  "park_one now did payload od st =
     (case od of None \<Rightarrow> st
      | Some d \<Rightarrow>
        (case mkdirs d (snd st) of None \<Rightarrow> st
         | Some f1 \<Rightarrow>
           (case write_text now (failed_path d did) payload f1 of
              None \<Rightarrow> (fst st, f1) | Some f2 \<Rightarrow> (True, f2))))"

definition park_directive :: "int \<Rightarrow> string \<Rightarrow> string \<Rightarrow> string \<Rightarrow> path \<Rightarrow> path option \<Rightarrow> fs \<Rightarrow> bool \<times> fs" where
  "park_directive now did reason whn directives_dir durable_dir f =
     (let payload = park_payload did reason whn;
          (wrote, f1) = fold (park_one now did payload) [Some directives_dir, durable_dir] (False, f);
          stale = done_path directives_dir did
      in (wrote,
          if fs_exists f1 stale then (case unlink stale f1 of None \<Rightarrow> f1 | Some f2 \<Rightarrow> f2) else f1))"

subsection \<open>Declared outputs\<close>

definition doubled_prefix :: "string \<Rightarrow> bool" where
  "doubled_prefix stem =
     (case filter (\<lambda>p. p \<noteq> []) (split_on (CHR ''_'') stem) of a # b # _ \<Rightarrow> a = b | _ \<Rightarrow> False)"

definition malformed_reason :: "string \<Rightarrow> string" where
  "malformed_reason stem = ''malformed output_file (doubled leading prefix): '' @ repr_str stem"

definition output_file_is_sane :: "json \<Rightarrow> bool \<times> string" where
  "output_file_is_sane v =
     (case v of
        JStr out \<Rightarrow>
          (if out = [] then (True, ''ok'')
           else (let stem = path_stem (path_of out)
                 in if doubled_prefix stem then (False, malformed_reason stem) else (True, ''ok'')))
      | _ \<Rightarrow> (True, ''ok''))"

definition declared_output :: "jobj \<Rightarrow> path \<Rightarrow> path option" where
  "declared_output d home =
     (if is_edit_task d then None
      else (case py_or (jget d ''output_file'') (jget d ''target_file'') of
              JStr out \<Rightarrow>
                (if out = [] then None
                 else let p = path_of out in Some (if path_abs p then p else path_join home (path_of out)))
            | _ \<Rightarrow> None))"

definition output_present :: "fs \<Rightarrow> path \<Rightarrow> nat \<Rightarrow> bool" where
  "output_present f p min_bytes =
     (case fs_get f p of None \<Rightarrow> False | Some x \<Rightarrow> content_size (body x) \<ge> min_bytes)"

definition output_confirmed :: "fs \<Rightarrow> jobj \<Rightarrow> path \<Rightarrow> nat \<Rightarrow> bool" where
  "output_confirmed f d home min_bytes =
     (case declared_output d home of None \<Rightarrow> True | Some p \<Rightarrow> output_present f p min_bytes)"

text \<open>One entry of \<open>requires\<close>: what is not a nonblank string is passed over.\<close>

definition missing_require :: "fs \<Rightarrow> path \<Rightarrow> json \<Rightarrow> string option" where
  "missing_require f home v =
     (case v of
        JStr rel \<Rightarrow>
          (if strip rel = [] then None
           else let p = path_of rel;
                    q = (if path_abs p then p else path_join home (path_of rel))
                in if output_present f q MIN_OUTPUT_BYTES then None else Some rel)
      | _ \<Rightarrow> None)"

definition unmet_requires :: "fs \<Rightarrow> jobj \<Rightarrow> path \<Rightarrow> string list" where
  "unmet_requires f d home =
     (case jget d ''requires'' of JList req \<Rightarrow> List.map_filter (missing_require f home) req | _ \<Rightarrow> [])"

text \<open>
  \<open>workspace_diff_state\<close>: \<open>git\<close> runs a command and gives its exit code and output,
  or nothing when it cannot be run; \<open>sha\<close> is the digest of a text.
\<close>

definition bytes_blank :: "string \<Rightarrow> bool" where
  "bytes_blank s = list_all (\<lambda>c. let n = chr_code c in (9 \<le> n \<and> n \<le> 13) \<or> n = 32) s"

definition workspace_diff_state ::
    "(string list \<Rightarrow> (int \<times> string) option) \<Rightarrow> (string \<Rightarrow> string) \<Rightarrow> (string \<times> bool) option" where
  "workspace_diff_state git sha =
     (case git [''git'', ''status'', ''--porcelain''] of None \<Rightarrow> None
      | Some (rc, o1) \<Rightarrow> if rc \<noteq> 0 then None else
        (case git [''git'', ''diff'', ''HEAD''] of None \<Rightarrow> None
         | Some (rc2, o2) \<Rightarrow> if rc2 \<noteq> 0 then None else
           Some (sha (o1 @ [CHR 0x00] @ o2 @ [CHR 0x00]), \<not> bytes_blank o1 \<or> \<not> bytes_blank o2)))"

subsection \<open>Ghost attempts\<close>

definition ghost_path :: "path \<Rightarrow> string \<Rightarrow> path" where
  "ghost_path d did = dir_file d (did @ ''.ghost.json'')"

text \<open>A sidecar that holds something else than an object raises past the handler.\<close>

definition ghost_attempts :: "fs \<Rightarrow> path \<Rightarrow> string \<Rightarrow> int option" where
  "ghost_attempts f d did =
     (case read_json f (ghost_path d did) of None \<Rightarrow> Some 0
      | Some (JObj x) \<Rightarrow> (case py_int (jget_or x ''attempts'' (JInt 0)) of None \<Rightarrow> Some 0 | Some n \<Rightarrow> Some n)
      | Some _ \<Rightarrow> None)"

definition bump_ghost :: "int \<Rightarrow> path \<Rightarrow> string \<Rightarrow> string \<Rightarrow> fs \<Rightarrow> (int \<times> fs) option" where
  "bump_ghost now d did whn f =
     (case ghost_attempts f d did of None \<Rightarrow> None
      | Some m \<Rightarrow> (let n = m + 1 in Some (n,
          (case write_text now (ghost_path d did)
                  (Doc (JObj [(''attempts'', JInt n), (''last'', JStr whn)])) f of
             None \<Rightarrow> f | Some g \<Rightarrow> g))))"

definition clear_ghost :: "path \<Rightarrow> string \<Rightarrow> fs \<Rightarrow> fs" where
  "clear_ghost d did f = (case unlink (ghost_path d did) f of None \<Rightarrow> f | Some g \<Rightarrow> g)"

subsection \<open>Sentinels\<close>

definition plain_id :: "string \<Rightarrow> bool" where
  "plain_id did = (CHR ''/'' \<notin> set did)"

lemma sentinel_paths:
  assumes "plain_id did"
  shows "failed_path d did = path_child d (did @ ''.failed.json'')"
    and "done_path d did = path_child d (did @ ''.done.json'')"
    and "ghost_path d did = path_child d (did @ ''.ghost.json'')"
  using assms
  by (auto simp: failed_path_def done_path_def ghost_path_def plain_id_def append_eq_Cons_conv
      intro!: dir_file_plain)

lemma failed_quarantined_iff:
  "failed_quarantined f did ds \<longleftrightarrow> (\<exists>d. Some d \<in> set ds \<and> fs_exists f (failed_path d did))"
  by (induction f did ds rule: failed_quarantined.induct) auto

lemma fs_exists_mono:
  assumes "fs_exists f p" and "\<And>q. fs_get f q \<noteq> None \<Longrightarrow> fs_get g q \<noteq> None"
    and "\<And>q. is_dir f q \<Longrightarrow> is_dir g q"
  shows "fs_exists g p"
  using assms by (auto simp: fs_exists_def is_file_def)

text \<open>A step of parking never removes a file or a directory; the sentinel it reports is there.\<close>

lemma park_one_spec:
  assumes "park_one now did payload od (w, f) = (w', g)"
  shows "fs_exists f p \<Longrightarrow> fs_exists g p"
    and "w \<Longrightarrow> w'"
    and "w' \<Longrightarrow> \<not> w \<Longrightarrow> \<exists>d. od = Some d \<and> fs_exists g (failed_path d did)"
proof -
  have "(fs_exists f p \<longrightarrow> fs_exists g p) \<and> (w \<longrightarrow> w') \<and>
      (w' \<longrightarrow> \<not> w \<longrightarrow> (\<exists>d. od = Some d \<and> fs_exists g (failed_path d did)))"
  proof (cases od)
    case None
    with assms show ?thesis by (simp add: park_one_def)
  next
    case (Some d)
    show ?thesis
    proof (cases "mkdirs d f")
      case None
      with assms Some show ?thesis by (simp add: park_one_def)
    next
      case (Some f1)
      note f1 = this
      have keep1: "fs_exists f p \<Longrightarrow> fs_exists f1 p"
        by (erule fs_exists_mono) (auto simp: mkdirs_get [OF f1] mkdirs_dir(2) [OF f1])
      show ?thesis
      proof (cases "write_text now (failed_path d did) payload f1")
        case None
        with assms \<open>od = Some d\<close> f1 keep1 show ?thesis by (auto simp: park_one_def)
      next
        case (Some f2)
        with assms \<open>od = Some d\<close> f1 have g: "w' = True" "g = f2" by (auto simp: park_one_def)
        have dirs: "dirs f2 = dirs f1"
          using Some unfolding write_text_def by (auto dest: fs_put_frame)
        have "fs_exists f1 p \<Longrightarrow> fs_exists f2 p"
          by (erule fs_exists_mono) (auto simp: write_text_get [OF Some] is_dir_def dirs split: if_splits)
        moreover have "fs_exists f2 (failed_path d did)"
          by (simp add: fs_exists_def is_file_def write_text_get [OF Some])
        ultimately show ?thesis using keep1 g \<open>od = Some d\<close> by auto
      qed
    qed
  qed
  then show "fs_exists f p \<Longrightarrow> fs_exists g p" and "w \<Longrightarrow> w'"
    and "w' \<Longrightarrow> \<not> w \<Longrightarrow> \<exists>d. od = Some d \<and> fs_exists g (failed_path d did)"
    by blast+
qed

lemma failed_not_done: "failed_path d did \<noteq> done_path d' did" if "plain_id did"
  using that by (simp add: sentinel_paths)

lemma fs_exists_unlink_other:
  "unlink q f = Some g \<Longrightarrow> p \<noteq> q \<Longrightarrow> fs_exists f p \<Longrightarrow> fs_exists g p"
  using unlink_get [of q f g p] unlink_frame [of q f g]
  by (auto simp: fs_exists_def is_file_def is_dir_def)

lemma park_directive_sentinel:
  assumes "park_directive now did reason whn dd du f = (True, g)" and "plain_id did"
  shows "failed_quarantined g did [Some dd, du]"
proof -
  let ?pl = "park_payload did reason whn"
  obtain w1 f1 where s1: "park_one now did ?pl (Some dd) (False, f) = (w1, f1)" by fastforce
  obtain w2 f2 where s2: "park_one now did ?pl du (w1, f1) = (w2, f2)" by fastforce
  have w2: w2 and g: "g = (if fs_exists f2 (done_path dd did)
      then (case unlink (done_path dd did) f2 of None \<Rightarrow> f2 | Some f3 \<Rightarrow> f3) else f2)"
    using assms(1) by (auto simp: park_directive_def s1 s2 Let_def split: if_splits)
  have "\<exists>d. Some d \<in> {Some dd, du} \<and> fs_exists f2 (failed_path d did)"
    using park_one_spec(1,3) [OF s2] park_one_spec(3) [OF s1] w2 by blast
  then obtain d where d: "Some d \<in> {Some dd, du}" "fs_exists f2 (failed_path d did)" by blast
  have "fs_exists g (failed_path d did)"
    using d(2) failed_not_done [OF assms(2), of d dd] fs_exists_unlink_other
    by (auto simp: g split: option.splits)
  with d(1) show ?thesis by (auto simp: failed_quarantined_iff)
qed

text \<open>In a working directory parking succeeds, writes the payload and drops the stale success.\<close>

lemma park_directive_works:
  assumes "work_dir f dd" and "plain_id did"
  shows "\<exists>g. park_directive now did reason whn dd None f = (True, g) \<and> work_dir g dd
    \<and> fs_get g (failed_path dd did) = Some \<lparr>body = park_payload did reason whn, mtime = now\<rparr>
    \<and> \<not> fs_exists g (done_path dd did)"
proof -
  note sp = sentinel_paths [OF assms(2)]
  obtain f1 where f1: "mkdirs dd f = Some f1" "work_dir f1 dd"
    using work_dir_mkdirs [OF assms(1)] by blast
  obtain f2 where f2: "write_text now (failed_path dd did) (park_payload did reason whn) f1 = Some f2"
      "work_dir f2 dd"
    using work_dir_write [OF f1(2)] unfolding sp by blast
  have steps: "fold (park_one now did (park_payload did reason whn)) [Some dd, None] (False, f) = (True, f2)"
    by (simp add: park_one_def f1 f2)
  show ?thesis
  proof (cases "fs_exists f2 (done_path dd did)")
    case False
    then show ?thesis
      using write_text_get [OF f2(1)] f2(2) steps by (auto simp: park_directive_def)
  next
    case True
    then have "is_file f2 (done_path dd did)"
      using work_dirD(4) [OF f2(2)] by (auto simp: fs_exists_def sp)
    then obtain f3 where f3: "unlink (done_path dd did) f2 = Some f3" "work_dir f3 dd"
      using work_dir_unlink [OF f2(2)] by (auto simp: sp)
    have "\<not> fs_exists f3 (done_path dd did)"
      using unlink_get [OF f3(1)] work_dirD(4) [OF f3(2)] by (simp add: fs_exists_def is_file_def sp)
    moreover have "fs_get f3 (failed_path dd did) = Some \<lparr>body = park_payload did reason whn, mtime = now\<rparr>"
      using unlink_get [OF f3(1)] write_text_get [OF f2(1)] by (simp add: sp)
    ultimately show ?thesis using True f3 steps by (auto simp: park_directive_def)
  qed
qed

subsection \<open>The counter\<close>

lemma ghost_round:
  assumes "work_dir f d" and "plain_id did" and "ghost_attempts f d did = Some n"
  shows "\<exists>g. bump_ghost now d did whn f = Some (n + 1, g) \<and> work_dir g d
    \<and> ghost_attempts g d did = Some (n + 1)"
proof -
  let ?c = "Doc (JObj [(''attempts'', JInt (n + 1)), (''last'', JStr whn)])"
  obtain g where g: "write_text now (ghost_path d did) ?c f = Some g" "work_dir g d"
    using work_dir_write [OF assms(1)] unfolding sentinel_paths [OF assms(2)] by blast
  have "read_json g (ghost_path d did) = Some (JObj [(''attempts'', JInt (n + 1)), (''last'', JStr whn)])"
    using read_json_get [OF work_dirD(2) [OF g(2)]] write_text_get [OF g(1)] by simp
  then have "ghost_attempts g d did = Some (n + 1)" by (simp add: ghost_attempts_def)
  with g assms(3) show ?thesis by (simp add: bump_ghost_def Let_def)
qed

fun bump_times :: "nat \<Rightarrow> int \<Rightarrow> path \<Rightarrow> string \<Rightarrow> string \<Rightarrow> fs \<Rightarrow> fs option" where
  "bump_times 0 now d did whn f = Some f"
| "bump_times (Suc k) now d did whn f =
     Option.bind (bump_ghost now d did whn f) (\<lambda>r. bump_times k now d did whn (snd r))"

lemma ghost_rounds:
  assumes "work_dir f d" and "plain_id did" and "ghost_attempts f d did = Some n"
  shows "\<exists>g. bump_times k now d did whn f = Some g \<and> work_dir g d
    \<and> ghost_attempts g d did = Some (n + int k)"
  using assms
proof (induction k arbitrary: f n)
  case (Suc k)
  obtain g where g: "bump_ghost now d did whn f = Some (n + 1, g)" "work_dir g d"
      "ghost_attempts g d did = Some (n + 1)"
    using ghost_round [OF Suc.prems] by blast
  from Suc.IH [OF g(2) Suc.prems(2) g(3)] g(1) show ?case by (auto simp: algebra_simps)
qed auto

lemma clear_ghost_zero:
  assumes "work_dir f d" and "plain_id did"
  shows "work_dir (clear_ghost d did f) d \<and> ghost_attempts (clear_ghost d did f) d did = Some 0"
proof (cases "is_file f (ghost_path d did)")
  case True
  then obtain g where g: "unlink (ghost_path d did) f = Some g" "work_dir g d"
    using work_dir_unlink [OF assms(1)] by (auto simp: sentinel_paths [OF assms(2)])
  then show ?thesis
    using unlink_get [OF g(1), of "ghost_path d did"]
    by (simp add: clear_ghost_def ghost_attempts_def read_json_def read_text_def)
next
  case False
  then have "clear_ghost d did f = f" by (simp add: clear_ghost_def unlink_def)
  with False assms(1) show ?thesis
    by (simp add: ghost_attempts_def read_json_def read_text_def is_file_def)
qed

lemma missing_require_iff:
  "missing_require f home v = Some r \<longleftrightarrow> (\<exists>rel. v = JStr rel \<and> r = rel \<and> strip rel \<noteq> [] \<and>
     \<not> output_present f (path_join home (path_of rel)) MIN_OUTPUT_BYTES)"
  by (auto simp: missing_require_def path_join_def Let_def split: json.splits if_splits)

subsection \<open>Properties\<close>

text \<open>In a working directory parking a directive writes its failure sentinel, and a stale
  success sentinel of the same directive is gone, so that no later reader takes it for built.\<close>

theorem parking_is_durable_and_honest:
  assumes "work_dir f dd" and "plain_id did"
  shows "\<exists>g. park_directive now did reason whn dd None f = (True, g)
    \<and> failed_quarantined g did [Some dd] \<and> \<not> fs_exists g (done_path dd did)"
  using park_directive_works [OF assms] by (fastforce simp: fs_exists_def is_file_def)

theorem parking_is_durable_and_honest_witness:
  "\<exists>g. park_directive 7 ''m1'' ''hollow'' ''t'' (path_of ''/d'') None
      \<lparr>files = [(path_of ''/d/m1.done.json'', \<lparr>body = Doc JNull, mtime = 1\<rparr>)],
       dirs = [path_of ''/'', path_of ''/d''], noread = [], nowrite = []\<rparr> = (True, g)
    \<and> failed_quarantined g ''m1'' [Some (path_of ''/d'')] \<and> \<not> fs_exists g (done_path (path_of ''/d'') ''m1'')"
  by (rule parking_is_durable_and_honest) code_simp+

text \<open>The ghost counter counts: after \<open>k\<close> bumps it reads \<open>k\<close> more than before, so the
  cap is reached after exactly \<open>MAX_GHOST_ATTEMPTS\<close> ghost runs, and clearing it sets it back to
  zero.\<close>

theorem ghost_counter_counts:
  assumes "work_dir f d" and "plain_id did" and "ghost_attempts f d did = Some n"
  shows "\<exists>g. bump_times k now d did whn f = Some g \<and> ghost_attempts g d did = Some (n + int k)
    \<and> ghost_attempts (clear_ghost d did g) d did = Some 0"
  using ghost_rounds [OF assms] clear_ghost_zero assms(2) by blast

theorem ghost_counter_counts_witness:
  "\<exists>g. bump_times 3 7 (path_of ''/d'') ''m1'' ''t''
      \<lparr>files = [], dirs = [path_of ''/'', path_of ''/d''], noread = [], nowrite = []\<rparr> = Some g
    \<and> ghost_attempts g (path_of ''/d'') ''m1'' = Some (0 + int 3)
    \<and> ghost_attempts (clear_ghost (path_of ''/d'') ''m1'' g) (path_of ''/d'') ''m1'' = Some 0"
  by (rule ghost_counter_counts) code_simp+

text \<open>A directive is unconfirmed exactly when it is not an edit task and names an output
  file that is absent or smaller than the minimum; and nothing of \<open>requires\<close> is reported
  missing exactly when every nonblank path in it is a file of that size.\<close>

theorem output_confirmed_and_requires:
  "(\<not> output_confirmed f d home n \<longleftrightarrow>
      \<not> is_edit_task d \<and> (\<exists>out. py_or (jget d ''output_file'') (jget d ''target_file'') = JStr out \<and>
        out \<noteq> [] \<and> \<not> output_present f (path_join home (path_of out)) n))
   \<and> (unmet_requires f d home = [] \<longleftrightarrow>
      \<not> (\<exists>req rel. jget d ''requires'' = JList req \<and> JStr rel \<in> set req \<and> strip rel \<noteq> [] \<and>
        \<not> output_present f (path_join home (path_of rel)) MIN_OUTPUT_BYTES))"
proof
  show "\<not> output_confirmed f d home n \<longleftrightarrow>
      \<not> is_edit_task d \<and> (\<exists>out. py_or (jget d ''output_file'') (jget d ''target_file'') = JStr out \<and>
        out \<noteq> [] \<and> \<not> output_present f (path_join home (path_of out)) n)"
    by (auto simp: output_confirmed_def declared_output_def path_join_def Let_def split: json.splits)
  have "List.map_filter g xs = [] \<longleftrightarrow> (\<forall>x \<in> set xs. g x = None)" for g :: "json \<Rightarrow> string option" and xs
    by (induction xs) (auto simp: List.map_filter_simps split: option.splits)
  then show "unmet_requires f d home = [] \<longleftrightarrow>
      \<not> (\<exists>req rel. jget d ''requires'' = JList req \<and> JStr rel \<in> set req \<and> strip rel \<noteq> [] \<and>
        \<not> output_present f (path_join home (path_of rel)) MIN_OUTPUT_BYTES)"
    by (auto simp: unmet_requires_def missing_require_iff not_Some_eq [symmetric] simp del: not_Some_eq
        split: json.splits)
qed

end
