(* ===== verification/BuildLessons.thy ===== *)
theory BuildLessons
  imports PyFs PyRegex
begin

text \<open>
  \<open>zo_sentinel/build_lessons.py\<close>: one JSON file per subject in which a build that gave up
  leaves a lesson and a later success resolves it. Every function swallows its errors; a state
  is returned as the last successful write left it.
\<close>

definition safe_char :: "char \<Rightarrow> bool" where
  "safe_char c = (is_alpha_ascii c \<or> is_digit c \<or> c = CHR ''.'' \<or> c = CHR ''_'' \<or> c = CHR ''-'')"

definition safe_name :: "string \<Rightarrow> string" where
  "safe_name subject =
     (let s = re_sub_runs (\<lambda>c. \<not> safe_char c) ''_'' (strip subject)
      in take 120 (if s \<noteq> [] then s else ''unknown''))"

definition lesson_path :: "path \<Rightarrow> string \<Rightarrow> path" where
  "lesson_path d subject = dir_file d (safe_name subject @ ''.json'')"

text \<open>\<open>json.loads(...) or {}\<close>, for an object; other values make the next call raise.\<close>

definition loaded_obj :: "json \<Rightarrow> jobj option" where
  "loaded_obj v = (case py_or v (JObj []) of JObj x \<Rightarrow> Some x | _ \<Rightarrow> None)"

definition put_default :: "string \<Rightarrow> json \<Rightarrow> jobj \<Rightarrow> jobj" where
  "put_default k v x = dsetdefault k v x"

definition lesson_update :: "string \<Rightarrow> string \<Rightarrow> string \<Rightarrow> string \<Rightarrow> int \<Rightarrow> string \<Rightarrow> jobj \<Rightarrow> jobj option" where
  "lesson_update subject did task_type observation severity whn l0 =
     (let l1 = put_default ''first_seen'' (JStr whn) (put_default ''subject_ref'' (JStr subject) l0);
          l2 = (if jget l1 ''status'' = JStr ''resolved'' then ddel ''resolved_at'' l1 else l1);
          l3 = dput ''status'' (JStr ''open'') (dput ''severity'' (JInt severity)
                 (dput ''observation'' (JStr observation) (dput ''task_type'' (JStr task_type)
                   (dput ''directive_id'' (JStr did) l2))))
      in (case py_int (jget_or l3 ''recurrence'' (JInt 0)) of None \<Rightarrow> None
          | Some n \<Rightarrow> Some (dput ''last_seen'' (JStr whn) (dput ''recurrence'' (JInt (n + 1)) l3))))"

definition record_lesson :: "int \<Rightarrow> path \<Rightarrow> string \<Rightarrow> string \<Rightarrow> string \<Rightarrow> string \<Rightarrow> int \<Rightarrow> string \<Rightarrow>
    fs \<Rightarrow> jobj \<times> fs" where
  "record_lesson now d subject did task_type observation severity whn f =
     (let p = lesson_path d subject in
      case mkdirs d f of None \<Rightarrow> ([], f)
      | Some f1 \<Rightarrow>
        (let loaded = (if fs_exists f1 p
               then (case read_json f1 p of None \<Rightarrow> Some [] | Some v \<Rightarrow> loaded_obj v) else Some [])
         in (case Option.bind loaded (lesson_update subject did task_type observation severity whn) of
               None \<Rightarrow> ([], f1)
             | Some l \<Rightarrow>
               (case atomic_write now p (Doc (JObj l)) f1 of None \<Rightarrow> ([], f1) | Some f2 \<Rightarrow> (l, f2)))))"

definition resolve_lessons :: "int \<Rightarrow> path \<Rightarrow> string \<Rightarrow> string \<Rightarrow> fs \<Rightarrow> bool \<times> fs" where
  "resolve_lessons now d subject whn f =
     (let p = lesson_path d subject in
      if \<not> fs_exists f p then (False, f)
      else (case Option.bind (read_json f p) loaded_obj of None \<Rightarrow> (False, f)
        | Some l \<Rightarrow>
          (if jget l ''status'' = JStr ''resolved'' then (False, f)
           else (case atomic_write now p
                   (Doc (JObj (dput ''resolved_at'' (JStr whn) (dput ''status'' (JStr ''resolved'') l)))) f of
                   None \<Rightarrow> (False, f) | Some g \<Rightarrow> (True, g)))))"

definition open_lessons_for :: "fs \<Rightarrow> path \<Rightarrow> string \<Rightarrow> jobj list" where
  "open_lessons_for f d subject =
     (let p = lesson_path d subject in
      if \<not> fs_exists f p then []
      else (case Option.bind (read_json f p) loaded_obj of None \<Rightarrow> []
        | Some l \<Rightarrow> if jget l ''status'' = JStr ''open'' then [l] else []))"

definition lesson_line :: "jobj \<Rightarrow> string" where
  "lesson_line l = ''  - ['' @ py_str (jget_or l ''task_type'' (JStr ''failure'')) @ ''] failed '' @
     py_str (jget_or l ''recurrence'' (JInt 1)) @ ''x: '' @
     take 200 (py_str (jget_or l ''observation'' (JStr [])))"

definition format_lessons_context :: "jobj list \<Rightarrow> string \<Rightarrow> string" where
  "format_lessons_context ls subject =
     (if ls = [] then []
      else ''PRIOR BUILD FAILURES on '' @ subject @ '' (a previous attempt '' @
        ''GHOSTED here -- diagnose and FIX the root cause below or this build will '' @
        ''fail the same way; do not retry blindly):'' @ [newline] @
        join_with [newline] (map lesson_line (take 3 ls)))"

subsection \<open>The file of a subject\<close>

lemma safe_name_chars:
  shows "list_all safe_char (safe_name s)" and "safe_name s \<noteq> []" and "length (safe_name s) \<le> 120"
proof -
  have c: "\<not> safe_char (CHR ''/'')" "safe_char (CHR ''_'')" "list_all safe_char ''unknown''"
    by code_simp+
  have "list_all (\<lambda>c. \<not> \<not> safe_char c) (sub_runs (\<lambda>c. \<not> safe_char c) ''_'' False (strip s))"
    by (rule sub_runs_clean) (simp add: c)
  then show "list_all safe_char (safe_name s)"
    using c(3) by (auto simp: safe_name_def Let_def re_sub_runs_def list_all_iff dest: in_set_takeD)
  show "safe_name s \<noteq> []" and "length (safe_name s) \<le> 120"
    by (simp_all add: safe_name_def Let_def)
qed

lemma lesson_path_child [simp]: "lesson_path d s = path_child d (safe_name s @ ''.json'')"
proof -
  have "\<not> safe_char (CHR ''/'')" by code_simp
  then have "CHR ''/'' \<notin> set (safe_name s)"
    using safe_name_chars(1) [of s] by (auto simp: list_all_iff)
  then show ?thesis
    unfolding lesson_path_def by (intro dir_file_plain) (auto simp: append_eq_Cons_conv)
qed

lemma no_dir_child: "work_dir f d \<Longrightarrow> fs_exists f (path_child d n) = is_file f (path_child d n)"
  using work_dirD(4) [of f d n] by (simp add: fs_exists_def)

text \<open>The object a subject's file holds; the empty one when there is none or it is unreadable.\<close>

definition stored_lesson :: "fs \<Rightarrow> path \<Rightarrow> string \<Rightarrow> jobj option" where
  "stored_lesson f d s = (case read_json f (lesson_path d s) of None \<Rightarrow> Some [] | Some v \<Rightarrow> loaded_obj v)"

lemma read_missing: "\<not> is_file f p \<Longrightarrow> read_json f p = None"
  by (simp add: is_file_def read_json_def read_text_def split: if_splits)

lemma atomic_lesson:
  assumes "work_dir f d"
  shows "\<exists>g. atomic_write now (path_child d n) (Doc (JObj l)) f = Some g \<and> work_dir g d
    \<and> read_json g (path_child d n) = Some (JObj l)
    \<and> is_file g (path_child d n)
    \<and> (\<forall>m. m \<noteq> n \<longrightarrow> m \<noteq> n @ ''.tmp'' \<longrightarrow> fs_get g (path_child d m) = fs_get f (path_child d m))"
proof -
  obtain g where g: "atomic_write now (path_child d n) (Doc (JObj l)) f = Some g" "work_dir g d"
    using work_dir_atomic [OF assms] by blast
  note get = atomic_write_get [OF g(1)]
  show ?thesis
    using g read_json_get [OF work_dirD(2) [OF g(2)]] get
    by (intro exI [of _ g]) (auto simp: is_file_def with_name_def)
qed

lemma lesson_update_fields:
  assumes "lesson_update s did tt ob sv w l = Some l'"
  shows "jget l' ''status'' = JStr ''open''" and "jget l' ''observation'' = JStr ob"
    and "jget l' ''directive_id'' = JStr did" and "jget l' ''task_type'' = JStr tt"
    and "jget l' ''last_seen'' = JStr w"
    and "\<exists>n. py_int (jget_or l ''recurrence'' (JInt 0)) = Some n \<and> jget l' ''recurrence'' = JInt (n + 1)"
    and "jget l ''status'' = JStr ''resolved'' \<Longrightarrow> \<not> dhas l' ''resolved_at''"
    and "l' \<noteq> []"
proof -
  note defs = lesson_update_def Let_def put_default_def
  have "dput k v x \<noteq> []" for k v and x :: jobj
    by (cases x) (auto simp: dput_def)
  then show "l' \<noteq> []" using assms by (auto simp: defs split: option.splits)
  show "jget l' ''status'' = JStr ''open''" "jget l' ''observation'' = JStr ob"
    "jget l' ''directive_id'' = JStr did" "jget l' ''task_type'' = JStr tt" "jget l' ''last_seen'' = JStr w"
    using assms by (auto simp: defs split: option.splits)
  show "\<exists>n. py_int (jget_or l ''recurrence'' (JInt 0)) = Some n \<and> jget l' ''recurrence'' = JInt (n + 1)"
    using assms by (auto simp: defs split: option.splits if_splits)
  show "jget l ''status'' = JStr ''resolved'' \<Longrightarrow> \<not> dhas l' ''resolved_at''"
    using assms by (auto simp: defs split: option.splits)
qed

lemma lesson_update_succeeds:
  "py_int (jget_or l ''recurrence'' (JInt 0)) = Some n \<Longrightarrow> \<exists>l'. lesson_update s did tt ob sv w l = Some l'"
  by (auto simp: lesson_update_def Let_def put_default_def)

lemma loaded_obj_JObj [simp]: "loaded_obj (JObj l) = Some l"
  by (simp add: loaded_obj_def py_or_def)

lemma record_lesson_stores:
  assumes "work_dir f d" and "stored_lesson f d s = Some l"
    and "py_int (jget_or l ''recurrence'' (JInt 0)) = Some n"
  shows "\<exists>l' g. record_lesson now d s did tt ob sv w f = (l', g) \<and> work_dir g d
    \<and> lesson_update s did tt ob sv w l = Some l' \<and> open_lessons_for g d s = [l']
    \<and> stored_lesson g d s = Some l'"
proof -
  let ?n = "safe_name s @ ''.json''"
  obtain f1 where f1: "mkdirs d f = Some f1" "work_dir f1 d" "files f1 = files f"
    using work_dir_mkdirs [OF assms(1)] by blast
  have noread: "noread f1 = []" "noread f = []"
    using work_dirD(2) f1(2) assms(1) by blast+
  have same: "read_json f1 p = read_json f p" for p
    using f1(3) noread by (simp add: read_json_def read_text_def fs_get_def)
  have loaded: "(if fs_exists f1 (lesson_path d s)
      then (case read_json f1 (lesson_path d s) of None \<Rightarrow> Some [] | Some v \<Rightarrow> loaded_obj v)
      else Some []) = Some l"
    using assms(2) read_missing [of f1 "path_child d ?n"]
    by (auto simp: stored_lesson_def no_dir_child [OF f1(2)] same split: if_splits)
  obtain l' where l': "lesson_update s did tt ob sv w l = Some l'"
    using lesson_update_succeeds [OF assms(3)] by blast
  obtain g where g: "atomic_write now (path_child d ?n) (Doc (JObj l')) f1 = Some g" "work_dir g d"
      "read_json g (path_child d ?n) = Some (JObj l')" "is_file g (path_child d ?n)"
    using atomic_lesson [OF f1(2)] by blast
  have "open_lessons_for g d s = [l']" and "stored_lesson g d s = Some l'"
    using g lesson_update_fields(1) [OF l']
    by (simp_all add: open_lessons_for_def stored_lesson_def Let_def no_dir_child)
  moreover have "record_lesson now d s did tt ob sv w f = (l', g)"
    using l' g(1) unfolding record_lesson_def Let_def f1(1)
    by (simp add: loaded del: lesson_path_child) simp
  ultimately show ?thesis using g(2) l' by blast
qed

lemma resolve_closes:
  assumes "work_dir f d" and "open_lessons_for f d s = [l]"
  shows "\<exists>g. resolve_lessons now d s w f = (True, g) \<and> work_dir g d \<and> open_lessons_for g d s = []
    \<and> stored_lesson g d s = Some (dput ''resolved_at'' (JStr w) (dput ''status'' (JStr ''resolved'') l))"
proof -
  let ?n = "safe_name s @ ''.json''"
  let ?l = "dput ''resolved_at'' (JStr w) (dput ''status'' (JStr ''resolved'') l)"
  have l: "is_file f (path_child d ?n)" "Option.bind (read_json f (path_child d ?n)) loaded_obj = Some l"
      "jget l ''status'' = JStr ''open''"
    using assms
    by (auto simp: open_lessons_for_def Let_def no_dir_child split: if_splits option.splits)
  obtain g where g: "atomic_write now (path_child d ?n) (Doc (JObj ?l)) f = Some g" "work_dir g d"
      "read_json g (path_child d ?n) = Some (JObj ?l)" "is_file g (path_child d ?n)"
    using atomic_lesson [OF assms(1)] by blast
  have "resolve_lessons now d s w f = (True, g)"
    using l g(1) assms(1) by (simp add: resolve_lessons_def Let_def no_dir_child)
  moreover have "open_lessons_for g d s = []" "stored_lesson g d s = Some ?l"
    using g by (simp_all add: open_lessons_for_def stored_lesson_def Let_def no_dir_child)
  ultimately show ?thesis using g(2) by blast
qed

subsection \<open>Properties\<close>

text \<open>The lessons loop closes. In a working directory, a failure recorded on a subject is
  the one open lesson its reader finds, with the observation given and a recurrence one above the
  stored count; a later success resolves it, after which the reader finds none; and a failure after
  that reopens it with the count carried on and no resolution time.\<close>

theorem lessons_loop_closes:
  assumes "work_dir f d" and "stored_lesson f d s = Some l"
    and "py_int (jget_or l ''recurrence'' (JInt 0)) = Some n"
  shows "\<exists>l1 f1 f2 l3 f3. record_lesson now d s did tt ob sv w f = (l1, f1)
    \<and> open_lessons_for f1 d s = [l1] \<and> jget l1 ''observation'' = JStr ob
    \<and> jget l1 ''recurrence'' = JInt (n + 1)
    \<and> resolve_lessons now d s w2 f1 = (True, f2) \<and> open_lessons_for f2 d s = []
    \<and> record_lesson now d s did tt ob2 sv w3 f2 = (l3, f3)
    \<and> open_lessons_for f3 d s = [l3] \<and> jget l3 ''observation'' = JStr ob2
    \<and> jget l3 ''recurrence'' = JInt (n + 2) \<and> \<not> dhas l3 ''resolved_at''"
proof -
  obtain l1 f1 where r1: "record_lesson now d s did tt ob sv w f = (l1, f1)" "work_dir f1 d"
      "lesson_update s did tt ob sv w l = Some l1" "open_lessons_for f1 d s = [l1]"
    using record_lesson_stores [OF assms] by blast
  have rec1: "jget l1 ''recurrence'' = JInt (n + 1)"
    using lesson_update_fields(6) [OF r1(3)] assms(3) by auto
  let ?l2 = "dput ''resolved_at'' (JStr w2) (dput ''status'' (JStr ''resolved'') l1)"
  obtain f2 where r2: "resolve_lessons now d s w2 f1 = (True, f2)" "work_dir f2 d"
      "open_lessons_for f2 d s = []" "stored_lesson f2 d s = Some ?l2"
    using resolve_closes [OF r1(2,4)] by blast
  have rec2: "py_int (jget_or ?l2 ''recurrence'' (JInt 0)) = Some (n + 1)"
    using rec1 by (auto simp: jget_def jget_or_def split: option.splits)
  obtain l3 f3 where r3: "record_lesson now d s did tt ob2 sv w3 f2 = (l3, f3)"
      "lesson_update s did tt ob2 sv w3 ?l2 = Some l3" "open_lessons_for f3 d s = [l3]"
    using record_lesson_stores [OF r2(2,4) rec2] by blast
  have "jget l3 ''recurrence'' = JInt (n + 2)"
    using lesson_update_fields(6) [OF r3(2)] rec2 by auto
  moreover have "\<not> dhas l3 ''resolved_at''"
    using lesson_update_fields(7) [OF r3(2)] by simp
  ultimately show ?thesis
    using r1 r2 r3 rec1 lesson_update_fields(2) [OF r1(3)] lesson_update_fields(2) [OF r3(2)] by blast
qed

theorem lessons_loop_closes_witness:
  "\<exists>l1 f1 f2 l3 f3. record_lesson 5 (path_of ''/l'') ''a.py'' ''d1'' ''build'' ''no output'' 2 ''t1''
      \<lparr>files = [(path_of ''/l/a.py.json'', \<lparr>body = Text ''broken'', mtime = 1\<rparr>)],
       dirs = [path_of ''/'', path_of ''/l''], noread = [], nowrite = []\<rparr> = (l1, f1)
    \<and> open_lessons_for f1 (path_of ''/l'') ''a.py'' = [l1] \<and> jget l1 ''observation'' = JStr ''no output''
    \<and> jget l1 ''recurrence'' = JInt (0 + 1)
    \<and> resolve_lessons 5 (path_of ''/l'') ''a.py'' ''t2'' f1 = (True, f2)
    \<and> open_lessons_for f2 (path_of ''/l'') ''a.py'' = []
    \<and> record_lesson 5 (path_of ''/l'') ''a.py'' ''d1'' ''build'' ''again'' 2 ''t3'' f2 = (l3, f3)
    \<and> open_lessons_for f3 (path_of ''/l'') ''a.py'' = [l3] \<and> jget l3 ''observation'' = JStr ''again''
    \<and> jget l3 ''recurrence'' = JInt (0 + 2) \<and> \<not> dhas l3 ''resolved_at''"
  by (rule lessons_loop_closes [where l = "[]"]) code_simp+

text \<open>The file of a subject is a single plain name: of at most 120 safe characters, never
  empty, so that the lesson of any subject lies directly in the lessons directory.\<close>

theorem lesson_file_is_plain:
  "path_parent (lesson_path d s) = d \<and> list_all safe_char (safe_name s) \<and> safe_name s \<noteq> []
    \<and> length (safe_name s) \<le> 120 \<and> path_name (lesson_path d s) = safe_name s @ ''.json''"
  by (simp add: safe_name_chars)

end
