(* ===== verification/Policy.thy ===== *)
theory Policy
  imports PyFs
begin

text \<open>
  \<open>zo_sentinel/policy.py\<close>: the registry of operational keys, the five layers a key is
  resolved through, and the changes of the durable override file. The environment is a function from
  names to texts, the tracked defaults are the parsed document of \<open>policy_defaults.toml\<close>
  (none when it is absent, unreadable or there is no parser), and the random name of a temporary
  file is an argument. A raise is a value of \<open>pol_error\<close>.
\<close>

subsection \<open>The registry\<close>

datatype key_type = TBool | TInt | TStr

record kspec =
  k_type :: key_type
  k_default :: json
  k_env :: string
  k_sentinel :: "string option"
  k_doc :: string

definition key_spec :: "key_type \<Rightarrow> json \<Rightarrow> string \<Rightarrow> string option \<Rightarrow> string \<Rightarrow> kspec" where
  "key_spec t d e s doc = \<lparr>k_type = t, k_default = d, k_env = e, k_sentinel = s, k_doc = doc\<rparr>"

definition KEYS :: "(string, kspec) dict" where
  "KEYS =
    [
     (''queue.dedup_rebuild'', key_spec TBool (JBool False) ''ZO_DEDUP_REBUILD'' (Some ''.dedup_rebuild_on'')
        ''skip redundant rebuilds (goose_runner dedup)''),
     (''queue.janitor'', key_spec TBool (JBool False) ''ZO_QUEUE_JANITOR'' (Some ''.queue_janitor_on'')
        ''skip=>retire janitor in the promoter cycle''),
     (''queue.janitor_limit'', key_spec TInt (JInt 200) ''ZO_JANITOR_LIMIT'' (None)
        ''max retirements per janitor pass''),
     (''builder.no_hollow_gate'', key_spec TBool (JBool True) ''ZO_NO_HOLLOW_GATE'' (Some ''.no_hollow_gate_on'')
        ''block hollow scaffolds at the builder seam (before .done)''),
     (''builder.engine_build'', key_spec TBool (JBool False) ''ZO_ENGINE_BUILD'' (Some ''.engine_build_on'')
        ''grounded deterministic engine fallback''),
     (''builder.engine_rungs'', key_spec TStr (JStr ''zo-ladder-nvidia,zo-ladder-high'') ''ZO_ENGINE_RUNGS'' (None)
        ''csv capable-rung escalation for the engine''),
     (''builder.engine_max_repairs'', key_spec TInt (JInt 1) ''ZO_ENGINE_MAX_REPAIRS'' (None)
        ''bounded repair rounds per engine build''),
     (''architect.anchor_refill'', key_spec TBool (JBool False) ''ZO_ANCHOR_REFILL'' (Some ''.anchor_refill_on'')
        ''self-refilling anchor (KL candidate mining)''),
     (''architect.refill_threshold'', key_spec TInt (JInt 5) ''ZO_ANCHOR_THRESHOLD'' (None)
        ''refill when missing candidates < this''),
     (''architect.refill_max_new'', key_spec TInt (JInt 5) ''ZO_ANCHOR_MAX_NEW'' (None)
        ''max candidates appended per refill''),
     (''vuln.enabled'', key_spec TBool (JBool False) ''ZO_VULN_ENABLED'' (None)
        ''vuln-intel surface kill-switch (off => INSUFFICIENT)''),
     (''vuln.otx_enabled'', key_spec TBool (JBool False) ''ZO_VULN_OTX_ENABLED'' (None)
        ''OTX threat-intel context layer kill-switch (off => disabled, no claims)''),
     (''architect.max_proposed_depth'', key_spec TInt (JInt 40) ''DGG_MAX_PROPOSED_DEPTH'' (None)
        ''proposed/ depth cap gating generation'')
    ]"

subsection \<open>Reading a layer\<close>

definition parse_bool :: "string \<Rightarrow> bool" where
  "parse_bool raw = (lower (strip raw) \<notin> {[], ''0'', ''off'', ''false'', ''no''})"

text \<open>\<open>None\<close> is the error of \<open>int(raw)\<close>.\<close>

definition coerce :: "key_type \<Rightarrow> json \<Rightarrow> json option" where
  "coerce t raw =
     (case t of
        TBool \<Rightarrow> Some (case raw of JBool b \<Rightarrow> JBool b | _ \<Rightarrow> JBool (parse_bool (py_str raw)))
      | TInt \<Rightarrow> map_option JInt (py_int raw)
      | TStr \<Rightarrow> Some (JStr (py_str raw)))"

definition override_path :: "environ \<Rightarrow> path" where
  "override_path env = path_of (case env ''ZO_POLICY_OVERRIDE_PATH'' of
     None \<Rightarrow> ''/home/workspace/zo_sentinel_state/policy_override.json'' | Some s \<Rightarrow> s)"

definition flatten_section :: "string \<times> json \<Rightarrow> (string \<times> json) list" where
  "flatten_section sb = (case snd sb of
     JObj b \<Rightarrow> map (\<lambda>kv. (fst sb @ ''.'' @ fst kv, snd kv)) b | v \<Rightarrow> [(fst sb, v)])"

definition load_defaults_file :: "jobj option \<Rightarrow> jobj" where
  "load_defaults_file toml = (case toml of None \<Rightarrow> []
     | Some data \<Rightarrow> foldl (\<lambda>flat kv. dput (fst kv) (snd kv) flat) [] (concat (map flatten_section data)))"

definition load_override :: "environ \<Rightarrow> fs \<Rightarrow> jobj" where
  "load_override env f =
     (let p = override_path env in
      if is_file f p then (case read_json f p of Some (JObj d) \<Rightarrow> d | _ \<Rightarrow> []) else [])"

definition directives_dir :: "path option \<Rightarrow> path" where
  "directives_dir droot = (case droot of Some r \<Rightarrow> r | None \<Rightarrow> path_of ''/home/workspace/zo_sentinel/directives'')"

definition sentinel_state :: "kspec \<Rightarrow> path option \<Rightarrow> fs \<Rightarrow> bool option" where
  "sentinel_state spec droot f =
     (case k_sentinel spec of None \<Rightarrow> None
      | Some name \<Rightarrow>
        (if name = [] then None
         else let sf = path_child (directives_dir droot) name in
           if is_file f sf then map_option (\<lambda>c. parse_bool (content_text c)) (read_text f sf) else None))"

subsection \<open>Resolution\<close>

definition overlay :: "json option \<Rightarrow> string \<Rightarrow> json \<times> string \<Rightarrow> json \<times> string" where
  "overlay v src below = (case v of None \<Rightarrow> below | Some w \<Rightarrow> (w, src))"

text \<open>\<open>None\<close> is the KeyError of an unknown key.\<close>

definition resolve :: "environ \<Rightarrow> jobj option \<Rightarrow> path option \<Rightarrow> fs \<Rightarrow> string \<Rightarrow> (json \<times> string) option" where
  "resolve env toml droot f key =
     (case dget KEYS key of None \<Rightarrow> None
      | Some spec \<Rightarrow>
        (let r0 = (k_default spec, ''embedded_default'');
             r1 = overlay (Option.bind (dget (load_defaults_file toml) key) (coerce (k_type spec)))
                    ''policy_defaults.toml'' r0;
             r2 = overlay (map_option JBool (sentinel_state spec droot f)) ''legacy_sentinel'' r1;
             r3 = overlay (Option.bind (dget (load_override env f) key) (coerce (k_type spec)))
                    ''override_file'' r2;
             r4 = (case env (k_env spec) of None \<Rightarrow> r3
                   | Some raw \<Rightarrow> if raw = [] then r3
                       else overlay (coerce (k_type spec) (JStr raw)) (''env:'' @ k_env spec) r3)
         in Some r4))"

definition flag :: "environ \<Rightarrow> jobj option \<Rightarrow> path option \<Rightarrow> fs \<Rightarrow> string \<Rightarrow> bool option" where
  "flag env toml droot f key = map_option (\<lambda>r. truthy (fst r)) (resolve env toml droot f key)"

definition pvalue :: "environ \<Rightarrow> jobj option \<Rightarrow> path option \<Rightarrow> fs \<Rightarrow> string \<Rightarrow> json option" where
  "pvalue env toml droot f key = map_option fst (resolve env toml droot f key)"

definition posture :: "environ \<Rightarrow> jobj option \<Rightarrow> path option \<Rightarrow> fs \<Rightarrow> (string \<times> json \<times> string \<times> string) list" where
  "posture env toml droot f =
     List.map_filter (\<lambda>key. case (resolve env toml droot f key, dget KEYS key) of
        (Some (v, s), Some spec) \<Rightarrow> Some (key, v, s, k_doc spec) | _ \<Rightarrow> None) (sort (keys KEYS))"

subsection \<open>Changing the override file\<close>

datatype pol_error = UnknownKey string | BadValue string json | WriteFailed

definition write_override :: "int \<Rightarrow> string \<Rightarrow> environ \<Rightarrow> jobj \<Rightarrow> fs \<Rightarrow> bool \<times> fs" where
  "write_override now tmp env data f =
     (let p = override_path env; t = path_child (path_parent p) tmp in
      case mkdirs (path_parent p) f of None \<Rightarrow> (False, f)
      | Some f1 \<Rightarrow>
        (case write_text now t (Doc (json_sort (JObj data))) f1 of None \<Rightarrow> (False, f1)
         | Some f2 \<Rightarrow> (case fs_replace t p f2 of None \<Rightarrow> (False, f2) | Some f3 \<Rightarrow> (True, f3))))"

definition set_override :: "int \<Rightarrow> string \<Rightarrow> environ \<Rightarrow> string \<Rightarrow> json \<Rightarrow> fs \<Rightarrow> (pol_error + json) \<times> fs" where
  "set_override now tmp env key raw f =
     (case dget KEYS key of None \<Rightarrow> (Inl (UnknownKey key), f)
      | Some spec \<Rightarrow>
        (case coerce (k_type spec) raw of None \<Rightarrow> (Inl (BadValue key raw), f)
         | Some v \<Rightarrow>
           (let (ok, g) = write_override now tmp env (dput key v (load_override env f)) f
            in (if ok then Inr v else Inl WriteFailed, g))))"

definition clear_override :: "int \<Rightarrow> string \<Rightarrow> environ \<Rightarrow> string \<Rightarrow> fs \<Rightarrow> (pol_error + bool) \<times> fs" where
  "clear_override now tmp env key f =
     (let data = load_override env f in
      if dhas data key
      then (let (ok, g) = write_override now tmp env (ddel key data) f
            in (if ok then Inr True else Inl WriteFailed, g))
      else (Inr False, f))"

fun migrate_keys :: "int \<Rightarrow> string \<Rightarrow> environ \<Rightarrow> path option \<Rightarrow> (string, kspec) dict \<Rightarrow>
    (string, bool) dict \<Rightarrow> fs \<Rightarrow> (pol_error + (string, bool) dict) \<times> fs" where
  "migrate_keys now tmp env droot [] m f = (Inr m, f)"
| "migrate_keys now tmp env droot ((key, spec) # ks) m f =
     (case sentinel_state spec droot f of
        None \<Rightarrow> migrate_keys now tmp env droot ks m f
      | Some st \<Rightarrow>
        (case set_override now tmp env key (JBool st) f of
           (Inl e, g) \<Rightarrow> (Inl e, g)
         | (Inr v, g) \<Rightarrow> migrate_keys now tmp env droot ks (dput key st m) g))"

definition migrate_legacy :: "int \<Rightarrow> string \<Rightarrow> environ \<Rightarrow> path option \<Rightarrow> fs \<Rightarrow>
    (pol_error + (string, bool) dict) \<times> fs" where
  "migrate_legacy now tmp env droot f = migrate_keys now tmp env droot KEYS [] f"

subsection \<open>The types of the values\<close>

fun of_type :: "key_type \<Rightarrow> json \<Rightarrow> bool" where
  "of_type TBool (JBool b) = True"
| "of_type TInt (JInt i) = True"
| "of_type TStr (JStr s) = True"
| "of_type _ _ = False"

lemma coerce_type: "coerce t raw = Some v \<Longrightarrow> of_type t v"
  by (cases t) (auto simp: coerce_def split: json.splits)

lemma coerce_idem: "of_type t v \<Longrightarrow> coerce t v = Some v"
  by (cases t; cases v) (auto simp: coerce_def)

definition spec_ok :: "kspec \<Rightarrow> bool" where
  "spec_ok s = (of_type (k_type s) (k_default s) \<and> (k_sentinel s \<noteq> None \<longrightarrow> k_type s = TBool)
     \<and> k_sentinel s \<noteq> Some [] \<and> (case k_sentinel s of None \<Rightarrow> True | Some n \<Rightarrow> CHR ''/'' \<notin> set n))"

lemma KEYS_ok: "list_all (\<lambda>kv. spec_ok (snd kv)) KEYS"
  by code_simp

lemma KEYS_distinct: "distinct (keys KEYS)"
  by code_simp

lemma spec_of_key: "dget KEYS key = Some spec \<Longrightarrow> spec_ok spec"
  using KEYS_ok dget_in_set [of KEYS key spec] by (auto simp: list_all_iff)

lemma overlay_cases: "overlay v src b = (w, s) \<longleftrightarrow> (v = Some w \<and> s = src \<or> v = None \<and> b = (w, s))"
  by (auto simp: overlay_def split: option.splits)

lemma overlay_type:
  "(\<And>w. v = Some w \<Longrightarrow> of_type t w) \<Longrightarrow> of_type t (fst b) \<Longrightarrow> of_type t (fst (overlay v src b))"
  by (cases v) (auto simp: overlay_def)

subsection \<open>The layers\<close>

text \<open>The layers that have an opinion on a key, from the highest down, with their names.\<close>

definition opinions :: "environ \<Rightarrow> jobj option \<Rightarrow> path option \<Rightarrow> fs \<Rightarrow> string \<Rightarrow> kspec \<Rightarrow>
    (json option \<times> string) list" where
  "opinions env toml droot f key spec =
     [((case env (k_env spec) of None \<Rightarrow> None
        | Some raw \<Rightarrow> if raw = [] then None else coerce (k_type spec) (JStr raw)), ''env:'' @ k_env spec),
      (Option.bind (dget (load_override env f) key) (coerce (k_type spec)), ''override_file''),
      (map_option JBool (sentinel_state spec droot f), ''legacy_sentinel''),
      (Option.bind (dget (load_defaults_file toml) key) (coerce (k_type spec)), ''policy_defaults.toml''),
      (Some (k_default spec), ''embedded_default'')]"

fun first_opinion :: "(json option \<times> string) list \<Rightarrow> (json \<times> string) option" where
  "first_opinion [] = None"
| "first_opinion ((Some v, src) # ls) = Some (v, src)"
| "first_opinion ((None, src) # ls) = first_opinion ls"

lemma first_opinion_overlay:
  "first_opinion [(a, s1), (b, s2), (c, s3), (d, s4), (Some e, s5)] =
     Some (overlay a s1 (overlay b s2 (overlay c s3 (overlay d s4 (e, s5)))))"
  by (cases a; cases b; cases c; cases d) (simp_all add: overlay_def)

lemma overlay_None: "overlay None src b = b"
  by (simp add: overlay_def)

lemma resolve_first_opinion:
  assumes "dget KEYS key = Some spec"
  shows "resolve env toml droot f key = first_opinion (opinions env toml droot f key spec)"
  unfolding opinions_def first_opinion_overlay resolve_def Let_def assms
  by (cases "env (k_env spec)") (simp_all add: overlay_None)

lemma sentinel_type: "spec_ok s \<Longrightarrow> sentinel_state s droot f = Some b \<Longrightarrow> k_type s = TBool"
  by (auto simp: sentinel_state_def spec_ok_def split: option.splits)

lemma bind_coerce_type: "Option.bind x (coerce t) = Some v \<Longrightarrow> of_type t v"
  by (cases x) (auto intro: coerce_type)

lemma env_coerce_type:
  "(case e of None \<Rightarrow> None | Some raw \<Rightarrow> if raw = [] then None else coerce t (JStr raw)) = Some v \<Longrightarrow>
     of_type t v"
  by (cases e) (auto split: if_splits intro: coerce_type)

lemma first_opinion_typed:
  assumes "spec_ok spec" and "first_opinion (opinions env toml droot f key spec) = Some r"
  shows "of_type (k_type spec) (fst r)"
proof -
  have "of_type (k_type spec) (k_default spec)"
    using assms(1) by (simp add: spec_ok_def)
  then show ?thesis
    using assms(2) unfolding opinions_def first_opinion_overlay
    by (auto intro!: overlay_type dest: bind_coerce_type sentinel_type [OF assms(1)] env_coerce_type)
qed

subsection \<open>What a write of the override file leaves\<close>

lemma dget_json_sort:
  "dget (case json_sort (JObj d) of JObj e \<Rightarrow> e | _ \<Rightarrow> []) k = map_option json_sort (dget d k)"
proof -
  have "dget (map (\<lambda>kv. (fst kv, json_sort (snd kv))) d) k = map_option json_sort (dget d k)"
    by (induction d) auto
  then show ?thesis by simp
qed

text \<open>The override file in working order: its directory exists, the temporary name is another.\<close>

definition override_ready :: "string \<Rightarrow> environ \<Rightarrow> fs \<Rightarrow> bool" where
  "override_ready tmp env f \<longleftrightarrow> (let p = override_path env in
     path_parts p \<noteq> [] \<and> work_dir f (path_parent p) \<and> tmp \<noteq> path_name p
     \<and> \<not> is_file f (path_child (path_parent p) tmp))"

lemma override_child:
  "override_ready tmp env f \<Longrightarrow>
     override_path env = path_child (path_parent (override_path env)) (path_name (override_path env))"
  by (simp add: override_ready_def Let_def path_child_name)

lemma write_override_works:
  assumes r: "override_ready tmp env f"
  shows "\<exists>g. write_override now tmp env data f = (True, g) \<and> override_ready tmp env g
    \<and> (\<forall>k. dget (load_override env g) k = map_option json_sort (dget data k))
    \<and> noread g = noread f
    \<and> (\<forall>q. q \<noteq> override_path env \<longrightarrow> q \<noteq> path_child (path_parent (override_path env)) tmp \<longrightarrow>
          fs_get g q = fs_get f q)"
proof -
  let ?p = "override_path env"
  let ?d = "path_parent ?p"
  let ?t = "path_child ?d tmp"
  let ?c = "Doc (json_sort (JObj data))"
  note p = override_child [OF r]
  have wd: "work_dir f ?d" and t_p: "?t \<noteq> ?p" and parts: "path_parts ?p \<noteq> []"
    using r p by (auto simp: override_ready_def Let_def) (metis path_child_inj)
  obtain f1 where f1: "mkdirs ?d f = Some f1" "work_dir f1 ?d" "files f1 = files f"
    using work_dir_mkdirs [OF wd] by blast
  obtain f2 where f2: "write_text now ?t ?c f1 = Some f2" "work_dir f2 ?d"
    using work_dir_write [OF f1(2)] by blast
  have t2: "fs_get f2 ?t = Some \<lparr>body = ?c, mtime = now\<rparr>"
    by (simp add: write_text_get [OF f2(1)])
  have "\<not> is_dir f2 ?p" using work_dirD(4) [OF f2(2)] p by metis
  then obtain f3 where f3: "fs_replace ?t ?p f2 = Some f3"
    using t2 work_dirD(1,3) [OF f2(2)] by (auto simp: fs_replace_def)
  note get3 = fs_replace_get [OF f3]
  have wd3: "work_dir f3 ?d"
  proof (rule work_dir_same_dirs [OF f2(2) fs_replace_frame [OF f3]])
    fix q
    assume "q \<in> set (path_ancestors ?d)"
    then have "q \<noteq> ?t" "q \<noteq> ?p"
      using child_not_ancestor [of ?d] p by metis+
    then show "fs_get f3 q = fs_get f2 q" by (simp add: get3)
  qed
  have at_p: "fs_get f3 ?p = Some \<lparr>body = ?c, mtime = now\<rparr>" and at_t: "fs_get f3 ?t = None"
    using t2 t_p by (simp_all add: get3)
  have "write_override now tmp env data f = (True, f3)"
    by (simp only: write_override_def Let_def f1(1) f2(1) f3 option.case)
  moreover have "override_ready tmp env f3"
    using r wd3 at_t by (simp add: override_ready_def Let_def is_file_def)
  moreover have "dget (load_override env f3) k = map_option json_sort (dget data k)" for k
    using at_p read_json_get [OF work_dirD(2) [OF wd3] at_p] dget_json_sort [of data k]
    by (simp add: load_override_def Let_def is_file_def)
  moreover have "noread f3 = noread f"
    using work_dirD(2) wd wd3 by metis
  moreover have "fs_get f3 q = fs_get f q" if "q \<noteq> ?p" "q \<noteq> ?t" for q
    using that get3 write_text_get [OF f2(1)] mkdirs_get [OF f1(1)] by simp
  ultimately show ?thesis by blast
qed

lemma json_sort_of_type: "of_type t v \<Longrightarrow> json_sort v = v"
  by (cases t; cases v) auto

lemma json_sort_str: "json_sort v = JStr s \<longleftrightarrow> v = JStr s" "json_sort v = JBool b \<longleftrightarrow> v = JBool b"
  by (cases v; simp)+

text \<open>Entries of every other key are as they were, when they hold scalars.\<close>

definition scalar :: "json \<Rightarrow> bool" where
  "scalar v = (case v of JList xs \<Rightarrow> False | JObj d \<Rightarrow> False | _ \<Rightarrow> True)"

lemma json_sort_scalar: "scalar v \<Longrightarrow> json_sort v = v"
  by (cases v) (auto simp: scalar_def)

definition scalar_override :: "environ \<Rightarrow> fs \<Rightarrow> bool" where
  "scalar_override env f = list_all (\<lambda>kv. scalar (snd kv)) (load_override env f)"

lemma scalar_override_get: "scalar_override env f \<Longrightarrow> dget (load_override env f) k = Some v \<Longrightarrow> scalar v"
  using dget_in_set [of "load_override env f" k v] by (auto simp: scalar_override_def list_all_iff)

definition sentinel_dir_apart :: "environ \<Rightarrow> path option \<Rightarrow> bool" where
  "sentinel_dir_apart env droot = (path_parent (override_path env) \<noteq> directives_dir droot)"

lemma sentinel_state_frame:
  assumes "sentinel_dir_apart env droot" and "override_ready tmp env f"
    and "noread g = noread f"
    and "\<And>q. q \<noteq> override_path env \<Longrightarrow> q \<noteq> path_child (path_parent (override_path env)) tmp \<Longrightarrow>
          fs_get g q = fs_get f q"
  shows "sentinel_state spec droot g = sentinel_state spec droot f"
proof -
  have "fs_get g (path_child (directives_dir droot) n) = fs_get f (path_child (directives_dir droot) n)" for n
    using assms(1) override_child [OF assms(2)]
    by (intro assms(4)) (metis path_child_inj sentinel_dir_apart_def)+
  then show ?thesis
    by (simp add: sentinel_state_def Let_def is_file_def read_text_def assms(3) split: option.splits)
qed

lemma set_override_works:
  assumes "override_ready tmp env f" and "dget KEYS key = Some spec" and "coerce (k_type spec) raw = Some v"
  shows "\<exists>g. set_override now tmp env key raw f = (Inr v, g) \<and> override_ready tmp env g
    \<and> (\<forall>k. dget (load_override env g) k =
          (if k = key then Some v else map_option json_sort (dget (load_override env f) k)))
    \<and> (sentinel_dir_apart env droot \<longrightarrow> (\<forall>s. sentinel_state s droot g = sentinel_state s droot f))"
proof -
  obtain g where g: "write_override now tmp env (dput key v (load_override env f)) f = (True, g)"
      "override_ready tmp env g"
      "\<forall>k. dget (load_override env g) k = map_option json_sort (dget (dput key v (load_override env f)) k)"
      "noread g = noread f"
      "\<forall>q. q \<noteq> override_path env \<longrightarrow> q \<noteq> path_child (path_parent (override_path env)) tmp \<longrightarrow>
          fs_get g q = fs_get f q"
    using write_override_works [OF assms(1), of now "dput key v (load_override env f)"] by blast
  have "json_sort v = v" using coerce_type [OF assms(3)] by (rule json_sort_of_type)
  with g(3) have "dget (load_override env g) k =
      (if k = key then Some v else map_option json_sort (dget (load_override env f) k))" for k
    by simp
  moreover have "sentinel_dir_apart env droot \<Longrightarrow> sentinel_state s droot g = sentinel_state s droot f" for s
    using sentinel_state_frame [OF _ assms(1) g(4)] g(5) by blast
  ultimately show ?thesis
    using g(1,2) by (simp add: set_override_def assms(2,3))
qed

lemma resolve_eq:
  assumes "\<And>spec. sentinel_state spec droot g = sentinel_state spec droot f"
    and "dget (load_override env g) key = dget (load_override env f) key"
  shows "resolve env toml droot g key = resolve env toml droot f key"
  by (simp add: resolve_def assms cong: option.case_cong)

subsection \<open>Migration\<close>

text \<open>The override entries after the keys of a list have been migrated.\<close>

definition migrated_entry :: "path option \<Rightarrow> fs \<Rightarrow> (string, kspec) dict \<Rightarrow> json option \<Rightarrow> string \<Rightarrow> json option" where
  "migrated_entry droot f ks old key =
     (case Option.bind (dget ks key) (\<lambda>spec. sentinel_state spec droot f) of
        None \<Rightarrow> old | Some st \<Rightarrow> Some (JBool st))"

lemma migrate_keys_works:
  assumes "override_ready tmp env f" and "sentinel_dir_apart env droot"
    and "\<And>k s. (k, s) \<in> set ks \<Longrightarrow> dget KEYS k = Some s" and "distinct (keys ks)"
    and "\<And>k v. dget (load_override env f) k = Some v \<Longrightarrow> scalar v"
  shows "\<exists>m' g. migrate_keys now tmp env droot ks m f = (Inr m', g)
    \<and> (\<forall>s. sentinel_state s droot g = sentinel_state s droot f)
    \<and> (\<forall>k. dget (load_override env g) k = migrated_entry droot f ks (dget (load_override env f) k) k)"
  using assms
proof (induction ks arbitrary: m f)
  case Nil
  then show ?case by (simp add: migrated_entry_def)
next
  case (Cons ks1 ks)
  obtain key spec where ks1: "ks1 = (key, spec)" by (cases ks1)
  have known: "dget KEYS key = Some spec" using Cons.prems(3) ks1 by simp
  have fresh: "dget ks key = None"
    using Cons.prems(4) by (auto simp: ks1 dget_def map_of_eq_None_iff)
  show ?case
  proof (cases "sentinel_state spec droot f")
    case None
    obtain m' g where g: "migrate_keys now tmp env droot ks m f = (Inr m', g)"
        "\<forall>s. sentinel_state s droot g = sentinel_state s droot f"
        "\<forall>k. dget (load_override env g) k = migrated_entry droot f ks (dget (load_override env f) k) k"
      using Cons.IH [of f m] Cons.prems by auto
    have "migrated_entry droot f (ks1 # ks) old k = migrated_entry droot f ks old k" for old k
      using None fresh by (simp add: migrated_entry_def ks1)
    with g None show ?thesis by (auto simp: ks1)
  next
    case (Some st)
    have "k_type spec = TBool"
      using sentinel_type [OF spec_of_key [OF known] Some] .
    then have c: "coerce (k_type spec) (JBool st) = Some (JBool st)" by (simp add: coerce_def)
    obtain h where h: "set_override now tmp env key (JBool st) f = (Inr (JBool st), h)"
        "override_ready tmp env h"
        "\<forall>k. dget (load_override env h) k =
          (if k = key then Some (JBool st) else map_option json_sort (dget (load_override env f) k))"
        "\<forall>s. sentinel_state s droot h = sentinel_state s droot f"
      using set_override_works [OF Cons.prems(1) known c, of now droot] Cons.prems(2) by blast
    have entry: "dget (load_override env h) k =
        (if k = key then Some (JBool st) else dget (load_override env f) k)" for k
      using h(3) Cons.prems(5) [of k] json_sort_scalar
      by (cases "dget (load_override env f) k") auto
    have "scalar v" if "dget (load_override env h) k = Some v" for k v
      using that entry [of k] Cons.prems(5) [of k v] by (auto simp: scalar_def split: if_splits)
    then obtain m' g where g: "migrate_keys now tmp env droot ks (dput key st m) h = (Inr m', g)"
        "\<forall>s. sentinel_state s droot g = sentinel_state s droot h"
        "\<forall>k. dget (load_override env g) k = migrated_entry droot h ks (dget (load_override env h) k) k"
      using Cons.IH [of h "dput key st m"] Cons.prems(2-4) h(2) by auto
    have "migrated_entry droot h ks (dget (load_override env h) k) k =
        migrated_entry droot f (ks1 # ks) (dget (load_override env f) k) k" for k
      using h(4) fresh Some by (simp add: migrated_entry_def ks1 entry)
    with g h Some show ?thesis by (auto simp: ks1)
  qed
qed

lemma null_override_turns_on: "coerce TBool JNull = Some (JBool True)"
  by code_simp

lemma resolve_override:
  assumes "dget KEYS key = Some spec" and "env (k_env spec) = None"
    and "dget (load_override env f) key = Some v" and "of_type (k_type spec) v"
  shows "resolve env toml droot f key = Some (v, ''override_file'')"
  using assms by (simp add: resolve_def Let_def coerce_idem overlay_def)

lemma resolve_env:
  assumes "dget KEYS key = Some spec" and "env (k_env spec) = Some raw" and "raw \<noteq> []"
    and "coerce (k_type spec) (JStr raw) = Some v"
  shows "resolve env toml droot f key = Some (v, ''env:'' @ k_env spec)"
  using assms by (simp add: resolve_def Let_def overlay_def)

subsection \<open>Properties\<close>

text \<open>C14: every known key resolves, to a value of its declared type, which is the opinion of
  the highest of the five layers that has one: environment, override file, legacy sentinel, tracked
  defaults, embedded default; a layer whose text does not convert has no opinion.\<close>

theorem resolve_is_highest_opinion:
  assumes "dget KEYS key = Some spec"
  shows "\<exists>v src. resolve env toml droot f key = Some (v, src) \<and> of_type (k_type spec) v
    \<and> first_opinion (opinions env toml droot f key spec) = Some (v, src)"
proof -
  obtain r where r: "resolve env toml droot f key = Some r"
    using assms by (auto simp: resolve_def Let_def)
  then show ?thesis
    using resolve_first_opinion [OF assms, of env toml droot f]
      first_opinion_typed [OF spec_of_key [OF assms], of env toml droot f key r]
    by (cases r) auto
qed

theorem resolve_is_highest_opinion_witness:
  "\<exists>v src. resolve (\<lambda>_. Some ''7'') None None \<lparr>files = [], dirs = [], noread = [], nowrite = []\<rparr>
      ''queue.janitor_limit'' = Some (v, src) \<and> of_type TInt v
    \<and> first_opinion (opinions (\<lambda>_. Some ''7'') None None \<lparr>files = [], dirs = [], noread = [], nowrite = []\<rparr>
        ''queue.janitor_limit'' (the (dget KEYS ''queue.janitor_limit''))) = Some (v, src)"
proof -
  have "dget KEYS ''queue.janitor_limit'' = Some (the (dget KEYS ''queue.janitor_limit''))"
    and t: "k_type (the (dget KEYS ''queue.janitor_limit'')) = TInt" by code_simp+
  from resolve_is_highest_opinion [OF this(1)] show ?thesis unfolding t .
qed

text \<open>An override that is set is what the key resolves to, from the override file, while
  its environment variable is unset; and every other key resolves as before.\<close>

theorem set_override_then_resolve:
  assumes "override_ready tmp env f" and "sentinel_dir_apart env droot" and "scalar_override env f"
    and "dget KEYS key = Some spec" and "coerce (k_type spec) raw = Some v" and "env (k_env spec) = None"
  shows "\<exists>g. set_override now tmp env key raw f = (Inr v, g)
    \<and> resolve env toml droot g key = Some (v, ''override_file'')
    \<and> (\<forall>k. k \<noteq> key \<longrightarrow> resolve env toml droot g k = resolve env toml droot f k)"
proof -
  obtain g where g: "set_override now tmp env key raw f = (Inr v, g)"
      "\<forall>k. dget (load_override env g) k =
          (if k = key then Some v else map_option json_sort (dget (load_override env f) k))"
      "\<forall>s. sentinel_state s droot g = sentinel_state s droot f"
    using set_override_works [OF assms(1,4,5), of now droot] assms(2) by blast
  have "resolve env toml droot g key = Some (v, ''override_file'')"
    by (intro resolve_override [where env = env, OF assms(4,6)] coerce_type [OF assms(5)]) (simp add: g(2))
  moreover have "resolve env toml droot g k = resolve env toml droot f k" if "k \<noteq> key" for k
  proof (rule resolve_eq)
    show "dget (load_override env g) k = dget (load_override env f) k"
      using g(2) that scalar_override_get [OF assms(3), of k] json_sort_scalar
      by (cases "dget (load_override env f) k") auto
  qed (use g(3) in simp)
  ultimately show ?thesis using g(1) by blast
qed

theorem set_override_then_resolve_witness:
  "\<exists>g. set_override 5 ''t.tmp'' (\<lambda>n. if n = ''ZO_POLICY_OVERRIDE_PATH'' then Some ''/s/o.json'' else None)
        ''queue.janitor_limit'' (JStr ''50'')
        \<lparr>files = [], dirs = [path_of ''/'', path_of ''/s''], noread = [], nowrite = []\<rparr> = (Inr (JInt 50), g)
    \<and> resolve (\<lambda>n. if n = ''ZO_POLICY_OVERRIDE_PATH'' then Some ''/s/o.json'' else None) None None g
        ''queue.janitor_limit'' = Some (JInt 50, ''override_file'')
    \<and> (\<forall>k. k \<noteq> ''queue.janitor_limit'' \<longrightarrow>
        resolve (\<lambda>n. if n = ''ZO_POLICY_OVERRIDE_PATH'' then Some ''/s/o.json'' else None) None None g k =
        resolve (\<lambda>n. if n = ''ZO_POLICY_OVERRIDE_PATH'' then Some ''/s/o.json'' else None) None None
          \<lparr>files = [], dirs = [path_of ''/'', path_of ''/s''], noread = [], nowrite = []\<rparr> k)"
  by (rule set_override_then_resolve [where spec = "the (dget KEYS ''queue.janitor_limit'')"]) code_simp+

text \<open>Migration writes the state of every present legacy sentinel into the override file,
  whatever override the key had before, and changes how no other key resolves. An explicit override
  that disagrees with a stale sentinel is therefore lost (the witness: an override that had
  switched the janitor off before, on afterwards).\<close>

theorem migrate_freezes_sentinels:
  assumes "override_ready tmp env f" and "sentinel_dir_apart env droot" and "scalar_override env f"
    and "dget KEYS key = Some spec" and "env (k_env spec) = None"
  shows "\<exists>m g. migrate_legacy now tmp env droot f = (Inr m, g)
    \<and> resolve env toml droot g key =
        (case sentinel_state spec droot f of Some st \<Rightarrow> Some (JBool st, ''override_file'')
         | None \<Rightarrow> resolve env toml droot f key)"
proof -
  have dg: "dget KEYS k = Some s" if "(k, s) \<in> set KEYS" for k s
    using that KEYS_distinct by (simp add: dget_def)
  obtain m g where g: "migrate_legacy now tmp env droot f = (Inr m, g)"
      "\<forall>s. sentinel_state s droot g = sentinel_state s droot f"
      "\<forall>k. dget (load_override env g) k = migrated_entry droot f KEYS (dget (load_override env f) k) k"
    using migrate_keys_works [OF assms(1,2) dg KEYS_distinct, where now = now and m = "[]"]
      scalar_override_get [OF assms(3)]
    unfolding migrate_legacy_def by blast
  show ?thesis
  proof (cases "sentinel_state spec droot f")
    case None
    then have "resolve env toml droot g key = resolve env toml droot f key"
      using g assms(4) by (intro resolve_eq) (simp_all add: migrated_entry_def)
    with None g(1) show ?thesis by auto
  next
    case (Some st)
    have "resolve env toml droot g key = Some (JBool st, ''override_file'')"
      using sentinel_type [OF spec_of_key [OF assms(4)] Some]
      by (intro resolve_override [where env = env, OF assms(4,5)]) (simp_all add: g(3) migrated_entry_def assms(4) Some)
    with Some g(1) show ?thesis by auto
  qed
qed

definition stale_world :: fs where
  "stale_world = \<lparr>files =
       [(path_of ''/d/.queue_janitor_on'', \<lparr>body = Doc (JInt 1), mtime = 1\<rparr>),
        (path_of ''/s/o.json'', \<lparr>body = Doc (JObj [(''queue.janitor'', JBool False)]), mtime = 2\<rparr>)],
     dirs = [path_of ''/'', path_of ''/s'', path_of ''/d''], noread = [], nowrite = []\<rparr>"

definition stale_env :: environ where
  "stale_env n = (if n = ''ZO_POLICY_OVERRIDE_PATH'' then Some ''/s/o.json'' else None)"

theorem migrate_freezes_sentinels_witness:
  "resolve stale_env None (Some (path_of ''/d'')) stale_world ''queue.janitor'' = Some (JBool False, ''override_file'')
   \<and> (\<exists>m g. migrate_legacy 5 ''t.tmp'' stale_env (Some (path_of ''/d'')) stale_world = (Inr m, g)
     \<and> resolve stale_env None (Some (path_of ''/d'')) g ''queue.janitor'' = Some (JBool True, ''override_file''))"
proof
  let ?spec = "the (dget KEYS ''queue.janitor'')"
  show "resolve stale_env None (Some (path_of ''/d'')) stale_world ''queue.janitor'' = Some (JBool False, ''override_file'')"
    by code_simp
  have "sentinel_state ?spec (Some (path_of ''/d'')) stale_world = Some True"
    and "override_ready ''t.tmp'' stale_env stale_world" "sentinel_dir_apart stale_env (Some (path_of ''/d''))"
    "scalar_override stale_env stale_world" "dget KEYS ''queue.janitor'' = Some ?spec" "stale_env (k_env ?spec) = None"
    by code_simp+
  from migrate_freezes_sentinels [OF this(2-6), of 5 None] this(1)
  show "\<exists>m g. migrate_legacy 5 ''t.tmp'' stale_env (Some (path_of ''/d'')) stale_world = (Inr m, g)
     \<and> resolve stale_env None (Some (path_of ''/d'')) g ''queue.janitor'' = Some (JBool True, ''override_file'')"
    by simp
qed

end
