(* ===== verification/QueueJanitor.thy ===== *)
theory QueueJanitor
  imports BuildCompletion BuildLessons Policy
begin

text \<open>
  \<open>zo_sentinel/queue_janitor.py\<close>: one pass over the two queues that retires what the
  builder would only skip, by moving it below \<open>retired/\<close>. The pass is a loop over the
  directory listing taken when the queue is reached; its specification is a step relation that
  moves one squatting directive at a time.
\<close>

definition EXCLUDED_SUFFIXES :: "string list" where
  "EXCLUDED_SUFFIXES = [''.done.json'', ''.failed.json'']"

definition EXCLUDED_PREFIXES :: "string list" where
  "EXCLUDED_PREFIXES = [''.bak'', ''.duplicate'']"

definition QUEUES :: "string list" where
  "QUEUES = [''pending'', ''proposed'']"

definition durable_quarantine_dir :: "environ \<Rightarrow> path" where
  "durable_quarantine_dir env = path_of (case env ''ZO_DURABLE_QUARANTINE_DIR'' of
     None \<Rightarrow> ''/home/workspace/zo_sentinel_state/quarantine'' | Some s \<Rightarrow> s)"

definition janitor_truthy :: "string \<Rightarrow> bool" where
  "janitor_truthy s = (lower (strip s) \<notin> {[], ''0'', ''off'', ''false''})"

text \<open>The policy layer first; the older inline reading only if that raises.\<close>

definition janitor_enabled :: "environ \<Rightarrow> jobj option \<Rightarrow> path \<Rightarrow> fs \<Rightarrow> bool" where
  "janitor_enabled env toml droot f =
     (case flag env toml (Some droot) f ''queue.janitor'' of
        Some b \<Rightarrow> b
      | None \<Rightarrow>
        (if janitor_truthy (case env ''ZO_QUEUE_JANITOR'' of None \<Rightarrow> [] | Some s \<Rightarrow> s) then True
         else let sf = path_child droot ''.queue_janitor_on'' in
           is_file f sf \<and> (case read_text f sf of None \<Rightarrow> False
             | Some c \<Rightarrow> janitor_truthy (content_text c))))"

text \<open>\<open>str(d.get(...) or d.get(...) or ... or "").strip()\<close>.\<close>

definition janitor_id :: "jobj \<Rightarrow> string" where
  "janitor_id d = strip (py_str (py_or (jget d ''directive_id'') (py_or (jget d ''id'')
     (py_or (jget d ''key'') (py_or (jget d ''task'') (JStr []))))))"

definition live_name :: "string \<Rightarrow> bool" where
  "live_name n = (endswith n ''.json'' \<and> \<not> list_ex (endswith n) EXCLUDED_SUFFIXES
     \<and> \<not> list_ex (startswith n) EXCLUDED_PREFIXES)"

text \<open>A directory that exists but cannot be listed raises: \<open>None\<close>.\<close>

definition iter_directive_files :: "fs \<Rightarrow> path \<Rightarrow> path list option" where
  "iter_directive_files f qdir =
     (if \<not> is_dir f qdir then Some []
      else if qdir \<in> set (noread f) then None
      else Some (filter (\<lambda>p. live_name (path_name p)) (sort (iterdir_files f qdir))))"

definition classify :: "fs \<Rightarrow> path option list \<Rightarrow> path \<Rightarrow> path \<Rightarrow> jobj \<Rightarrow> string option" where
  "classify f qdirs home lessons d =
     (let did = janitor_id d in
      if did \<noteq> [] \<and> failed_quarantined f did qdirs then Some ''quarantined''
      else (case declared_output d home of None \<Rightarrow> None
        | Some out \<Rightarrow> if is_file f out \<and> open_lessons_for f lessons (path_name out) = []
            then Some ''redundant'' else None))"

record jan_stats =
  j_scanned :: nat
  j_retired :: nat
  j_kept :: nat
  j_errors :: nat
  j_by_class :: "(string, nat) dict"

definition jan_stats0 :: jan_stats where
  "jan_stats0 = \<lparr>j_scanned = 0, j_retired = 0, j_kept = 0, j_errors = 0, j_by_class = []\<rparr>"

record jan_cfg =
  c_root :: path
  c_home :: path
  c_lessons :: path
  c_qdirs :: "path option list"
  c_ts :: string

definition retired_dir :: "jan_cfg \<Rightarrow> string \<Rightarrow> path" where
  "retired_dir c label = path_child (path_child (path_child (c_root c) ''retired'') (c_ts c)) label"

definition class_label :: "string \<Rightarrow> string \<Rightarrow> string" where
  "class_label q cls = q @ ''_'' @ cls"

text \<open>Moving one file: the directory is made first and stays when the move fails.\<close>

definition retire_file :: "jan_cfg \<Rightarrow> string \<Rightarrow> path \<Rightarrow> fs \<Rightarrow> bool \<times> fs" where
  "retire_file c label p f =
     (case mkdirs (retired_dir c label) f of None \<Rightarrow> (False, f)
      | Some f1 \<Rightarrow>
        (case fs_replace p (path_child (retired_dir c label) (path_name p)) f1 of
           None \<Rightarrow> (False, f1) | Some f2 \<Rightarrow> (True, f2)))"

text \<open>One live file of the queue \<open>q\<close>.\<close>

definition janitor_file :: "jan_cfg \<Rightarrow> string \<Rightarrow> path \<Rightarrow> jan_stats \<times> fs \<Rightarrow> jan_stats \<times> fs" where
  "janitor_file c q p sf =
     (let st = (fst sf)\<lparr>j_scanned := j_scanned (fst sf) + 1\<rparr>; f = snd sf in
      case read_json f p of
        Some (JObj d) \<Rightarrow>
          (case classify f (c_qdirs c) (c_home c) (c_lessons c) d of
             None \<Rightarrow> (st\<lparr>j_kept := j_kept st + 1\<rparr>, f)
           | Some cls \<Rightarrow>
             (let label = class_label q cls; (ok, g) = retire_file c label p f
              in (if ok
                  then st\<lparr>j_retired := j_retired st + 1,
                          j_by_class := dput label ((case dget (j_by_class st) label of None \<Rightarrow> 0 | Some n \<Rightarrow> n) + 1)
                                          (j_by_class st)\<rparr>
                  else st\<lparr>j_errors := j_errors st + 1\<rparr>, g)))
      | _ \<Rightarrow> (st\<lparr>j_errors := j_errors st + 1\<rparr>, f))"

text \<open>The flag of the result says that the limit was reached, which ends the whole pass.\<close>

fun janitor_files :: "jan_cfg \<Rightarrow> int \<Rightarrow> string \<Rightarrow> path list \<Rightarrow> jan_stats \<times> fs \<Rightarrow> bool \<times> jan_stats \<times> fs" where
  "janitor_files c limit q [] sf = (False, sf)"
| "janitor_files c limit q (p # ps) sf =
     (if int (j_retired (fst sf)) \<ge> limit then (True, sf)
      else janitor_files c limit q ps (janitor_file c q p sf))"

fun janitor_queues :: "jan_cfg \<Rightarrow> int \<Rightarrow> string list \<Rightarrow> jan_stats \<times> fs \<Rightarrow> jan_stats \<times> fs" where
  "janitor_queues c limit [] sf = sf"
| "janitor_queues c limit (q # qs) sf =
     (case iter_directive_files (snd sf) (path_child (c_root c) q) of
        None \<Rightarrow> ((fst sf)\<lparr>j_errors := j_errors (fst sf) + 1\<rparr>, snd sf)
      | Some ps \<Rightarrow> (case janitor_files c limit q ps sf of
            (True, sf') \<Rightarrow> sf' | (False, sf') \<Rightarrow> janitor_queues c limit qs sf'))"

definition run_pass :: "jan_cfg \<Rightarrow> int \<Rightarrow> fs \<Rightarrow> jan_stats \<times> fs" where
  "run_pass c limit f = janitor_queues c limit QUEUES (jan_stats0, f)"

text \<open>The arguments that a caller leaves out.\<close>

definition janitor_cfg :: "environ \<Rightarrow> path \<Rightarrow> string \<Rightarrow> jan_cfg" where
  "janitor_cfg env droot ts = \<lparr>c_root = droot, c_home = path_parent droot,
     c_lessons = path_child (path_parent droot) ''lessons'',
     c_qdirs = [Some droot, Some (durable_quarantine_dir env)], c_ts = ts\<rparr>"

definition janitor_limit :: "environ \<Rightarrow> jobj option \<Rightarrow> path \<Rightarrow> fs \<Rightarrow> int" where
  "janitor_limit env toml droot f =
     (case Option.bind (pvalue env toml (Some droot) f ''queue.janitor_limit'') py_int of
        Some n \<Rightarrow> n | None \<Rightarrow> 200)"

subsection \<open>The specification: squatters move, one at a time\<close>

definition queue_file :: "jan_cfg \<Rightarrow> string \<Rightarrow> string \<Rightarrow> path" where
  "queue_file c q n = path_child (path_child (c_root c) q) n"

definition retired_file :: "jan_cfg \<Rightarrow> string \<Rightarrow> string \<Rightarrow> string \<Rightarrow> path" where
  "retired_file c q cls n = path_child (retired_dir c (class_label q cls)) n"

inductive retires :: "jan_cfg \<Rightarrow> nat \<Rightarrow> fs \<Rightarrow> fs \<Rightarrow> bool" for c where
  refl: "retires c 0 f f"
| prepare: "retires c k f g \<Longrightarrow> mkdirs (retired_dir c label) g = Some h \<Longrightarrow> retires c k f h"
| move: "retires c k f g \<Longrightarrow> q \<in> set QUEUES \<Longrightarrow> live_name n \<Longrightarrow>
    read_json g (queue_file c q n) = Some (JObj d) \<Longrightarrow>
    classify g (c_qdirs c) (c_home c) (c_lessons c) d = Some cls \<Longrightarrow>
    mkdirs (retired_dir c (class_label q cls)) g = Some g1 \<Longrightarrow>
    fs_replace (queue_file c q n) (retired_file c q cls n) g1 = Some h \<Longrightarrow>
    retires c (Suc k) f h"

text \<open>The number counts the moves; the pass reports it as its count of retirements.\<close>

subsection \<open>The pass implements it\<close>

lemma janitor_file_retires:
  assumes "retires c (j_retired (fst sf)) f (snd sf)" and "q \<in> set QUEUES" and "live_name n"
  shows "retires c (j_retired (fst (janitor_file c q (queue_file c q n) sf))) f (snd (janitor_file c q (queue_file c q n) sf))"
proof -
  let ?p = "queue_file c q n"
  show ?thesis
  proof (cases "\<exists>d cls. read_json (snd sf) ?p = Some (JObj d)
      \<and> classify (snd sf) (c_qdirs c) (c_home c) (c_lessons c) d = Some cls")
    case False
    then show ?thesis using assms(1)
      by (auto simp: janitor_file_def Let_def split: option.splits json.splits)
  next
    case True
    then obtain d cls where d: "read_json (snd sf) ?p = Some (JObj d)"
        "classify (snd sf) (c_qdirs c) (c_home c) (c_lessons c) d = Some cls" by blast
    let ?r = "retire_file c (class_label q cls) ?p (snd sf)"
    have out: "snd (janitor_file c q ?p sf) = snd ?r"
      "j_retired (fst (janitor_file c q ?p sf)) = (if fst ?r then Suc (j_retired (fst sf)) else j_retired (fst sf))"
      by (simp_all add: janitor_file_def Let_def d split_beta)
    show ?thesis
    proof (cases "mkdirs (retired_dir c (class_label q cls)) (snd sf)")
      case None
      then show ?thesis using assms(1) by (simp add: out) (simp add: retire_file_def)
    next
      case f1: (Some f1)
      show ?thesis
      proof (cases "fs_replace ?p (retired_file c q cls n) f1")
        case None
        then have "?r = (False, f1)" using f1 by (simp add: retire_file_def retired_file_def queue_file_def)
        with retires.prepare [OF assms(1) f1] show ?thesis by (simp add: out)
      next
        case (Some f2)
        then have "?r = (True, f2)" using f1 by (simp add: retire_file_def retired_file_def queue_file_def)
        with retires.move [OF assms(1-3) d f1 Some] show ?thesis by (simp add: out)
      qed
    qed
  qed
qed

lemma iter_directive_files_names:
  assumes "iter_directive_files f (path_child (c_root c) q) = Some ps" and "p \<in> set ps"
  shows "\<exists>n. p = queue_file c q n \<and> live_name n"
proof -
  from assms have "p \<in> set (iterdir_files f (path_child (c_root c) q))" and "live_name (path_name p)"
    by (auto simp: iter_directive_files_def split: if_splits)
  then show ?thesis
    using path_child_name [of p]
    by (intro exI [of _ "path_name p"]) (auto simp: iterdir_files_iff queue_file_def)
qed

lemma janitor_files_retires:
  assumes "retires c (j_retired (fst sf)) f (snd sf)" and "q \<in> set QUEUES"
    and "\<And>p. p \<in> set ps \<Longrightarrow> \<exists>n. p = queue_file c q n \<and> live_name n"
  shows "retires c (j_retired (fst (snd (janitor_files c limit q ps sf)))) f (snd (snd (janitor_files c limit q ps sf)))"
  using assms
proof (induction ps arbitrary: sf)
  case (Cons p ps)
  obtain n where n: "p = queue_file c q n" "live_name n" using Cons.prems(3) by auto
  from janitor_file_retires [OF Cons.prems(1,2) n(2)]
  have "retires c (j_retired (fst (janitor_file c q p sf))) f (snd (janitor_file c q p sf))" by (simp add: n)
  with Cons show ?case by simp
qed simp

lemma janitor_queues_retires:
  assumes "retires c (j_retired (fst sf)) f (snd sf)" and "set qs \<subseteq> set QUEUES"
  shows "retires c (j_retired (fst (janitor_queues c limit qs sf))) f (snd (janitor_queues c limit qs sf))"
  using assms
proof (induction qs arbitrary: sf)
  case (Cons q qs)
  show ?case
  proof (cases "iter_directive_files (snd sf) (path_child (c_root c) q)")
    case None
    with Cons.prems show ?thesis by simp
  next
    case (Some ps)
    have "retires c (j_retired (fst (snd (janitor_files c limit q ps sf)))) f (snd (snd (janitor_files c limit q ps sf)))"
      using Cons.prems iter_directive_files_names [OF Some] by (intro janitor_files_retires) auto
    then show ?thesis using Cons Some by (auto split: prod.splits bool.splits)
  qed
qed simp

lemma run_pass_retires: "retires c (j_retired (fst (run_pass c limit f))) f (snd (run_pass c limit f))"
  unfolding run_pass_def by (rule janitor_queues_retires) (simp_all add: retires.refl jan_stats0_def)

text \<open>The limit.\<close>

lemma janitor_file_count:
  "j_retired (fst (janitor_file c q p sf)) \<le> Suc (j_retired (fst sf))"
  by (auto simp: janitor_file_def Let_def split: option.splits json.splits prod.splits)

lemma janitor_files_bound:
  "j_retired (fst sf) \<le> nat limit \<Longrightarrow>
     j_retired (fst (snd (janitor_files c limit q ps sf))) \<le> nat limit"
proof (induction ps arbitrary: sf)
  case (Cons p ps)
  show ?case
  proof (cases "int (j_retired (fst sf)) \<ge> limit")
    case False
    then have "j_retired (fst (janitor_file c q p sf)) \<le> nat limit"
      using janitor_file_count [of c q p sf] by linarith
    then show ?thesis using Cons.IH False by simp
  qed (use Cons.prems in simp)
qed simp

lemma janitor_queues_bound:
  "j_retired (fst sf) \<le> nat limit \<Longrightarrow> j_retired (fst (janitor_queues c limit qs sf)) \<le> nat limit"
proof (induction qs arbitrary: sf)
  case (Cons q qs)
  show ?case
  proof (cases "iter_directive_files (snd sf) (path_child (c_root c) q)")
    case None
    with Cons.prems show ?thesis by simp
  next
    case (Some ps)
    with Cons janitor_files_bound [OF Cons.prems, of c q ps] show ?thesis
      by (auto split: prod.splits bool.splits)
  qed
qed simp

subsection \<open>Nothing is lost\<close>

text \<open>No file lies yet below this pass's directory of \<open>retired/\<close>.\<close>

definition fresh_stamp :: "jan_cfg \<Rightarrow> fs \<Rightarrow> bool" where
  "fresh_stamp c f = list_all (\<lambda>p. path_parent (path_parent p) \<noteq>
     path_child (path_child (c_root c) ''retired'') (c_ts c)) (keys (files f))"

lemma fresh_stampD: "fresh_stamp c f \<Longrightarrow> \<not> is_file f (retired_file c q cls n)"
  using dget_in_set [of "files f" "retired_file c q cls n"]
  by (force simp: fresh_stamp_def list_all_iff retired_file_def retired_dir_def is_file_def fs_get_def)

lemma retired_file_inj:
  assumes "q \<in> set QUEUES" and "q' \<in> set QUEUES" and "retired_file c q cls n = retired_file c q' cls' n'"
  shows "q = q' \<and> cls = cls' \<and> n = n'"
  using assms by (auto simp: retired_file_def retired_dir_def class_label_def QUEUES_def)

lemma retired_not_queued [simp]: "retired_file c q cls n \<noteq> queue_file c q' n'"
proof
  assume "retired_file c q cls n = queue_file c q' n'"
  then have "path_parent (path_parent (retired_file c q cls n)) = path_parent (path_parent (queue_file c q' n'))"
    by simp
  then show False
    by (cases "c_root c") (simp add: retired_file_def retired_dir_def queue_file_def path_child_def path_parent_def butlast_append)
qed

definition kept_or_moved :: "jan_cfg \<Rightarrow> fs \<Rightarrow> path \<Rightarrow> fentry \<Rightarrow> bool" where
  "kept_or_moved c g p x \<longleftrightarrow> fs_get g p = Some x \<or>
     (\<exists>q \<in> set QUEUES. \<exists>cls n. p = queue_file c q n \<and> fs_get g (retired_file c q cls n) = Some x)"

lemma retires_keeps:
  assumes "retires c k f g" and "fresh_stamp c f"
  shows "(\<forall>q \<in> set QUEUES. \<forall>cls n. is_file g (retired_file c q cls n) \<longrightarrow> \<not> is_file g (queue_file c q n))
    \<and> (\<forall>p x. fs_get f p = Some x \<longrightarrow> kept_or_moved c g p x)"
  using assms
proof (induction rule: retires.induct)
  case (refl f)
  then show ?case by (simp add: fresh_stampD kept_or_moved_def)
next
  case (prepare k f g label h)
  then show ?case by (simp add: mkdirs_get [OF prepare.hyps(2)] is_file_def kept_or_moved_def)
next
  case (move k f g q n d cls g1 h)
  let ?src = "queue_file c q n" and ?dst = "retired_file c q cls n"
  have get: "fs_get h r = (if r = ?dst then fs_get g ?src else if r = ?src then None else fs_get g r)" for r
    using fs_replace_get [OF move.hyps(7)] mkdirs_get [OF move.hyps(6)] by simp
  have src: "is_file g ?src"
    using move.hyps(4) read_missing [of g ?src] by auto
  have inv: "is_file g (retired_file c q' cls' n') \<Longrightarrow> \<not> is_file g (queue_file c q' n')"
    if "q' \<in> set QUEUES" for q' cls' n'
    using move.IH move.prems that by blast
  have no_dst: "\<not> is_file g ?dst" using inv [OF move.hyps(2)] src by blast
  show ?case
  proof (intro conjI ballI allI impI)
    fix q' cls' n'
    assume q': "q' \<in> set QUEUES" and fl: "is_file h (retired_file c q' cls' n')"
    show "\<not> is_file h (queue_file c q' n')"
    proof (cases "retired_file c q' cls' n' = ?dst")
      case True
      then have "queue_file c q' n' = ?src"
        using retired_file_inj [OF q' move.hyps(2)] by blast
      moreover have "?src \<noteq> ?dst" by (rule retired_not_queued [THEN not_sym])
      ultimately show ?thesis by (simp add: is_file_def get)
    next
      case False
      then have "is_file g (retired_file c q' cls' n')" using fl by (simp add: is_file_def get)
      then have "\<not> is_file g (queue_file c q' n')" by (rule inv [OF q'])
      then show ?thesis
        by (auto simp: is_file_def get dest: retired_not_queued [THEN notE, OF sym])
    qed
  next
    fix p x
    assume "fs_get f p = Some x"
    then have "kept_or_moved c g p x" using move.IH move.prems by blast
    then show "kept_or_moved c h p x"
      unfolding kept_or_moved_def
    proof
      assume p: "fs_get g p = Some x"
      show "fs_get h p = Some x \<or> (\<exists>q \<in> set QUEUES. \<exists>cls n. p = queue_file c q n \<and>
          fs_get h (retired_file c q cls n) = Some x)"
      proof (cases "p = ?src")
        case True
        then show ?thesis using p move.hyps(2) by (auto simp: get)
      next
        case False
        then show ?thesis using p no_dst by (auto simp: get is_file_def)
      qed
    next
      assume "\<exists>q \<in> set QUEUES. \<exists>cls n. p = queue_file c q n \<and> fs_get g (retired_file c q cls n) = Some x"
      then obtain q' cls' n' where m: "q' \<in> set QUEUES" "p = queue_file c q' n'"
          "fs_get g (retired_file c q' cls' n') = Some x" by blast
      then have "retired_file c q' cls' n' \<noteq> ?dst" using no_dst by (auto simp: is_file_def)
      then have "fs_get h (retired_file c q' cls' n') = Some x" using m(3) by (simp add: get)
      with m(1,2) show "fs_get h p = Some x \<or> (\<exists>q \<in> set QUEUES. \<exists>cls n. p = queue_file c q n \<and>
          fs_get h (retired_file c q cls n) = Some x)" by blast
    qed
  qed
qed

lemma parked_is_quarantined:
  assumes "failed_quarantined f did ds" and "janitor_id d = did" and "did \<noteq> []"
  shows "classify f ds home lessons d = Some ''quarantined''"
  using assms by (simp add: classify_def Let_def)

subsection \<open>Properties\<close>

text \<open>C5: a janitor pass only moves: it is a sequence of moves of live directives that are
  quarantined or redundant when they are moved, exactly as many as it counts as retired, which is at
  most the limit; and when no file lies yet in this pass's own directory (the one of its time stamp
  below \<open>retired/\<close>), every file that existed before keeps its content, in place or moved there.\<close>

theorem janitor_pass_only_moves:
  "retires c (j_retired (fst (run_pass c limit f))) f (snd (run_pass c limit f))
    \<and> j_retired (fst (run_pass c limit f)) \<le> nat limit
    \<and> (fresh_stamp c f \<longrightarrow> (\<forall>p x. fs_get f p = Some x \<longrightarrow> kept_or_moved c (snd (run_pass c limit f)) p x))"
proof -
  have "j_retired (fst (run_pass c limit f)) \<le> nat limit"
    unfolding run_pass_def by (rule janitor_queues_bound) (simp add: jan_stats0_def)
  then show ?thesis
    using run_pass_retires [of c limit f] retires_keeps [OF run_pass_retires] by blast
qed

definition squatted :: fs where
  "squatted = \<lparr>files =
      [(path_of ''/r/pending/a.json'', \<lparr>body = Doc (JObj [(''id'', JStr ''a'')]), mtime = 1\<rparr>),
       (path_of ''/r/a.failed.json'', \<lparr>body = Doc (JObj []), mtime = 1\<rparr>)],
     dirs = [path_of ''/'', path_of ''/r'', path_of ''/r/pending''], noread = [], nowrite = []\<rparr>"

theorem janitor_pass_only_moves_witness:
  "retires (janitor_cfg (\<lambda>_. None) (path_of ''/r'') ''T'') 1 squatted
      (snd (run_pass (janitor_cfg (\<lambda>_. None) (path_of ''/r'') ''T'') 5 squatted))
   \<and> kept_or_moved (janitor_cfg (\<lambda>_. None) (path_of ''/r'') ''T'')
      (snd (run_pass (janitor_cfg (\<lambda>_. None) (path_of ''/r'') ''T'') 5 squatted)) (path_of ''/r/pending/a.json'')
      \<lparr>body = Doc (JObj [(''id'', JStr ''a'')]), mtime = 1\<rparr>"
proof -
  have f: "fresh_stamp (janitor_cfg (\<lambda>_. None) (path_of ''/r'') ''T'') squatted"
    and n: "j_retired (fst (run_pass (janitor_cfg (\<lambda>_. None) (path_of ''/r'') ''T'') 5 squatted)) = 1"
    and g: "fs_get squatted (path_of ''/r/pending/a.json'') = Some \<lparr>body = Doc (JObj [(''id'', JStr ''a'')]), mtime = 1\<rparr>"
    by code_simp+
  from janitor_pass_only_moves [of "janitor_cfg (\<lambda>_. None) (path_of ''/r'') ''T''" 5 squatted] f g show ?thesis
    unfolding n by blast
qed

end
