(* ===== verification/ServiceUnit.thy ===== *)
theory ServiceUnit
  imports PyFs PyRegex BuildCompletion Policy
begin

text \<open>
  The service as the unit of building: \<open>tools/service_decomposer.py\<close>, which turns a service
  into five single-file directives, and \<open>zo_sentinel/builder_exclusions.py\<close>, the list of
  families that must not be fanned out again.
\<close>

subsection \<open>Names\<close>

definition RESERVED_SERVICE_NAMES :: "string list" where
  "RESERVED_SERVICE_NAMES =
     [''contract'', ''logic'', ''router'', ''init'', ''service'', ''toml'', ''service_toml'',
      ''spec'', ''exemplar'',
      ''app'', ''zo_sentinel'', ''services'', ''staged'', ''active'', ''tools'', ''tests'',
      ''ops'', ''alembic'', ''main'']"

text \<open>\<open>^[a-z][a-z0-9_]*$\<close>.\<close>

definition NAME_RE :: re where
  "NAME_RE = rseqs [RBegin, RChr is_lower_ascii,
     RStar (RChr (\<lambda>c. is_lower_ascii c \<or> is_digit c \<or> c = CHR ''_'')), REnd]"

text \<open>\<open>False\<close> is the ValueError.\<close>

definition validate_service_name :: "string \<Rightarrow> bool" where
  "validate_service_name name =
     (if re_match NAME_RE name = None then False else name \<notin> set RESERVED_SERVICE_NAMES)"

subsection \<open>Decomposition\<close>

text \<open>\<open>role.format(name=name)\<close>, for the three roles of the source.\<close>

definition CODE_FILES :: "string \<Rightarrow> (string \<times> string) list" where
  "CODE_FILES name =
     [(''logic.py'', ''data/computation over the REAL app.db/app.models (no inline/stub models)''),
      (''router.py'', ''thin APIRouter exposing `router`, RELATIVE `from .logic import ...`, Depends(get_session)''),
      (''contract.py'', ''acceptance self-test runnable as `python -m services.staged.'' @ name @
         ''.contract`, TestClient + dependency_overrides + SQLite StaticPool, prints PASS/exit 0'')]"

definition init_body :: string where
  "init_body = ''# Auto-emitted service package. Relative intra-service imports survive'' @ [newline] @
     ''# staged->active promotion without rewrite.'' @ [newline]"

definition toml_line :: "string \<Rightarrow> string \<Rightarrow> string" where
  "toml_line k v = k @ '' = '' @ [CHR 0x22] @ v @ [CHR 0x22, newline]"

definition service_toml :: "string \<Rightarrow> string \<Rightarrow> string \<Rightarrow> string" where
  "service_toml name prefix tag =
     ''[service]'' @ [newline] @
     toml_line ''name'' name @
     toml_line ''import_path'' (''services.active.'' @ name @ ''.router'') @
     toml_line ''prefix'' prefix @
     toml_line ''tag'' tag @
     toml_line ''origin'' ''service'' @
     toml_line ''auth'' ''public'' @
     ''needs_data_layer = true'' @ [newline, newline] @
     ''# Emitted by tools/service_decomposer.py. import_path names services.ACTIVE'' @ [newline] @
     ''# because that is where router.py lives AFTER promotion.'' @ [newline]"

definition staged_dir :: "string \<Rightarrow> string" where
  "staged_dir name = ''services/staged/'' @ name"

definition init_directive :: "string \<Rightarrow> jobj" where
  "init_directive name = (let staged = staged_dir name in
     [(''task'', JStr (''scaffold_'' @ name @ ''_init'')),
      (''handler'', JStr ''write_raw''),
      (''output_file'', JStr (staged @ ''/__init__.py'')),
      (''content'', JStr init_body),
      (''description'', JStr (''Create EXACTLY the file '' @ staged @ ''/__init__.py -- this literal '' @
         ''repo-relative path and no other. It is the staged package '' @
         ''marker for service '' @ [CHR 0x27] @ name @ [CHR 0x27] @ '' so its relative intra-service '' @
         ''imports work under services.staged/active. Do NOT write or '' @
         ''modify zo_sentinel/__init__.py, app/__init__.py, or any '' @
         ''__init__.py outside '' @ staged @ ''/. Deterministic scaffold; content '' @
         ''is provided verbatim.'')),
      (''complexity'', JStr ''low'')])"

definition toml_directive :: "string \<Rightarrow> string \<Rightarrow> string \<Rightarrow> jobj" where
  "toml_directive name prefix tag = (let staged = staged_dir name in
     [(''task'', JStr (''scaffold_'' @ name @ ''_service_toml'')),
      (''handler'', JStr ''write_raw''),
      (''output_file'', JStr (staged @ ''/service.toml'')),
      (''requires'', JList [JStr (staged @ ''/router.py'')]),
      (''content'', JStr (service_toml name prefix tag)),
      (''description'', JStr (''Create EXACTLY the file '' @ staged @ ''/service.toml -- this literal '' @
         ''repo-relative path and no other -- registering service '' @ [CHR 0x27] @ name @ [CHR 0x27] @ '' '' @
         ''(import_path services.active.'' @ name @ ''.router, prefix '' @ prefix @ ''). This is '' @
         ''the contract the spine reads after promotion. It REQUIRES '' @
         staged @ ''/router.py: the manifest must never name a module that '' @
         ''does not exist.'')),
      (''complexity'', JStr ''low'')])"

definition requires_by_stem :: "string \<Rightarrow> (string, json) dict" where
  "requires_by_stem staged =
     [(''router'', JList [JStr (staged @ ''/logic.py'')]),
      (''contract'', JList [JStr (staged @ ''/router.py'')])]"

definition code_directive :: "string \<Rightarrow> string \<Rightarrow> string \<Rightarrow> string \<times> string \<Rightarrow> jobj" where
  "code_directive name spec exemplar_dir fr =
     (let fname = fst fr; role = snd fr; staged = staged_dir name;
          stem = take (length fname - 3) fname;
          exemplar_file = exemplar_dir @ ''/'' @ fname;
          directive =
            [(''task'', JStr (''build_'' @ name @ ''_'' @ stem)),
             (''handler'', JStr ''generate_file''),
             (''recipe'', JStr ''service_dir_from_exemplar''),
             (''output_file'', JStr (staged @ ''/'' @ fname)),
             (''exemplar_file'', JStr exemplar_file),
             (''reads'', JList [JStr exemplar_file]),
             (''description'', JStr (''Build services/staged/'' @ name @ ''/'' @ fname @ '' for service '' @
                [CHR 0x27] @ name @ [CHR 0x27] @ '' by MIRRORING '' @ exemplar_file @ ''. '' @
                ''Role: '' @ role @ ''. Single-file only; import the REAL data layer; no stub DB. '' @
                ''Service spec: '' @ spec)),
             (''complexity'', JStr ''medium'')]
      in (case dget (requires_by_stem staged) stem of
            None \<Rightarrow> directive | Some r \<Rightarrow> directive @ [(''requires'', r)]))"

text \<open>\<open>None\<close> is the ValueError.\<close>

definition decompose :: "string \<Rightarrow> string \<Rightarrow> string \<Rightarrow> string \<Rightarrow> string \<Rightarrow> jobj list option" where
  "decompose name spec prefix tag exemplar_dir =
     (if \<not> validate_service_name name then None
      else (let tag = (if tag = [] then name else tag) in
        Some ([init_directive name, toml_directive name prefix tag] @
              map (code_directive name spec exemplar_dir) (CODE_FILES name))))"

subsection \<open>Excluded families\<close>

text \<open>\<open>^(?P<family>.+?)_v(?P<ver>\d+)$\<close>; group 1 is the family.\<close>

definition VERSION_RE :: re where
  "VERSION_RE = rseqs [RBegin, RGroup 1 (rlazyplus (RChr (\<lambda>c. c \<noteq> newline))), rlit ''_v'',
     RGroup 2 (rplus (RChr is_digit)), REnd]"

definition family_of :: "string \<Rightarrow> string" where
  "family_of name = (case re_match VERSION_RE name of None \<Rightarrow> name
     | Some m \<Rightarrow> (case mgroup m 1 of None \<Rightarrow> name | Some w \<Rightarrow> w))"

definition EXCL_PREFIXES :: "string list" where
  "EXCL_PREFIXES = [''build_service_'', ''scaffold_'', ''build_'']"

text \<open>The first prefix that applies is removed.\<close>

fun strip_first_prefix :: "string list \<Rightarrow> string \<Rightarrow> string" where
  "strip_first_prefix [] raw = raw"
| "strip_first_prefix (p # ps) raw =
     (if startswith raw p then drop (length p) raw else strip_first_prefix ps raw)"

text \<open>
  The families of \<open>load()\<close>: none for a missing or unreadable file; a document that is not
  an object raises past its handler (\<open>None\<close>).
\<close>

definition exclusions_path :: "environ \<Rightarrow> path \<Rightarrow> path" where
  "exclusions_path env repo = (case env ''ZO_BUILDER_EXCLUSIONS'' of
     None \<Rightarrow> path_join repo (path_of ''directives/builder_exclusions.json'') | Some s \<Rightarrow> path_of s)"

definition load_families :: "environ \<Rightarrow> path \<Rightarrow> fs \<Rightarrow> (string \<times> jobj) list option" where
  "load_families env repo f =
     (let p = exclusions_path env repo in
      if \<not> is_file f p then Some []
      else (case read_json f p of None \<Rightarrow> Some []
        | Some (JObj data) \<Rightarrow>
          (case py_or (jget data ''families'') (JObj []) of
             JObj fams \<Rightarrow> Some (map (\<lambda>kv. (fst kv,
                 (case snd kv of JObj e \<Rightarrow> e | v \<Rightarrow> [(''reason'', JStr (py_str v))]))) fams)
           | _ \<Rightarrow> Some [])
        | Some _ \<Rightarrow> None))"

definition exclusion_key :: "string \<Rightarrow> string" where
  "exclusion_key service_name =
     (let raw = strip service_name;
          raw = (if endswith raw ''.py'' then take (length raw - 3) raw else raw);
          raw = strip_first_prefix EXCL_PREFIXES raw
      in family_of (strip_chars ''_'' raw))"

definition excluded_reason :: "environ \<Rightarrow> path \<Rightarrow> fs \<Rightarrow> string \<Rightarrow> string option option" where
  "excluded_reason env repo f service_name =
     (let fam = exclusion_key service_name in
      if fam = [] then Some None
      else (case load_families env repo f of None \<Rightarrow> None
        | Some fams \<Rightarrow>
          (case dget fams fam of None \<Rightarrow> Some None
           | Some entry \<Rightarrow> Some (Some (py_str (py_or (jget entry ''reason'') (JStr ''excluded'')))))))"

definition excluded_names :: "environ \<Rightarrow> path \<Rightarrow> fs \<Rightarrow> string list option" where
  "excluded_names env repo f = map_option (\<lambda>fams. remdups (keys fams @ map (\<lambda>k. k @ ''.py'') (keys fams)))
     (load_families env repo f)"

subsection \<open>The unit as a chain\<close>

text \<open>The files a directive asks for and the one it makes.\<close>

definition req_files :: "jobj \<Rightarrow> string list" where
  "req_files d = (case jget d ''requires'' of JList rs \<Rightarrow> List.map_filter as_str rs | _ \<Rightarrow> [])"

definition out_file :: "jobj \<Rightarrow> string" where
  "out_file d = py_str (jget d ''output_file'')"

lemma decompose_parts:
  assumes "decompose name spec prefix tag ed = Some ds"
  shows "ds = [init_directive name, toml_directive name prefix (if tag = [] then name else tag),
      code_directive name spec ed (CODE_FILES name ! 0), code_directive name spec ed (CODE_FILES name ! 1),
      code_directive name spec ed (CODE_FILES name ! 2)]"
  using assms by (simp add: decompose_def Let_def CODE_FILES_def split: if_splits)

lemmas directive_defs = init_directive_def toml_directive_def code_directive_def CODE_FILES_def
  requires_by_stem_def staged_dir_def Let_def

lemma decompose_files:
  assumes "decompose name spec prefix tag ed = Some ds"
  shows "map out_file ds = map (\<lambda>n. staged_dir name @ ''/'' @ n)
      [''__init__.py'', ''service.toml'', ''logic.py'', ''router.py'', ''contract.py'']"
    and "map req_files ds = map (map (\<lambda>n. staged_dir name @ ''/'' @ n))
      [[], [''router.py''], [], [''logic.py''], [''router.py'']]"
  unfolding decompose_parts [OF assms]
  by (simp_all add: out_file_def req_files_def directive_defs List.map_filter_simps)

text \<open>A name that ends in a line feed passes the check, also when the rest is reserved.\<close>

lemma newline_name_accepted: "validate_service_name (''logic'' @ [newline])"
  by code_simp

text \<open>
  A sequence of builds in which every directive finds the files it asks for, built before or
  there from the start.
\<close>

fun chain_ok :: "string list \<Rightarrow> jobj list \<Rightarrow> bool" where
  "chain_ok built [] = True"
| "chain_ok built (d # ds) = (list_all (\<lambda>r. r \<in> set built) (req_files d) \<and> chain_ok (out_file d # built) ds)"

lemma chain_ok_append:
  "chain_ok built (as @ bs) \<longleftrightarrow> chain_ok built as \<and> chain_ok (rev (map out_file as) @ built) bs"
  by (induction as arbitrary: built) auto

lemma chain_ok_middle:
  "chain_ok [] (as @ d # bs) \<Longrightarrow> r \<in> set (req_files d) \<Longrightarrow> \<exists>a \<in> set as. out_file a = r"
  by (auto simp: chain_ok_append list_all_iff)

definition member_file :: "string \<Rightarrow> string \<Rightarrow> string" where
  "member_file name n = staged_dir name @ ''/'' @ n"

lemma requires_of_member:
  assumes "decompose name spec prefix tag ed = Some ds" and "d \<in> set ds"
  shows "out_file d = member_file name ''service.toml'' \<Longrightarrow> req_files d = [member_file name ''router.py'']"
    and "out_file d = member_file name ''contract.py'' \<Longrightarrow> req_files d = [member_file name ''router.py'']"
    and "out_file d = member_file name ''router.py'' \<Longrightarrow> req_files d = [member_file name ''logic.py'']"
  using assms(2) unfolding decompose_parts [OF assms(1)]
  by (auto simp: out_file_def req_files_def directive_defs member_file_def List.map_filter_simps)

lemma member_built_after:
  assumes "decompose name spec prefix tag ed = Some ds"
    and "set (as @ d # bs) \<subseteq> set ds" and "chain_ok [] (as @ d # bs)"
    and "out_file d \<in> {member_file name ''service.toml'', member_file name ''contract.py''}"
  shows "\<exists>as1 l as2 r as3. as = as1 @ l # as2 @ r # as3
    \<and> out_file l = member_file name ''logic.py'' \<and> out_file r = member_file name ''router.py''"
proof -
  have "req_files d = [member_file name ''router.py'']"
    using requires_of_member(1,2) [OF assms(1), of d] assms(2,4) by auto
  then obtain r where r: "r \<in> set as" "out_file r = member_file name ''router.py''"
    using chain_ok_middle [OF assms(3), of "member_file name ''router.py''"] by auto
  then obtain xs as3 where as: "as = xs @ r # as3" by (metis split_list)
  have "req_files r = [member_file name ''logic.py'']"
    using requires_of_member(3) [OF assms(1), of r] r assms(2) by auto
  moreover have "chain_ok [] (xs @ r # as3 @ d # bs)"
    using assms(3) by (simp add: as)
  ultimately obtain l where l: "l \<in> set xs" "out_file l = member_file name ''logic.py''"
    using chain_ok_middle [of xs r "as3 @ d # bs" "member_file name ''logic.py''"] by auto
  then obtain as1 as2 where "xs = as1 @ l # as2" by (metis split_list)
  then have "as = as1 @ l # as2 @ r # as3" using as by simp
  with l r show ?thesis by blast
qed

subsection \<open>Properties\<close>

text \<open>The five directives of a decomposed service can be built in an order that satisfies
  every one's requirements, and in any such order the manifest and the contract come after the
  router and the router after the logic: the manifest never names a module that was not built.\<close>

theorem service_chain_is_ordered:
  assumes "decompose name spec prefix tag ed = Some ds"
  shows "chain_ok [] [ds ! 0, ds ! 2, ds ! 3, ds ! 1, ds ! 4]
    \<and> (\<forall>as d bs. set (as @ d # bs) \<subseteq> set ds \<and> chain_ok [] (as @ d # bs)
        \<and> out_file d \<in> {member_file name ''service.toml'', member_file name ''contract.py''} \<longrightarrow>
        (\<exists>as1 l as2 r as3. as = as1 @ l # as2 @ r # as3
          \<and> out_file l = member_file name ''logic.py'' \<and> out_file r = member_file name ''router.py''))"
proof
  show "chain_ok [] [ds ! 0, ds ! 2, ds ! 3, ds ! 1, ds ! 4]"
    unfolding decompose_parts [OF assms]
    by (simp add: out_file_def req_files_def directive_defs List.map_filter_simps)
qed (use member_built_after [OF assms] in blast)

theorem service_chain_is_ordered_witness:
  "chain_ok [] [the (decompose ''risk'' ''s'' ''/api'' [] ''services/_exemplar'') ! i. i \<leftarrow> [0, 2, 3, 1, 4]]"
proof -
  have "decompose ''risk'' ''s'' ''/api'' [] ''services/_exemplar'' =
      Some (the (decompose ''risk'' ''s'' ''/api'' [] ''services/_exemplar''))" by code_simp
  from conjunct1 [OF service_chain_is_ordered [OF this]] show ?thesis by simp
qed

end
