(* ===== verification/Promoter.thy ===== *)
theory Promoter
  imports QueueJanitor ServiceUnit
begin

text \<open>
  \<open>zo_sentinel/promoters/proposed_to_pending_promoter.py\<close>: the pass that moves valid
  proposals into \<open>pending/\<close>. One record holds a cycle's arguments, environment and clock (mtimes
  and ages in seconds); a function that may raise returns \<open>None\<close> beside the state it leaves.
\<close>

record pcfg =
  p_env :: environ
  p_toml :: "jobj option"
  p_repo :: path
  p_proposed :: path
  p_pending :: path
  p_min_age :: int
  p_max :: int
  p_dry :: bool
  p_root :: "path option"
  p_now :: int
  p_stamp :: string

subsection \<open>Validation\<close>

definition REQUIRED_FIELDS :: "string list" where
  "REQUIRED_FIELDS = [''description'', ''handler'', ''output_file'', ''task'']"

definition VALID_HANDLERS :: "string list" where
  "VALID_HANDLERS = [''generate_file'', ''write_raw'', ''run_script'']"

definition VALID_COMPLEXITY :: "string list" where
  "VALID_COMPLEXITY = [''low'', ''medium'', ''high'']"

text \<open>\<open>v in {...}\<close> for a set of strings: \<open>None\<close> is the TypeError of an unhashable value.\<close>

fun in_str_set :: "json \<Rightarrow> string list \<Rightarrow> bool option" where
  "in_str_set (JList xs) ss = None"
| "in_str_set (JObj d) ss = None"
| "in_str_set (JStr s) ss = Some (s \<in> set ss)"
| "in_str_set v ss = Some False"

text \<open>\<open>len(v)\<close>: \<open>None\<close> is the TypeError.\<close>

fun json_len :: "json \<Rightarrow> nat option" where
  "json_len (JStr s) = Some (length s)"
| "json_len (JList xs) = Some (length xs)"
| "json_len (JObj d) = Some (length d)"
| "json_len v = None"

definition output_check :: "jobj \<Rightarrow> bool \<times> string" where
  "output_check d =
     (let of_v = py_or (jget d ''output_file'') (JStr []) in
      if truthy of_v then
        (let stem = path_stem (path_of (py_str of_v)) in
         if doubled_prefix stem then (False, malformed_reason stem) else (True, ''ok''))
      else (True, ''ok''))"

definition description_check :: "jobj \<Rightarrow> (bool \<times> string) option" where
  "description_check d =
     (case json_len (py_or (jget_or d ''description'' (JStr [])) (JStr [])) of
        None \<Rightarrow> None
      | Some n \<Rightarrow> if n < 50 then Some (False, ''description too short (<50 chars)'')
                  else Some (output_check d))"

definition complexity_check :: "jobj \<Rightarrow> (bool \<times> string) option" where
  "complexity_check d =
     (let c = jget d ''complexity'' in
      if \<not> truthy c then description_check d
      else (case in_str_set c VALID_COMPLEXITY of None \<Rightarrow> None
        | Some True \<Rightarrow> description_check d
        | Some False \<Rightarrow> Some (False, ''invalid complexity: '' @ py_repr c)))"

definition validate :: "json \<Rightarrow> (bool \<times> string) option" where
  "validate v =
     (case v of JObj d \<Rightarrow>
        (let missing = filter (\<lambda>k. \<not> dhas d k) REQUIRED_FIELDS in
         if missing \<noteq> [] then Some (False, ''missing fields: '' @ py_repr (JList (map JStr missing)))
         else (case in_str_set (jget d ''handler'') VALID_HANDLERS of None \<Rightarrow> None
           | Some False \<Rightarrow> Some (False, ''invalid handler: '' @ py_repr (jget d ''handler''))
           | Some True \<Rightarrow> complexity_check d))
      | _ \<Rightarrow> Some (False, ''not a dict''))"

definition resolve_directive_id :: "jobj \<Rightarrow> string" where
  "resolve_directive_id d = strip (py_str (py_or (jget d ''directive_id'') (py_or (jget d ''id'')
     (py_or (jget d ''key'') (py_or (jget d ''task'') (JStr []))))))"

subsection \<open>Renaming aside\<close>

definition rename_to :: "string \<Rightarrow> path \<Rightarrow> fs \<Rightarrow> fs" where
  "rename_to suffix p f =
     (case fs_replace p (with_name p (path_name p @ suffix)) f of None \<Rightarrow> f | Some g \<Rightarrow> g)"

definition rename_duplicate :: "path \<Rightarrow> fs \<Rightarrow> fs" where
  "rename_duplicate = rename_to ''.duplicate''"

text \<open>
  The first of \<open>.rejected\<close>, \<open>.rejected.1\<close>, ... that does not exist; the number of
  files and directories bounds the search.
\<close>

definition rejected_name :: "path \<Rightarrow> nat \<Rightarrow> path" where
  "rejected_name p i = with_name p (path_name p @ (if i = 0 then ''.rejected''
     else ''.rejected.'' @ nat_str i))"

fun free_rejected :: "nat \<Rightarrow> fs \<Rightarrow> path \<Rightarrow> nat \<Rightarrow> path option" where
  "free_rejected 0 f p i = None"
| "free_rejected (Suc n) f p i =
     (if fs_exists f (rejected_name p i) then free_rejected n f p (Suc i) else Some (rejected_name p i))"

definition rename_rejected :: "path \<Rightarrow> fs \<Rightarrow> fs" where
  "rename_rejected p f =
     (case free_rejected (Suc (length (files f) + length (dirs f))) f p 0 of
        None \<Rightarrow> f
      | Some t \<Rightarrow> (case fs_replace p t f of None \<Rightarrow> f | Some g \<Rightarrow> g))"

subsection \<open>Scanning\<close>

definition proposal_name :: "string \<Rightarrow> bool" where
  "proposal_name n = (endswith n ''.json'' \<and> \<not> endswith n ''.done.json'' \<and> \<not> endswith n ''.failed.json''
     \<and> \<not> substr_in ''.bak'' n)"

definition file_mtime :: "fs \<Rightarrow> path \<Rightarrow> int" where
  "file_mtime f p = (case fs_get f p of None \<Rightarrow> 0 | Some x \<Rightarrow> mtime x)"

text \<open>Oldest first, ties in directory order. Listing a plain file or an unreadable directory raises.\<close>

definition iter_proposals :: "fs \<Rightarrow> path \<Rightarrow> path list option" where
  "iter_proposals f d =
     (if \<not> fs_exists f d then Some []
      else if \<not> is_dir f d \<or> d \<in> set (noread f) then None
      else Some (sort_key (file_mtime f) (filter (\<lambda>p. proposal_name (path_name p)) (iterdir_files f d))))"

definition is_too_young :: "fs \<Rightarrow> path \<Rightarrow> int \<Rightarrow> int \<Rightarrow> bool option" where
  "is_too_young f p min_age now =
     (case fs_get f p of None \<Rightarrow> None | Some x \<Rightarrow> Some (now - mtime x < min_age))"

definition skip_marker :: "path \<Rightarrow> path" where
  "skip_marker p = with_name p (path_name p @ ''.skip'')"

subsection \<open>Terminal directives\<close>

definition durably_quarantined :: "environ \<Rightarrow> fs \<Rightarrow> string \<Rightarrow> bool" where
  "durably_quarantined env f did =
     (did \<noteq> [] \<and> fs_exists f (failed_path (durable_quarantine_dir env) did))"

definition is_terminal :: "environ \<Rightarrow> fs \<Rightarrow> path \<Rightarrow> string \<Rightarrow> bool" where
  "is_terminal env f droot did =
     (fs_exists f (done_path droot did) \<or> fs_exists f (failed_path droot did) \<or> durably_quarantined env f did)"

definition pending_is_terminal :: "environ \<Rightarrow> fs \<Rightarrow> path \<Rightarrow> path \<Rightarrow> bool" where
  "pending_is_terminal env f pending_file droot =
     (case read_json f pending_file of
        Some (JObj d) \<Rightarrow> (let did = resolve_directive_id d in did \<noteq> [] \<and> is_terminal env f droot did)
      | _ \<Rightarrow> False)"

definition promoter_unmet :: "fs \<Rightarrow> path \<Rightarrow> jobj \<Rightarrow> string list" where
  "promoter_unmet f repo d =
     (case py_or (jget d ''requires'') (JList []) of
        JList reqs \<Rightarrow> filter (\<lambda>r. r \<noteq> [] \<and> \<not> fs_exists f (path_join repo (path_of r))) (map py_str reqs)
      | _ \<Rightarrow> [])"

subsection \<open>One proposal\<close>

record pcounters =
  n_scanned :: nat
  n_eligible :: nat
  n_promoted :: nat
  n_rejected :: nat
  n_skipped :: nat
  n_too_young :: nat

definition pcounters0 :: pcounters where
  "pcounters0 = \<lparr>n_scanned = 0, n_eligible = 0, n_promoted = 0, n_rejected = 0, n_skipped = 0, n_too_young = 0\<rparr>"

definition skipped1 :: "pcounters \<Rightarrow> pcounters" where
  "skipped1 k = k\<lparr>n_skipped := n_skipped k + 1\<rparr>"

datatype outcome = Promoted | Rejected | AlreadyResolved | DeferredRequires | TerminalDup | Collision | MoveFailed

type_synonym pstate = "pcounters \<times> fs"

definition reject_src :: "pcfg \<Rightarrow> path \<Rightarrow> pstate \<Rightarrow> outcome option \<times> pstate" where
  "reject_src c src s =
     (Some Rejected, (fst s)\<lparr>n_rejected := n_rejected (fst s) + 1\<rparr>,
      if p_dry c then snd s else rename_rejected src (snd s))"

definition set_aside :: "pcfg \<Rightarrow> outcome \<Rightarrow> path \<Rightarrow> pstate \<Rightarrow> outcome option \<times> pstate" where
  "set_aside c out src s =
     (Some out, skipped1 (fst s), if p_dry c then snd s else rename_duplicate src (snd s))"

definition move_src :: "pcfg \<Rightarrow> path \<Rightarrow> path \<Rightarrow> pstate \<Rightarrow> outcome option \<times> pstate" where
  "move_src c src dest s =
     (let k = fst s; f = snd s; won = k\<lparr>n_promoted := n_promoted k + 1\<rparr> in
      if p_dry c then (Some Promoted, won, f)
      else (case mkdirs (p_pending c) f of None \<Rightarrow> (Some MoveFailed, skipped1 k, f)
        | Some f1 \<Rightarrow>
          (case fs_replace src dest f1 of None \<Rightarrow> (Some MoveFailed, skipped1 k, f1)
           | Some f2 \<Rightarrow> (Some Promoted, won, f2))))"

definition already_resolved :: "pcfg \<Rightarrow> path option \<Rightarrow> jobj \<Rightarrow> fs \<Rightarrow> bool" where
  "already_resolved c droot d f =
     (case droot of None \<Rightarrow> False
      | Some r \<Rightarrow> (let did = resolve_directive_id d in did \<noteq> [] \<and> is_terminal (p_env c) f r did))"

definition do_promote :: "pcfg \<Rightarrow> path option \<Rightarrow> path \<Rightarrow> pstate \<Rightarrow> outcome option \<times> pstate" where
  "do_promote c droot src s =
     (let f = snd s; dest = path_child (p_pending c) (path_name src) in
      case read_json f src of
        None \<Rightarrow> reject_src c src s
      | Some v \<Rightarrow>
        (case validate v of
           None \<Rightarrow> (None, s)
         | Some (ok, reason) \<Rightarrow>
           (if \<not> ok then reject_src c src s
            else (case v of
              JObj d \<Rightarrow>
                (if already_resolved c droot d f then set_aside c AlreadyResolved src s
                 else if promoter_unmet f (p_repo c) d \<noteq> [] then (Some DeferredRequires, skipped1 (fst s), f)
                 else if fs_exists f dest then
                   (if (case droot of None \<Rightarrow> False | Some r \<Rightarrow> pending_is_terminal (p_env c) f dest r)
                    then set_aside c TerminalDup src s
                    else (Some Collision, skipped1 (fst s), f))
                 else move_src c src dest s)
            | _ \<Rightarrow> (None, s)))))"

subsection \<open>Fan-out of services\<close>

definition SERVICE_NAME_PREFIXES :: "string list" where
  "SERVICE_NAME_PREFIXES = [''build_service_'', ''build_'']"

fun first_service_name :: "jobj \<Rightarrow> string list \<Rightarrow> string \<times> string" where
  "first_service_name d [] = ([], [])"
| "first_service_name d (key # ks) =
     (let raw = strip (py_str (py_or (jget d key) (JStr []))) in
      if raw = [] then first_service_name d ks
      else (let raw = (if key = ''task'' then strip_first_prefix SERVICE_NAME_PREFIXES raw else raw);
                raw = strip_chars ''_'' raw
            in if raw \<noteq> [] then (raw, key) else first_service_name d ks))"

definition service_name_of :: "jobj \<Rightarrow> string \<times> string" where
  "service_name_of d = first_service_name d [''service_name'', ''name'', ''task'']"

text \<open>An exclusion reader that raises excludes nothing.\<close>

definition excluded_family_reason :: "pcfg \<Rightarrow> fs \<Rightarrow> string \<Rightarrow> string option" where
  "excluded_family_reason c f name =
     (if name = [] then None
      else (case excluded_reason (p_env c) (p_repo c) f name of None \<Rightarrow> None | Some r \<Rightarrow> r))"

definition child_name :: "jobj \<Rightarrow> string" where
  "child_name d = ''svc_'' @ replace_char (CHR ''.'') ''_'' (replace_char (CHR ''/'') ''_'' (out_file d)) @ ''.json''"

text \<open>Writing the children: a write that fails raises past the loop.\<close>

fun write_children :: "pcfg \<Rightarrow> string \<Rightarrow> jobj list \<Rightarrow> fs \<Rightarrow> bool \<times> fs" where
  "write_children c parent [] f = (True, f)"
| "write_children c parent (d # ds) f =
     (case write_text (p_now c) (dir_file (p_proposed c) (child_name d))
             (Doc (JObj (dput ''parent_service_directive'' (JStr parent) d))) f of
        None \<Rightarrow> (False, f) | Some g \<Rightarrow> write_children c parent ds g)"

definition expand_one :: "pcfg \<Rightarrow> path \<Rightarrow> nat \<times> fs \<Rightarrow> bool \<times> nat \<times> fs" where
  "expand_one c p s =
     (let n = fst s; f = snd s in
      case read_json f p of
        Some (JObj d) \<Rightarrow>
          (if jget d ''handler'' \<noteq> JStr ''build_service'' then (True, s)
           else (let name = fst (service_name_of d);
                     spec = strip (py_str (py_or (jget d ''spec'') (py_or (jget d ''description'') (JStr []))));
                     excl = excluded_family_reason c f name
                 in if excl \<noteq> None \<and> excl \<noteq> Some [] then (True, n, rename_to ''.excluded'' p f)
                    else if name = [] \<or> length spec < 50 then (True, n, rename_to ''.rejected'' p f)
                    else (case decompose name spec (py_str (py_or (jget d ''prefix'') (JStr ''/api'')))
                                 (py_str (py_or (jget d ''tag'') (JStr []))) ''services/_exemplar'' of
                            None \<Rightarrow> (True, n, rename_to ''.rejected'' p f)
                          | Some children \<Rightarrow>
                            (case write_children c (path_name p) children f of
                               (False, g) \<Rightarrow> (False, n, g)
                             | (True, g) \<Rightarrow> (True, n + 1, rename_to ''.expanded'' p g)))))
      | _ \<Rightarrow> (True, s))"

fun expand_all :: "pcfg \<Rightarrow> path list \<Rightarrow> nat \<times> fs \<Rightarrow> bool \<times> nat \<times> fs" where
  "expand_all c [] s = (True, s)"
| "expand_all c (p # ps) s =
     (case expand_one c p s of (False, t) \<Rightarrow> (False, t) | (True, t) \<Rightarrow> expand_all c ps t)"

definition expand_service_directives :: "pcfg \<Rightarrow> fs \<Rightarrow> bool \<times> nat \<times> fs" where
  "expand_service_directives c f =
     (if p_env c ''ZO_SERVICE_UNIT_EXPANSION'' = Some ''0'' then (True, 0, f)
      else (case iter_proposals f (p_proposed c) of
              None \<Rightarrow> (False, 0, f) | Some ps \<Rightarrow> expand_all c ps (0, f)))"

subsection \<open>One cycle\<close>

definition maybe_run_janitor :: "pcfg \<Rightarrow> path \<Rightarrow> fs \<Rightarrow> fs" where
  "maybe_run_janitor c droot f =
     (if \<not> janitor_enabled (p_env c) (p_toml c) droot f then f
      else snd (run_pass (janitor_cfg (p_env c) droot (p_stamp c))
                  (janitor_limit (p_env c) (p_toml c) droot f) f))"

text \<open>The loop over the proposals; \<open>m\<close> counts those promoted or attempted.\<close>

fun promote_all :: "pcfg \<Rightarrow> path \<Rightarrow> int \<Rightarrow> path list \<Rightarrow> pstate \<Rightarrow> bool \<times> pstate" where
  "promote_all c droot m [] s = (True, s)"
| "promote_all c droot m (src # ps) s0 =
     (let s = ((fst s0)\<lparr>n_scanned := n_scanned (fst s0) + 1\<rparr>, snd s0) in
      if m \<ge> p_max c then promote_all c droot m ps (skipped1 (fst s), snd s)
      else if fs_exists (snd s) (skip_marker src) then promote_all c droot m ps (skipped1 (fst s), snd s)
      else (case is_too_young (snd s) src (p_min_age c) (p_now c) of
              None \<Rightarrow> (False, s)
            | Some True \<Rightarrow> promote_all c droot m ps ((fst s)\<lparr>n_too_young := n_too_young (fst s) + 1\<rparr>, snd s)
            | Some False \<Rightarrow>
              (case do_promote c (Some droot) src ((fst s)\<lparr>n_eligible := n_eligible (fst s) + 1\<rparr>, snd s) of
                 (None, t) \<Rightarrow> (False, t)
               | (Some out, t) \<Rightarrow> promote_all c droot (m + 1) ps t)))"

text \<open>\<open>None\<close> when the pass raises; the state is what it leaves then.\<close>

definition run_loop :: "pcfg \<Rightarrow> path \<Rightarrow> fs \<Rightarrow> pcounters option \<times> fs" where
  "run_loop c droot f =
     (case iter_proposals f (p_proposed c) of
        None \<Rightarrow> (None, f)
      | Some ps \<Rightarrow> (let (done, k, g) = promote_all c droot 0 ps (pcounters0, f)
                   in (if done then Some k else None, g)))"

definition cycle_root :: "pcfg \<Rightarrow> path" where
  "cycle_root c = (case p_root c of None \<Rightarrow> path_parent (p_pending c) | Some r \<Rightarrow> r)"

definition run_once :: "pcfg \<Rightarrow> fs \<Rightarrow> pcounters option \<times> fs" where
  "run_once c f0 =
     (let (expanded, n, f1) = expand_service_directives c f0; droot = cycle_root c in
      if \<not> expanded then (None, f1)
      else if \<not> fs_exists f1 (p_proposed c) then (Some pcounters0, f1)
      else run_loop c droot (if p_dry c then f1 else maybe_run_janitor c droot f1))"

text \<open>The daemon, for as many cycles as there are configurations: a cycle that raises is logged.\<close>

definition run_daemon :: "pcfg list \<Rightarrow> fs \<Rightarrow> fs" where
  "run_daemon cs f = fold (\<lambda>c g. snd (run_once c g)) cs f"

subsection \<open>What a step touches\<close>

definition only_in :: "path \<Rightarrow> fs \<Rightarrow> fs \<Rightarrow> bool" where
  "only_in d f g \<longleftrightarrow> (\<forall>p. path_parent p \<noteq> d \<longrightarrow> fs_get g p = fs_get f p)"

lemma only_in_refl [simp]: "only_in d f f"
  by (simp add: only_in_def)

lemma only_in_trans: "only_in d f g \<Longrightarrow> only_in d g h \<Longrightarrow> only_in d f h"
  by (simp add: only_in_def)

lemma only_in_child: "only_in d f g \<Longrightarrow> d' \<noteq> d \<Longrightarrow> fs_get g (path_child d' n) = fs_get f (path_child d' n)"
  by (simp add: only_in_def)

lemma with_name_parent [simp]: "path_parent (with_name p n) = path_parent p"
  by (simp add: with_name_def)

lemma rename_to_only_in: "only_in (path_parent p) f (rename_to sfx p f)"
  by (auto simp: rename_to_def only_in_def fs_replace_get split: option.splits)

lemma rejected_name_parent [simp]: "path_parent (rejected_name p i) = path_parent p"
  by (simp add: rejected_name_def)

lemma rename_rejected_only_in: "only_in (path_parent p) f (rename_rejected p f)"
proof -
  have "path_parent t = path_parent p" if "free_rejected n f p i = Some t" for n i t
    using that by (induction n f p i rule: free_rejected.induct) (auto split: if_splits)
  then show ?thesis
    by (auto simp: rename_rejected_def only_in_def fs_replace_get split: option.splits)
qed

lemma child_name_plain: "CHR ''/'' \<notin> set (child_name d)" "child_name d \<noteq> []" "child_name d \<noteq> ''.''"
proof -
  have "CHR ''/'' \<notin> set (replace_char (CHR ''.'') ''_'' (replace_char (CHR ''/'') ''_'' s))" for s
    by (induction s) (auto simp: replace_char_def)
  then show "CHR ''/'' \<notin> set (child_name d)" by (simp add: child_name_def)
qed (simp_all add: child_name_def)

lemma write_children_only_in: "only_in (p_proposed c) f (snd (write_children c par ds f))"
proof (induction ds arbitrary: f)
  case (Cons d ds)
  show ?case
  proof (cases "write_text (p_now c) (dir_file (p_proposed c) (child_name d))
        (Doc (JObj (dput ''parent_service_directive'' (JStr par) d))) f")
    case None
    then show ?thesis by simp
  next
    case (Some g)
    then have "only_in (p_proposed c) f g"
      by (auto simp: only_in_def write_text_get dir_file_plain child_name_plain)
    from only_in_trans [OF this Cons.IH] Some show ?thesis by simp
  qed
qed simp

lemma expand_one_only_in:
  assumes "path_parent p = p_proposed c"
  shows "only_in (p_proposed c) (snd s) (snd (snd (expand_one c p s)))"
proof -
  have r: "only_in (p_proposed c) f (rename_to sfx p f)" for sfx f
    using rename_to_only_in [of p f sfx] assms by simp
  have w: "only_in (p_proposed c) (snd s) g" if "write_children c par ds (snd s) = (b, g)" for par ds b g
    using write_children_only_in [of c "snd s" par ds] that by simp
  show ?thesis
    unfolding expand_one_def Let_def
    by (auto simp: r split: option.splits json.splits prod.splits bool.splits
        intro: w only_in_trans [OF w r])
qed

lemma iter_proposals_parent:
  "iter_proposals f d = Some ps \<Longrightarrow> p \<in> set ps \<Longrightarrow> path_parent p = d \<and> is_file f p \<and> proposal_name (path_name p)"
  by (auto simp: iter_proposals_def iterdir_files_iff split: if_splits)

lemma expand_all_only_in:
  "(\<And>p. p \<in> set ps \<Longrightarrow> path_parent p = p_proposed c) \<Longrightarrow>
     only_in (p_proposed c) (snd s) (snd (snd (expand_all c ps s)))"
proof (induction ps arbitrary: s)
  case (Cons p ps)
  obtain b t where t: "expand_one c p s = (b, t)" by (cases "expand_one c p s")
  have "only_in (p_proposed c) (snd s) (snd t)"
    using expand_one_only_in [of p c s] Cons.prems t by simp
  moreover have "only_in (p_proposed c) (snd t) (snd (snd (expand_all c ps t)))"
    using Cons.IH [of t] Cons.prems by simp
  ultimately show ?case
    using only_in_trans [of "p_proposed c" "snd s" "snd t"] by (cases b) (simp_all add: t)
qed simp

lemma expand_only_in: "only_in (p_proposed c) f (snd (snd (expand_service_directives c f)))"
  unfolding expand_service_directives_def
  using expand_all_only_in [of _ c "(0, f)"] iter_proposals_parent [of f "p_proposed c"]
  by (auto split: option.splits)

subsection \<open>A promotion\<close>

lemma move_src_spec:
  assumes "move_src c src dest s = (Some Promoted, t)" and "\<not> p_dry c"
  shows "fs_get (snd t) q = (if q = dest then fs_get (snd s) src else if q = src then None else fs_get (snd s) q)"
  using assms
  by (auto simp: move_src_def Let_def fs_replace_get mkdirs_get split: option.splits)

text \<open>What has been checked when a proposal is promoted.\<close>

definition no_sentinel :: "pcfg \<Rightarrow> path option \<Rightarrow> string \<Rightarrow> fs \<Rightarrow> bool" where
  "no_sentinel c droot did f \<longleftrightarrow> did = [] \<or> (case droot of None \<Rightarrow> True
     | Some r \<Rightarrow> \<not> fs_exists f (done_path r did) \<and> \<not> fs_exists f (failed_path r did)
         \<and> \<not> durably_quarantined (p_env c) f did)"

lemma already_resolved_iff: "already_resolved c droot d f \<longleftrightarrow> \<not> no_sentinel c droot (resolve_directive_id d) f"
  by (auto simp: already_resolved_def no_sentinel_def is_terminal_def Let_def split: option.splits)

definition promotable :: "pcfg \<Rightarrow> path option \<Rightarrow> path \<Rightarrow> fs \<Rightarrow> jobj \<Rightarrow> bool" where
  "promotable c droot src f d \<longleftrightarrow> read_json f src = Some (JObj d)
     \<and> validate (JObj d) = Some (True, ''ok'') \<and> no_sentinel c droot (resolve_directive_id d) f
     \<and> promoter_unmet f (p_repo c) d = []
     \<and> \<not> fs_exists f (path_child (p_pending c) (path_name src))"

lemma validate_ok: "validate v = Some (True, r) \<Longrightarrow> r = ''ok'' \<and> (\<exists>d. v = JObj d)"
  by (auto simp: validate_def complexity_check_def description_check_def output_check_def Let_def
      split: json.splits option.splits bool.splits if_splits)

lemma do_promote_cases:
  assumes "do_promote c droot src s = (out, t)"
  shows "(out = Some Promoted \<or> out = Some MoveFailed) \<and>
      (\<exists>d. promotable c droot src (snd s) d) \<and>
      move_src c src (path_child (p_pending c) (path_name src)) s = (out, t)
    \<or> out = Some Rejected \<and> reject_src c src s = (out, t)
    \<or> (out = Some AlreadyResolved \<or> out = Some TerminalDup) \<and> set_aside c (the out) src s = (out, t)
    \<or> (out = Some DeferredRequires \<or> out = Some Collision) \<and> t = (skipped1 (fst s), snd s)
    \<or> out = None \<and> t = s"
proof -
  have mv: "fst (move_src c src dest s) = Some Promoted \<or> fst (move_src c src dest s) = Some MoveFailed" for dest
    by (auto simp: move_src_def Let_def split: option.splits)
  show ?thesis
  proof (cases "read_json (snd s) src")
    case None
    with assms have "reject_src c src s = (out, t)" by (simp add: do_promote_def)
    then show ?thesis by (auto simp: reject_src_def)
  next
    case (Some v)
    show ?thesis
    proof (cases "validate v")
      case None
      with assms Some show ?thesis by (simp add: do_promote_def)
    next
      case (Some okr)
      obtain ok r where okr: "okr = (ok, r)" by fastforce
      show ?thesis
      proof (cases ok)
        case False
        with assms Some okr \<open>read_json _ _ = _\<close> have "reject_src c src s = (out, t)"
          by (simp add: do_promote_def)
        then show ?thesis by (auto simp: reject_src_def)
      next
        case True
        with Some okr obtain d where d: "v = JObj d" "r = ''ok''" using validate_ok [of v r] by auto
        note step = assms Some okr d True \<open>read_json (snd s) src = Some v\<close>
        show ?thesis
        proof (cases "already_resolved c droot d (snd s) \<or> promoter_unmet (snd s) (p_repo c) d \<noteq> []
            \<or> fs_exists (snd s) (path_child (p_pending c) (path_name src))")
          case True
          with step show ?thesis
            by (auto simp: do_promote_def Let_def set_aside_def split: if_splits)
        next
          case False
          with step have "move_src c src (path_child (p_pending c) (path_name src)) s = (out, t)"
            by (simp add: do_promote_def Let_def)
          moreover have "promotable c droot src (snd s) d"
            using False step by (simp add: promotable_def already_resolved_iff)
          ultimately show ?thesis using mv [of "path_child (p_pending c) (path_name src)"] by auto
        qed
      qed
    qed
  qed
qed

text \<open>No outcome changes a file that lies in \<open>pending/\<close> already.\<close>

definition keeps_pending :: "pcfg \<Rightarrow> fs \<Rightarrow> fs \<Rightarrow> bool" where
  "keeps_pending c f g \<longleftrightarrow>
     (\<forall>n x. fs_get f (path_child (p_pending c) n) = Some x \<longrightarrow> fs_get g (path_child (p_pending c) n) = Some x)"

lemma keeps_pending_refl [simp]: "keeps_pending c f f"
  by (simp add: keeps_pending_def)

lemma keeps_pending_trans: "keeps_pending c f g \<Longrightarrow> keeps_pending c g h \<Longrightarrow> keeps_pending c f h"
  by (simp add: keeps_pending_def)

lemma only_in_keeps: "only_in (p_proposed c) f g \<Longrightarrow> p_proposed c \<noteq> p_pending c \<Longrightarrow> keeps_pending c f g"
  by (auto simp: keeps_pending_def only_in_child)

lemma move_src_keeps:
  assumes "path_parent src \<noteq> p_pending c" and "\<not> fs_exists (snd s) (path_child (p_pending c) n)"
  shows "keeps_pending c (snd s) (snd (snd (move_src c src (path_child (p_pending c) n) s)))"
  using assms
  by (auto simp: move_src_def Let_def keeps_pending_def fs_replace_get mkdirs_get fs_exists_def is_file_def
      split: option.splits)

lemma do_promote_keeps:
  assumes "path_parent src = p_proposed c" and "p_proposed c \<noteq> p_pending c"
  shows "keeps_pending c (snd s) (snd (snd (do_promote c droot src s)))"
proof -
  obtain out t where t: "do_promote c droot src s = (out, t)" by (cases "do_promote c droot src s")
  have aside: "keeps_pending c f (rename_duplicate src f)" "keeps_pending c f (rename_rejected src f)" for f
    using rename_to_only_in [of src] rename_rejected_only_in [of src] assms
    by (auto simp: rename_duplicate_def intro!: only_in_keeps)
  have mv: "keeps_pending c (snd s) (snd t)"
    if "promotable c droot src (snd s) d" "move_src c src (path_child (p_pending c) (path_name src)) s = (out, t)" for d
    using move_src_keeps [of src c s "path_name src"] that assms by (simp add: promotable_def)
  from do_promote_cases [OF t] show ?thesis
    by (auto simp: t reject_src_def set_aside_def aside intro: mv)
qed

lemma promote_all_keeps:
  assumes "\<And>p. p \<in> set ps \<Longrightarrow> path_parent p = p_proposed c" and "p_proposed c \<noteq> p_pending c"
  shows "keeps_pending c (snd s) (snd (snd (promote_all c droot m ps s)))"
  using assms(1)
proof (induction ps arbitrary: m s)
  case (Cons src ps)
  have "keeps_pending c (snd s) (snd (snd (do_promote c (Some droot) src (k, snd s))))" for k
    using do_promote_keeps [of src c "(k, snd s)"] Cons.prems assms(2) by simp
  with Cons show ?case
    by (auto simp: Let_def split: option.splits bool.splits prod.splits intro: keeps_pending_trans) 
      (metis (no_types, lifting) fst_conv keeps_pending_trans snd_conv)+
qed simp

subsection \<open>Counting\<close>

definition attempts_of :: "pcounters \<Rightarrow> nat" where
  "attempts_of k = n_promoted k + n_rejected k"

lemma do_promote_counts:
  assumes "do_promote c droot src s = (Some out, t)"
  shows "n_scanned (fst t) = n_scanned (fst s) \<and> n_eligible (fst t) = n_eligible (fst s)
    \<and> n_too_young (fst t) = n_too_young (fst s)
    \<and> n_promoted (fst t) + n_rejected (fst t) + n_skipped (fst t) =
        Suc (n_promoted (fst s) + n_rejected (fst s) + n_skipped (fst s))
    \<and> attempts_of (fst t) \<le> Suc (attempts_of (fst s))"
  using do_promote_cases [OF assms]
  by (auto simp: move_src_def reject_src_def set_aside_def skipped1_def Let_def attempts_of_def
      split: option.splits if_splits)

lemma promote_all_counts:
  assumes "promote_all c droot m ps s = (True, t)"
  shows "n_scanned (fst t) = n_scanned (fst s) + length ps
    \<and> attempts_of (fst t) \<le> attempts_of (fst s) + (n_eligible (fst t) - n_eligible (fst s))
    \<and> n_eligible (fst s) \<le> n_eligible (fst t)
    \<and> n_eligible (fst t) \<le> n_eligible (fst s) + nat (p_max c - m)
    \<and> n_promoted (fst t) + n_rejected (fst t) + n_skipped (fst t) + n_too_young (fst t) =
        n_promoted (fst s) + n_rejected (fst s) + n_skipped (fst s) + n_too_young (fst s) + length ps"
  using assms
proof (induction ps arbitrary: m s)
  case (Cons src ps)
  let ?s = "((fst s)\<lparr>n_scanned := n_scanned (fst s) + 1\<rparr>, snd s)"
  let ?e = "((fst ?s)\<lparr>n_eligible := n_eligible (fst ?s) + 1\<rparr>, snd s)"
  consider (skip) "promote_all c droot m ps (skipped1 (fst ?s), snd s) = (True, t)"
    | (young) "promote_all c droot m ps ((fst ?s)\<lparr>n_too_young := n_too_young (fst ?s) + 1\<rparr>, snd s) = (True, t)"
    | (attempt) out u where "m < p_max c" "do_promote c (Some droot) src ?e = (Some out, u)"
        "promote_all c droot (m + 1) ps u = (True, t)"
    using Cons.prems
    by (auto simp: Let_def split: if_splits option.splits bool.splits prod.splits)
  then show ?case
  proof cases
    case skip
    from Cons.IH [OF this] show ?thesis by (auto simp: skipped1_def attempts_of_def)
  next
    case young
    from Cons.IH [OF this] show ?thesis by (auto simp: attempts_of_def)
  next
    case attempt
    have "nat (p_max c - m) = Suc (nat (p_max c - (m + 1)))" using attempt(1) by linarith
    with Cons.IH [OF attempt(3)] do_promote_counts [OF attempt(2)] show ?thesis
      by (auto simp: attempts_of_def)
  qed
qed auto

text \<open>A cycle that returns has done nothing, or run the loop to its end.\<close>

lemma run_once_returns:
  assumes "run_once c f = (Some k, g)"
  shows "k = pcounters0 \<or> (\<exists>droot ps f2. promote_all c droot 0 ps (pcounters0, f2) = (True, k, g))"
proof -
  have loop: "\<exists>droot ps f2. promote_all c droot 0 ps (pcounters0, f2) = (True, k, g)"
    if "run_loop c droot f2 = (Some k, g)" for droot f2
    using that by (auto simp: run_loop_def split: option.splits prod.splits if_splits)
  obtain b n f1 where e: "expand_service_directives c f = (b, n, f1)" using prod_cases3 by blast
  show ?thesis
    using assms by (auto simp: run_once_def e Let_def split: if_splits dest: loop)
qed

lemma run_once_counts:
  assumes "run_once c f = (Some k, g)"
  shows "n_scanned k = n_promoted k + n_rejected k + n_skipped k + n_too_young k
    \<and> n_promoted k + n_rejected k \<le> n_eligible k \<and> n_eligible k \<le> nat (p_max c)"
proof -
  have zero: "n_scanned pcounters0 = 0" "attempts_of pcounters0 = 0" "n_eligible pcounters0 = 0"
    "n_promoted pcounters0 = 0" "n_rejected pcounters0 = 0" "n_skipped pcounters0 = 0" "n_too_young pcounters0 = 0"
    by (simp_all add: pcounters0_def attempts_of_def)
  consider "k = pcounters0"
    | droot ps f2 where "promote_all c droot 0 ps (pcounters0, f2) = (True, k, g)"
    using run_once_returns [OF assms] by blast
  then show ?thesis
  proof cases
    case 2
    from promote_all_counts [OF this] show ?thesis by (simp add: zero) (simp add: attempts_of_def)
  qed (simp add: zero)
qed

text \<open>The whole cycle, the janitor being switched off by its environment variable.\<close>

lemma janitor_off:
  "env ''ZO_QUEUE_JANITOR'' = Some ''0'' \<Longrightarrow> \<not> janitor_enabled env toml droot f"
proof -
  assume e: "env ''ZO_QUEUE_JANITOR'' = Some ''0''"
  let ?spec = "the (dget KEYS ''queue.janitor'')"
  have k: "dget KEYS ''queue.janitor'' = Some ?spec" and n: "k_env ?spec = ''ZO_QUEUE_JANITOR''"
    and t: "coerce (k_type ?spec) (JStr ''0'') = Some (JBool False)"
    by code_simp+
  have "resolve env toml (Some droot) f ''queue.janitor'' = Some (JBool False, ''env:'' @ k_env ?spec)"
    by (rule resolve_env [where env = env, OF k _ _ t]) (simp_all add: n e)
  then have "flag env toml (Some droot) f ''queue.janitor'' = Some False"
    by (simp add: flag_def)
  then show ?thesis by (simp add: janitor_enabled_def)
qed

lemma run_once_keeps_pending:
  assumes "p_env c ''ZO_QUEUE_JANITOR'' = Some ''0''" and "p_proposed c \<noteq> p_pending c"
  shows "keeps_pending c f (snd (run_once c f))"
proof -
  obtain b n f1 where e: "expand_service_directives c f = (b, n, f1)" using prod_cases3 by blast
  have k1: "keeps_pending c f f1"
    using only_in_keeps [OF expand_only_in assms(2)] e by (metis snd_conv)
  have jan: "maybe_run_janitor c droot f1 = f1" for droot
    using janitor_off [of "p_env c"] assms(1) by (simp add: maybe_run_janitor_def)
  have "keeps_pending c f1 (snd (run_loop c droot f1))" for droot
  proof (cases "iter_proposals f1 (p_proposed c)")
    case (Some ps)
    then show ?thesis
      using promote_all_keeps [of ps c "(pcounters0, f1)" droot 0] iter_proposals_parent assms(2)
      by (simp add: run_loop_def split_beta)
  qed (simp add: run_loop_def)
  then show ?thesis
    using k1 keeps_pending_trans [OF k1] by (simp add: run_once_def e Let_def jan)
qed

subsection \<open>A proposal that cannot be validated\<close>

text \<open>A description that is a number makes the check raise: nothing handles it.\<close>

lemma validate_raises:
  assumes "list_all (dhas d) REQUIRED_FIELDS" and "jget d ''handler'' = JStr ''generate_file''"
    and "jget d ''complexity'' = JNull" and "jget_or d ''description'' (JStr []) = JInt n" and "n \<noteq> 0"
  shows "validate (JObj d) = None"
  using assms
  by (simp add: validate_def REQUIRED_FIELDS_def VALID_HANDLERS_def complexity_check_def
      description_check_def py_or_def Let_def)

definition blocks_cycle :: "pcfg \<Rightarrow> fs \<Rightarrow> path \<Rightarrow> bool" where
  "blocks_cycle c f p \<longleftrightarrow> p_env c ''ZO_SERVICE_UNIT_EXPANSION'' = Some ''0''
     \<and> p_env c ''ZO_QUEUE_JANITOR'' = Some ''0'' \<and> p_max c > 0
     \<and> \<not> fs_exists f (skip_marker p) \<and> is_too_young f p (p_min_age c) (p_now c) = Some False
     \<and> (case iter_proposals f (p_proposed c) of Some (q # ps) \<Rightarrow> q = p | _ \<Rightarrow> False)
     \<and> (case read_json f p of Some v \<Rightarrow> validate v = None | None \<Rightarrow> False)"

lemma run_once_blocked: "blocks_cycle c f p \<Longrightarrow> run_once c f = (None, f)"
proof -
  assume b: "blocks_cycle c f p"
  then obtain ps where ps: "iter_proposals f (p_proposed c) = Some (p # ps)"
    by (auto simp: blocks_cycle_def split: option.splits list.splits)
  then have ex: "fs_exists f (p_proposed c)" by (auto simp: iter_proposals_def split: if_splits)
  have jan: "(if p_dry c then f else maybe_run_janitor c droot f) = f" for droot
    using janitor_off [of "p_env c"] b by (simp add: maybe_run_janitor_def blocks_cycle_def)
  have "do_promote c droot p (k, f) = (None, k, f)" for droot k
    using b by (auto simp: blocks_cycle_def do_promote_def split: option.splits)
  then show ?thesis
    using b ex ps by (simp add: run_once_def run_loop_def expand_service_directives_def blocks_cycle_def Let_def jan)
qed

lemma daemon_blocked: "list_all (\<lambda>c. blocks_cycle c f p) cs \<Longrightarrow> run_daemon cs f = f"
  by (induction cs) (auto simp: run_daemon_def run_once_blocked)

subsection \<open>A rejected proposal finds a free name\<close>

lemma nat_str_inj: "nat_str m = nat_str n \<Longrightarrow> m = n"
  by (metis option.inject parse_nat_str)

lemma rejected_name_inj: "rejected_name p i = rejected_name p j \<Longrightarrow> i = j"
  by (auto simp: rejected_name_def with_name_def split: if_splits dest: nat_str_inj)

lemma free_rejected_none:
  "free_rejected n f p i = None \<Longrightarrow> i \<le> j \<Longrightarrow> j < i + n \<Longrightarrow> fs_exists f (rejected_name p j)"
proof (induction n f p i rule: free_rejected.induct)
  case (2 n f p i)
  then show ?case by (cases "j = i") (auto split: if_splits)
qed simp

lemma free_rejected_some:
  "free_rejected n f p i = Some t \<Longrightarrow> \<exists>j. t = rejected_name p j \<and> \<not> fs_exists f t"
  by (induction n f p i rule: free_rejected.induct) (auto split: if_splits)

lemma free_rejected_found:
  "\<exists>t. free_rejected (Suc (length (files f) + length (dirs f))) f p 0 = Some t"
proof (rule ccontr)
  let ?n = "length (files f) + length (dirs f)"
  assume "\<not> ?thesis"
  then have all: "fs_exists f (rejected_name p j)" if "j < Suc ?n" for j
    using that free_rejected_none [of "Suc ?n" f p 0 j] by auto
  have sub: "rejected_name p ` {..<Suc ?n} \<subseteq> set (keys (files f)) \<union> set (dirs f)"
    using all dhas_keys [of "files f"] by (auto simp: fs_exists_def is_file_def is_dir_def fs_get_def dhas_def)
  have "card (rejected_name p ` {..<Suc ?n}) = Suc ?n"
    by (subst card_image) (auto intro: inj_onI dest: rejected_name_inj)
  moreover have "card (rejected_name p ` {..<Suc ?n}) \<le> card (set (keys (files f)) \<union> set (dirs f))"
    by (rule card_mono [OF _ sub]) simp
  moreover have "card (set (keys (files f)) \<union> set (dirs f)) \<le> card (set (keys (files f))) + card (set (dirs f))"
    by (rule card_Un_le)
  moreover have "card (set (keys (files f))) \<le> length (files f)" "card (set (dirs f)) \<le> length (dirs f)"
    using card_length [of "keys (files f)"] card_length [of "dirs f"] by simp_all
  ultimately show False by linarith
qed

lemma rename_rejected_keeps:
  assumes "fs_get f q = Some x" and "q \<noteq> p"
  shows "fs_get (rename_rejected p f) q = Some x"
proof -
  obtain t where t: "free_rejected (Suc (length (files f) + length (dirs f))) f p 0 = Some t"
    using free_rejected_found by blast
  have "q \<noteq> t" using free_rejected_some [OF t] assms(1) by (auto simp: fs_exists_def is_file_def)
  then show ?thesis
    using assms unfolding rename_rejected_def t by (auto simp: fs_replace_get split: option.splits)
qed

subsection \<open>The two copies of the output check\<close>

lemma output_check_is_sane:
  "jget d ''output_file'' = JStr out \<Longrightarrow> output_check d = output_file_is_sane (jget d ''output_file'')"
  by (simp add: output_check_def output_file_is_sane_def py_or_def Let_def)

lemma validate_output_check:
  "validate (JObj d) = Some (True, r) \<Longrightarrow> output_check d = (True, ''ok'')"
  by (auto simp: validate_def complexity_check_def description_check_def output_check_def Let_def
      split: option.splits bool.splits if_splits)

subsection \<open>The children of a service\<close>

lemma path_name_last:
  assumes "CHR ''/'' \<notin> set n" and "n \<noteq> []" and "n \<noteq> ''.''"
  shows "path_name (path_of (w @ ''/'' @ n)) = n"
  using assms by (simp add: path_name_def path_of_def split_on_append split_on_no_sep)

lemma validate_complete:
  assumes "list_all (dhas d) REQUIRED_FIELDS"
    and "jget d ''handler'' = JStr h" and "h \<in> set VALID_HANDLERS"
    and "jget d ''complexity'' = JStr cx" and "cx \<in> set VALID_COMPLEXITY"
    and "\<exists>ds. jget_or d ''description'' (JStr []) = JStr ds \<and> length ds \<ge> 50"
    and "jget d ''output_file'' = JStr (w @ ''/'' @ n)"
    and "CHR ''/'' \<notin> set n" and "n \<noteq> []" and "n \<noteq> ''.''" and "\<not> doubled_prefix (name_stem n)"
  shows "validate (JObj d) = Some (True, ''ok'')"
proof -
  obtain ds where ds: "jget_or d ''description'' (JStr []) = JStr ds" "length ds \<ge> 50"
    using assms(6) by blast
  have "filter (\<lambda>k. \<not> dhas d k) REQUIRED_FIELDS = []"
    using assms(1) by (auto simp: filter_empty_conv list_all_iff)
  moreover have "cx \<noteq> []" using assms(5) by (auto simp: VALID_COMPLEXITY_def)
  moreover have "ds \<noteq> []" using ds(2) by auto
  moreover have "output_check d = (True, ''ok'')"
    using path_name_last [OF assms(8-10), of w] assms(7,11)
    by (simp add: output_check_def py_or_def path_stem_def Let_def)
  ultimately show ?thesis
    using assms(2-5) ds
    by (simp add: validate_def complexity_check_def description_check_def py_or_def Let_def)
qed

lemma stems_not_doubled:
  "\<not> doubled_prefix (name_stem ''__init__.py'')" "\<not> doubled_prefix (name_stem ''service.toml'')"
  "\<not> doubled_prefix (name_stem ''logic.py'')" "\<not> doubled_prefix (name_stem ''router.py'')"
  "\<not> doubled_prefix (name_stem ''contract.py'')"
  by code_simp+

lemma dhas_Cons [simp]: "dhas ((k', v) # d) k = (k = k' \<or> dhas d k)"
  by (auto simp: dhas_def)

lemma jget_or_append: "jget_or (d @ e) k v = (if dhas d k then jget_or d k v else jget_or e k v)"
  by (induction d) (auto simp: jget_or_def dhas_def)

lemma children_validate:
  assumes "decompose name spec prefix tag ed = Some ds" and "d \<in> set ds"
  shows "validate (JObj (dput ''parent_service_directive'' v d)) = Some (True, ''ok'')"
proof -
  note sets = VALID_HANDLERS_def VALID_COMPLEXITY_def REQUIRED_FIELDS_def
  from assms(2) consider
      "d = init_directive name" | "d = toml_directive name prefix (if tag = [] then name else tag)"
    | "d = code_directive name spec ed (CODE_FILES name ! 0)" | "d = code_directive name spec ed (CODE_FILES name ! 1)"
    | "d = code_directive name spec ed (CODE_FILES name ! 2)"
    unfolding decompose_parts [OF assms(1)] by auto
  then show ?thesis
  proof cases
    case 1
    show ?thesis unfolding 1
      by (rule validate_complete [where w = "staged_dir name" and n = "''__init__.py''"
            and h = "''write_raw''" and cx = "''low''"])
        (simp_all add: directive_defs sets stems_not_doubled)
  next
    case 2
    show ?thesis unfolding 2
      by (rule validate_complete [where w = "staged_dir name" and n = "''service.toml''"
            and h = "''write_raw''" and cx = "''low''"])
        (simp_all add: directive_defs sets stems_not_doubled)
  next
    case 3
    show ?thesis unfolding 3
      by (rule validate_complete [where w = "staged_dir name" and n = "''logic.py''"
            and h = "''generate_file''" and cx = "''medium''"])
        (simp_all add: directive_defs sets stems_not_doubled)
  next
    case 4
    show ?thesis unfolding 4
      by (rule validate_complete [where w = "staged_dir name" and n = "''router.py''"
            and h = "''generate_file''" and cx = "''medium''"])
        (simp_all add: directive_defs sets stems_not_doubled)
  next
    case 5
    show ?thesis unfolding 5
      by (rule validate_complete [where w = "staged_dir name" and n = "''contract.py''"
            and h = "''generate_file''" and cx = "''medium''"])
        (simp_all add: directive_defs sets stems_not_doubled)
  qed
qed

subsection \<open>What the promoter waits for\<close>

text \<open>A stub counts for the promoter, not for the builder; never the other way round.\<close>

lemma promoter_waits_less:
  assumes "jget d ''requires'' = JList (map JStr rs)" and "r \<in> set (promoter_unmet f home d)" and "strip r \<noteq> []"
  shows "r \<in> set (unmet_requires f d home)"
proof -
  have r: "r \<in> set rs" "\<not> fs_exists f (path_join home (path_of r))"
    using assms(1,2) by (auto simp: promoter_unmet_def py_or_def split: if_splits)
  then have "missing_require f home (JStr r) = Some r"
    using assms(3) by (auto simp: missing_require_iff output_present_def fs_exists_def is_file_def)
  then show ?thesis
    using assms(1) r(1) by (force simp: unmet_requires_def map_filter_def)
qed

subsection \<open>Properties\<close>

text \<open>A cycle never changes or removes a file that lies in \<open>pending/\<close>: with the janitor
  off, whatever the proposals are, and also when the cycle raises, each one has the content it had.\<close>

theorem promoter_keeps_pending:
  assumes "p_env c ''ZO_QUEUE_JANITOR'' = Some ''0''" and "p_proposed c \<noteq> p_pending c"
    and "fs_get f (path_child (p_pending c) n) = Some x"
  shows "fs_get (snd (run_once c f)) (path_child (p_pending c) n) = Some x"
  using run_once_keeps_pending [OF assms(1,2)] assms(3) by (simp add: keeps_pending_def)

definition good_proposal :: jobj where
  "good_proposal = [(''task'', JStr ''t1''), (''handler'', JStr ''generate_file''),
     (''output_file'', JStr ''t1.py''), (''description'', JStr (replicate 60 (CHR ''x'')))]"

definition busy_fs :: fs where
  "busy_fs = \<lparr>files =
      [(path_of ''/r/proposed/a.json'', \<lparr>body = Doc (JObj good_proposal), mtime = 10\<rparr>),
       (path_of ''/r/proposed/b.json'', \<lparr>body = Doc (JObj good_proposal), mtime = 5\<rparr>),
       (path_of ''/r/pending/a.json'', \<lparr>body = Doc (JObj [(''id'', JStr ''a'')]), mtime = 1\<rparr>)],
     dirs = [path_of ''/'', path_of ''/r'', path_of ''/r/proposed'', path_of ''/r/pending''],
     noread = [], nowrite = []\<rparr>"

definition test_cycle :: pcfg where
  "test_cycle = \<lparr>p_env = (\<lambda>n. if n = ''ZO_QUEUE_JANITOR'' then Some ''0'' else None), p_toml = None,
     p_repo = path_of ''/repo'', p_proposed = path_of ''/r/proposed'', p_pending = path_of ''/r/pending'',
     p_min_age = 60, p_max = 10, p_dry = False, p_root = None, p_now = 1000, p_stamp = ''T''\<rparr>"

theorem promoter_keeps_pending_witness:
  "fs_get (snd (run_once test_cycle busy_fs)) (path_child (p_pending test_cycle) ''a.json'') =
     Some \<lparr>body = Doc (JObj [(''id'', JStr ''a'')]), mtime = 1\<rparr>"
  by (rule promoter_keeps_pending) code_simp+

text \<open>C10: a proposal that is promoted was a document that validates, had no terminal sentinel of
  its directive, named no file to wait for that is absent, and found its place free; its content is at
  that place and no longer among the proposals, and no other file has changed.\<close>

theorem promotion_is_guarded:
  assumes "do_promote c droot src s = (Some Promoted, t)" and "\<not> p_dry c"
    and "path_parent src \<noteq> p_pending c"
  shows "\<exists>d. promotable c droot src (snd s) d
    \<and> (\<forall>q. fs_get (snd t) q =
        (if q = path_child (p_pending c) (path_name src) then fs_get (snd s) src
         else if q = src then None else fs_get (snd s) q))"
proof -
  from do_promote_cases [OF assms(1)] obtain d where
    "promotable c droot src (snd s) d"
    "move_src c src (path_child (p_pending c) (path_name src)) s = (Some Promoted, t)"
    by auto
  with move_src_spec [OF this(2) assms(2)] show ?thesis by blast
qed

theorem promotion_is_guarded_witness:
  "\<exists>d. promotable test_cycle (Some (path_of ''/r'')) (path_of ''/r/proposed/b.json'') busy_fs d
    \<and> (\<forall>q. fs_get (snd (snd (do_promote test_cycle (Some (path_of ''/r'')) (path_of ''/r/proposed/b.json'')
              (pcounters0, busy_fs)))) q =
        (if q = path_child (p_pending test_cycle) (path_name (path_of ''/r/proposed/b.json''))
         then fs_get busy_fs (path_of ''/r/proposed/b.json'')
         else if q = path_of ''/r/proposed/b.json'' then None else fs_get busy_fs q))"
proof -
  let ?r = "do_promote test_cycle (Some (path_of ''/r'')) (path_of ''/r/proposed/b.json'') (pcounters0, busy_fs)"
  have "fst ?r = Some Promoted" and *: "\<not> p_dry test_cycle"
      "path_parent (path_of ''/r/proposed/b.json'') \<noteq> p_pending test_cycle" by code_simp+
  then have "?r = (Some Promoted, snd ?r)" by (metis prod.collapse)
  from promotion_is_guarded [OF this *] show ?thesis by simp
qed

text \<open>A cycle that returns accounts for every file it scanned, exactly once, and promotes and
  rejects together at most \<open>max_per_cycle\<close>.\<close>

theorem cycle_counts_add_up:
  assumes "run_once c f = (Some k, g)"
  shows "n_scanned k = n_promoted k + n_rejected k + n_skipped k + n_too_young k
    \<and> n_promoted k + n_rejected k \<le> nat (p_max c)"
  using run_once_counts [OF assms] by simp

theorem cycle_counts_add_up_witness:
  "\<exists>k :: pcounters. n_scanned k = n_promoted k + n_rejected k + n_skipped k + n_too_young k
    \<and> n_promoted k + n_rejected k \<le> nat (p_max test_cycle) \<and> n_scanned k = 2 \<and> n_promoted k = 1"
proof -
  have "map_option (\<lambda>k. (n_scanned k, n_promoted k)) (fst (run_once test_cycle busy_fs)) = Some (2, 1)"
    by code_simp
  then obtain k where k: "fst (run_once test_cycle busy_fs) = Some k" "n_scanned k = 2" "n_promoted k = 1"
    by auto
  then have "run_once test_cycle busy_fs = (Some k, snd (run_once test_cycle busy_fs))"
    by (metis prod.collapse)
  from cycle_counts_add_up [OF this] k show ?thesis by (intro exI [of _ k]) simp
qed

text \<open>A proposal on which the shape check itself raises (a description that is a number, a handler that is a
  list) stops the daemon for good once it is the oldest and while nothing else handles the queues, that is with
  service expansion and the janitor switched off (\<open>blocks_cycle\<close>): every later cycle raises at it and leaves all
  queues as they are, for as long as it lies there.\<close>

theorem poison_proposal_blocks_daemon:
  assumes "list_all (\<lambda>c. blocks_cycle c f p) cs"
  shows "run_daemon cs f = f \<and> list_all (\<lambda>c. fst (run_once c f) = None) cs"
  using daemon_blocked [OF assms] assms by (auto simp: list_all_iff run_once_blocked)

definition poison_fs :: fs where
  "poison_fs = \<lparr>files =
      [(path_of ''/r/proposed/a.json'', \<lparr>body = Doc (JObj good_proposal), mtime = 10\<rparr>),
       (path_of ''/r/proposed/p.json'', \<lparr>body = Doc (JObj
          [(''task'', JStr ''t2''), (''handler'', JStr ''generate_file''), (''output_file'', JStr ''t2.py''),
           (''description'', JInt 7)]), mtime = 5\<rparr>)],
     dirs = [path_of ''/'', path_of ''/r'', path_of ''/r/proposed'', path_of ''/r/pending''],
     noread = [], nowrite = []\<rparr>"

definition quiet_cycle :: "int \<Rightarrow> pcfg" where
  "quiet_cycle t = test_cycle\<lparr>p_now := t, p_env := (\<lambda>n. if n \<in> {''ZO_QUEUE_JANITOR'', ''ZO_SERVICE_UNIT_EXPANSION''}
     then Some ''0'' else None)\<rparr>"

theorem poison_proposal_blocks_daemon_witness:
  "run_daemon (map quiet_cycle [1000, 1060, 1120]) poison_fs = poison_fs
   \<and> list_all (\<lambda>c. fst (run_once c poison_fs) = None) (map quiet_cycle [1000, 1060, 1120])"
  by (rule poison_proposal_blocks_daemon [where p = "path_of ''/r/proposed/p.json''"]) code_simp

text \<open>The promoter's inlined copy of the output-name check is the builder's own on every
  string; so nothing it accepts is a name the builder calls malformed, and every child that the fan-out of
  a service writes is accepted.\<close>

theorem promoter_and_builder_agree:
  "(validate (JObj d) = Some (True, r) \<and> jget d ''output_file'' = JStr out \<longrightarrow>
      output_file_is_sane (JStr out) = (True, ''ok''))
   \<and> (decompose name spec prefix tag ed = Some ds \<and> child \<in> set ds \<longrightarrow>
      validate (JObj (dput ''parent_service_directive'' v child)) = Some (True, ''ok''))"
  using output_check_is_sane [of d out] validate_output_check [of d r] children_validate [of name spec prefix tag ed ds child v]
  by auto

theorem promoter_and_builder_agree_witness:
  "output_file_is_sane (JStr ''t1.py'') = (True, ''ok'')
   \<and> validate (JObj (dput ''parent_service_directive'' (JStr ''p.json'') (init_directive ''risk''))) = Some (True, ''ok'')"
proof -
  have "validate (JObj good_proposal) = Some (True, ''ok'') \<and> jget good_proposal ''output_file'' = JStr ''t1.py''"
    and "decompose ''risk'' ''s'' ''/api'' [] ''e'' =
      Some (the (decompose ''risk'' ''s'' ''/api'' [] ''e''))"
    and "hd (the (decompose ''risk'' ''s'' ''/api'' [] ''e'')) = init_directive ''risk''"
    and "the (decompose ''risk'' ''s'' ''/api'' [] ''e'') \<noteq> []" by code_simp+
  with promoter_and_builder_agree [of good_proposal "''ok''" "''t1.py''" "''risk''" "''s''" "''/api''" "[]" "''e''"
      "the (decompose ''risk'' ''s'' ''/api'' [] ''e'')" "init_directive ''risk''" "JStr ''p.json''"]
  show ?thesis by (metis list.set_sel(1))
qed

text \<open>A dry run, which must not rename anything, renames a service directive all the same.\<close>

definition dry_fs :: fs where
  "dry_fs = \<lparr>files = [(path_of ''/r/proposed/s.json'', \<lparr>body = Doc (JObj
       [(''handler'', JStr ''build_service''), (''service_name'', JStr ''risk''), (''spec'', JStr ''short'')]), mtime = 5\<rparr>)],
     dirs = [path_of ''/'', path_of ''/r'', path_of ''/r/proposed''], noread = [], nowrite = []\<rparr>"

lemma dry_run_renames:
  "is_file dry_fs (path_of ''/r/proposed/s.json'')
   \<and> \<not> is_file (snd (run_once (test_cycle\<lparr>p_dry := True\<rparr>) dry_fs)) (path_of ''/r/proposed/s.json'')"
  by code_simp

end
