(* ===== verification/BuildRouting.thy ===== *)
theory BuildRouting
  imports Promoter
begin

text \<open>
  \<open>zo_sentinel/build_routing.py\<close>: which model a directive is built with, the identity the
  builder gives it, and the rows a build leaves. Success rates are exact rationals; a raise is
  \<open>None\<close>.
\<close>

subsection \<open>Floats from text\<close>

text \<open>\<open>float(s)\<close> for decimal texts with an optional exponent (no infinities, no NaN).\<close>

definition all_digits :: "string \<Rightarrow> bool" where
  "all_digits s = list_all is_digit s"

definition digits_nat :: "string \<Rightarrow> nat" where
  "digits_nat s = foldl (\<lambda>n c. 10 * n + digit_val c) 0 s"

definition parse_mantissa :: "string \<Rightarrow> rat option" where
  "parse_mantissa s =
     (case split_on (CHR ''.'') s of
        [w] \<Rightarrow> if w \<noteq> [] \<and> all_digits w then Some (of_nat (digits_nat w)) else None
      | [w, v] \<Rightarrow> if (w \<noteq> [] \<or> v \<noteq> []) \<and> all_digits w \<and> all_digits v
          then Some (of_nat (digits_nat w) + of_nat (digits_nat v) / 10 ^ length v) else None
      | _ \<Rightarrow> None)"

definition parse_unsigned :: "string \<Rightarrow> rat option" where
  "parse_unsigned s =
     (case split_on (CHR ''e'') (lower s) of
        [m] \<Rightarrow> parse_mantissa m
      | [m, e] \<Rightarrow> (case (parse_mantissa m, e) of
            (Some r, CHR ''-'' # k) \<Rightarrow> if k \<noteq> [] \<and> all_digits k then Some (r / 10 ^ digits_nat k) else None
          | (Some r, CHR ''+'' # k) \<Rightarrow> if k \<noteq> [] \<and> all_digits k then Some (r * 10 ^ digits_nat k) else None
          | (Some r, k) \<Rightarrow> if k \<noteq> [] \<and> all_digits k then Some (r * 10 ^ digits_nat k) else None
          | _ \<Rightarrow> None)
      | _ \<Rightarrow> None)"

definition float_of_str :: "string \<Rightarrow> rat option" where
  "float_of_str s =
     (case strip s of
        CHR ''-'' # t \<Rightarrow> map_option uminus (parse_unsigned t)
      | CHR ''+'' # t \<Rightarrow> parse_unsigned t
      | t \<Rightarrow> parse_unsigned t)"

fun py_float :: "json \<Rightarrow> rat option" where
  "py_float (JBool b) = Some (if b then 1 else 0)"
| "py_float (JInt i) = Some (of_int i)"
| "py_float (JFloat r s) = Some r"
| "py_float (JStr s) = float_of_str s"
| "py_float _ = None"

subsection \<open>Tiers and the ladder\<close>

definition COMPLEXITY_TO_ALIAS :: "(string, string) dict" where
  "COMPLEXITY_TO_ALIAS =
     [(''low'', ''zo-ladder-low''),
      (''medium'', ''zo-ladder-medium''),
      (''high'', ''zo-ladder-high''),
      (''critical'', ''zo-ladder-critical''),
      (''unknown'', ''zo-ladder-low'')]"

definition DEFAULT_ALIAS :: string where
  "DEFAULT_ALIAS = ''zo-ladder-low''"

definition CAPABLE_RECIPES :: "string list" where
  "CAPABLE_RECIPES = [''module_from_exemplar'', ''webapp_backend_fastapi'', ''webapp_frontend_react'',
     ''webapp_fullstack'', ''service_dir_from_exemplar'']"

definition m3_trial_on :: "environ \<Rightarrow> bool" where
  "m3_trial_on env = ((case env ''BUILDER_M3_TRIAL'' of None \<Rightarrow> [] | Some s \<Rightarrow> s)
     \<notin> {[], ''0'', ''false'', ''False'', ''no'', ''NO''})"

definition ESCALATION_LADDER :: "string list" where
  "ESCALATION_LADDER = [''zo-ladder-low'', ''zo-ladder-medium'', ''zo-ladder-high'', ''zo-ladder-critical'']"

definition FREE_CAP_INDEX :: nat where
  "FREE_CAP_INDEX = 2"

fun index_of :: "'a \<Rightarrow> 'a list \<Rightarrow> nat option" where
  "index_of x [] = None"
| "index_of x (y # ys) = (if x = y then Some 0 else map_option Suc (index_of x ys))"

definition escalate_alias :: "string \<Rightarrow> nat \<Rightarrow> string \<Rightarrow> string" where
  "escalate_alias base attempt complexity =
     (let start = (case index_of base ESCALATION_LADDER of None \<Rightarrow> 0 | Some i \<Rightarrow> i);
          target = min (start + attempt) (length ESCALATION_LADDER - 1);
          target = (if complexity \<noteq> ''critical'' then min target FREE_CAP_INDEX else target)
      in ESCALATION_LADDER ! target)"

text \<open>\<open>(complexity or "").strip().lower()\<close>: a value that is no string raises.\<close>

definition norm_complexity :: "json \<Rightarrow> string option" where
  "norm_complexity v = map_option (\<lambda>s. lower (strip s)) (as_str (py_or v (JStr [])))"

definition tier_for_complexity :: "json \<Rightarrow> string option" where
  "tier_for_complexity v = map_option
     (\<lambda>c. case dget COMPLEXITY_TO_ALIAS c of None \<Rightarrow> DEFAULT_ALIAS | Some a \<Rightarrow> a) (norm_complexity v)"

subsection \<open>Identity and content\<close>

definition builder_id :: "jobj \<Rightarrow> json" where
  "builder_id d = py_or (JStr (py_str (py_or (jget d ''directive_id'') (JStr []))))
     (py_or (JStr (py_str (py_or (jget d ''id'') (JStr []))))
       (py_or (jget d ''key'') (py_or (jget d ''task'') (JStr ''unknown''))))"

fun first_truthy :: "jobj \<Rightarrow> string list \<Rightarrow> json option" where
  "first_truthy d [] = None"
| "first_truthy d (k # ks) = (let v = jget d k in if truthy v then Some v else first_truthy d ks)"

definition directive_content :: "jobj \<Rightarrow> json option" where
  "directive_content d =
     (case first_truthy d [''content'', ''goal'', ''spec''] of
        Some v \<Rightarrow> Some v
      | None \<Rightarrow>
        (let desc = jget d ''description''; out = jget d ''output_file'' in
         if truthy desc then
           Some (if truthy out then JStr (''Target file: '' @ py_str out @ [newline, newline] @ py_str desc) else desc)
         else None))"

definition directive_type_of :: "jobj \<Rightarrow> string" where
  "directive_type_of d = py_str (py_or (jget d ''interface'') (py_or (jget d ''context_type'') (JStr ''utility'')))"

subsection \<open>Routing by evidence\<close>

text \<open>What a row of the matrix says for a class of directives, if it counts.\<close>

definition matrix_entry :: "string \<Rightarrow> string \<Rightarrow> int \<Rightarrow> string option \<Rightarrow> rat \<Rightarrow> jobj \<Rightarrow> (string \<times> rat) option" where
  "matrix_entry dt cx min_attempts exclude min_success r =
     (if lower (strip (py_str (jget_or r ''directive_type'' (JStr [])))) \<noteq> dt then None
      else if lower (strip (py_str (jget_or r ''complexity'' (JStr [])))) \<noteq> cx then None
      else (let model = strip (py_str (jget_or r ''model'' (JStr []))) in
        if model = [] \<or> Some model = exclude then None
        else (case (py_int (jget_or r ''attempts'' (JInt 0)), py_float (jget_or r ''success_pct'' (JInt 0))) of
                (Some attempts, Some pct) \<Rightarrow>
                  (if attempts \<ge> min_attempts \<and> pct \<ge> min_success then Some (model, pct) else None)
              | _ \<Rightarrow> None)))"

definition better :: "(string option \<times> rat) \<Rightarrow> (string \<times> rat) option \<Rightarrow> string option \<times> rat" where
  "better best e = (case e of None \<Rightarrow> best
     | Some (m, pct) \<Rightarrow> if pct > snd best then (Some m, pct) else best)"

definition best_model_from_matrix :: "jobj list \<Rightarrow> string \<Rightarrow> string \<Rightarrow> int \<Rightarrow> string option \<Rightarrow> rat \<Rightarrow> string option" where
  "best_model_from_matrix rows directive_type complexity min_attempts exclude min_success =
     (let dt = lower (strip directive_type); cx = lower (strip complexity)
      in fst (foldl better (None, -1)
           (map (matrix_entry dt cx min_attempts exclude min_success) rows)))"

definition CAPABLE :: "string list" where
  "CAPABLE = [''zo-ladder-nvidia'', ''zo-ladder-mistral'', ''zo-ladder-cerebras'', ''zo-ladder-groq'']"

definition capable_recipe :: "jobj \<Rightarrow> bool" where
  "capable_recipe d = (strip (py_str (jget_or d ''recipe'' (JStr []))) \<in> set CAPABLE_RECIPES)"

definition static_model :: "environ \<Rightarrow> jobj \<Rightarrow> string \<Rightarrow> string" where
  "static_model env d complexity =
     (if capable_recipe d then ''zo-ladder-nvidia''
      else if complexity \<noteq> ''medium'' \<and> m3_trial_on env then ''zo-ladder-medium''
      else if complexity = ''medium'' then ''zo-ladder-medium'' else DEFAULT_ALIAS)"

text \<open>The model of an attempt; \<open>None\<close> when the floor in the environment is no number.\<close>

definition routed_model :: "environ \<Rightarrow> jobj \<Rightarrow> string \<Rightarrow> nat \<Rightarrow> jobj list \<Rightarrow> string option" where
  "routed_model env d complexity attempt rows =
     (let dtype = directive_type_of d;
          st = static_model env d complexity;
          winner = best_model_from_matrix rows dtype complexity 20 None 0;
          base = (case winner of None \<Rightarrow> st | Some m \<Rightarrow> m);
          escalated =
            (if attempt > 0 \<and> (case env ''ZO_ESCALATE'' of None \<Rightarrow> False | Some s \<Rightarrow> s \<noteq> []) then
               map_option
                 (\<lambda>floor_pct. case best_model_from_matrix rows dtype complexity 20 (Some base) floor_pct of
                      Some nxt \<Rightarrow> nxt
                    | None \<Rightarrow> if winner = None
                        then escalate_alias (if base \<in> set ESCALATION_LADDER then base else st) attempt complexity
                        else base)
                 (float_of_str (case env ''ZO_ESCALATE_FLOOR'' of None \<Rightarrow> ''40'' | Some s \<Rightarrow> s))
             else Some base)
      in map_option (\<lambda>m. if capable_recipe d then CAPABLE ! (attempt mod length CAPABLE) else m) escalated)"

definition build_env_for :: "environ \<Rightarrow> jobj \<Rightarrow> nat \<Rightarrow> jobj list \<Rightarrow> (string, string) dict option" where
  "build_env_for env d attempt rows =
     (case (tier_for_complexity (jget d ''complexity''), norm_complexity (jget d ''complexity'')) of
        (Some tier, Some complexity) \<Rightarrow>
          map_option (\<lambda>goose_model.
            [(''GOOSE_MODEL'', if goose_model = [] then DEFAULT_ALIAS else goose_model),
             (''ZO_BUILD_TIER'', tier),
             (''ZO_BUILD_TASK'', py_str (py_or (jget d ''key'') (py_or (jget d ''directive_id'')
                (py_or (jget d ''id'') (JStr []))))),
             (''ZO_BUILD_PHASE'', py_str (jget_or d ''phase'' (JStr [])))])
            (routed_model env d complexity attempt rows)
      | _ \<Rightarrow> None)"

subsection \<open>Rows\<close>

definition BUILDER_AGENT_ID :: string where
  "BUILDER_AGENT_ID = ''t1.zo_sentinel_builder''"

definition BUILD_ARTIFACT_TYPE :: string where
  "BUILD_ARTIFACT_TYPE = ''build_artifact''"

text \<open>\<open>micros\<close> is the clock in microseconds, \<open>built_at\<close> the given or current time.\<close>

definition build_artifact_row :: "int \<Rightarrow> string \<Rightarrow> int \<Rightarrow> string \<Rightarrow> string \<Rightarrow> string \<Rightarrow> string \<Rightarrow>
    string \<Rightarrow> string \<Rightarrow> string \<Rightarrow> jobj" where
  "build_artifact_row micros fname content_bytes context_type tier model backend phase task built_at =
     [(''id'', JInt micros),
      (''agent_id'', JStr BUILDER_AGENT_ID),
      (''memory_type'', JStr BUILD_ARTIFACT_TYPE),
      (''content'', JStr (json_dumps (JObj [
         (''file'', JStr fname),
         (''built_at'', JStr built_at),
         (''phase'', JStr phase),
         (''bytes'', JInt content_bytes),
         (''interface'', JStr context_type),
         (''task'', JStr task),
         (''tier'', JStr tier),
         (''model'', JStr model),
         (''backend'', JStr backend)]))),
      (''importance'', JFloat (1 / 2) ''0.5'')]"

definition build_id_of :: "string \<Rightarrow> string \<Rightarrow> int \<Rightarrow> string \<Rightarrow> string" where
  "build_id_of did smoke attempt ts = did @ '':'' @ smoke @ '':a'' @ int_str attempt @ '':'' @ take 10 ts"

definition build_provenance_row :: "string \<Rightarrow> string \<Rightarrow> string \<Rightarrow> string \<Rightarrow> bool \<Rightarrow> string \<Rightarrow> int \<Rightarrow> int \<Rightarrow>
    string \<Rightarrow> int \<Rightarrow> string \<Rightarrow> string \<Rightarrow> string \<Rightarrow> string \<Rightarrow> jobj" where
  "build_provenance_row did dtype complexity model success smoke attempt rescue_count output_path
      output_bytes err engine backend ts =
     [(''build_id'', JStr (build_id_of did smoke attempt ts)),
      (''directive_id'', JStr did),
      (''directive_type'', JStr dtype),
      (''complexity'', JStr complexity),
      (''engine'', JStr engine),
      (''model'', JStr model),
      (''backend'', JStr backend),
      (''smoke_result'', JStr smoke),
      (''rescue_count'', JInt rescue_count),
      (''success'', JBool success),
      (''output_path'', JStr output_path),
      (''output_bytes'', JInt output_bytes),
      (''error'', JStr err),
      (''built_at'', JStr ts)]"

subsection \<open>The best model\<close>

lemma foldl_better_ge: "snd b \<le> snd (foldl better b es)"
proof (induction es arbitrary: b)
  case (Cons e es)
  have "snd b \<le> snd (better b e)" by (auto simp: better_def split: option.splits)
  with Cons [of "better b e"] show ?case by simp
qed simp

lemma foldl_better_max: "Some (m, p) \<in> set es \<Longrightarrow> p \<le> snd (foldl better b es)"
proof (induction es arbitrary: b)
  case (Cons e es)
  show ?case
  proof (cases "e = Some (m, p)")
    case True
    then have "p \<le> snd (better b e)" by (simp add: better_def)
    also have "\<dots> \<le> snd (foldl better (better b e) es)" by (rule foldl_better_ge)
    finally show ?thesis by simp
  next
    case False
    with Cons.prems have "Some (m, p) \<in> set es" by auto
    from Cons.IH [OF this] show ?thesis by simp
  qed
qed simp

lemma foldl_better_from:
  "foldl better b es = (w, p) \<Longrightarrow> (w, p) = b \<or> (\<exists>m. w = Some m \<and> Some (m, p) \<in> set es)"
proof (induction es arbitrary: b)
  case (Cons e es)
  from Cons.IH [of "better b e"] Cons.prems show ?case
    by (auto simp: better_def split: option.splits if_splits)
qed simp

lemma best_model_spec:
  fixes rows dtype cx k ex ms
  defines "entry \<equiv> matrix_entry (lower (strip dtype)) (lower (strip cx)) k ex ms"
  assumes "best_model_from_matrix rows dtype cx k ex ms = Some m"
  shows "\<exists>p. Some (m, p) \<in> entry ` set rows \<and> (\<forall>m' p'. Some (m', p') \<in> entry ` set rows \<longrightarrow> p' \<le> p)"
proof -
  obtain w p where wp: "foldl better (None, -1) (map entry rows) = (w, p)" by (cases "foldl better (None, -1) (map entry rows)")
  then have w: "w = Some m" using assms(2) by (simp add: best_model_from_matrix_def entry_def)
  with foldl_better_from [OF wp] have "Some (m, p) \<in> entry ` set rows" by auto
  moreover have "p' \<le> p" if "Some (m', p') \<in> entry ` set rows" for m' p'
    using foldl_better_max [of m' p' "map entry rows" "(None, -1)"] that wp by simp
  ultimately show ?thesis by blast
qed

lemma best_model_none:
  assumes "best_model_from_matrix rows dtype cx k ex ms = None" and "0 \<le> ms"
  shows "\<forall>r \<in> set rows. matrix_entry (lower (strip dtype)) (lower (strip cx)) k ex ms r = None"
proof
  fix r
  let ?entry = "matrix_entry (lower (strip dtype)) (lower (strip cx)) k ex ms"
  assume r: "r \<in> set rows"
  obtain w p where wp: "foldl better (None, -1) (map ?entry rows) = (w, p)"
    by (cases "foldl better (None, -1) (map ?entry rows)")
  then have w: "w = None" using assms(1) by (simp add: best_model_from_matrix_def)
  with foldl_better_from [OF wp] have "p = -1" by auto
  show "?entry r = None"
  proof (rule ccontr)
    assume "?entry r \<noteq> None"
    then obtain m q where q: "?entry r = Some (m, q)" by auto
    then have "ms \<le> q" by (auto simp: matrix_entry_def Let_def split: if_splits option.splits)
    moreover have "Some (m, q) \<in> set (map ?entry rows)" using q r by force
    then have "q \<le> -1" using foldl_better_max [of m q "map ?entry rows" "(None, -1)"] wp \<open>p = -1\<close> by simp
    ultimately show False using assms(2) by linarith
  qed
qed

lemma entry_model: "matrix_entry dt cx k ex ms r = Some (m, p) \<Longrightarrow>
    m = strip (py_str (jget_or r ''model'' (JStr []))) \<and> m \<noteq> [] \<and> Some m \<noteq> ex"
  by (auto simp: matrix_entry_def Let_def split: if_splits option.splits)

lemma best_model_row:
  assumes "best_model_from_matrix rows dtype cx k ex ms = Some m"
  shows "\<exists>r \<in> set rows. strip (py_str (jget_or r ''model'' (JStr []))) = m \<and> m \<noteq> []"
proof -
  obtain p r where "r \<in> set rows"
      "matrix_entry (lower (strip dtype)) (lower (strip cx)) k ex ms r = Some (m, p)"
    using best_model_spec [OF assms] by (metis imageE)
  with entry_model [of "lower (strip dtype)" "lower (strip cx)" k ex ms r m p] show ?thesis by auto
qed

subsection \<open>What is never routed\<close>

lemma escalate_alias_free:
  "complexity \<noteq> ''critical'' \<Longrightarrow> escalate_alias base attempt complexity \<noteq> ''zo-ladder-critical''"
proof -
  assume c: "complexity \<noteq> ''critical''"
  have l: "ESCALATION_LADDER ! i \<noteq> ''zo-ladder-critical''" if "i \<le> 2" for i
  proof -
    have "i = 0 \<or> i = 1 \<or> i = 2" using that by linarith
    then show ?thesis by (auto simp: ESCALATION_LADDER_def)
  qed
  show ?thesis
    unfolding escalate_alias_def Let_def using c by (simp add: FREE_CAP_INDEX_def l)
qed

lemma static_model_free: "static_model env d cx \<in> {''zo-ladder-nvidia'', ''zo-ladder-medium'', ''zo-ladder-low''}"
  by (simp add: static_model_def DEFAULT_ALIAS_def)

lemma capable_free: "CAPABLE ! (n mod length CAPABLE) \<noteq> ''zo-ladder-critical'' \<and> CAPABLE ! (n mod length CAPABLE) \<in> set CAPABLE"
proof -
  have "CAPABLE ! (n mod length CAPABLE) \<in> set CAPABLE"
    by (rule nth_mem) (simp add: CAPABLE_def)
  then show ?thesis by (auto simp: CAPABLE_def)
qed

lemma routed_paid:
  assumes "routed_model env d cx attempt rows = Some ''zo-ladder-critical''" and "cx \<noteq> ''critical''"
  shows "\<exists>r \<in> set rows. strip (py_str (jget_or r ''model'' (JStr []))) = ''zo-ladder-critical''"
proof (rule ccontr)
  assume no: "\<not> ?thesis"
  have b: "best_model_from_matrix rows dt cx' k ex ms \<noteq> Some ''zo-ladder-critical''" for dt cx' k ex ms
    using no best_model_row by blast
  have s: "static_model env d cx \<noteq> ''zo-ladder-critical''"
    using static_model_free [of env d cx] by auto
  have "routed_model env d cx attempt rows \<noteq> Some ''zo-ladder-critical''"
    using b s capable_free [of attempt] escalate_alias_free [OF assms(2)]
    unfolding routed_model_def Let_def
    by (auto split: option.splits if_splits)
  with assms(1) show False by simp
qed

subsection \<open>Two readings of identity\<close>

lemma identity_agrees:
  assumes "\<forall>k \<in> {''directive_id'', ''id'', ''key'', ''task''}. \<exists>s. jget_or d k (JStr []) = JStr s \<and> strip s = s"
    and "\<exists>k \<in> {''directive_id'', ''id'', ''key'', ''task''}. jget_or d k (JStr []) \<noteq> JStr []"
  shows "builder_id d = JStr (resolve_directive_id d)"
proof -
  have g: "py_or (jget d k) v = py_or (jget_or d k (JStr [])) v" for k v
    by (auto simp: jget_def jget_or_def py_or_def split: option.splits)
  obtain a b c e where ids: "jget_or d ''directive_id'' (JStr []) = JStr a" "strip a = a"
      "jget_or d ''id'' (JStr []) = JStr b" "strip b = b"
      "jget_or d ''key'' (JStr []) = JStr c" "strip c = c"
      "jget_or d ''task'' (JStr []) = JStr e" "strip e = e"
    using assms(1) by auto
  show ?thesis
    using assms(2) unfolding builder_id_def resolve_directive_id_def g
    by (auto simp: py_or_def ids)
qed

text \<open>Padding tells them apart: the builder keeps it, the promoter and the janitor do not.\<close>

lemma identity_padded:
  "builder_id [(''task'', JStr '' a'')] = JStr '' a'' \<and> resolve_directive_id [(''task'', JStr '' a'')] = ''a''
   \<and> janitor_id [(''task'', JStr '' a'')] = ''a''"
  by code_simp

subsection \<open>Properties\<close>

text \<open>The model picked from the failure matrix belongs to a row of this very class with
  enough attempts, a rate at or above the floor, and not the excluded model, and no such row has a higher
  rate; when none is picked, no such row exists.\<close>

theorem best_model_is_best:
  assumes "0 \<le> ms"
  shows "case best_model_from_matrix rows dtype cx k ex ms of
      Some m \<Rightarrow> \<exists>r \<in> set rows. \<exists>p. matrix_entry (lower (strip dtype)) (lower (strip cx)) k ex ms r = Some (m, p)
        \<and> (\<forall>r' \<in> set rows. \<forall>m' p'. matrix_entry (lower (strip dtype)) (lower (strip cx)) k ex ms r' = Some (m', p')
              \<longrightarrow> p' \<le> p)
    | None \<Rightarrow> \<forall>r \<in> set rows. matrix_entry (lower (strip dtype)) (lower (strip cx)) k ex ms r = None"
proof (cases "best_model_from_matrix rows dtype cx k ex ms")
  case None
  with best_model_none [OF None assms] show ?thesis by simp
next
  case (Some m)
  let ?e = "matrix_entry (lower (strip dtype)) (lower (strip cx)) k ex ms"
  obtain p where p: "Some (m, p) \<in> ?e ` set rows" "\<forall>m' p'. Some (m', p') \<in> ?e ` set rows \<longrightarrow> p' \<le> p"
    using best_model_spec [OF Some] by blast
  then obtain r where "r \<in> set rows" "?e r = Some (m, p)" by (metis imageE)
  moreover have "p' \<le> p" if "r' \<in> set rows" "?e r' = Some (m', p')" for r' m' p'
    using p(2) that by (metis imageI)
  ultimately show ?thesis unfolding Some option.case by blast
qed

theorem best_model_is_best_witness:
  "\<exists>r \<in> set [[(''directive_type'', JStr ''ui''), (''complexity'', JStr ''low''), (''model'', JStr ''m1''),
        (''attempts'', JInt 30), (''success_pct'', JInt 50)],
      [(''directive_type'', JStr ''ui''), (''complexity'', JStr ''low''), (''model'', JStr ''m2''),
        (''attempts'', JInt 25), (''success_pct'', JStr ''62.5'')]].
     \<exists>p. matrix_entry ''ui'' ''low'' 20 None 0 r = Some (''m2'', p)"
proof -
  let ?rows = "[[(''directive_type'', JStr ''ui''), (''complexity'', JStr ''low''), (''model'', JStr ''m1''),
        (''attempts'', JInt 30), (''success_pct'', JInt 50)],
      [(''directive_type'', JStr ''ui''), (''complexity'', JStr ''low''), (''model'', JStr ''m2''),
        (''attempts'', JInt 25), (''success_pct'', JStr ''62.5'')]]"
  have b: "best_model_from_matrix ?rows ''ui'' ''low'' 20 None 0 = Some ''m2''"
    and l: "lower (strip ''ui'') = ''ui''" "lower (strip ''low'') = ''low''" by code_simp+
  from best_model_is_best [of 0 ?rows "''ui''" "''low''" 20 None] show ?thesis
    unfolding b l option.case by blast
qed

text \<open>A directive that is not critical is sent to the paid rung only when the failure matrix
  itself names it: neither the static route nor any number of escalations reaches it.\<close>

theorem paid_rung_needs_critical_or_evidence:
  assumes "build_env_for env d attempt rows = Some e" and "dget e ''GOOSE_MODEL'' = Some ''zo-ladder-critical''"
    and "norm_complexity (jget d ''complexity'') \<noteq> Some ''critical''"
  shows "\<exists>r \<in> set rows. strip (py_str (jget_or r ''model'' (JStr []))) = ''zo-ladder-critical''"
proof -
  obtain cx m where "norm_complexity (jget d ''complexity'') = Some cx"
      "routed_model env d cx attempt rows = Some m"
      "dget e ''GOOSE_MODEL'' = Some (if m = [] then DEFAULT_ALIAS else m)"
    using assms(1) by (auto simp: build_env_for_def split: option.splits)
  with assms(2,3) routed_paid [of env d cx attempt rows] show ?thesis
    by (auto simp: DEFAULT_ALIAS_def split: if_splits)
qed

theorem paid_rung_needs_critical_or_evidence_witness:
  "\<exists>r \<in> set [[(''directive_type'', JStr ''utility''), (''complexity'', JStr ''high''),
        (''model'', JStr ''zo-ladder-critical''), (''attempts'', JInt 30), (''success_pct'', JInt 90)]].
     strip (py_str (jget_or r ''model'' (JStr []))) = ''zo-ladder-critical''"
proof -
  let ?rows = "[[(''directive_type'', JStr ''utility''), (''complexity'', JStr ''high''),
        (''model'', JStr ''zo-ladder-critical''), (''attempts'', JInt 30), (''success_pct'', JInt 90)]]"
  let ?d = "[(''complexity'', JStr ''high'')]"
  have "build_env_for (\<lambda>_. None) ?d 0 ?rows = Some (the (build_env_for (\<lambda>_. None) ?d 0 ?rows))"
    and "dget (the (build_env_for (\<lambda>_. None) ?d 0 ?rows)) ''GOOSE_MODEL'' = Some ''zo-ladder-critical''"
    and "norm_complexity (jget ?d ''complexity'') \<noteq> Some ''critical''" by code_simp+
  then show ?thesis by (rule paid_rung_needs_critical_or_evidence)
qed

text \<open>The builder, the promoter and the janitor give a directive the same identity whenever
  its identifying fields are texts without surrounding blanks and one of them is not empty.\<close>

theorem identity_is_shared:
  assumes "\<forall>k \<in> {''directive_id'', ''id'', ''key'', ''task''}. \<exists>s. jget_or d k (JStr []) = JStr s \<and> strip s = s"
    and "\<exists>k \<in> {''directive_id'', ''id'', ''key'', ''task''}. jget_or d k (JStr []) \<noteq> JStr []"
  shows "builder_id d = JStr (resolve_directive_id d) \<and> janitor_id d = resolve_directive_id d"
  using identity_agrees [OF assms] by (simp add: janitor_id_def resolve_directive_id_def)

theorem identity_is_shared_witness:
  "builder_id good_proposal = JStr (resolve_directive_id good_proposal)
   \<and> janitor_id good_proposal = resolve_directive_id good_proposal"
  by (rule identity_is_shared) (simp_all add: good_proposal_def strip_def is_space_def chr_code_def)

end
