(* ===== verification/PyJson.thy ===== *)
theory PyJson
  imports PyBase
begin

text \<open>
  \<open>json.loads\<close> on a text, with Python's grammar: the escapes and the refused control characters of its strings,
  its numbers, the last of equal keys counts. The value of a literal with a fraction or an exponent (and of \<open>NaN\<close> and
  the infinities) is an argument, \<open>fl\<close>: the model does not compute doubles. Strings have code points below 256, so
  an escape of a larger one reads as a question mark.
\<close>

subsection \<open>Tokens\<close>

definition json_space :: "char \<Rightarrow> bool" where
  "json_space c = (c \<in> {CHR '' '', CHR 0x09, CHR 0x0A, CHR 0x0D})"

definition skip_ws :: "string \<Rightarrow> string" where
  "skip_ws s = dropWhile json_space s"

definition hex_val :: "char \<Rightarrow> nat option" where
  "hex_val c = (let n = chr_code c in
     if 48 \<le> n \<and> n \<le> 57 then Some (n - 48) else if 97 \<le> n \<and> n \<le> 102 then Some (n - 87)
     else if 65 \<le> n \<and> n \<le> 70 then Some (n - 55) else None)"

definition code_char :: "nat \<Rightarrow> char" where
  "code_char n = (if n < 256 then char_of n else CHR ''?'')"

definition simple_escape :: "char \<Rightarrow> char option" where
  "simple_escape e = dget [(CHR 0x22, CHR 0x22), (CHR 0x5C, CHR 0x5C), (CHR ''/'', CHR ''/''), (CHR ''b'', CHR 0x08),
     (CHR ''f'', CHR 0x0C), (CHR ''n'', CHR 0x0A), (CHR ''r'', CHR 0x0D), (CHR ''t'', CHR 0x09)] e"

text \<open>The rest of a string after its opening quote: its characters and what follows the closing quote.\<close>

fun scan_str :: "string \<Rightarrow> (string \<times> string) option" where
  "scan_str [] = None"
| "scan_str (c # s) =
     (if c = CHR 0x22 then Some ([], s)
      else if c = CHR 0x5C then
        (case s of
           a # w # x # y # z # t \<Rightarrow>
             if a = CHR ''u'' then
               (case (hex_val w, hex_val x, hex_val y, hex_val z) of
                  (Some h, Some i, Some j, Some k) \<Rightarrow>
                    map_option (\<lambda>(u, r). (code_char (4096 * h + 256 * i + 16 * j + k) # u, r)) (scan_str t)
                | _ \<Rightarrow> None)
             else (case simple_escape a of None \<Rightarrow> None
               | Some e \<Rightarrow> map_option (\<lambda>(u, r). (e # u, r)) (scan_str (w # x # y # z # t)))
         | a # t \<Rightarrow> (case simple_escape a of None \<Rightarrow> None | Some e \<Rightarrow> map_option (\<lambda>(u, r). (e # u, r)) (scan_str t))
         | [] \<Rightarrow> None)
      else if chr_code c < 32 then None
      else map_option (\<lambda>(u, r). (c # u, r)) (scan_str s))"

text \<open>A number: its sign and digits, then an optional fraction and exponent, which make it a float.\<close>

definition scan_digits :: "string \<Rightarrow> string \<times> string" where
  "scan_digits s = (takeWhile is_digit s, dropWhile is_digit s)"

definition scan_frac :: "string \<Rightarrow> string \<times> string" where
  "scan_frac s = (case s of c # t \<Rightarrow> if c = CHR ''.'' \<and> fst (scan_digits t) \<noteq> [] then (c # fst (scan_digits t), snd (scan_digits t)) else ([], s)
     | [] \<Rightarrow> ([], s))"

definition scan_exp :: "string \<Rightarrow> string \<times> string" where
  "scan_exp s =
     (case s of
        c # t \<Rightarrow>
          (let (sg, u) = (case t of d # t' \<Rightarrow> if d \<in> {CHR ''+'', CHR ''-''} then ([d], t') else ([], t) | [] \<Rightarrow> ([], t));
               (ds, r) = scan_digits u
           in if c \<in> {CHR ''e'', CHR ''E''} \<and> ds \<noteq> [] then (c # sg @ ds, r) else ([], s))
      | [] \<Rightarrow> ([], s))"

definition scan_int :: "string \<Rightarrow> (string \<times> string) option" where
  "scan_int s =
     (case s of [] \<Rightarrow> None
      | c # t \<Rightarrow> if c = CHR ''0'' then Some ([c], t) else if is_digit c then Some (scan_digits s) else None)"

definition scan_number :: "(string \<Rightarrow> json) \<Rightarrow> string \<Rightarrow> (json \<times> string) option" where
  "scan_number fl s =
     (let (sg, u) = (case s of c # t \<Rightarrow> if c = CHR ''-'' then ([c], t) else ([], s) | [] \<Rightarrow> ([], s)) in
      case scan_int u of None \<Rightarrow> None
      | Some (ds, r) \<Rightarrow>
        (let (f, r1) = scan_frac r; (e, r2) = scan_exp r1 in
         if f = [] \<and> e = []
         then map_option (\<lambda>n. (JInt (if sg = [] then int n else - int n), r2)) (parse_nat ds)
         else Some (fl (sg @ ds @ f @ e), r2)))"

definition scan_word :: "(string \<Rightarrow> json) \<Rightarrow> string \<Rightarrow> (json \<times> string) option" where
  "scan_word fl s =
     (if startswith s ''null'' then Some (JNull, drop 4 s)
      else if startswith s ''true'' then Some (JBool True, drop 4 s)
      else if startswith s ''false'' then Some (JBool False, drop 5 s)
      else case scan_number fl s of Some r \<Rightarrow> Some r
        | None \<Rightarrow>
          if startswith s ''NaN'' then Some (fl ''NaN'', drop 3 s)
          else if startswith s ''Infinity'' then Some (fl ''Infinity'', drop 8 s)
          else if startswith s ''-Infinity'' then Some (fl ''-Infinity'', drop 9 s) else None)"

subsection \<open>Values\<close>

definition obj_of :: "(string \<times> json) list \<Rightarrow> json" where
  "obj_of kvs = JObj (fold (\<lambda>(k, v) d. dput k v d) kvs [])"

text \<open>The number bounds the depth of the recursion; twice the length of the text is enough.\<close>

fun scan_value :: "(string \<Rightarrow> json) \<Rightarrow> nat \<Rightarrow> string \<Rightarrow> (json \<times> string) option"
and scan_items :: "(string \<Rightarrow> json) \<Rightarrow> nat \<Rightarrow> string \<Rightarrow> (json list \<times> string) option"
and scan_pairs :: "(string \<Rightarrow> json) \<Rightarrow> nat \<Rightarrow> string \<Rightarrow> ((string \<times> json) list \<times> string) option" where
  "scan_value fl 0 s = None"
| "scan_value fl (Suc n) s =
     (case s of [] \<Rightarrow> None
      | c # t \<Rightarrow>
        if c = CHR 0x22 then map_option (\<lambda>(u, r). (JStr u, r)) (scan_str t)
        else if c = CHR ''['' then
          (case skip_ws t of d # r \<Rightarrow>
             if d = CHR '']'' then Some (JList [], r) else map_option (\<lambda>(vs, r). (JList vs, r)) (scan_items fl n (d # r))
           | [] \<Rightarrow> None)
        else if c = CHR ''{'' then
          (case skip_ws t of d # r \<Rightarrow>
             if d = CHR ''}'' then Some (JObj [], r) else map_option (\<lambda>(kvs, r). (obj_of kvs, r)) (scan_pairs fl n (d # r))
           | [] \<Rightarrow> None)
        else scan_word fl s)"
| "scan_items fl 0 s = None"
| "scan_items fl (Suc n) s =
     (case scan_value fl n s of None \<Rightarrow> None
      | Some (v, r) \<Rightarrow>
        (case skip_ws r of c # t \<Rightarrow>
           if c = CHR '']'' then Some ([v], t)
           else if c = CHR '','' then map_option (\<lambda>(vs, r). (v # vs, r)) (scan_items fl n (skip_ws t)) else None
         | [] \<Rightarrow> None))"
| "scan_pairs fl 0 s = None"
| "scan_pairs fl (Suc n) s =
     (case s of [] \<Rightarrow> None
      | q # u \<Rightarrow>
        if q \<noteq> CHR 0x22 then None
        else (case scan_str u of None \<Rightarrow> None
          | Some (k, r) \<Rightarrow>
            (case skip_ws r of [] \<Rightarrow> None
             | c # t \<Rightarrow>
               if c \<noteq> CHR '':'' then None
               else (case scan_value fl n (skip_ws t) of None \<Rightarrow> None
                 | Some (v, r1) \<Rightarrow>
                   (case skip_ws r1 of e # t1 \<Rightarrow>
                      if e = CHR ''}'' then Some ([(k, v)], t1)
                      else if e = CHR '','' then map_option (\<lambda>(kvs, r). ((k, v) # kvs, r)) (scan_pairs fl n (skip_ws t1)) else None
                    | [] \<Rightarrow> None)))))"

text \<open>\<open>json.loads(s)\<close>; \<open>None\<close> is the JSONDecodeError.\<close>

definition loads :: "(string \<Rightarrow> json) \<Rightarrow> string \<Rightarrow> json option" where
  "loads fl s =
     (case scan_value fl (2 * length s + 2) (skip_ws s) of None \<Rightarrow> None
      | Some (v, r) \<Rightarrow> if skip_ws r = [] then Some v else None)"

subsection \<open>What \<open>json.dumps\<close> writes is read back\<close>

text \<open>Values without floats, whose objects have distinct keys.\<close>

fun plain_json :: "json \<Rightarrow> bool" where
  "plain_json (JFloat r s) = False"
| "plain_json (JList xs) = list_all plain_json xs"
| "plain_json (JObj d) = (distinct (map fst d) \<and> list_all (\<lambda>kv. plain_json (snd kv)) d)"
| "plain_json _ = True"

lemma chr_code_less: "chr_code c < 256"
  by (simp add: chr_code_def)

lemma chr_code_inj: "chr_code c = chr_code d \<longleftrightarrow> c = d"
  by (simp add: chr_code_def)

lemma code_char_code: "code_char (chr_code c) = c"
  by (simp add: code_char_def chr_code_less chr_code_def)

lemma hex_val_digit: "n < 16 \<Longrightarrow> hex_val (hex_digit n) = Some n"
proof (cases "n < 10")
  case True
  then show ?thesis by (simp add: hex_val_def hex_digit_def chr_code_digit_char Let_def)
next
  case False
  assume "n < 16"
  with False have "chr_code (hex_digit n) = 87 + n" by (simp add: hex_digit_def chr_code_def)
  with False \<open>n < 16\<close> show ?thesis by (simp add: hex_val_def Let_def)
qed

lemma scan_escaped_byte:
  "scan_str ([CHR 0x5C, CHR ''u'', CHR ''0'', CHR ''0'', hex_digit (chr_code c div 16), hex_digit (chr_code c mod 16)] @ s)
   = map_option (\<lambda>(u, r). (c # u, r)) (scan_str s)"
proof -
  have h: "hex_val (hex_digit (chr_code c div 16)) = Some (chr_code c div 16)"
    "hex_val (hex_digit (chr_code c mod 16)) = Some (chr_code c mod 16)"
    using chr_code_less [of c] by (simp_all add: hex_val_digit)
  have z: "hex_val (CHR ''0'') = Some 0" by code_simp
  have "16 * (chr_code c div 16) + chr_code c mod 16 = chr_code c" by simp
  then show ?thesis using code_char_code [of c] by (simp add: h z)
qed

lemma scan_simple_escape:
  assumes "simple_escape e = Some c" and "e \<noteq> CHR ''u''"
  shows "scan_str (CHR 0x5C # e # s) = map_option (\<lambda>(u, r). (c # u, r)) (scan_str s)"
  using assms by (auto split: list.split)

lemma scan_json_char: "scan_str (json_char c @ s) = map_option (\<lambda>(u, r). (c # u, r)) (scan_str s)"
proof (cases "c \<in> {CHR 0x22, CHR 0x5C, CHR 0x0A, CHR 0x0D, CHR 0x09, CHR 0x08, CHR 0x0C}")
  case True
  then obtain e where "json_char c = [CHR 0x5C, e]" "simple_escape e = Some c" "e \<noteq> CHR ''u''"
    by (auto simp: json_char_def chr_code_def simple_escape_def)
  then show ?thesis using scan_simple_escape [of e c s] by simp
next
  case False
  have n: "chr_code c \<noteq> 34" "chr_code c \<noteq> 92" "chr_code c \<noteq> 10" "chr_code c \<noteq> 13" "chr_code c \<noteq> 9" "chr_code c \<noteq> 8" "chr_code c \<noteq> 12"
    using False chr_code_inj [of c "CHR 0x22"] chr_code_inj [of c "CHR 0x5C"] chr_code_inj [of c "CHR 0x0A"]
      chr_code_inj [of c "CHR 0x0D"] chr_code_inj [of c "CHR 0x09"] chr_code_inj [of c "CHR 0x08"] chr_code_inj [of c "CHR 0x0C"]
    by (auto simp: chr_code_def)
  show ?thesis
  proof (cases "chr_code c < 32 \<or> 127 \<le> chr_code c")
    case True
    then have "json_char c = [CHR 0x5C, CHR ''u'', CHR ''0'', CHR ''0'', hex_digit (chr_code c div 16), hex_digit (chr_code c mod 16)]"
      using n by (simp add: json_char_def Let_def)
    then show ?thesis by (simp only: scan_escaped_byte)
  next
    case pl: False
    then have "json_char c = [c]" using n by (simp add: json_char_def Let_def)
    moreover have "c \<noteq> CHR 0x22" "c \<noteq> CHR 0x5C" using False by auto
    ultimately show ?thesis using pl by simp
  qed
qed

lemma scan_json_str: "scan_str (concat (map json_char s) @ CHR 0x22 # r) = Some (s, r)"
  by (induction s) (simp_all add: scan_json_char del: scan_str.simps(2), simp)

text \<open>What may follow a value: the end, or one of the characters that close or separate.\<close>

definition value_end :: "string \<Rightarrow> bool" where
  "value_end r = (r = [] \<or> hd r \<in> {CHR '','', CHR '']'', CHR ''}''})"

lemma digits_end: "value_end r \<Longrightarrow> list_all is_digit ds \<Longrightarrow> scan_digits (ds @ r) = (ds, r)"
proof (induction ds)
  case Nil
  have "\<not> is_digit (CHR '','')" "\<not> is_digit (CHR '']'')" "\<not> is_digit (CHR ''}'')" by code_simp+
  then show ?case using Nil by (cases r) (auto simp: value_end_def scan_digits_def)
qed (simp add: scan_digits_def)

lemma nat_str_digits: "list_all is_digit (nat_str n)"
proof (induction n rule: nat_str.induct)
  case (1 n)
  then show ?case by (subst nat_str.simps) (simp add: is_digit_digit_char)
qed

lemma nat_str_lead: "n \<noteq> 0 \<Longrightarrow> hd (nat_str n) \<noteq> CHR ''0''"
proof (induction n rule: nat_str.induct)
  case (1 n)
  show ?case
  proof (cases "n < 10")
    case True
    then have "chr_code (digit_char n) \<noteq> chr_code (CHR ''0'')" using 1 by (simp add: chr_code_digit_char) (simp add: chr_code_def)
    then show ?thesis using True by (subst nat_str.simps) auto
  next
    case False
    then have "hd (nat_str (n div 10)) \<noteq> CHR ''0''" using 1 by simp
    then show ?thesis using False nat_str_nonempty [of "n div 10"] by (subst nat_str.simps) simp
  qed
qed

lemma scan_int_nat:
  assumes "value_end r"
  shows "scan_int (nat_str n @ r) = Some (nat_str n, r)"
proof (cases "n = 0")
  case True
  have "nat_str 0 = ''0''" by code_simp
  then show ?thesis by (simp add: True scan_int_def)
next
  case False
  obtain c t where c: "nat_str n = c # t" using nat_str_nonempty by (cases "nat_str n") auto
  have "c \<noteq> CHR ''0''" "is_digit c" using nat_str_lead [OF False] nat_str_digits [of n] by (auto simp: c)
  then show ?thesis using digits_end [OF assms nat_str_digits, of n] by (simp add: scan_int_def c)
qed

lemma no_frac: "value_end r \<Longrightarrow> scan_frac r = ([], r) \<and> scan_exp r = ([], r)"
  by (cases r) (auto simp: value_end_def scan_frac_def scan_exp_def Let_def split: prod.split)

lemma digit_not: "is_digit c \<Longrightarrow> c \<notin> {CHR ''-'', CHR 0x22, CHR ''['', CHR ''{'', CHR '']'', CHR ''}'', CHR ''n'', CHR ''t'', CHR ''f''} \<and> \<not> json_space c"
  by (auto simp: is_digit_def json_space_def chr_code_def Let_def)

lemma int_str_head:
  obtains c t where "int_str i = c # t" "is_digit c \<or> c = CHR ''-''"
proof -
  obtain c t where c: "nat_str (nat (abs i)) = c # t" using nat_str_nonempty by (cases "nat_str (nat (abs i))") auto
  moreover have "is_digit c" using nat_str_digits [of "nat (abs i)"] by (simp add: c)
  ultimately show thesis using that by (cases "i < 0") (auto simp: int_str_def)
qed

lemma scan_number_int:
  assumes "value_end r"
  shows "scan_number fl (int_str i @ r) = Some (JInt i, r)"
proof (cases "i < 0")
  case True
  then show ?thesis using no_frac [OF assms]
    by (simp add: scan_number_def int_str_def scan_int_nat [OF assms] parse_nat_str)
next
  case False
  obtain c t where c: "nat_str (nat i) = c # t" using nat_str_nonempty by (cases "nat_str (nat i)") auto
  have "c \<noteq> CHR ''-''" using digit_not [of c] nat_str_digits [of "nat i"] by (auto simp: c)
  moreover have "scan_int (c # t @ r) = Some (c # t, r)" using scan_int_nat [OF assms, of "nat i"] by (simp add: c)
  moreover have "parse_nat (c # t) = Some (nat i)" using parse_nat_str [of "nat i"] by (simp add: c)
  ultimately show ?thesis using False no_frac [OF assms] by (simp add: scan_number_def int_str_def c)
qed

lemma scan_word_int:
  assumes "value_end r"
  shows "scan_word fl (int_str i @ r) = Some (JInt i, r)"
proof -
  obtain c t where c: "int_str i = c # t" "is_digit c \<or> c = CHR ''-''" by (rule int_str_head)
  then have "\<not> startswith (int_str i @ r) ''null''" "\<not> startswith (int_str i @ r) ''true''" "\<not> startswith (int_str i @ r) ''false''"
    using digit_not [of c] by (auto simp: startswith_def)
  then show ?thesis by (simp add: scan_word_def scan_number_int [OF assms])
qed

lemma dumps_head:
  assumes "plain_json v"
  obtains c t where "json_dumps v = c # t" "\<not> json_space c" "c \<noteq> CHR '']''"
proof (cases v)
  case (JInt i)
  obtain c t where c: "int_str i = c # t" "is_digit c \<or> c = CHR ''-''" by (rule int_str_head)
  have "\<not> json_space (CHR ''-'')" by code_simp
  with c have "\<not> json_space c" "c \<noteq> CHR '']''" using digit_not [of c] by auto
  then show thesis using that c JInt by simp
next
  case (JBool b)
  then show thesis using that by (cases b) (auto simp: json_space_def)
qed (use assms that in \<open>auto simp: json_space_def json_str_def split: if_splits\<close>)

lemma skip_ws_value: "plain_json v \<Longrightarrow> skip_ws (json_dumps v @ r) = json_dumps v @ r"
  by (rule dumps_head [of v]) (auto simp: skip_ws_def)

lemma skip_ws_space [simp]: "skip_ws (CHR '' '' # r) = skip_ws r"
  by (simp add: skip_ws_def json_space_def)

lemma skip_ws_mark [simp]: "c \<in> {CHR '','', CHR '':'', CHR '']'', CHR ''}'', CHR 0x22, CHR ''{'', CHR ''[''} \<Longrightarrow> skip_ws (c # r) = c # r"
  by (auto simp: skip_ws_def json_space_def)

lemma items_head:
  assumes "list_all plain_json xs" and "xs \<noteq> []"
  shows "skip_ws (dumps_items xs @ r) = dumps_items xs @ r \<and> (\<exists>c t. dumps_items xs = c # t \<and> c \<noteq> CHR '']'')"
proof -
  obtain x ys where xs: "xs = x # ys" using assms(2) by (cases xs) auto
  obtain c t where c: "json_dumps x = c # t" "\<not> json_space c" "c \<noteq> CHR '']''"
    using assms(1) dumps_head [of x] by (auto simp: xs)
  show ?thesis using c by (cases ys) (auto simp: xs skip_ws_def)
qed

lemma pairs_head: "d \<noteq> [] \<Longrightarrow> \<exists>t. dumps_pairs d = CHR 0x22 # t"
  by (cases d rule: dumps_pairs.cases) (auto simp: json_str_def)

lemma dput_new: "k \<notin> set (keys d) \<Longrightarrow> dput k v d = d @ [(k, v)]"
  by (induction d) (auto simp: dput_def)

lemma fold_dput_distinct: "distinct (map fst (d @ kvs)) \<Longrightarrow> fold (\<lambda>(k, v) d. dput k v d) kvs d = d @ kvs"
proof (induction kvs arbitrary: d)
  case (Cons kv kvs)
  obtain k v where kv: "kv = (k, v)" by (metis surj_pair)
  have "dput k v d = d @ [(k, v)]" using Cons.prems by (intro dput_new) (simp add: kv)
  then show ?case using Cons by (simp add: kv)
qed simp

lemma obj_of_distinct: "distinct (map fst d) \<Longrightarrow> obj_of d = JObj d"
  using fold_dput_distinct [of "[]" d] by (simp add: obj_of_def)

lemma scan_dumps:
  "plain_json v \<Longrightarrow> value_end r \<Longrightarrow> 2 * length (json_dumps v) < n \<Longrightarrow> scan_value fl n (json_dumps v @ r) = Some (v, r)"
  "xs \<noteq> [] \<Longrightarrow> list_all plain_json xs \<Longrightarrow> 2 * length (dumps_items xs) + 1 < n \<Longrightarrow>
    scan_items fl n (dumps_items xs @ CHR '']'' # r) = Some (xs, r)"
  "d \<noteq> [] \<Longrightarrow> list_all (\<lambda>kv. plain_json (snd kv)) d \<Longrightarrow> 2 * length (dumps_pairs d) + 1 < n \<Longrightarrow>
    scan_pairs fl n (dumps_pairs d @ CHR ''}'' # r) = Some (d, r)"
proof (induction v and xs and d arbitrary: r n and r n and r n rule: json_dumps_dumps_items_dumps_pairs.induct)
  case 1
  then show ?case by (cases n) (auto simp: scan_word_def startswith_def)
next
  case (2 b)
  then show ?case by (cases n; cases b) (auto simp: scan_word_def startswith_def)
next
  case (3 i)
  obtain c t where c: "int_str i = c # t" "is_digit c \<or> c = CHR ''-''" by (rule int_str_head)
  then have "c \<notin> {CHR 0x22, CHR ''['', CHR ''{''}" using digit_not [of c] by auto
  then show ?case using 3 scan_word_int [OF 3(2), of fl i] c(1) by (cases n) auto
next
  case (4 q s)
  then show ?case by simp
next
  case (5 s)
  then show ?case using scan_json_str [of s r] by (cases n) (auto simp: json_str_def)
next
  case (6 xs)
  obtain m where n: "n = Suc m" using 6 by (cases n) auto
  show ?case
  proof (cases "xs = []")
    case True
    then show ?thesis by (simp add: n)
  next
    case False
    have pl: "list_all plain_json xs" using 6 by simp
    obtain c t where c: "dumps_items xs = c # t" "c \<noteq> CHR '']''" using items_head [OF pl False] by blast
    have "scan_items fl m (dumps_items xs @ CHR '']'' # r) = Some (xs, r)"
      using 6 False pl by (simp add: n)
    moreover have "skip_ws (dumps_items xs @ CHR '']'' # r) = dumps_items xs @ CHR '']'' # r"
      using items_head [OF pl False] by blast
    ultimately show ?thesis using c by (simp add: n)
  qed
next
  case (7 d)
  obtain m where n: "n = Suc m" using 7 by (cases n) auto
  show ?case
  proof (cases "d = []")
    case True
    then show ?thesis by (simp add: n)
  next
    case False
    obtain t where t: "dumps_pairs d = CHR 0x22 # t" using pairs_head [OF False] by blast
    have "scan_pairs fl m (dumps_pairs d @ CHR ''}'' # r) = Some (d, r)"
      using 7 False by (simp add: n)
    moreover have "obj_of d = JObj d" using 7 by (simp add: obj_of_distinct)
    ultimately show ?thesis using t by (simp add: n)
  qed
next
  case 8
  then show ?case by simp
next
  case (9 x)
  obtain m where n: "n = Suc m" using 9 by (cases n) auto
  have "scan_value fl m (json_dumps x @ CHR '']'' # r) = Some (x, CHR '']'' # r)"
    using 9 by (simp add: n value_end_def)
  then show ?case by (simp add: n)
next
  case (10 x y xs)
  obtain m where n: "n = Suc m" using 10 by (cases n) auto
  let ?rest = "dumps_items (y # xs) @ CHR '']'' # r"
  have v: "scan_value fl m (json_dumps x @ '', '' @ ?rest) = Some (x, '', '' @ ?rest)"
    using 10 by (simp add: n value_end_def)
  have i: "scan_items fl m ?rest = Some (y # xs, r)" using 10 by (simp add: n)
  have "skip_ws ?rest = ?rest" using items_head [of "y # xs"] 10(4) by simp
  then show ?case using v i by (simp add: n)
next
  case 11
  then show ?case by simp
next
  case (12 k v)
  obtain m where n: "n = Suc m" using 12 by (cases n) auto
  have "scan_value fl m (json_dumps v @ CHR ''}'' # r) = Some (v, CHR ''}'' # r)"
    using 12 by (simp add: n value_end_def json_str_def)
  moreover have "skip_ws (json_dumps v @ CHR ''}'' # r) = json_dumps v @ CHR ''}'' # r"
    using 12 by (simp add: skip_ws_value)
  ultimately show ?case by (simp add: n json_str_def scan_json_str)
next
  case (13 k v kv d)
  obtain m where n: "n = Suc m" using 13 by (cases n) auto
  let ?rest = "dumps_pairs (kv # d) @ CHR ''}'' # r"
  have v: "scan_value fl m (json_dumps v @ '', '' @ ?rest) = Some (v, '', '' @ ?rest)"
    using 13 by (simp add: n value_end_def json_str_def)
  have i: "scan_pairs fl m ?rest = Some (kv # d, r)" using 13 by (simp add: n json_str_def)
  obtain t where t: "dumps_pairs (kv # d) = CHR 0x22 # t" using pairs_head [of "kv # d"] by auto
  have "skip_ws ?rest = ?rest" by (simp add: t)
  moreover have "skip_ws (json_dumps v @ '', '' @ ?rest) = json_dumps v @ '', '' @ ?rest"
    using 13 by (simp add: skip_ws_value)
  ultimately show ?case using v i by (simp add: n json_str_def scan_json_str)
qed

lemma loads_dumps:
  assumes "plain_json v"
  shows "loads fl (json_dumps v) = Some v"
proof -
  have "scan_value fl (2 * length (json_dumps v) + 2) (json_dumps v @ []) = Some (v, [])"
    by (rule scan_dumps(1) [OF assms]) (simp_all add: value_end_def)
  moreover have "skip_ws (json_dumps v) = json_dumps v" using skip_ws_value [OF assms, of "[]"] by simp
  moreover have "skip_ws [] = []" by (simp add: skip_ws_def)
  ultimately show ?thesis by (simp add: loads_def)
qed

end
