(* ===== verification/MeshStore.thy ===== *)
theory MeshStore
  imports BreakerState PyFs PyRegex Policy PyJson
begin

text \<open>
  \<open>zo_sentinel/ingestor/model.py\<close> and \<open>store.py\<close>: the artifact that a builder's row
  describes, and the storage seam. A cell of a row is a text (as \<open>PyFs\<close> has the texts of
  files: one that \<open>json.loads\<close> reads, or another) or a value that is no text. The seam is a
  record of operations on a state of any type, its laws are the locale \<open>mesh_store\<close>, and both
  stores of the source are instances of the record and of the laws; the HTTP one talks to a service given
  as a function, and has the laws when the service answers and keeps what it is sent (\<open>mesh_service\<close>).
\<close>

subsection \<open>Cells and rows\<close>

datatype cell = CText content | CVal json

type_synonym mrow = "(string, cell) dict"

definition cell_str :: "string \<Rightarrow> cell" where
  "cell_str s = CText (Text s)"

definition cell_json :: "json \<Rightarrow> cell" where
  "cell_json j = CText (Doc j)"

text \<open>\<open>str(v)\<close> of a cell.\<close>

definition cell_text :: "cell \<Rightarrow> string" where
  "cell_text c = (case c of CText t \<Rightarrow> content_text t | CVal j \<Rightarrow> py_str j)"

subsection \<open>Artifacts\<close>

datatype artifact_type = ENRICHMENT_PY | ADMIN_HTML | HTML | PYTHON | MARKDOWN | UNKNOWN_TYPE

fun type_value :: "artifact_type \<Rightarrow> string" where
  "type_value ENRICHMENT_PY = ''enrichment_py''"
| "type_value ADMIN_HTML = ''admin_html''"
| "type_value HTML = ''html''"
| "type_value PYTHON = ''python''"
| "type_value MARKDOWN = ''markdown''"
| "type_value UNKNOWN_TYPE = ''unknown''"

datatype ingest_action = PROMOTE | QUARANTINE | SKIP

fun action_value :: "ingest_action \<Rightarrow> string" where
  "action_value PROMOTE = ''promote''"
| "action_value QUARANTINE = ''quarantine''"
| "action_value SKIP = ''skip''"

record artifact =
  a_file :: string
  a_built_at :: string
  a_phase :: string
  a_bytes :: int
  a_interface :: string
  a_task :: string
  a_row :: "string option"

definition dedup_key :: "artifact \<Rightarrow> string" where
  "dedup_key a = a_file a @ ''|'' @ a_built_at a"

text \<open>
  \<open>from_mesh_content\<close>: \<open>None\<close> when the conversion of \<open>bytes\<close> raises,
  \<open>Some None\<close> for what is no artifact record.
\<close>

definition artifact_of_obj :: "string option \<Rightarrow> jobj \<Rightarrow> artifact option option" where
  "artifact_of_obj row_id d =
     (if \<not> dhas d ''file'' then Some None
      else (case py_int (py_or (jget_or d ''bytes'' (JInt 0)) (JInt 0)) of
        None \<Rightarrow> None
      | Some n \<Rightarrow> Some (Some
          \<lparr>a_file = py_str (jget_or d ''file'' (JStr [])),
           a_built_at = py_str (jget_or d ''built_at'' (JStr [])),
           a_phase = py_str (jget_or d ''phase'' (JStr [])),
           a_bytes = n,
           a_interface = py_str (jget_or d ''interface'' (JStr [])),
           a_task = py_str (jget_or d ''task'' (JStr [])),
           a_row = row_id\<rparr>)))"

definition from_mesh_content :: "cell \<Rightarrow> string option \<Rightarrow> artifact option option" where
  "from_mesh_content c row_id =
     (case (case c of CText t \<Rightarrow> json_loads t | CVal j \<Rightarrow> Some j) of
        Some (JObj d) \<Rightarrow> artifact_of_obj row_id d
      | _ \<Rightarrow> Some None)"

record verdict =
  v_artifact :: artifact
  v_type :: artifact_type
  v_ok :: bool
  v_contract :: string
  v_detail :: string
  v_action :: ingest_action
  v_taken :: bool
  v_safety :: bool
  v_fix :: "jobj option"

definition to_record :: "verdict \<Rightarrow> jobj" where
  "to_record v =
     [(''file'', JStr (a_file (v_artifact v))),
      (''built_at'', JStr (a_built_at (v_artifact v))),
      (''artifact_type'', JStr (type_value (v_type v))),
      (''ok'', JBool (v_ok v)),
      (''contract'', JStr (v_contract v)),
      (''detail'', JStr (take 1000 (v_detail v))),
      (''action'', JStr (action_value (v_action v))),
      (''action_taken'', JBool (v_taken v)),
      (''safety_block'', JBool (v_safety v))]"

subsection \<open>The seam\<close>

definition INGESTOR_AGENT_ID :: string where
  "INGESTOR_AGENT_ID = ''zo_sentinel.artifact_ingestor''"

record 's mesh_ops =
  mo_read :: "string option \<Rightarrow> nat \<Rightarrow> 's \<Rightarrow> (string \<times> cell) list \<times> 's"
  mo_get_wm :: "'s \<Rightarrow> string option \<times> 's"
  mo_set_wm :: "string \<Rightarrow> 's \<Rightarrow> 's"
  mo_write :: "string \<Rightarrow> mrow \<Rightarrow> 's \<Rightarrow> bool \<times> 's"
  mo_latest :: "string \<Rightarrow> string \<Rightarrow> 's \<Rightarrow> cell option \<times> 's"

subsection \<open>The store in memory\<close>

record mem_store =
  ms_artifacts :: "(string \<times> cell) list"
  ms_watermark :: "string option"
  ms_writes :: "(string \<times> mrow) list"

definition mem_ts :: "cell \<Rightarrow> string" where
  "mem_ts c = (case c of CVal (JObj d) \<Rightarrow> py_str (jget_or d ''built_at'' (JStr [])) | _ \<Rightarrow> [])"

definition given :: "string option \<Rightarrow> bool" where
  "given s = (case s of None \<Rightarrow> False | Some t \<Rightarrow> t \<noteq> [])"

definition mem_read :: "string option \<Rightarrow> nat \<Rightarrow> mem_store \<Rightarrow> (string \<times> cell) list \<times> mem_store" where
  "mem_read since limit s =
     (let rows = (if given since then filter (\<lambda>rc. mem_ts (snd rc) > the since) (ms_artifacts s) else ms_artifacts s)
      in (take limit rows, s))"

definition content_built_at :: "cell \<Rightarrow> string" where
  "content_built_at c =
     (case (case c of CText t \<Rightarrow> json_loads t | CVal j \<Rightarrow> Some j) of
        Some (JObj d) \<Rightarrow> py_str (jget_or d ''built_at'' (JStr [])) | _ \<Rightarrow> [])"

definition mem_read_since :: "string option \<Rightarrow> nat \<Rightarrow> mem_store \<Rightarrow> (string \<times> cell \<times> string) list" where
  "mem_read_since since limit s =
     (let rows = map (\<lambda>rc. (fst rc, snd rc, content_built_at (snd rc))) (ms_artifacts s);
          rows = (if given since then filter (\<lambda>t. snd (snd t) > the since) rows else rows)
      in take limit (sort_key (\<lambda>t. snd (snd t)) rows))"

definition mem_get_wm :: "mem_store \<Rightarrow> string option \<times> mem_store" where
  "mem_get_wm s = (ms_watermark s, s)"

definition mem_set_wm :: "string \<Rightarrow> mem_store \<Rightarrow> mem_store" where
  "mem_set_wm v s = s\<lparr>ms_watermark := Some v\<rparr>"

definition mem_write :: "string \<Rightarrow> mrow \<Rightarrow> mem_store \<Rightarrow> bool \<times> mem_store" where
  "mem_write table row s = (True, s\<lparr>ms_writes := ms_writes s @ [(table, row)]\<rparr>)"

fun latest_in :: "string \<Rightarrow> string \<Rightarrow> (string \<times> mrow) list \<Rightarrow> cell option" where
  "latest_in mt ag [] = None"
| "latest_in mt ag ((table, row) # ws) =
     (if table = ''mesh_memory'' \<and> dget row ''memory_type'' = Some (cell_str mt)
         \<and> dget row ''agent_id'' = Some (cell_str ag)
      then dget row ''content'' else latest_in mt ag ws)"

definition mem_latest :: "string \<Rightarrow> string \<Rightarrow> mem_store \<Rightarrow> cell option \<times> mem_store" where
  "mem_latest mt ag s = (latest_in mt ag (rev (ms_writes s)), s)"

definition mem_ops :: "mem_store mesh_ops" where
  "mem_ops = \<lparr>mo_read = mem_read, mo_get_wm = mem_get_wm, mo_set_wm = mem_set_wm,
     mo_write = mem_write, mo_latest = mem_latest\<rparr>"

subsection \<open>The store behind the write service\<close>

text \<open>
  \<open>post\<close> sends a payload to a path of the service and gives the object it answers, the
  empty one on any failure (which \<open>_post\<close> turns an exception or a status other than 200 into).
\<close>

type_synonym 's poster = "string \<Rightarrow> json \<Rightarrow> 's \<Rightarrow> jobj \<times> 's"

definition sql_quote :: "string \<Rightarrow> string" where
  "sql_quote s = [CHR 0x27] @ s @ [CHR 0x27]"

definition resp_rows :: "jobj \<Rightarrow> jobj list" where
  "resp_rows r = (case jget_or r ''rows'' (JList []) of
     JList xs \<Rightarrow> List.map_filter (\<lambda>x. case x of JObj d \<Rightarrow> Some d | _ \<Rightarrow> None) xs | _ \<Rightarrow> [])"

text \<open>A column value of the answer as a cell.\<close>

definition json_cell :: "(string \<Rightarrow> content) \<Rightarrow> json \<Rightarrow> cell" where
  "json_cell txt v = (case v of JStr s \<Rightarrow> CText (txt s) | _ \<Rightarrow> CVal v)"

definition builder_where :: string where
  "builder_where = ''WHERE agent_id = '' @ sql_quote ''t1.zo_sentinel_builder'' @
     '' AND memory_type = '' @ sql_quote ''build_artifact'' @ '' ''"

definition http_read :: "'s poster \<Rightarrow> (string \<Rightarrow> content) \<Rightarrow> string option \<Rightarrow> nat \<Rightarrow> 's \<Rightarrow> (string \<times> cell) list \<times> 's" where
  "http_read post txt since limit s =
     (let sql = ''SELECT id, content FROM mesh_memory '' @ builder_where @
            ''ORDER BY created_at ASC LIMIT '' @ nat_str limit;
          (resp, t) = post ''/query'' (JObj [(''sql'', JStr sql)]) s
      in (map (\<lambda>row. (py_str (jget_or row ''id'' (JStr [])), json_cell txt (jget row ''content''))) (resp_rows resp), t))"

definition sql_escape :: "string \<Rightarrow> string" where
  "sql_escape s = replace_char (CHR 0x27) [CHR 0x27, CHR 0x27] s"

definition since_clause :: "string option \<Rightarrow> string" where
  "since_clause since = (if given since
     then ''AND created_at > '' @ sql_quote (sql_escape (the since)) @ '' '' else [])"

definition http_read_since :: "'s poster \<Rightarrow> (string \<Rightarrow> content) \<Rightarrow> string option \<Rightarrow> nat \<Rightarrow> 's \<Rightarrow>
    (string \<times> cell \<times> string) list \<times> 's" where
  "http_read_since post txt since limit s =
     (let sql = ''SELECT id, content, created_at FROM mesh_memory '' @ builder_where @ since_clause since @
            ''ORDER BY created_at ASC LIMIT '' @ nat_str limit;
          (resp, t) = post ''/query'' (JObj [(''sql'', JStr sql)]) s
      in (map (\<lambda>row. (py_str (jget_or row ''id'' (JStr [])), json_cell txt (jget row ''content''),
                     py_str (jget_or row ''created_at'' (JStr [])))) (resp_rows resp), t))"

definition latest_sql :: "string \<Rightarrow> string \<Rightarrow> string" where
  "latest_sql ag mt = ''SELECT content FROM mesh_memory WHERE agent_id = '' @ sql_quote ag @
     '' AND memory_type = '' @ sql_quote mt @ '' ORDER BY created_at DESC LIMIT 1''"

definition http_get_wm :: "'s poster \<Rightarrow> 's \<Rightarrow> string option \<times> 's" where
  "http_get_wm post s =
     (let (resp, t) = post ''/query'' (JObj [(''sql'', JStr (latest_sql INGESTOR_AGENT_ID ''ingest_watermark''))]) s
      in (case resp_rows resp of [] \<Rightarrow> (None, t)
          | row # _ \<Rightarrow> (let v = py_str (jget_or row ''content'' (JStr [])) in (if v = [] then None else Some v, t))))"

definition row_json :: "mrow \<Rightarrow> json" where
  "row_json row = JObj (map (\<lambda>kc. (fst kc, (case snd kc of CText t \<Rightarrow> JStr (content_text t) | CVal j \<Rightarrow> j))) row)"

definition http_write :: "'s poster \<Rightarrow> string \<Rightarrow> mrow \<Rightarrow> 's \<Rightarrow> bool \<times> 's" where
  "http_write post table row s =
     (let (resp, t) = post ''/write'' (JObj [(''table'', JStr table), (''rows'', JList [row_json row]),
                        (''wait'', JBool True)]) s
      in (truthy (jget_or resp ''ok'' (jget_or resp ''rows_written'' (JInt 0))), t))"

definition http_set_wm :: "'s poster \<Rightarrow> string \<Rightarrow> 's \<Rightarrow> 's" where
  "http_set_wm post v s = snd (http_write post ''mesh_memory''
     [(''agent_id'', cell_str INGESTOR_AGENT_ID), (''memory_type'', cell_str ''ingest_watermark''),
      (''content'', cell_str v), (''importance'', CVal (JFloat (3 / 10) ''0.3''))] s)"

definition http_latest :: "'s poster \<Rightarrow> (string \<Rightarrow> content) \<Rightarrow> string \<Rightarrow> string \<Rightarrow> 's \<Rightarrow> cell option \<times> 's" where
  "http_latest post txt mt ag s =
     (let (resp, t) = post ''/query'' (JObj [(''sql'', JStr (latest_sql ag mt))]) s
      in (case resp_rows resp of [] \<Rightarrow> (None, t)
          | row # _ \<Rightarrow> (case jget row ''content'' of JNull \<Rightarrow> (None, t)
              | v \<Rightarrow> (Some (CText (txt (py_str v))), t))))"

definition http_ops :: "'s poster \<Rightarrow> (string \<Rightarrow> content) \<Rightarrow> 's mesh_ops" where
  "http_ops post txt = \<lparr>mo_read = http_read post txt, mo_get_wm = http_get_wm post, mo_set_wm = http_set_wm post,
     mo_write = http_write post, mo_latest = http_latest post txt\<rparr>"

subsection \<open>The laws of the seam\<close>

text \<open>
  What the clients rely on: reading changes nothing, a watermark is what was set last, a written row with a
  JSON text is the latest of its kind, and rows of another kind change no answer. A store whose service is
  down has no such law: \<open>_post\<close> answers the empty object then.
\<close>

definition row_obj :: "mrow \<Rightarrow> jobj" where
  "row_obj row = map (\<lambda>kc. (fst kc, (case snd kc of CText t \<Rightarrow> JStr (content_text t) | CVal j \<Rightarrow> j))) row"

lemma row_json_obj: "row_json row = JObj (row_obj row)"
  by (simp add: row_json_def row_obj_def)

definition of_kind :: "string \<Rightarrow> string \<Rightarrow> jobj \<Rightarrow> bool" where
  "of_kind mt t d \<longleftrightarrow> t = ''mesh_memory'' \<and> jget d ''memory_type'' = JStr mt"

definition unquoted :: "string \<Rightarrow> bool" where
  "unquoted s \<longleftrightarrow> CHR 0x27 \<notin> set s"

locale mesh_store =
  fixes ops :: "'s mesh_ops"
  assumes read_pure: "snd (mo_read ops w n s) = s"
    and get_pure: "snd (mo_get_wm ops s) = s"
    and latest_pure: "snd (mo_latest ops mt ag s) = s"
    and get_set: "v \<noteq> [] \<Longrightarrow> fst (mo_get_wm ops (mo_set_wm ops v s)) = Some v"
    and get_write: "\<not> of_kind ''ingest_watermark'' t (row_obj r) \<Longrightarrow>
        fst (mo_get_wm ops (snd (mo_write ops t r s))) = fst (mo_get_wm ops s)"
    and read_set: "fst (mo_read ops w n (mo_set_wm ops v s)) = fst (mo_read ops w n s)"
    and read_write: "\<not> of_kind ''build_artifact'' t (row_obj r) \<Longrightarrow>
        fst (mo_read ops w n (snd (mo_write ops t r s))) = fst (mo_read ops w n s)"
    and latest_write: "unquoted ag \<Longrightarrow> unquoted mt \<Longrightarrow> plain_json j \<Longrightarrow>
        fst (mo_latest ops mt ag (snd (mo_write ops ''mesh_memory''
          [(''agent_id'', cell_str ag), (''memory_type'', cell_str mt), (''content'', cell_json j), (''importance'', i)] s)))
        = Some (cell_json j)"
    and latest_other: "unquoted ag \<Longrightarrow> unquoted mt \<Longrightarrow> \<not> of_kind mt t (row_obj r) \<Longrightarrow>
        fst (mo_latest ops mt ag (snd (mo_write ops t r s))) = fst (mo_latest ops mt ag s)"
begin

definition wm :: "'s \<Rightarrow> string option" where
  "wm s = fst (mo_get_wm ops s)"

end

lemma mem_ops_laws:
  "mo_read mem_ops = mem_read" "mo_get_wm mem_ops = mem_get_wm" "mo_set_wm mem_ops = mem_set_wm"
  "mo_write mem_ops = mem_write" "mo_latest mem_ops = mem_latest"
  by (simp_all add: mem_ops_def)

lemmas mem_defs = mem_ops_laws mem_read_def mem_get_wm_def mem_set_wm_def mem_write_def mem_latest_def

lemma row_kind:
  "dget r ''memory_type'' = Some (cell_str mt) \<Longrightarrow> jget (row_obj r) ''memory_type'' = JStr mt"
  by (induction r) (auto simp: row_obj_def cell_str_def content_text_def dget_def jget_def split: if_splits)

lemma latest_in_other: "\<not> of_kind mt t (row_obj r) \<Longrightarrow> latest_in mt ag ((t, r) # ws) = latest_in mt ag ws"
  using row_kind [of r mt] by (auto simp: of_kind_def)

interpretation mem: mesh_store mem_ops
  by unfold_locales (simp_all add: mem_defs Let_def latest_in_other del: latest_in.simps(2), simp)

subsection \<open>The service\<close>

text \<open>
  A write service that answers every request: a query changes nothing, a row just written is the answer to the
  query for the latest of its agent and type, and a row of another type changes no answer. \<open>rd\<close>
  reads the text of a column as \<open>json.loads\<close> would.
\<close>

definition write_request :: "string \<Rightarrow> jobj \<Rightarrow> json" where
  "write_request t d = JObj [(''table'', JStr t), (''rows'', JList [JObj d]), (''wait'', JBool True)]"

definition read_sql :: "nat \<Rightarrow> string" where
  "read_sql n = ''SELECT id, content FROM mesh_memory '' @ builder_where @ ''ORDER BY created_at ASC LIMIT '' @ nat_str n"

definition asks :: "'s poster \<Rightarrow> string \<Rightarrow> 's \<Rightarrow> jobj list" where
  "asks post sql s = resp_rows (fst (post ''/query'' (JObj [(''sql'', JStr sql)]) s))"

locale mesh_service =
  fixes post :: "'s poster" and rd :: "string \<Rightarrow> content"
  assumes query_pure: "snd (post ''/query'' p s) = s"
    and rd_json: "plain_json j \<Longrightarrow> rd (json_dumps j) = Doc j"
    and latest_answer: "unquoted ag \<Longrightarrow> unquoted mt \<Longrightarrow> jget d ''agent_id'' = JStr ag \<Longrightarrow> of_kind mt ''mesh_memory'' d \<Longrightarrow>
        asks post (latest_sql ag mt) (snd (post ''/write'' (write_request ''mesh_memory'' d) s)) = [[(''content'', jget d ''content'')]]"
    and latest_kept: "unquoted ag \<Longrightarrow> unquoted mt \<Longrightarrow> \<not> of_kind mt t d \<Longrightarrow>
        asks post (latest_sql ag mt) (snd (post ''/write'' (write_request t d) s)) = asks post (latest_sql ag mt) s"
    and builds_kept: "\<not> of_kind ''build_artifact'' t d \<Longrightarrow>
        asks post (read_sql n) (snd (post ''/write'' (write_request t d) s)) = asks post (read_sql n) s"
begin

lemma http_read_asks: "fst (http_read post rd w n s) =
    map (\<lambda>row. (py_str (jget_or row ''id'' (JStr [])), json_cell rd (jget row ''content''))) (asks post (read_sql n) s)"
  by (simp add: http_read_def asks_def read_sql_def Let_def split_beta)

lemma http_get_asks: "fst (http_get_wm post s) = (case asks post (latest_sql INGESTOR_AGENT_ID ''ingest_watermark'') s of
    [] \<Rightarrow> None | row # _ \<Rightarrow> (let v = py_str (jget_or row ''content'' (JStr [])) in if v = [] then None else Some v))"
  by (simp add: http_get_wm_def asks_def Let_def split_beta split: list.split)

lemma http_latest_asks: "fst (http_latest post rd mt ag s) = (case asks post (latest_sql ag mt) s of
    [] \<Rightarrow> None | row # _ \<Rightarrow> (case jget row ''content'' of JNull \<Rightarrow> None | v \<Rightarrow> Some (CText (rd (py_str v)))))"
  by (simp add: http_latest_def asks_def Let_def split_beta split: list.split json.split)

lemma http_write_sends: "snd (http_write post t r s) = snd (post ''/write'' (write_request t (row_obj r)) s)"
  by (simp add: http_write_def write_request_def row_json_obj split_beta)

lemma http_pure: "snd (http_read post rd w n s) = s" "snd (http_get_wm post s) = s" "snd (http_latest post rd mt ag s) = s"
  by (auto simp: http_read_def http_get_wm_def http_latest_def Let_def split_beta query_pure split: list.split json.split)

end

lemma row_obj_jget: "jget (row_obj ((k, c) # r)) k' =
    (if k' = k then (case c of CText t \<Rightarrow> JStr (content_text t) | CVal j \<Rightarrow> j) else jget (row_obj r) k')"
  by (simp add: row_obj_def)

sublocale mesh_service < http: mesh_store "http_ops post rd"
proof
  fix ag mt :: string and w n s v t r i j
  let ?o = "http_ops post rd"
  show "snd (mo_read ?o w n s) = s" "snd (mo_get_wm ?o s) = s" "snd (mo_latest ?o mt ag s) = s"
    by (simp_all add: http_ops_def http_pure)
  have u: "unquoted INGESTOR_AGENT_ID" "unquoted ''ingest_watermark''"
    by (simp_all add: unquoted_def INGESTOR_AGENT_ID_def)
  show "fst (mo_get_wm ?o (mo_set_wm ?o v s)) = Some v" if "v \<noteq> []"
    using that by (simp add: http_ops_def http_get_asks http_set_wm_def http_write_sends latest_answer u row_obj_jget of_kind_def
      cell_str_def content_text_def jget_or_def Let_def)
  show "fst (mo_get_wm ?o (snd (mo_write ?o t r s))) = fst (mo_get_wm ?o s)"
    if "\<not> of_kind ''ingest_watermark'' t (row_obj r)"
    using that by (simp add: http_ops_def http_get_asks http_write_sends latest_kept u)
  show "fst (mo_read ?o w n (mo_set_wm ?o v s)) = fst (mo_read ?o w n s)"
    by (simp add: http_ops_def http_read_asks http_set_wm_def http_write_sends builds_kept row_obj_jget of_kind_def
      cell_str_def content_text_def)
  show "fst (mo_read ?o w n (snd (mo_write ?o t r s))) = fst (mo_read ?o w n s)"
    if "\<not> of_kind ''build_artifact'' t (row_obj r)"
    using that by (simp add: http_ops_def http_read_asks http_write_sends builds_kept)
  show "fst (mo_latest ?o mt ag (snd (mo_write ?o ''mesh_memory''
          [(''agent_id'', cell_str ag), (''memory_type'', cell_str mt), (''content'', cell_json j), (''importance'', i)] s)))
        = Some (cell_json j)" if "unquoted ag" "unquoted mt" "plain_json j"
    using that by (simp add: http_ops_def http_latest_asks http_write_sends latest_answer row_obj_jget of_kind_def
      cell_str_def cell_json_def content_text_def rd_json)
  show "fst (mo_latest ?o mt ag (snd (mo_write ?o t r s))) = fst (mo_latest ?o mt ag s)"
    if "unquoted ag" "unquoted mt" "\<not> of_kind mt t (row_obj r)"
    using that by (simp add: http_ops_def http_latest_asks http_write_sends latest_kept)
qed

text \<open>A service whose state is its rows, the newest first, and that gives every build artifact it has.\<close>

fun newest_row :: "string \<Rightarrow> (string \<times> jobj) list \<Rightarrow> json option" where
  "newest_row sql [] = None"
| "newest_row sql ((t, d) # rows) =
     (case (jget d ''agent_id'', jget d ''memory_type'') of
        (JStr ag, JStr mt) \<Rightarrow>
          (if t = ''mesh_memory'' \<and> unquoted ag \<and> unquoted mt \<and> latest_sql ag mt = sql then Some (jget d ''content'')
           else newest_row sql rows)
      | _ \<Rightarrow> newest_row sql rows)"

definition build_rows :: "(string \<times> jobj) list \<Rightarrow> jobj list" where
  "build_rows rows = map (\<lambda>td. [(''id'', jget (snd td) ''id''), (''content'', jget (snd td) ''content'')])
     (rev (filter (\<lambda>td. of_kind ''build_artifact'' (fst td) (snd td)
        \<and> jget (snd td) ''agent_id'' = JStr ''t1.zo_sentinel_builder'') rows))"

definition table_answer :: "string \<Rightarrow> (string \<times> jobj) list \<Rightarrow> jobj list" where
  "table_answer sql rows = (if startswith sql ''SELECT id'' then build_rows rows
     else (case newest_row sql rows of None \<Rightarrow> [] | Some v \<Rightarrow> [[(''content'', v)]]))"

definition table_post :: "(string \<times> jobj) list poster" where
  "table_post path p rows =
     (case p of JObj q \<Rightarrow>
        (if path = ''/write''
         then (case (jget q ''table'', jget q ''rows'') of
            (JStr t, JList [JObj d]) \<Rightarrow> ([(''ok'', JBool True)], (t, d) # rows)
          | _ \<Rightarrow> ([], rows))
         else (case jget q ''sql'' of
            JStr sql \<Rightarrow> ([(''rows'', JList (map JObj (table_answer sql rows)))], rows)
          | _ \<Rightarrow> ([], rows)))
      | _ \<Rightarrow> ([], rows))"

definition table_read :: "string \<Rightarrow> content" where
  "table_read s = (case loads (\<lambda>t. JFloat 0 t) s of Some j \<Rightarrow> Doc j | None \<Rightarrow> Text s)"

lemma resp_rows_objs: "resp_rows [(''rows'', JList (map JObj ds))] = ds"
proof -
  have "List.map_filter (\<lambda>x. case x of JObj d \<Rightarrow> Some d | _ \<Rightarrow> None) (map JObj ds) = ds"
    by (induction ds) (simp_all add: map_filter_simps)
  then show ?thesis by (simp add: resp_rows_def jget_or_def dget_def)
qed

lemma table_asks: "asks table_post sql rows = table_answer sql rows"
  by (simp add: asks_def table_post_def resp_rows_objs)

lemma table_writes: "snd (table_post ''/write'' (write_request t d) rows) = (t, d) # rows"
  by (simp add: table_post_def write_request_def)

lemma quote_split: "CHR 0x27 \<notin> set a \<Longrightarrow> CHR 0x27 \<notin> set b \<Longrightarrow> a @ CHR 0x27 # x = b @ CHR 0x27 # y \<Longrightarrow> a = b \<and> x = y"
  by (induction a arbitrary: b) (auto simp: Cons_eq_append_conv append_eq_Cons_conv)

lemma latest_sql_inj:
  assumes "unquoted ag" "unquoted mt" "unquoted ag'" "unquoted mt'" and "latest_sql ag mt = latest_sql ag' mt'"
  shows "ag = ag' \<and> mt = mt'"
proof -
  have "ag @ CHR 0x27 # ('' AND memory_type = '' @ CHR 0x27 # (mt @ CHR 0x27 # '' ORDER BY created_at DESC LIMIT 1''))
      = ag' @ CHR 0x27 # ('' AND memory_type = '' @ CHR 0x27 # (mt' @ CHR 0x27 # '' ORDER BY created_at DESC LIMIT 1''))"
    using assms(5) by (simp add: latest_sql_def sql_quote_def)
  from quote_split [OF _ _ this] assms(1,3)
  have "ag = ag'" "mt @ CHR 0x27 # '' ORDER BY created_at DESC LIMIT 1'' = mt' @ CHR 0x27 # '' ORDER BY created_at DESC LIMIT 1''"
    by (simp_all add: unquoted_def)
  with quote_split [OF _ _ this(2)] assms(2,4) show ?thesis by (simp add: unquoted_def)
qed

lemma latest_no_read: "\<not> startswith (latest_sql ag mt) ''SELECT id''"
  by (simp add: latest_sql_def startswith_def)

lemma read_sql_read: "startswith (read_sql n) ''SELECT id''"
  by (simp add: read_sql_def startswith_def)

lemma newest_row_kept:
  assumes "unquoted ag" "unquoted mt" "\<not> of_kind mt t d"
  shows "newest_row (latest_sql ag mt) ((t, d) # rows) = newest_row (latest_sql ag mt) rows"
  using assms latest_sql_inj [of _ _ ag mt] by (auto simp: of_kind_def split: json.splits)

interpretation table: mesh_service table_post table_read
proof
  fix ag mt :: string and p rows j d t n
  show "snd (table_post ''/query'' p rows) = rows"
    by (simp add: table_post_def split: json.split)
  show "table_read (json_dumps j) = Doc j" if "plain_json j"
    using loads_dumps [OF that] by (simp add: table_read_def)
  show "asks table_post (latest_sql ag mt) (snd (table_post ''/write'' (write_request ''mesh_memory'' d) rows)) = [[(''content'', jget d ''content'')]]"
    if "unquoted ag" "unquoted mt" "jget d ''agent_id'' = JStr ag" "of_kind mt ''mesh_memory'' d"
    using that by (simp add: table_asks table_writes table_answer_def latest_no_read of_kind_def)
  show "asks table_post (latest_sql ag mt) (snd (table_post ''/write'' (write_request t d) rows)) = asks table_post (latest_sql ag mt) rows"
    if "unquoted ag" "unquoted mt" "\<not> of_kind mt t d"
    unfolding table_asks table_writes table_answer_def newest_row_kept [OF that] by (simp add: latest_no_read)
  show "asks table_post (read_sql n) (snd (table_post ''/write'' (write_request t d) rows)) = asks table_post (read_sql n) rows"
    if "\<not> of_kind ''build_artifact'' t d"
    using that by (simp add: table_asks table_writes table_answer_def read_sql_read build_rows_def)
qed

text \<open>A failing service has not these laws: nothing it was sent is ever answered.\<close>

lemma dead_service: "fst (http_latest (\<lambda>path p s. ([], s)) rd mt ag s) = None"
  by (simp add: http_latest_def resp_rows_def jget_or_def dget_def)

text \<open>The watermark never reaches the query of the HTTP store.\<close>

lemma http_read_ignores_watermark: "http_read post txt since limit = http_read post txt since' limit"
  by (simp add: http_read_def fun_eq_iff)

text \<open>A quoted watermark stays inside its quotes: every quote in it is doubled.\<close>

fun quotes_paired :: "string \<Rightarrow> bool" where
  "quotes_paired [] = True"
| "quotes_paired (c # s) = (if c = CHR 0x27 then (case s of d # t \<Rightarrow> d = CHR 0x27 \<and> quotes_paired t | [] \<Rightarrow> False)
     else quotes_paired s)"

lemma sql_escape_paired: "quotes_paired (sql_escape s)"
  by (induction s) (auto simp: sql_escape_def replace_char_def)

end
