(* ===== verification/Contracts.thy ===== *)
theory Contracts
  imports MeshStore
begin

text \<open>
  \<open>zo_sentinel/ingestor/contracts.py\<close>: what an artifact file must satisfy. Running a
  module and reading HTML are arguments: \<open>probe\<close> gives what importing a file's text leaves
  (its error, or what \<open>compute_score\<close> is and does), \<open>events\<close> the calls that the HTML
  parser makes on a text.
\<close>

definition PROTECTED_CORE_TABLES :: "string list" where
  "PROTECTED_CORE_TABLES =
     [''mcp_server_registry'',
      ''mcp_signal_scores'',
      ''mcp_threat_associations'',
      ''mcp_risk_register'',
      ''mcp_attestations'',
      ''mcp_signal_enrichments'',
      ''service_health'',
      ''mesh_memory'',
      ''agent_outputs'']"

subsection \<open>The forbidden patterns\<close>

definition ws1 :: re where
  "ws1 = rplus (RChr is_space)"

definition ident_start :: "char \<Rightarrow> bool" where
  "ident_start c = (is_alpha_ascii c \<or> c = CHR ''_'')"

definition ident_char :: "char \<Rightarrow> bool" where
  "ident_char c = (is_alpha_ascii c \<or> is_digit c \<or> c = CHR ''_'')"

definition ident_group :: re where
  "ident_group = RGroup 1 (RSeq (RChr ident_start) (RStar (RChr ident_char)))"

definition DROP_RE :: re where
  "DROP_RE = rseqs [rilit ''DROP'', ws1, rilit ''TABLE'', ws1,
     ropt (rseqs [rilit ''IF'', ws1, rilit ''EXISTS'', ws1]), ident_group]"

definition DELETE_RE :: re where
  "DELETE_RE = rseqs [rilit ''DELETE'', ws1, rilit ''FROM'', ws1, ident_group]"

definition TRUNCATE_RE :: re where
  "TRUNCATE_RE = rseqs [rilit ''TRUNCATE'', ws1, ropt (rseqs [rilit ''TABLE'', ws1]), ident_group]"

definition FORBIDDEN_STATIC_PATTERNS :: "re list" where
  "FORBIDDEN_STATIC_PATTERNS = [DROP_RE, DELETE_RE, TRUNCATE_RE]"

text \<open>The failure reason of the first match on a protected table.\<close>

definition protected_match :: "rmatch_obj \<Rightarrow> string option" where
  "protected_match m =
     (case mgroup m 1 of None \<Rightarrow> None
      | Some table \<Rightarrow>
        (if lower table \<in> set PROTECTED_CORE_TABLES
         then Some (''forbidden '' @ repr_str (take 40 (mo_text m)) @ '' on protected table '' @ repr_str table)
         else None))"

fun first_some :: "('a \<Rightarrow> 'b option) \<Rightarrow> 'a list \<Rightarrow> 'b option" where
  "first_some f [] = None"
| "first_some f (x # xs) = (case f x of Some y \<Rightarrow> Some y | None \<Rightarrow> first_some f xs)"

definition static_safety_scan :: "string \<Rightarrow> string option" where
  "static_safety_scan source =
     first_some (\<lambda>pat. first_some protected_match (re_finditer pat source)) FORBIDDEN_STATIC_PATTERNS"

subsection \<open>Classification\<close>

definition classify_file :: "string \<Rightarrow> artifact_type" where
  "classify_file fpath =
     (let name = lower (path_name (path_of fpath)) in
      if endswith name ''_enrichment.py'' then ENRICHMENT_PY
      else if startswith name ''admin_'' \<and> endswith name ''.html'' then ADMIN_HTML
      else if endswith name ''.html'' then HTML
      else if endswith name ''.py'' then PYTHON
      else if endswith name ''.md'' then MARKDOWN
      else UNKNOWN_TYPE)"

subsection \<open>The enrichment contract\<close>

text \<open>A value that Python code returns: a tuple, a JSON-like value, or one of another type.\<close>

datatype pyval = VTuple "pyval list" | VJson json | VOther string

fun py_type_name :: "pyval \<Rightarrow> string" where
  "py_type_name (VTuple vs) = ''tuple''"
| "py_type_name (VJson JNull) = ''NoneType''"
| "py_type_name (VJson (JBool b)) = ''bool''"
| "py_type_name (VJson (JInt i)) = ''int''"
| "py_type_name (VJson (JFloat r s)) = ''float''"
| "py_type_name (VJson (JStr s)) = ''str''"
| "py_type_name (VJson (JList xs)) = ''list''"
| "py_type_name (VJson (JObj d)) = ''dict''"
| "py_type_name (VOther t) = t"

text \<open>What \<open>mod.compute_score\<close> is: absent or not callable, raising, or returning.\<close>

datatype score_fn = NoScore | ScoreRaises string | ScoreReturns pyval

fun score_number :: "pyval \<Rightarrow> rat option" where
  "score_number (VJson (JBool b)) = Some (if b then 1 else 0)"
| "score_number (VJson (JInt i)) = Some (of_int i)"
| "score_number (VJson (JFloat r s)) = Some r"
| "score_number _ = None"

definition check_enrichment_contract :: "score_fn \<Rightarrow> bool \<times> string" where
  "check_enrichment_contract fn =
     (case fn of
        NoScore \<Rightarrow> (False, ''missing compute_score() function'')
      | ScoreRaises e \<Rightarrow> (False, ''compute_score({}) raised: '' @ e)
      | ScoreReturns (VTuple [score, meta]) \<Rightarrow>
          (case score_number score of
             None \<Rightarrow> (False, ''score is '' @ py_type_name score @ '', expected float'')
           | Some r \<Rightarrow>
             (if \<not> (0 \<le> r \<and> r \<le> 100)
              then (False, ''score '' @ (case score of VJson j \<Rightarrow> py_str j | _ \<Rightarrow> []) @ '' outside [0, 100]'')
              else (case meta of
                  VJson (JObj d) \<Rightarrow> (True, [])
                | _ \<Rightarrow> (False, ''second element is '' @ py_type_name meta @ '', expected dict''))))
      | ScoreReturns v \<Rightarrow> (False, ''compute_score returned '' @ py_type_name v @ '', expected 2-tuple''))"

subsection \<open>The HTML contract\<close>

datatype html_event = StartTag string | HtmlData string | OtherEvent

record html_checker =
  has_form :: bool
  has_input :: bool
  h_tags :: nat
  h_chars :: nat

definition html_checker0 :: html_checker where
  "html_checker0 = \<lparr>has_form = False, has_input = False, h_tags = 0, h_chars = 0\<rparr>"

fun html_step :: "html_event \<Rightarrow> html_checker \<Rightarrow> html_checker" where
  "html_step (StartTag t) p = p\<lparr>h_tags := h_tags p + 1, has_form := has_form p \<or> t = ''form'',
     has_input := has_input p \<or> t \<in> {''input'', ''select'', ''button'', ''textarea''}\<rparr>"
| "html_step (HtmlData s) p = p\<lparr>h_chars := h_chars p + length (strip s)\<rparr>"
| "html_step OtherEvent p = p"

text \<open>\<open>Inl\<close> is the text of an exception that the parser raises.\<close>

record py_host =
  probe :: "string \<Rightarrow> string + score_fn"
  events :: "string \<Rightarrow> string + html_event list"

definition check_html_contract :: "py_host \<Rightarrow> fs \<Rightarrow> path \<Rightarrow> bool \<Rightarrow> bool \<times> string" where
  "check_html_contract h f p admin_required =
     (case read_text f p of None \<Rightarrow> (False, ''read failed: '')
      | Some c \<Rightarrow>
        (case events h (content_text c) of Inl e \<Rightarrow> (False, ''html parse failed: '' @ e)
         | Inr evs \<Rightarrow>
           (let k = fold html_step evs html_checker0 in
            if h_tags k = 0 then (False, ''no HTML tags / empty document'')
            else if admin_required then
              (if \<not> (has_form k \<or> has_input k)
               then (False, ''admin page has neither <form> nor input controls'') else (True, []))
            else if h_chars k = 0 \<and> h_tags k < 2 then (False, ''empty / no renderable content'')
            else (True, []))))"

subsection \<open>Dispatch\<close>

type_synonym file_verdict = "bool \<times> string \<times> string \<times> bool"

definition validate_python :: "py_host \<Rightarrow> fs \<Rightarrow> path \<Rightarrow> bool \<Rightarrow> file_verdict" where
  "validate_python h f p enrichment =
     (case read_text f p of None \<Rightarrow> (False, ''read'', ''read failed: '', False)
      | Some c \<Rightarrow>
        (case static_safety_scan (content_text c) of
           Some reason \<Rightarrow> (False, ''static_safety_scan'', reason, True)
         | None \<Rightarrow>
           (case probe h (content_text c) of
              Inl e \<Rightarrow> (False, ''import'', e, False)
            | Inr fn \<Rightarrow>
              (if enrichment
               then (case check_enrichment_contract fn of (ok, detail) \<Rightarrow> (ok, ''enrichment_compute_score'', detail, False))
               else (True, ''python_import'', [], False)))))"

definition validate_file :: "py_host \<Rightarrow> fs \<Rightarrow> path \<Rightarrow> artifact_type \<Rightarrow> file_verdict" where
  "validate_file h f p t =
     (if \<not> fs_exists f p then (False, ''exists'', ''artifact file not found: '' @ path_str p, False)
      else (case t of
        PYTHON \<Rightarrow> validate_python h f p False
      | ENRICHMENT_PY \<Rightarrow> validate_python h f p True
      | ADMIN_HTML \<Rightarrow> (case check_html_contract h f p True of (ok, detail) \<Rightarrow> (ok, ''admin_html_interactive'', detail, False))
      | HTML \<Rightarrow> (case check_html_contract h f p False of (ok, detail) \<Rightarrow> (ok, ''html_parse_nonempty'', detail, False))
      | MARKDOWN \<Rightarrow>
          (if is_file f p \<and> read_text f p = None then (False, ''markdown_nonempty'', ''read failed: '', False)
           else (let ok = (case read_text f p of None \<Rightarrow> False
                    | Some c \<Rightarrow> content_size c > 0 \<and> strip (content_text c) \<noteq> [])
                 in (ok, ''markdown_nonempty'', if ok then [] else ''markdown file is empty'', False)))
      | UNKNOWN_TYPE \<Rightarrow> (True, ''unknown_passthrough'', ''no contract for '' @ path_name p, False)))"

subsection \<open>What the safety scan sees\<close>

lemma first_some_none: "first_some f xs = None \<longleftrightarrow> (\<forall>x \<in> set xs. f x = None)"
  by (induction xs) (auto split: option.splits)

lemma first_some_some: "first_some f xs = Some y \<Longrightarrow> \<exists>x \<in> set xs. f x = Some y"
  by (induction xs) (auto split: option.splits)

lemma first_some_iff: "first_some f xs \<noteq> None \<longleftrightarrow> (\<exists>x \<in> set xs. f x \<noteq> None)"
  by (simp add: first_some_none)

lemma validate_python_safe:
  "static_safety_scan (content_text c) \<noteq> None \<Longrightarrow> read_text f p = Some c \<Longrightarrow>
     fst (validate_python h f p b) = False \<and> snd (snd (snd (validate_python h f p b)))"
  by (auto simp: validate_python_def)

text \<open>A statement that qualifies the table, or whose key words come twice, is not seen.\<close>

lemma safety_scan_sees: "static_safety_scan ''DROP TABLE mesh_memory'' \<noteq> None"
  by code_simp

lemma safety_scan_evaded:
  shows "static_safety_scan ''DROP TABLE main.mesh_memory'' = None"
    and "static_safety_scan ''DELETE FROM DELETE FROM mesh_memory'' = None"
  by code_simp+

subsection \<open>Properties\<close>

text \<open>A module whose text holds a forbidden statement on a protected table is rejected as a
  security stop, and its verdict is the same whatever importing it would do: it is never run.\<close>

theorem forbidden_module_never_runs:
  assumes "t \<in> {PYTHON, ENRICHMENT_PY}" and "read_text f p = Some c"
    and "static_safety_scan (content_text c) \<noteq> None"
  shows "fst (validate_file h f p t) = False \<and> snd (snd (snd (validate_file h f p t)))
    \<and> validate_file h' f p t = validate_file h f p t"
proof -
  obtain reason where "static_safety_scan (content_text c) = Some reason" using assms(3) by blast
  moreover have "fs_exists f p"
    using assms(2) by (auto simp: read_text_def fs_exists_def is_file_def split: if_splits)
  ultimately show ?thesis
    using assms(1,2) by (auto simp: validate_file_def validate_python_def)
qed

theorem forbidden_module_never_runs_witness:
  "fst (validate_file \<lparr>probe = (\<lambda>s. Inl ''boom''), events = (\<lambda>s. Inr [])\<rparr>
      \<lparr>files = [(path_of ''/h/m.py'', \<lparr>body = Text ''DELETE FROM mesh_memory'', mtime = 0\<rparr>)], dirs = [],
       noread = [], nowrite = []\<rparr> (path_of ''/h/m.py'') PYTHON) = False"
  by (rule conjunct1, rule forbidden_module_never_runs [where c = "Text ''DELETE FROM mesh_memory''" and
      h' = "\<lparr>probe = (\<lambda>s. Inl ''boom''), events = (\<lambda>s. Inr [])\<rparr>"]) code_simp+

end
