(* ===== verification/Ingestor.thy ===== *)
theory Ingestor
  imports Contracts
begin

text \<open>
  \<open>zo_sentinel/ingestor/ingestor.py\<close>: the consumer of build rows. Its world is the file
  system, the breaker's directory (a look-up there may drop keys) and the store; the
  configuration holds the store's operations, the host that runs modules, the environment, the
  clock and the random suffix of a directive.
\<close>

record 's iworld =
  w_fs :: fs
  w_brk :: brk_world
  w_store :: 's

record 's icfg =
  i_ops :: "'s mesh_ops"
  i_host :: py_host
  i_env :: environ
  i_home :: path
  i_enabled :: "bool option"
  i_limit :: nat
  i_now :: string
  i_brk_now :: isotime
  i_uuid :: "string \<Rightarrow> string"

definition INGESTOR_SENTINEL :: string where
  "INGESTOR_SENTINEL = ''.ingestor_enabled''"

subsection \<open>The latch\<close>

definition env_on :: "environ \<Rightarrow> string \<Rightarrow> bool" where
  "env_on env name = (strip (case env name of None \<Rightarrow> [] | Some s \<Rightarrow> s) \<in> {''1'', ''true'', ''yes''})"

definition ing_enabled :: "('s, 'x) icfg_scheme \<Rightarrow> fs \<Rightarrow> bool" where
  "ing_enabled c f =
     (case i_enabled c of Some b \<Rightarrow> b
      | None \<Rightarrow> if env_on (i_env c) ''ARTIFACT_INGESTOR_ENABLED'' then True
                else fs_exists f (path_child (i_home c) INGESTOR_SENTINEL))"

definition activation_reason :: "('s, 'x) icfg_scheme \<Rightarrow> fs \<Rightarrow> string" where
  "activation_reason c f =
     (case i_enabled c of
        Some True \<Rightarrow> ''constructor enabled=True''
      | Some False \<Rightarrow> ''constructor enabled=False (forced dormant)''
      | None \<Rightarrow> if env_on (i_env c) ''ARTIFACT_INGESTOR_ENABLED'' then ''env ARTIFACT_INGESTOR_ENABLED''
                else if fs_exists f (path_child (i_home c) INGESTOR_SENTINEL) then ''sentinel '' @ INGESTOR_SENTINEL
                else ''dormant (no activation latch open)'')"

subsection \<open>Evaluating one artifact\<close>

definition artifact_path :: "('s, 'x) icfg_scheme \<Rightarrow> artifact \<Rightarrow> path" where
  "artifact_path c a = (let p = path_of (a_file a) in if path_abs p then p else path_join (i_home c) p)"

definition fix_directive :: "('s, 'x) icfg_scheme \<Rightarrow> verdict \<Rightarrow> jobj" where
  "fix_directive c v =
     (let art = v_artifact v; stem = path_stem (path_of (a_file art));
          kind = (if v_safety v then ''security stop'' else ''contract failure'')
      in [(''directive_id'', JStr (''fix_'' @ stem @ ''_'' @ take 8 (i_uuid c (a_file art)))),
          (''source'', JStr ''artifact_ingestor''),
          (''origin'', JStr ''artifact_ingestion_quarantine''),
          (''complexity'', JStr ''medium''),
          (''file'', JStr (a_file art)),
          (''contract'', JStr (v_contract v)),
          (''description'', JStr (''Regenerate '' @ a_file art @ '': '' @ kind @ '' in contract '' @
             [CHR 0x27] @ v_contract v @ [CHR 0x27] @ '' -- '' @ v_detail v @ ''. '' @
             ''Produce a version that satisfies the '' @ type_value (v_type v) @ '' '' @
             ''contract and contains no forbidden mutations of protected core tables.''))])"

text \<open>A breaker that cannot be asked quarantines nothing.\<close>

definition breaker_says :: "('s, 'x) icfg_scheme \<Rightarrow> string \<Rightarrow> brk_world \<Rightarrow> bool \<times> brk_world" where
  "breaker_says c fpath b =
     (case is_quarantined_w (i_brk_now c) (path_name (path_of fpath)) b of
        (Inl e, b') \<Rightarrow> (False, b') | (Inr q, b') \<Rightarrow> (q, b'))"

definition mk_verdict :: "artifact \<Rightarrow> artifact_type \<Rightarrow> bool \<Rightarrow> string \<Rightarrow> string \<Rightarrow> bool \<Rightarrow> verdict" where
  "mk_verdict a t ok contract detail safety =
     \<lparr>v_artifact = a, v_type = t, v_ok = ok, v_contract = contract, v_detail = detail,
      v_action = (if ok then PROMOTE else QUARANTINE), v_taken = False, v_safety = safety, v_fix = None\<rparr>"

definition with_fix :: "('s, 'x) icfg_scheme \<Rightarrow> verdict \<Rightarrow> verdict" where
  "with_fix c v = (if v_ok v then v else v\<lparr>v_fix := Some (fix_directive c v)\<rparr>)"

definition evaluate :: "('s, 'x) icfg_scheme \<Rightarrow> artifact \<Rightarrow> 's iworld \<Rightarrow> verdict \<times> 's iworld" where
  "evaluate c a w =
     (let t = classify_file (a_file a); p = artifact_path c a;
          (quarantined_file, b) = breaker_says c (a_file a) (w_brk w);
          w1 = w\<lparr>w_brk := b\<rparr>
      in (with_fix c
            (if quarantined_file
             then mk_verdict a t False ''quarantined'' ''gate_8 circuit breaker has quarantined this file'' False
             else if \<not> fs_exists (w_fs w) p
             then mk_verdict a t False ''built_file_missing'' (''declared output file not on disk: '' @ path_str p) False
             else (case validate_file (i_host c) (w_fs w) p t of
                     (ok, contract, detail, safety) \<Rightarrow> mk_verdict a t ok contract detail safety)),
          w1))"

subsection \<open>Acting on a verdict\<close>

definition put_row :: "('s, 'x) icfg_scheme \<Rightarrow> string \<Rightarrow> mrow \<Rightarrow> 's iworld \<Rightarrow> 's iworld" where
  "put_row c table row w = w\<lparr>w_store := snd (mo_write (i_ops c) table row (w_store w))\<rparr>"

definition verdict_row :: "string \<Rightarrow> json \<Rightarrow> verdict \<Rightarrow> mrow" where
  "verdict_row mt importance v =
     [(''agent_id'', cell_str INGESTOR_AGENT_ID), (''memory_type'', cell_str mt),
      (''content'', cell_json (JObj (to_record v))), (''importance'', CVal importance)]"

definition record_verdict :: "('s, 'x) icfg_scheme \<Rightarrow> verdict \<Rightarrow> 's iworld \<Rightarrow> 's iworld" where
  "record_verdict c v = put_row c ''mesh_memory'' (verdict_row ''artifact_verdict'' (JFloat (4 / 10) ''0.4'') v)"

definition promote_verdict :: "('s, 'x) icfg_scheme \<Rightarrow> verdict \<Rightarrow> 's iworld \<Rightarrow> 's iworld" where
  "promote_verdict c v = put_row c ''mesh_memory'' (verdict_row ''artifact_promoted'' (JFloat (5 / 10) ''0.5'') v)"

definition quarantine_verdict :: "('s, 'x) icfg_scheme \<Rightarrow> verdict \<Rightarrow> 's iworld \<Rightarrow> 's iworld" where
  "quarantine_verdict c v = put_row c ''mesh_memory'' (verdict_row ''artifact_quarantined'' (JFloat (6 / 10) ''0.6'') v)"

definition heartbeat :: "('s, 'x) icfg_scheme \<Rightarrow> nat \<Rightarrow> 's iworld \<Rightarrow> 's iworld" where
  "heartbeat c processed = put_row c ''service_health''
     [(''service'', cell_str ''artifact_ingestor''), (''last_heartbeat'', cell_str (i_now c)),
      (''status'', cell_str ''ok''), (''detail'', cell_str (''processed='' @ nat_str processed))]"

definition act_on :: "('s, 'x) icfg_scheme \<Rightarrow> verdict \<Rightarrow> 's iworld \<Rightarrow> 's iworld" where
  "act_on c v w = (let w1 = record_verdict c v w in
     if v_action v = PROMOTE then promote_verdict c v w1 else quarantine_verdict c v w1)"

subsection \<open>The cycle\<close>

record ing_acc =
  ia_seen :: "string list"
  ia_max :: string
  ia_verdicts :: "verdict list"

text \<open>\<open>None\<close> when a row raises; what was written before it stays written.\<close>

fun ingest_rows :: "('s, 'x) icfg_scheme \<Rightarrow> bool \<Rightarrow> (string \<times> cell) list \<Rightarrow> ing_acc \<Rightarrow> 's iworld \<Rightarrow>
    ing_acc option \<times> 's iworld" where
  "ingest_rows c enabled [] acc w = (Some acc, w)"
| "ingest_rows c enabled ((row_id, content) # rows) acc w =
     (case from_mesh_content content (Some row_id) of
        None \<Rightarrow> (None, w)
      | Some None \<Rightarrow> ingest_rows c enabled rows acc w
      | Some (Some a) \<Rightarrow>
        (if dedup_key a \<in> set (ia_seen acc) then ingest_rows c enabled rows acc w
         else (let (v, w1) = evaluate c a w;
                   mx = (if a_built_at a > ia_max acc then a_built_at a else ia_max acc);
                   w2 = (if enabled then act_on c v w1 else w1);
                   v1 = (if enabled then v\<lparr>v_taken := True\<rparr> else v)
               in ingest_rows c enabled rows
                    \<lparr>ia_seen = dedup_key a # ia_seen acc, ia_max = mx, ia_verdicts = ia_verdicts acc @ [v1]\<rparr> w2)))"

text \<open>After the rows of an active cycle that judged anything.\<close>

definition finish_cycle :: "('s, 'x) icfg_scheme \<Rightarrow> bool \<Rightarrow> ing_acc \<Rightarrow> 's iworld \<Rightarrow> 's iworld" where
  "finish_cycle c enabled acc w =
     (if enabled \<and> ia_verdicts acc \<noteq> []
      then heartbeat c (length (ia_verdicts acc))
             (if ia_max acc \<noteq> [] then w\<lparr>w_store := mo_set_wm (i_ops c) (ia_max acc) (w_store w)\<rparr> else w)
      else w)"

definition ing_acc0 :: "string option \<Rightarrow> ing_acc" where
  "ing_acc0 mark = \<lparr>ia_seen = [], ia_max = (case mark of None \<Rightarrow> [] | Some m \<Rightarrow> m), ia_verdicts = []\<rparr>"

definition ing_run_once :: "('s, 'x) icfg_scheme \<Rightarrow> 's iworld \<Rightarrow> verdict list option \<times> 's iworld" where
  "ing_run_once c w0 =
     (let enabled = ing_enabled c (w_fs w0);
          (mark, s1) = mo_get_wm (i_ops c) (w_store w0);
          (rows, s2) = mo_read (i_ops c) mark (i_limit c) s1
      in (case ingest_rows c enabled rows (ing_acc0 mark) (w0\<lparr>w_store := s2\<rparr>) of
            (None, w) \<Rightarrow> (None, w)
          | (Some acc, w) \<Rightarrow> (Some (ia_verdicts acc), finish_cycle c enabled acc w)))"

lemma ing_run_once_parts:
  assumes "ing_run_once c w = (Some vs, w')"
  shows "\<exists>mark s1 rows s2 acc u. mo_get_wm (i_ops c) (w_store w) = (mark, s1)
    \<and> mo_read (i_ops c) mark (i_limit c) s1 = (rows, s2)
    \<and> ingest_rows c (ing_enabled c (w_fs w)) rows (ing_acc0 mark) (w\<lparr>w_store := s2\<rparr>) = (Some acc, u)
    \<and> vs = ia_verdicts acc \<and> w' = finish_cycle c (ing_enabled c (w_fs w)) acc u"
proof -
  obtain mark s1 where g: "mo_get_wm (i_ops c) (w_store w) = (mark, s1)" by fastforce
  obtain rows s2 where r: "mo_read (i_ops c) mark (i_limit c) s1 = (rows, s2)" by fastforce
  obtain oa u where i: "ingest_rows c (ing_enabled c (w_fs w)) rows (ing_acc0 mark) (w\<lparr>w_store := s2\<rparr>) = (oa, u)"
    by fastforce
  from assms obtain acc where "oa = Some acc" "vs = ia_verdicts acc" "w' = finish_cycle c (ing_enabled c (w_fs w)) acc u"
    by (cases oa) (simp_all add: ing_run_once_def g r i)
  with g r i show ?thesis by blast
qed

subsection \<open>Dormancy\<close>

lemma evaluate_store [simp]: "w_store (snd (evaluate c a w)) = w_store w" "w_fs (snd (evaluate c a w)) = w_fs w"
  by (simp_all add: evaluate_def Let_def split_beta)

lemma ingest_rows_dormant: "w_store (snd (ingest_rows c False rows acc w)) = w_store w"
proof (induction rows arbitrary: acc w)
  case (Cons rc rows)
  obtain r x where rc: "rc = (r, x)" by (cases rc)
  show ?case
    by (simp add: rc Let_def split_beta Cons.IH split: option.splits)
qed simp

context mesh_store
begin

lemma run_once_dormant:
  assumes "i_ops c = ops" and "\<not> ing_enabled c (w_fs w)"
  shows "w_store (snd (ing_run_once c w)) = w_store w"
  using assms ingest_rows_dormant [of c]
  by (simp add: ing_run_once_def Let_def split_beta get_pure read_pure finish_cycle_def split: option.splits prod.splits)

end

subsection \<open>What the breaker quarantined\<close>

text \<open>The state file says that the breaker holds the file in quarantine.\<close>

definition held_by_breaker :: "string \<Rightarrow> brk_world \<Rightarrow> bool" where
  "held_by_breaker n b \<longleftrightarrow> \<not> lock_busy b \<and> \<not> is_nonidentifying n
     \<and> (case sfile b of StoredDoc j \<Rightarrow> dhas (quarantined (fill_defaults j)) n | _ \<Rightarrow> False)"

lemma held_asked:
  "held_by_breaker n b \<Longrightarrow> \<exists>b'. is_quarantined_w t n b = (Inr True, b') \<and> held_by_breaker n b'"
  by (cases "sfile b")
    (auto simp: held_by_breaker_def is_quarantined_w_def drop_keys_w_def seq_op_def snapshot_def with_locked_def
      Let_def drop_nonidentifying_keys_def)

lemma held_other:
  "held_by_breaker n b \<Longrightarrow> held_by_breaker n (snd (is_quarantined_w t m b))"
  by (cases "sfile b")
    (auto simp: held_by_breaker_def is_quarantined_w_def drop_keys_w_def seq_op_def snapshot_def with_locked_def
      Let_def drop_nonidentifying_keys_def)

lemma evaluate_held:
  assumes "held_by_breaker (path_name (path_of (a_file a))) (w_brk w)"
  shows "v_action (fst (evaluate c a w)) = QUARANTINE \<and> \<not> v_ok (fst (evaluate c a w))"
proof -
  obtain b' where "is_quarantined_w (i_brk_now c) (path_name (path_of (a_file a))) (w_brk w) = (Inr True, b')"
    using held_asked [OF assms] by blast
  then show ?thesis
    by (simp add: evaluate_def Let_def breaker_says_def with_fix_def mk_verdict_def)
qed

lemma evaluate_keeps_held:
  "held_by_breaker n (w_brk w) \<Longrightarrow> held_by_breaker n (w_brk (snd (evaluate c a w)))"
  using held_other [of n "w_brk w" "i_brk_now c" "path_name (path_of (a_file a))"]
  by (auto simp: evaluate_def Let_def split_beta breaker_says_def split: sum.splits prod.splits)

lemma act_on_brk [simp]: "w_brk (act_on c v w) = w_brk w"
  by (simp add: act_on_def Let_def record_verdict_def promote_verdict_def quarantine_verdict_def put_row_def)

lemma evaluate_artifact [simp]: "v_artifact (fst (evaluate c a w)) = a"
  by (auto simp: evaluate_def Let_def split_beta with_fix_def mk_verdict_def split: prod.splits)

definition held_verdict :: "string \<Rightarrow> verdict \<Rightarrow> bool" where
  "held_verdict n v = (path_name (path_of (a_file (v_artifact v))) = n \<longrightarrow> v_action v = QUARANTINE)"

lemma ingest_rows_held:
  assumes "held_by_breaker n (w_brk w)" and "list_all (held_verdict n) (ia_verdicts acc)"
    and "ingest_rows c enabled rows acc w = (Some acc', w')"
  shows "list_all (held_verdict n) (ia_verdicts acc')"
  using assms
proof (induction rows arbitrary: acc w)
  case (Cons rc rows)
  obtain r x where rc: "rc = (r, x)" by (cases rc)
  show ?case
  proof (cases "\<exists>a. from_mesh_content x (Some r) = Some (Some a) \<and> dedup_key a \<notin> set (ia_seen acc)")
    case False
    with Cons show ?thesis by (auto simp: rc split: option.splits if_splits)
  next
    case True
    then obtain a where a: "from_mesh_content x (Some r) = Some (Some a)" "dedup_key a \<notin> set (ia_seen acc)" by blast
    obtain v w1 where v: "evaluate c a w = (v, w1)" by (cases "evaluate c a w")
    have "held_verdict n v"
      using evaluate_held [of a w c] Cons.prems(1) v evaluate_artifact [of c a w] by (auto simp: held_verdict_def)
    then have hv: "held_verdict n (if enabled then v\<lparr>v_taken := True\<rparr> else v)" by (simp add: held_verdict_def)
    have hb: "held_by_breaker n (w_brk (if enabled then act_on c v w1 else w1))"
      using evaluate_keeps_held [OF Cons.prems(1), of c a] v by simp
    have step: "ingest_rows c enabled rows
        \<lparr>ia_seen = dedup_key a # ia_seen acc,
         ia_max = (if a_built_at a > ia_max acc then a_built_at a else ia_max acc),
         ia_verdicts = ia_verdicts acc @ [if enabled then v\<lparr>v_taken := True\<rparr> else v]\<rparr>
        (if enabled then act_on c v w1 else w1) = (Some acc', w')"
      using Cons.prems(3) a v by (simp add: rc Let_def)
    show ?thesis
      using Cons.prems(2) hv by (intro Cons.IH [OF hb _ step]) simp
  qed
qed simp

subsection \<open>The watermark\<close>

lemma ingest_rows_max:
  "ingest_rows c enabled rows acc w = (Some acc', w') \<Longrightarrow>
     ia_max acc \<le> ia_max acc'
     \<and> (\<forall>v \<in> set (ia_verdicts acc'). v \<in> set (ia_verdicts acc) \<or> a_built_at (v_artifact v) \<le> ia_max acc')
     \<and> (ia_verdicts acc' \<noteq> [] \<or> ia_verdicts acc = [])"
proof (induction rows arbitrary: acc w)
  case (Cons rc rows)
  obtain r x where rc: "rc = (r, x)" by (cases rc)
  show ?case
  proof (cases "\<exists>a. from_mesh_content x (Some r) = Some (Some a) \<and> dedup_key a \<notin> set (ia_seen acc)")
    case False
    with Cons show ?thesis by (auto simp: rc split: option.splits if_splits)
  next
    case True
    then obtain a where a: "from_mesh_content x (Some r) = Some (Some a)" "dedup_key a \<notin> set (ia_seen acc)" by blast
    obtain v w1 where v: "evaluate c a w = (v, w1)" by (cases "evaluate c a w")
    let ?v = "if enabled then v\<lparr>v_taken := True\<rparr> else v"
    let ?m = "if a_built_at a > ia_max acc then a_built_at a else ia_max acc"
    have step: "ingest_rows c enabled rows
        \<lparr>ia_seen = dedup_key a # ia_seen acc, ia_max = ?m, ia_verdicts = ia_verdicts acc @ [?v]\<rparr>
        (if enabled then act_on c v w1 else w1) = (Some acc', w')"
      using Cons.prems a v by (simp add: rc Let_def)
    have "v_artifact v = a" using evaluate_artifact [of c a w] v by simp
    then have va: "a_built_at (v_artifact ?v) \<le> ?m" and m: "ia_max acc \<le> ?m" by auto
    from Cons.IH [OF step] have IH: "?m \<le> ia_max acc'"
      "\<forall>u \<in> set (ia_verdicts acc'). u \<in> set (ia_verdicts acc @ [?v]) \<or> a_built_at (v_artifact u) \<le> ia_max acc'"
      "ia_verdicts acc' \<noteq> [] \<or> ia_verdicts acc @ [?v] = []"
      unfolding ing_acc.select_convs by blast+
    have "u \<in> set (ia_verdicts acc) \<or> a_built_at (v_artifact u) \<le> ia_max acc'"
      if "u \<in> set (ia_verdicts acc')" for u
      using IH(2) that va order_trans [OF va IH(1)] by auto
    then show ?thesis using order_trans [OF m IH(1)] IH(3) by auto
  qed
qed auto

lemma ingest_rows_from:
  "ingest_rows c enabled rows acc w = (Some acc', w') \<Longrightarrow> v \<in> set (ia_verdicts acc') \<Longrightarrow>
     v \<in> set (ia_verdicts acc) \<or> (\<exists>r x. (r, x) \<in> set rows \<and> from_mesh_content x (Some r) = Some (Some (v_artifact v)))"
proof (induction rows arbitrary: acc w)
  case (Cons rc rows)
  obtain r x where rc: "rc = (r, x)" by (cases rc)
  show ?case
  proof (cases "\<exists>a. from_mesh_content x (Some r) = Some (Some a) \<and> dedup_key a \<notin> set (ia_seen acc)")
    case False
    with Cons show ?thesis by (auto simp: rc split: option.splits if_splits)
  next
    case True
    then obtain a where a: "from_mesh_content x (Some r) = Some (Some a)" "dedup_key a \<notin> set (ia_seen acc)" by blast
    obtain u w1 where u: "evaluate c a w = (u, w1)" by (cases "evaluate c a w")
    have ua: "v_artifact u = a" using evaluate_artifact [of c a w] u by simp
    have step: "ingest_rows c enabled rows
        \<lparr>ia_seen = dedup_key a # ia_seen acc,
         ia_max = (if a_built_at a > ia_max acc then a_built_at a else ia_max acc),
         ia_verdicts = ia_verdicts acc @ [if enabled then u\<lparr>v_taken := True\<rparr> else u]\<rparr>
        (if enabled then act_on c u w1 else w1) = (Some acc', w')"
      using Cons.prems(1) a u by (simp add: rc Let_def)
    have "v_artifact (if enabled then u\<lparr>v_taken := True\<rparr> else u) = a" using ua by simp
    then show ?thesis
      using Cons.IH [OF step Cons.prems(2)] a(1) by (auto simp: rc simp del: ing_acc.simps(1,2))
  qed
qed simp

lemma mem_ts_artifact:
  "from_mesh_content x r = Some (Some a) \<Longrightarrow> mem_ts x \<noteq> [] \<Longrightarrow> a_built_at a = mem_ts x"
  by (auto simp: from_mesh_content_def artifact_of_obj_def mem_ts_def split: cell.splits option.splits json.splits if_splits)

text \<open>What a cycle over the store in memory leaves as watermark.\<close>

lemma ing_run_once_mem:
  assumes "ing_run_once c w = (Some vs, w')" and "i_ops c = mem_ops"
  shows "\<exists>acc u. ingest_rows c (ing_enabled c (w_fs w))
        (fst (mem_read (ms_watermark (w_store w)) (i_limit c) (w_store w))) (ing_acc0 (ms_watermark (w_store w))) w = (Some acc, u)
    \<and> vs = ia_verdicts acc
    \<and> (ing_enabled c (w_fs w) \<longrightarrow> vs \<noteq> [] \<longrightarrow> ia_max acc \<noteq> [] \<longrightarrow> ms_watermark (w_store w') = Some (ia_max acc))"
proof -
  obtain mark s1 rows s2 acc u where p: "mo_get_wm mem_ops (w_store w) = (mark, s1)"
      "mo_read mem_ops mark (i_limit c) s1 = (rows, s2)"
      "ingest_rows c (ing_enabled c (w_fs w)) rows (ing_acc0 mark) (w\<lparr>w_store := s2\<rparr>) = (Some acc, u)"
      "vs = ia_verdicts acc" "w' = finish_cycle c (ing_enabled c (w_fs w)) acc u"
    using ing_run_once_parts [OF assms(1)] assms(2) by auto
  from p(1,2) have "mark = ms_watermark (w_store w)" "s2 = w_store w"
      "rows = fst (mem_read (ms_watermark (w_store w)) (i_limit c) (w_store w))"
    by (auto simp: mem_defs Let_def)
  with p(3) have "ingest_rows c (ing_enabled c (w_fs w))
        (fst (mem_read (ms_watermark (w_store w)) (i_limit c) (w_store w))) (ing_acc0 (ms_watermark (w_store w))) w = (Some acc, u)"
    by simp
  moreover have "ing_enabled c (w_fs w) \<Longrightarrow> vs \<noteq> [] \<Longrightarrow> ia_max acc \<noteq> [] \<Longrightarrow> ms_watermark (w_store w') = Some (ia_max acc)"
    by (simp add: p(4,5) finish_cycle_def heartbeat_def put_row_def assms(2) mem_defs)
  ultimately show ?thesis using p(4) by blast
qed

lemma watermark_separates:
  assumes "ing_run_once c w = (Some vs, w1)" and "i_ops c = mem_ops" and "ing_enabled c (w_fs w)"
    and "v0 \<in> set vs" and "a_built_at (v_artifact v0) \<noteq> []"
    and "ing_run_once c2 w2 = (Some vs2, w3)" and "i_ops c2 = mem_ops" and "w_store w2 = w_store w1"
    and "v \<in> set vs" and "v2 \<in> set vs2"
  shows "a_built_at (v_artifact v) < a_built_at (v_artifact v2)"
proof -
  obtain rows acc u where r1: "ingest_rows c True rows (ing_acc0 (ms_watermark (w_store w))) w = (Some acc, u)"
      "vs = ia_verdicts acc"
      "vs \<noteq> [] \<longrightarrow> ia_max acc \<noteq> [] \<longrightarrow> ms_watermark (w_store w1) = Some (ia_max acc)"
    using ing_run_once_mem [OF assms(1,2)] assms(3) by auto
  have le: "a_built_at (v_artifact u) \<le> ia_max acc" if "u \<in> set vs" for u
    using ingest_rows_max [OF r1(1)] that r1(2) by (auto simp: ing_acc0_def)
  have m: "ia_max acc \<noteq> []" using le [OF assms(4)] assms(5) by auto
  then have mark: "ms_watermark (w_store w2) = Some (ia_max acc)"
    using r1(3) assms(4,8) by auto
  define rows2 where "rows2 = fst (mem_read (Some (ia_max acc)) (i_limit c2) (w_store w2))"
  obtain acc2 u2 where r2: "ingest_rows c2 (ing_enabled c2 (w_fs w2)) rows2 (ing_acc0 (Some (ia_max acc))) w2 = (Some acc2, u2)"
      "vs2 = ia_verdicts acc2"
    using ing_run_once_mem [OF assms(6,7)] unfolding mark rows2_def by blast
  obtain r x where rx: "(r, x) \<in> set rows2" "from_mesh_content x (Some r) = Some (Some (v_artifact v2))"
    using ingest_rows_from [OF r2(1), of v2] assms(10) r2(2) by (auto simp: ing_acc0_def)
  have "mem_ts x > ia_max acc"
    using rx(1) m unfolding rows2_def by (auto simp: mem_read_def given_def Let_def dest: in_set_takeD)
  moreover from this have "mem_ts x \<noteq> []" by auto
  ultimately have "a_built_at (v_artifact v2) > ia_max acc"
    using mem_ts_artifact [OF rx(2)] by simp
  with le [OF assms(9)] show ?thesis by (rule le_less_trans)
qed

subsection \<open>Properties\<close>

text \<open>While dormant the ingestor writes nothing: neither a row nor the watermark, whatever it
  reads and also when a row raises.\<close>

theorem dormant_ingestor_writes_nothing:
  assumes "i_ops c = mem_ops" and "\<not> ing_enabled c (w_fs w)"
  shows "w_store (snd (ing_run_once c w)) = w_store w"
  by (rule mem.run_once_dormant [OF assms])

definition ing_test :: "bool \<Rightarrow> mem_store icfg" where
  "ing_test on = \<lparr>i_ops = mem_ops, i_host = \<lparr>probe = (\<lambda>s. Inr NoScore), events = (\<lambda>s. Inr [])\<rparr>,
     i_env = (\<lambda>_. None), i_home = path_of ''/h'', i_enabled = Some on, i_limit = 40, i_now = ''now'',
     i_brk_now = Iso 0, i_uuid = (\<lambda>s. ''00000000'')\<rparr>"

definition ing_world :: "mem_store iworld" where
  "ing_world = \<lparr>w_fs = \<lparr>files = [(path_of ''/h/a.md'', \<lparr>body = Text ''ok'', mtime = 0\<rparr>),
        (path_of ''/h/b.md'', \<lparr>body = Text ''ok'', mtime = 0\<rparr>)], dirs = [], noread = [], nowrite = []\<rparr>,
     w_brk = \<lparr>sfile = StoredDoc (dump_state (record_quarantine (Iso 0) ''b.md'' ''capped'' 3 default_state)),
        backups = [], lock_busy = False\<rparr>,
     w_store = \<lparr>ms_artifacts =
        [(''1'', CVal (JObj [(''file'', JStr ''a.md''), (''built_at'', JStr ''t1'')])),
         (''2'', CVal (JObj [(''file'', JStr ''b.md''), (''built_at'', JStr ''t2'')]))],
        ms_watermark = None, ms_writes = []\<rparr>\<rparr>"

theorem dormant_ingestor_writes_nothing_witness:
  "w_store (snd (ing_run_once (ing_test False) ing_world)) = w_store ing_world"
  by (rule dormant_ingestor_writes_nothing) (simp_all add: ing_test_def ing_enabled_def)

text \<open>C16: a file that the circuit breaker holds in quarantine is never promoted by a cycle of the
  ingestor, whatever its content and whatever else the cycle looks up in the breaker's file before.\<close>

theorem breaker_quarantine_is_final:
  assumes "held_by_breaker n (w_brk w)" and "ing_run_once c w = (Some vs, w')" and "v \<in> set vs"
    and "path_name (path_of (a_file (v_artifact v))) = n"
  shows "v_action v = QUARANTINE"
proof -
  obtain mark rows s2 acc u where
      "ingest_rows c (ing_enabled c (w_fs w)) rows (ing_acc0 mark) (w\<lparr>w_store := s2\<rparr>) = (Some acc, u)"
      "vs = ia_verdicts acc"
    using ing_run_once_parts [OF assms(2)] by blast
  then have "list_all (held_verdict n) vs"
    using ingest_rows_held [of n "w\<lparr>w_store := s2\<rparr>" "ing_acc0 mark" c _ rows acc u] assms(1) by (simp add: ing_acc0_def)
  with assms(3,4) show ?thesis by (simp add: list_all_iff held_verdict_def)
qed

theorem breaker_quarantine_is_final_witness:
  "filter (\<lambda>v. path_name (path_of (a_file (v_artifact v))) = ''b.md'' \<and> v_action v \<noteq> QUARANTINE)
     (the (fst (ing_run_once (ing_test True) ing_world))) = []"
proof -
  have h: "held_by_breaker ''b.md'' (w_brk ing_world)"
    and "map_option length (fst (ing_run_once (ing_test True) ing_world)) = Some 2" by code_simp+
  then obtain vs where "fst (ing_run_once (ing_test True) ing_world) = Some vs" by auto
  then have r: "ing_run_once (ing_test True) ing_world = (Some vs, snd (ing_run_once (ing_test True) ing_world))"
    by (metis prod.collapse)
  from breaker_quarantine_is_final [OF h r] show ?thesis by (subst r) (auto simp: filter_empty_conv)
qed

text \<open>Nothing is ingested twice: over the store in memory, every artifact of a later cycle was
  built after every artifact of an active cycle before it, once one of these had a build time.\<close>

theorem ingested_once:
  assumes "ing_run_once c w = (Some vs, w1)" and "i_ops c = mem_ops" and "ing_enabled c (w_fs w)"
    and "v0 \<in> set vs" and "a_built_at (v_artifact v0) \<noteq> []"
    and "ing_run_once c2 w2 = (Some vs2, w3)" and "i_ops c2 = mem_ops" and "w_store w2 = w_store w1"
  shows "\<forall>v \<in> set vs. \<forall>v2 \<in> set vs2. a_built_at (v_artifact v) < a_built_at (v_artifact v2)"
  using watermark_separates [OF assms] by blast

theorem ingested_once_witness:
  "list_all (\<lambda>v. list_all (\<lambda>v2. a_built_at (v_artifact v) < a_built_at (v_artifact v2))
       (the (fst (ing_run_once (ing_test True) (snd (ing_run_once (ing_test True) ing_world))))))
     (the (fst (ing_run_once (ing_test True) ing_world)))"
proof -
  let ?r = "ing_run_once (ing_test True) ing_world" and ?q = "ing_run_once (ing_test True) (snd (ing_run_once (ing_test True) ing_world))"
  have "map_option (map (\<lambda>v. a_built_at (v_artifact v))) (fst ?r) = Some [''t1'', ''t2'']"
    and q: "map_option length (fst ?q) = Some 0" by code_simp+
  then obtain vs vs2 where vs: "fst ?r = Some vs" "map (\<lambda>v. a_built_at (v_artifact v)) vs = [''t1'', ''t2'']"
      and vs2: "fst ?q = Some vs2" by auto
  from vs(2) have "''t1'' \<in> (\<lambda>v. a_built_at (v_artifact v)) ` set vs" by (metis list.set_intros(1) set_map)
  then obtain v0 where m: "v0 \<in> set vs" and t: "''t1'' = a_built_at (v_artifact v0)"
    by (rule imageE)
  from m have v0: "v0 \<in> set vs" "a_built_at (v_artifact v0) \<noteq> []" by (simp_all add: t [symmetric])
  have r: "?r = (Some vs, snd ?r)" and s: "?q = (Some vs2, snd ?q)"
    using vs(1) vs2 by (metis prod.collapse)+
  have e: "i_ops (ing_test True) = mem_ops" "ing_enabled (ing_test True) (w_fs ing_world)"
    by (simp_all add: ing_test_def ing_enabled_def)
  from ingested_once [OF r e v0 s e(1) refl] show ?thesis by (simp add: vs(1) vs2 list_all_iff)
qed

end
