(* ===== verification/Governor.thy ===== *)
theory Governor
  imports Ingestor
begin

text \<open>
  \<open>zo_sentinel/ingestor/governor.py\<close>: the governor that opens the ingestor's latch once
  enough cycles agree with gate 8. Its state is a row of the store; its world is the ingestor's.
  The configuration extends the ingestor's (the store's operations in it are the governor's
  store) with the verdicts of gate 8, the criteria, the temporary directory of the smoke test and
  the two-digit rendering of a quotient. One reading of the clock serves a whole cycle.
\<close>

definition VETO_NAME :: string where
  "VETO_NAME = ''.no_auto_activate''"

definition GOVERNOR_AGENT_ID :: string where
  "GOVERNOR_AGENT_ID = ''zo_sentinel.activation_governor''"

definition ACTIVATION_STATE_TYPE :: string where
  "ACTIVATION_STATE_TYPE = ''ingestor_activation_state''"

subsection \<open>Gate 8\<close>

text \<open>The table of verdicts in memory, asked by base name; the first entry decides.\<close>

definition mem_verdict_for :: "(string, bool) dict \<Rightarrow> string \<Rightarrow> bool option" where
  "mem_verdict_for tbl fpath =
     (let base = path_name (path_of fpath) in
      first_some (\<lambda>(k, v). if path_name (path_of k) = base then Some v else None) tbl)"

text \<open>
  The recorded gate runs: \<open>query\<close> gives the statuses of the latest run for a base name,
  \<open>None\<close> when anything fails.
\<close>

definition duck_verdict_for :: "(string \<Rightarrow> string list option) \<Rightarrow> string \<Rightarrow> bool option" where
  "duck_verdict_for query fpath =
     (case query (path_name (path_of fpath)) of
        None \<Rightarrow> None
      | Some statuses \<Rightarrow>
        (if statuses = [] then None
         else if ''fail'' \<in> set statuses \<or> ''error'' \<in> set statuses then Some False
         else if ''pass'' \<in> set statuses then Some True
         else None))"

subsection \<open>Criteria and state\<close>

record criteria =
  min_consecutive_green :: int
  min_agreeing_artifacts :: int
  min_agreement :: rat
  min_agreement_text :: string

definition default_criteria :: criteria where
  "default_criteria = \<lparr>min_consecutive_green = 3, min_agreeing_artifacts = 10,
     min_agreement = 95 / 100, min_agreement_text = ''0.95''\<rparr>"

record gov_state =
  consecutive_green :: int
  agreeing_artifacts :: "json list"
  lifetime_false_promotes :: int
  activated :: bool
  activated_at :: string
  last_cycle_at :: string
  last_detail :: string

definition gov_state0 :: gov_state where
  "gov_state0 = \<lparr>consecutive_green = 0, agreeing_artifacts = [], lifetime_false_promotes = 0,
     activated = False, activated_at = [], last_cycle_at = [], last_detail = []\<rparr>"

definition state_json :: "gov_state \<Rightarrow> json" where
  "state_json st = JObj
     [(''activated'', JBool (activated st)),
      (''activated_at'', JStr (activated_at st)),
      (''agreeing_artifacts'', JList (map json_sort (agreeing_artifacts st))),
      (''consecutive_green'', JInt (consecutive_green st)),
      (''last_cycle_at'', JStr (last_cycle_at st)),
      (''last_detail'', JStr (last_detail st)),
      (''lifetime_false_promotes'', JInt (lifetime_false_promotes st))]"

text \<open>\<open>list(v)\<close>.\<close>

fun py_list :: "json \<Rightarrow> json list option" where
  "py_list (JList xs) = Some xs"
| "py_list (JStr s) = Some (map (\<lambda>ch. JStr [ch]) s)"
| "py_list (JObj d) = Some (map (\<lambda>kv. JStr (fst kv)) d)"
| "py_list _ = None"

text \<open>Reading the state: \<open>None\<close> when a field cannot be converted or the text is no object.\<close>

definition state_of_obj :: "jobj \<Rightarrow> gov_state option" where
  "state_of_obj d =
     (case py_int (jget_or d ''consecutive_green'' (JInt 0)) of None \<Rightarrow> None | Some g \<Rightarrow>
      (case py_list (jget_or d ''agreeing_artifacts'' (JList [])) of None \<Rightarrow> None | Some ag \<Rightarrow>
       (case py_int (jget_or d ''lifetime_false_promotes'' (JInt 0)) of None \<Rightarrow> None | Some n \<Rightarrow>
          Some \<lparr>consecutive_green = g, agreeing_artifacts = ag, lifetime_false_promotes = n,
             activated = truthy (jget_or d ''activated'' (JBool False)),
             activated_at = py_str (jget_or d ''activated_at'' (JStr [])),
             last_cycle_at = py_str (jget_or d ''last_cycle_at'' (JStr [])),
             last_detail = py_str (jget_or d ''last_detail'' (JStr []))\<rparr>)))"

definition state_from_json :: "cell option \<Rightarrow> gov_state option" where
  "state_from_json c =
     (case c of
        Some (CText (Doc (JObj d))) \<Rightarrow> state_of_obj d
      | Some (CText (Doc j)) \<Rightarrow> None
      | _ \<Rightarrow> Some gov_state0)"

text \<open>A state that the governor itself has written: its agreeing artifacts are keys.\<close>

definition text_state :: "gov_state \<Rightarrow> bool" where
  "text_state st \<longleftrightarrow> list_all (\<lambda>j. case j of JStr s \<Rightarrow> True | _ \<Rightarrow> False) (agreeing_artifacts st)"

lemma text_state_iff: "text_state st \<longleftrightarrow> (\<forall>j \<in> set (agreeing_artifacts st). \<exists>s. j = JStr s)"
proof -
  have "(case j of JStr s \<Rightarrow> True | _ \<Rightarrow> False) \<longleftrightarrow> (\<exists>s. j = JStr s)" for j by (cases j) auto
  then show ?thesis by (simp add: text_state_def list_all_iff)
qed

lemma text_state_sorted: "text_state st \<Longrightarrow> map json_sort (agreeing_artifacts st) = agreeing_artifacts st"
  by (auto simp: text_state_iff intro!: map_idI)

lemma text_state_plain:
  assumes "text_state st"
  shows "plain_json (state_json st)"
proof -
  have "list_all plain_json (agreeing_artifacts st)"
    unfolding list_all_iff using assms text_state_iff [of st] by force
  then show ?thesis by (simp add: state_json_def text_state_sorted [OF assms])
qed

lemma text_state_update [simp]:
  "text_state (st\<lparr>last_cycle_at := a\<rparr>) = text_state st" "text_state (st\<lparr>activated := b\<rparr>) = text_state st"
  "text_state (st\<lparr>last_detail := a\<rparr>) = text_state st" "text_state (st\<lparr>activated_at := a\<rparr>) = text_state st"
  "text_state (st\<lparr>consecutive_green := n\<rparr>) = text_state st" "text_state (st\<lparr>lifetime_false_promotes := n\<rparr>) = text_state st"
  by (simp_all add: text_state_def)

lemma state_roundtrip:
  "state_from_json (Some (cell_json (state_json st))) = Some (st\<lparr>agreeing_artifacts := map json_sort (agreeing_artifacts st)\<rparr>)"
  by (simp add: state_from_json_def cell_json_def state_json_def state_of_obj_def)

subsection \<open>Configuration\<close>

record 's gcfg = "'s icfg" +
  g_gate8 :: "string \<Rightarrow> bool option"
  g_criteria :: criteria
  g_auto :: bool
  g_tmp :: path
  g_fmt2 :: "rat \<Rightarrow> string"
  g_mtime :: int

definition is_vetoed :: "('s, 'x) gcfg_scheme \<Rightarrow> fs \<Rightarrow> bool" where
  "is_vetoed c f = (env_on (i_env c) ''NO_AUTO_ACTIVATE'' \<or> fs_exists f (path_child (i_home c) VETO_NAME))"

definition load_state :: "('s, 'x) gcfg_scheme \<Rightarrow> 's \<Rightarrow> gov_state option \<times> 's" where
  "load_state c s = (let (cell, s1) = mo_latest (i_ops c) ACTIVATION_STATE_TYPE GOVERNOR_AGENT_ID s
     in (state_from_json cell, s1))"

definition state_row :: "gov_state \<Rightarrow> mrow" where
  "state_row st = [(''agent_id'', cell_str GOVERNOR_AGENT_ID), (''memory_type'', cell_str ACTIVATION_STATE_TYPE),
     (''content'', cell_json (state_json st)), (''importance'', CVal (JFloat (5 / 10) ''0.5''))]"

definition save_state :: "('s, 'x) gcfg_scheme \<Rightarrow> gov_state \<Rightarrow> 's iworld \<Rightarrow> 's iworld" where
  "save_state c st w = put_row c ''mesh_memory'' (state_row (st\<lparr>last_cycle_at := i_now c\<rparr>)) w"

subsection \<open>The smoke test\<close>

definition GOOD_FIXTURE :: string where
  "GOOD_FIXTURE = ''VALUE = 1'' @ [newline] @ ''def helper():'' @ [newline] @ ''    return VALUE'' @ [newline]"

definition BAD_FIXTURE :: string where
  "BAD_FIXTURE = ''SQL = '' @ [CHR 0x22] @ ''DROP TABLE mesh_memory'' @ [CHR 0x22, newline]"

definition bare_artifact :: "string \<Rightarrow> artifact" where
  "bare_artifact fpath = \<lparr>a_file = fpath, a_built_at = [], a_phase = [], a_bytes = 0, a_interface = [],
     a_task = [], a_row = None\<rparr>"

text \<open>The file system while the temporary directory holds the two fixtures.\<close>

definition smoke_fs :: "('s, 'x) gcfg_scheme \<Rightarrow> fs \<Rightarrow> fs" where
  "smoke_fs c f = f\<lparr>dirs := g_tmp c # dirs f,
     files := dput (path_child (g_tmp c) ''selfsmoke_bad.py'') \<lparr>body = Text BAD_FIXTURE, mtime = g_mtime c\<rparr>
       (dput (path_child (g_tmp c) ''selfsmoke_ok.py'') \<lparr>body = Text GOOD_FIXTURE, mtime = g_mtime c\<rparr> (files f))\<rparr>"

definition self_smoke :: "('s, 'x) gcfg_scheme \<Rightarrow> 's iworld \<Rightarrow> (bool \<times> string) \<times> 's iworld" where
  "self_smoke c w =
     (let (vg, w1) = evaluate c (bare_artifact (path_str (path_child (g_tmp c) ''selfsmoke_ok.py'')))
                       (w\<lparr>w_fs := smoke_fs c (w_fs w)\<rparr>);
          (vb, w2) = evaluate c (bare_artifact (path_str (path_child (g_tmp c) ''selfsmoke_bad.py''))) w1
      in (if \<not> v_ok vg then (False, ''self-smoke: known-good was rejected ('' @ v_contract vg @ '': '' @ v_detail vg @ '')'')
          else if v_ok vb \<or> \<not> v_safety vb then (False, ''self-smoke: known-bad was not safety-blocked'')
          else (True, ''self-smoke ok''),
          w2\<lparr>w_fs := w_fs w\<rparr>))"

subsection \<open>Assessing a cycle\<close>

record assessment =
  green :: bool
  smoke_ok :: bool
  comparable :: nat
  agreed :: nat
  false_promotes :: nat
  new_agreeing :: "string list"
  a_detail :: string

text \<open>The dry run over the pending rows: judged, never acted on.\<close>

fun dry_rows :: "('s, 'x) icfg_scheme \<Rightarrow> (string \<times> cell) list \<Rightarrow> string list \<Rightarrow> verdict list \<Rightarrow> 's iworld \<Rightarrow>
    verdict list option \<times> 's iworld" where
  "dry_rows c [] seen vs w = (Some vs, w)"
| "dry_rows c ((row_id, content) # rows) seen vs w =
     (case from_mesh_content content (Some row_id) of
        None \<Rightarrow> (None, w)
      | Some None \<Rightarrow> dry_rows c rows seen vs w
      | Some (Some a) \<Rightarrow>
        (if dedup_key a \<in> set seen then dry_rows c rows seen vs w
         else (let (v, w1) = evaluate c a w in dry_rows c rows (dedup_key a # seen) (vs @ [v]) w1)))"

record tally =
  t_comparable :: nat
  t_agreed :: nat
  t_false :: nat
  t_already :: "json list"
  t_new :: "string list"

definition tally0 :: "json list \<Rightarrow> tally" where
  "tally0 already = \<lparr>t_comparable = 0, t_agreed = 0, t_false = 0, t_already = already, t_new = []\<rparr>"

definition tally_agree :: "string \<Rightarrow> tally \<Rightarrow> tally" where
  "tally_agree key t =
     (if JStr key \<in> set (t_already t) then t
      else t\<lparr>t_already := JStr key # t_already t, t_new := t_new t @ [key]\<rparr>)"

definition tally_verdict :: "(string \<Rightarrow> bool option) \<Rightarrow> verdict \<Rightarrow> tally \<Rightarrow> tally" where
  "tally_verdict gate8 v t =
     (case gate8 (a_file (v_artifact v)) of
        None \<Rightarrow> t
      | Some g \<Rightarrow>
        (let t1 = t\<lparr>t_comparable := t_comparable t + 1\<rparr> in
         if v_ok v = g then tally_agree (dedup_key (v_artifact v)) (t1\<lparr>t_agreed := t_agreed t1 + 1\<rparr>)
         else if v_ok v \<and> \<not> g then t1\<lparr>t_false := t_false t1 + 1\<rparr>
         else t1))"

text \<open>Values that a Python set cannot hold.\<close>

fun hashable :: "json \<Rightarrow> bool" where
  "hashable (JList xs) = False"
| "hashable (JObj d) = False"
| "hashable j = True"

definition tally_agreement :: "tally \<Rightarrow> rat" where
  "tally_agreement t = (if t_comparable t = 0 then 1 else of_nat (t_agreed t) / of_nat (t_comparable t))"

definition mk_assessment :: "('s, 'x) gcfg_scheme \<Rightarrow> bool \<times> string \<Rightarrow> tally \<Rightarrow> assessment" where
  "mk_assessment c smoke t =
     \<lparr>green = (fst smoke \<and> t_false t = 0 \<and>
         (t_comparable t = 0 \<or> tally_agreement t \<ge> min_agreement (g_criteria c))),
      smoke_ok = fst smoke, comparable = t_comparable t, agreed = t_agreed t, false_promotes = t_false t,
      new_agreeing = t_new t,
      a_detail = snd smoke @ ''; comparable='' @ nat_str (t_comparable t) @ '' agreed='' @ nat_str (t_agreed t) @
        '' agreement='' @ g_fmt2 c (tally_agreement t) @ '' false_promotes='' @ nat_str (t_false t)\<rparr>"

definition assess_cycle :: "('s, 'x) gcfg_scheme \<Rightarrow> gov_state \<Rightarrow> 's iworld \<Rightarrow> assessment option \<times> 's iworld" where
  "assess_cycle c st w =
     (let (smoke, w1) = self_smoke c w;
          (mark, s1) = mo_get_wm (i_ops c) (w_store w1);
          (rows, s2) = mo_read (i_ops c) mark (i_limit c) s1
      in (case dry_rows c rows [] [] (w1\<lparr>w_store := s2\<rparr>) of
            (None, w2) \<Rightarrow> (None, w2)
          | (Some vs, w2) \<Rightarrow>
            (if list_all hashable (agreeing_artifacts st)
             then (Some (mk_assessment c smoke
                     (fold (tally_verdict (g_gate8 c)) vs (tally0 (agreeing_artifacts st)))), w2)
             else (None, w2))))"

subsection \<open>The latch\<close>

definition latch_path :: "('s, 'x) icfg_scheme \<Rightarrow> path" where
  "latch_path c = path_child (i_home c) INGESTOR_SENTINEL"

definition criteria_json :: "criteria \<Rightarrow> json" where
  "criteria_json k = JObj
     [(''min_consecutive_green'', JInt (min_consecutive_green k)),
      (''min_agreeing_artifacts'', JInt (min_agreeing_artifacts k)),
      (''min_agreement'', JFloat (min_agreement k) (min_agreement_text k))]"

definition latch_label :: "('s, 'x) gcfg_scheme \<Rightarrow> gov_state \<Rightarrow> jobj \<Rightarrow> json" where
  "latch_label c st evidence = JObj
     [(''enabled_by'', JStr GOVERNOR_AGENT_ID),
      (''enabled_at'', JStr (activated_at st)),
      (''mode'', JStr ''auto''),
      (''scope'', JStr ''all_artifact_types''),
      (''criteria'', criteria_json (g_criteria c)),
      (''evidence'', JObj evidence)]"

text \<open>\<open>None\<close> is an OSError.\<close>

definition write_latch :: "('s, 'x) gcfg_scheme \<Rightarrow> gov_state \<Rightarrow> jobj \<Rightarrow> 's iworld \<Rightarrow> 's iworld option" where
  "write_latch c st evidence w =
     map_option (\<lambda>f. w\<lparr>w_fs := f\<rparr>)
       (write_text (g_mtime c) (latch_path c) (Doc (latch_label c st evidence)) (w_fs w))"

definition remove_latch :: "('s, 'x) gcfg_scheme \<Rightarrow> 's iworld \<Rightarrow> 's iworld option" where
  "remove_latch c w =
     (if fs_exists (w_fs w) (latch_path c)
      then map_option (\<lambda>f. w\<lparr>w_fs := f\<rparr>) (unlink (latch_path c) (w_fs w)) else Some w)"

definition gov_audit :: "('s, 'x) gcfg_scheme \<Rightarrow> string \<Rightarrow> string \<Rightarrow> jobj \<Rightarrow> 's iworld \<Rightarrow> 's iworld" where
  "gov_audit c event_type action details = put_row c ''audit_log''
     [(''event_type'', cell_str event_type), (''actor'', cell_str GOVERNOR_AGENT_ID),
      (''target_server_id'', cell_str ''artifact_ingestor''), (''action'', cell_str action),
      (''outcome'', cell_str ''ok''), (''details_json'', cell_json (JObj details)),
      (''immutable'', CVal (JBool True)), (''timestamp'', cell_str (i_now c))]"

subsection \<open>The cycle\<close>

definition gov_veto :: "('s, 'x) gcfg_scheme \<Rightarrow> gov_state \<Rightarrow> 's iworld \<Rightarrow> jobj option \<times> 's iworld" where
  "gov_veto c st w =
     (let answer = (\<lambda>froze. [(''action'', JStr ''vetoed''), (''froze'', JBool froze), (''activated'', JBool False),
            (''consecutive_green'', JInt (consecutive_green st))]) in
      if activated st
      then (case remove_latch c w of
          None \<Rightarrow> (None, w)
        | Some w1 \<Rightarrow>
          (Some (answer True),
           save_state c (st\<lparr>activated := False, last_detail := ''vetoed''\<rparr>)
             (gov_audit c ''INGESTOR_FROZEN'' ''disable'' [(''reason'', JStr ''veto present'')] w1)))
      else (Some (answer False), save_state c (st\<lparr>last_detail := ''vetoed''\<rparr>) w))"

text \<open>The counters after a cycle.\<close>

definition count_cycle :: "assessment \<Rightarrow> gov_state \<Rightarrow> gov_state" where
  "count_cycle a st = st\<lparr>
     consecutive_green := (if green a then consecutive_green st + 1 else 0),
     agreeing_artifacts := agreeing_artifacts st @ map JStr (new_agreeing a),
     lifetime_false_promotes := lifetime_false_promotes st + int (false_promotes a),
     last_detail := a_detail a\<rparr>"

definition gov_ready :: "criteria \<Rightarrow> gov_state \<Rightarrow> bool" where
  "gov_ready k st \<longleftrightarrow> consecutive_green st \<ge> min_consecutive_green k
     \<and> int (length (agreeing_artifacts st)) \<ge> min_agreeing_artifacts k
     \<and> lifetime_false_promotes st = 0"

definition gov_evidence :: "gov_state \<Rightarrow> jobj" where
  "gov_evidence st =
     [(''consecutive_green'', JInt (consecutive_green st)),
      (''agreeing_artifacts'', JInt (int (length (agreeing_artifacts st)))),
      (''lifetime_false_promotes'', JInt (lifetime_false_promotes st))]"

text \<open>The action of a cycle, with the state and the world it leaves before the state is saved.\<close>

definition gov_act :: "('s, 'x) gcfg_scheme \<Rightarrow> gov_state \<Rightarrow> 's iworld \<Rightarrow> (string \<times> gov_state \<times> 's iworld) option" where
  "gov_act c st w =
     (let ready = gov_ready (g_criteria c) st in
      if activated st
      then (if \<not> fs_exists (w_fs w) (latch_path c)
            then map_option (\<lambda>w1. (''reasserted'', st, w1))
                   (write_latch c st [(''reasserted_at'', JStr (i_now c))] w)
            else Some (''active'', st, w))
      else if ready \<and> g_auto c
      then (let st1 = st\<lparr>activated := True, activated_at := i_now c\<rparr> in
            map_option (\<lambda>w1. (''activated'', st1,
                gov_audit c ''INGESTOR_AUTO_ACTIVATED'' ''enable'' (gov_evidence st1) w1))
              (write_latch c st1 (gov_evidence st1) w))
      else if ready
      then Some (''proposed'', st, gov_audit c ''INGESTOR_ACTIVATION_READY'' ''propose''
                   (take 2 (gov_evidence st)) w)
      else Some (''hold'', st, w))"

definition gov_answer :: "('s, 'x) gcfg_scheme \<Rightarrow> assessment \<Rightarrow> string \<Rightarrow> gov_state \<Rightarrow> jobj" where
  "gov_answer c a action st =
     [(''action'', JStr action), (''green'', JBool (green a))] @ gov_evidence st @
     [(''activated'', JBool (activated st)), (''ready'', JBool (gov_ready (g_criteria c) st)),
      (''detail'', JStr (a_detail a))]"

text \<open>\<open>None\<close> when the cycle raises; what it did before stays done.\<close>

definition gov_govern :: "('s, 'x) gcfg_scheme \<Rightarrow> gov_state \<Rightarrow> 's iworld \<Rightarrow> jobj option \<times> 's iworld" where
  "gov_govern c st w =
     (case assess_cycle c st w of
        (None, w1) \<Rightarrow> (None, w1)
      | (Some a, w1) \<Rightarrow>
        (case gov_act c (count_cycle a st) w1 of
           None \<Rightarrow> (None, w1)
         | Some (action, st1, w2) \<Rightarrow> (Some (gov_answer c a action st1), save_state c st1 w2)))"

definition gov_run_once :: "('s, 'x) gcfg_scheme \<Rightarrow> 's iworld \<Rightarrow> jobj option \<times> 's iworld" where
  "gov_run_once c w0 =
     (case load_state c (w_store w0) of
        (None, s) \<Rightarrow> (None, w0\<lparr>w_store := s\<rparr>)
      | (Some st, s) \<Rightarrow>
        (case mkdirs (i_home c) (w_fs w0) of
           None \<Rightarrow> (None, w0\<lparr>w_store := s\<rparr>)
         | Some f \<Rightarrow>
           (let w = w0\<lparr>w_store := s, w_fs := f\<rparr> in
            if is_vetoed c f then gov_veto c st w else gov_govern c st w)))"

definition gov_status :: "('s, 'x) gcfg_scheme \<Rightarrow> 's iworld \<Rightarrow> jobj option" where
  "gov_status c w = map_option (\<lambda>st.
     [(''auto'', JBool (g_auto c)), (''vetoed'', JBool (is_vetoed c (w_fs w))), (''activated'', JBool (activated st)),
      (''consecutive_green'', JInt (consecutive_green st)),
      (''agreeing_artifacts'', JInt (int (length (agreeing_artifacts st)))),
      (''needs'', JObj [(''consecutive_green'', JInt (min_consecutive_green (g_criteria c))),
         (''agreeing_artifacts'', JInt (min_agreeing_artifacts (g_criteria c)))]),
      (''lifetime_false_promotes'', JInt (lifetime_false_promotes st)),
      (''last_cycle_at'', JStr (last_cycle_at st))])
     (fst (load_state c (w_store w)))"

subsection \<open>A cycle only judges\<close>

lemma put_row_frame [simp]: "w_fs (put_row c t r w) = w_fs w" "w_brk (put_row c t r w) = w_brk w"
  by (simp_all add: put_row_def)

lemma save_state_frame [simp]: "w_fs (save_state c st w) = w_fs w" "w_brk (save_state c st w) = w_brk w"
  by (simp_all add: save_state_def)

lemma gov_audit_frame [simp]: "w_fs (gov_audit c e a d w) = w_fs w" "w_brk (gov_audit c e a d w) = w_brk w"
  by (simp_all add: gov_audit_def)

lemma self_smoke_frame [simp]: "w_store (snd (self_smoke c w)) = w_store w" "w_fs (snd (self_smoke c w)) = w_fs w"
  by (simp_all add: self_smoke_def Let_def split_beta)

lemma dry_rows_frame [simp]:
  "w_store (snd (dry_rows c rows seen vs w)) = w_store w \<and> w_fs (snd (dry_rows c rows seen vs w)) = w_fs w"
proof (induction rows arbitrary: seen vs w)
  case (Cons rc rows)
  obtain r x where rc: "rc = (r, x)" by (cases rc)
  show ?case by (simp add: rc Let_def split_beta Cons.IH split: option.splits)
qed simp

lemma assess_cycle_fs [simp]: "w_fs (snd (assess_cycle c st w)) = w_fs w"
  by (auto simp: assess_cycle_def Let_def split_beta split: option.splits)

lemma latch_not_ancestor: "fs_exists g (path_child d n) \<longleftrightarrow> fs_exists f (path_child d n)"
  if "mkdirs d f = Some g"
proof -
  from that have "set (dirs g) = set (path_ancestors d) \<union> set (dirs f)"
    by (auto simp: mkdirs_def split: if_splits)
  then show ?thesis
    using child_not_ancestor [of d n] that by (auto simp: fs_exists_def is_file_def is_dir_def)
qed

text \<open>The parts of a cycle that answers.\<close>

lemma gov_run_once_cases:
  obtains (raised) "fst (gov_run_once c w) = None"
  | (vetoed) st s f where "load_state c (w_store w) = (Some st, s)" "mkdirs (i_home c) (w_fs w) = Some f"
      "is_vetoed c f" "gov_run_once c w = gov_veto c st (w\<lparr>w_store := s, w_fs := f\<rparr>)"
  | (governed) st s f a w1 action st1 w2 where "load_state c (w_store w) = (Some st, s)"
      "mkdirs (i_home c) (w_fs w) = Some f" "\<not> is_vetoed c f"
      "assess_cycle c st (w\<lparr>w_store := s, w_fs := f\<rparr>) = (Some a, w1)"
      "gov_act c (count_cycle a st) w1 = Some (action, st1, w2)"
      "gov_run_once c w = (Some (gov_answer c a action st1), save_state c st1 w2)"
proof (cases "fst (gov_run_once c w)")
  case None
  then show ?thesis by (rule raised)
next
  case (Some d)
  then obtain st s where l: "load_state c (w_store w) = (Some st, s)"
    by (auto simp: gov_run_once_def split: prod.splits option.splits)
  from Some obtain f where f: "mkdirs (i_home c) (w_fs w) = Some f"
    by (auto simp: gov_run_once_def l split: option.splits)
  let ?w = "w\<lparr>w_store := s, w_fs := f\<rparr>"
  show ?thesis
  proof (cases "is_vetoed c f")
    case True
    then show ?thesis by (intro vetoed [OF l f]) (simp_all add: gov_run_once_def l f)
  next
    case False
    with Some obtain a w1 where a: "assess_cycle c st ?w = (Some a, w1)"
      by (auto simp: gov_run_once_def gov_govern_def l f split: prod.splits option.splits)
    with Some False obtain action st1 w2 where "gov_act c (count_cycle a st) w1 = Some (action, st1, w2)"
      by (auto simp: gov_run_once_def gov_govern_def l f split: prod.splits option.splits)
    with False a show ?thesis
      by (intro governed [OF l f]) (simp_all add: gov_run_once_def gov_govern_def l f)
  qed
qed

text \<open>What the action changes: the latch, and rows of the audit.\<close>

definition keeps_counts :: "gov_state \<Rightarrow> gov_state \<Rightarrow> bool" where
  "keeps_counts st st1 \<longleftrightarrow> consecutive_green st1 = consecutive_green st
     \<and> lifetime_false_promotes st1 = lifetime_false_promotes st \<and> agreeing_artifacts st1 = agreeing_artifacts st"

lemma gov_act_keeps: "gov_act c st w = Some (action, st1, w2) \<Longrightarrow> keeps_counts st st1 \<and> w_brk w2 = w_brk w"
  by (auto simp: gov_act_def Let_def keeps_counts_def write_latch_def split: if_splits)

lemma gov_act_activates:
  "gov_act c st w = Some (action, st1, w2) \<Longrightarrow>
     activated st1 = (activated st \<or> gov_ready (g_criteria c) st \<and> g_auto c)"
  by (auto simp: gov_act_def Let_def split: if_splits)

lemma write_latch_get:
  "write_latch c st e w = Some w1 \<Longrightarrow> fs_get (w_fs w1) q =
     (if q = latch_path c then Some \<lparr>body = Doc (latch_label c st e), mtime = g_mtime c\<rparr> else fs_get (w_fs w) q)"
  by (auto simp: write_latch_def write_text_get)

lemma gov_act_latch:
  assumes "gov_act c st w = Some (action, st1, w2)"
  shows "fs_get (w_fs w2) q = fs_get (w_fs w) q \<or> q = latch_path c \<and> activated st1 \<and>
     (action = ''activated'' \<and> fs_get (w_fs w2) q = Some \<lparr>body = Doc (latch_label c st1 (gov_evidence st)), mtime = g_mtime c\<rparr>
      \<or> action = ''reasserted'' \<and> activated st \<and> \<not> fs_exists (w_fs w) q)"
  using assms by (auto simp: gov_act_def Let_def write_latch_get gov_evidence_def split: if_splits)

lemma gov_act_opened:
  assumes "gov_act c st w = Some (action, st1, w2)" and "activated st1"
  shows "fs_exists (w_fs w2) (latch_path c)"
  using assms by (auto simp: gov_act_def Let_def fs_exists_def is_file_def write_latch_get split: if_splits)

subsection \<open>The state across cycles\<close>

text \<open>What the next cycle would load.\<close>

definition gov_loaded :: "('s, 'x) gcfg_scheme \<Rightarrow> 's iworld \<Rightarrow> gov_state option" where
  "gov_loaded c w = fst (load_state c (w_store w))"

definition stored_state :: "('s, 'x) gcfg_scheme \<Rightarrow> gov_state \<Rightarrow> gov_state" where
  "stored_state c st = st\<lparr>last_cycle_at := i_now c, agreeing_artifacts := map json_sort (agreeing_artifacts st)\<rparr>"

lemma stored_state_sel [simp]:
  "consecutive_green (stored_state c st) = consecutive_green st"
  "lifetime_false_promotes (stored_state c st) = lifetime_false_promotes st"
  "activated (stored_state c st) = activated st"
  "length (agreeing_artifacts (stored_state c st)) = length (agreeing_artifacts st)"
  by (simp_all add: stored_state_def)

text \<open>
  A run of cycles: each with its own configuration (clock, gate 8, criteria, veto in the
  environment) and with a step of everybody else before it, which may do anything but write the
  governor's row.
\<close>

fun gov_run :: "(('s, 'x) gcfg_scheme \<times> ('s iworld \<Rightarrow> 's iworld)) list \<Rightarrow> 's iworld \<Rightarrow> 's iworld" where
  "gov_run [] w = w"
| "gov_run ((c, env) # cs) w = gov_run cs (snd (gov_run_once c (env w)))"

definition gov_row :: "'s mesh_ops \<Rightarrow> 's iworld \<Rightarrow> cell option" where
  "gov_row ops w = fst (mo_latest ops ACTIVATION_STATE_TYPE GOVERNOR_AGENT_ID (w_store w))"

definition gov_setup :: "'s mesh_ops \<Rightarrow> int \<Rightarrow> ('s, 'x) gcfg_scheme \<times> ('s iworld \<Rightarrow> 's iworld) \<Rightarrow> bool" where
  "gov_setup ops n ce \<longleftrightarrow> i_ops (fst ce) = ops \<and> n \<le> min_consecutive_green (g_criteria (fst ce))
     \<and> (\<forall>v. gov_row ops (snd ce v) = gov_row ops v)"

definition not_yet :: "int \<Rightarrow> gov_state \<Rightarrow> bool" where
  "not_yet k st \<longleftrightarrow> \<not> activated st \<and> consecutive_green st \<le> k \<and> text_state st"

definition blocked :: "gov_state \<Rightarrow> bool" where
  "blocked st \<longleftrightarrow> \<not> activated st \<and> lifetime_false_promotes st > 0 \<and> text_state st"

lemma governor_names: "unquoted GOVERNOR_AGENT_ID" "unquoted ACTIVATION_STATE_TYPE"
  by (simp_all add: unquoted_def GOVERNOR_AGENT_ID_def ACTIVATION_STATE_TYPE_def)

lemma text_count_cycle: "text_state st \<Longrightarrow> text_state (count_cycle a st)"
  by (simp add: text_state_def count_cycle_def list_all_iff ball_Un)

lemma text_keeps_counts: "keeps_counts st st1 \<Longrightarrow> text_state st1 = text_state st"
  by (simp add: text_state_def keeps_counts_def)

lemma text_stored_state: "text_state st \<Longrightarrow> text_state (stored_state c st)"
  by (auto simp: stored_state_def text_state_iff dest: bspec)

lemma state_row_kind: "of_kind k ''mesh_memory'' (row_obj (state_row st)) \<longleftrightarrow> k = ACTIVATION_STATE_TYPE"
  by (auto simp: of_kind_def row_obj_def state_row_def cell_str_def content_text_def)

context mesh_store
begin

lemma load_pure: "i_ops c = ops \<Longrightarrow> load_state c s = (st, t) \<Longrightarrow> t = s"
  using latest_pure by (auto simp: load_state_def Let_def split: prod.splits) (metis snd_conv)

lemma saved_loaded:
  "i_ops c = ops \<Longrightarrow> i_ops d = ops \<Longrightarrow> text_state st \<Longrightarrow> gov_loaded d (save_state c st w) = Some (stored_state c st)"
  by (simp add: gov_loaded_def load_state_def Let_def split_beta save_state_def put_row_def state_row_def
    latest_write [OF governor_names text_state_plain] state_roundtrip stored_state_def)

lemma assess_store: "i_ops c = ops \<Longrightarrow> w_store (snd (assess_cycle c st w)) = w_store w"
  by (auto simp: assess_cycle_def Let_def split_beta get_pure read_pure split: option.splits)

text \<open>A cycle that raises leaves the store as it was.\<close>

lemma raised_store:
  assumes "i_ops c = ops" and "fst (gov_run_once c w) = None"
  shows "w_store (snd (gov_run_once c w)) = w_store w"
proof -
  obtain o1 s where l: "load_state c (w_store w) = (o1, s)" by (cases "load_state c (w_store w)")
  have s: "s = w_store w" using load_pure [OF assms(1) l] .
  show ?thesis
  proof (cases "o1 = None \<or> mkdirs (i_home c) (w_fs w) = None")
    case True
    then show ?thesis using l s by (auto simp: gov_run_once_def split: option.splits)
  next
    case False
    then obtain st f where st: "o1 = Some st" "mkdirs (i_home c) (w_fs w) = Some f" by auto
    let ?w = "w\<lparr>w_store := s, w_fs := f\<rparr>"
    have "w_store (snd (gov_govern c st ?w)) = w_store w" if "fst (gov_govern c st ?w) = None"
      using that assess_store [OF assms(1), of st ?w] s
      by (auto simp: gov_govern_def split: prod.splits option.splits)
    moreover have "w_store (snd (gov_veto c st ?w)) = w_store w" if "fst (gov_veto c st ?w) = None"
      using that s by (auto simp: gov_veto_def Let_def split: option.splits if_splits)
    ultimately show ?thesis
      using assms(2) by (cases "is_vetoed c f") (simp_all add: gov_run_once_def l st Let_def)
  qed
qed

lemma loaded_same_store:
  assumes "i_ops c = ops" and "i_ops d = ops" and "w_store v = w_store w"
  shows "gov_loaded d v = gov_loaded c w"
  using assms by (simp add: gov_loaded_def load_state_def Let_def split_beta)

lemma gov_step:
  assumes c: "i_ops c = ops" and d: "i_ops d = ops" and st: "gov_loaded c w = Some st" and t: "text_state st"
  shows "gov_loaded d (snd (gov_run_once c w)) = Some st
    \<or> (\<exists>st'. gov_loaded d (snd (gov_run_once c w)) = Some st' \<and> text_state st' \<and> \<not> activated st'
        \<and> consecutive_green st' = consecutive_green st \<and> lifetime_false_promotes st' = lifetime_false_promotes st)
    \<or> (\<exists>st' (a :: assessment). gov_loaded d (snd (gov_run_once c w)) = Some st' \<and> text_state st'
        \<and> consecutive_green st' = (if green a then consecutive_green st + 1 else 0)
        \<and> lifetime_false_promotes st' = lifetime_false_promotes st + int (false_promotes a)
        \<and> activated st' = (activated st \<or> gov_ready (g_criteria c) st' \<and> g_auto c))"
proof (cases rule: gov_run_once_cases [of c w])
  case raised
  then have "gov_loaded d (snd (gov_run_once c w)) = Some st"
    using loaded_same_store [OF c d raised_store [OF c raised]] st by simp
  then show ?thesis ..
next
  case (vetoed st1 s f)
  have s1: "st1 = st" "s = w_store w" using vetoed(1) st load_pure [OF c vetoed(1)] by (simp_all add: gov_loaded_def)
  show ?thesis
  proof (cases "activated st \<and> remove_latch c (w\<lparr>w_store := s, w_fs := f\<rparr>) = None")
    case True
    then have "snd (gov_run_once c w) = w\<lparr>w_store := s, w_fs := f\<rparr>" by (simp add: vetoed(4) s1(1) gov_veto_def Let_def)
    then have "gov_loaded d (snd (gov_run_once c w)) = Some st"
      using loaded_same_store [OF c d, of "w\<lparr>w_store := s, w_fs := f\<rparr>" w] st s1 by simp
    then show ?thesis ..
  next
    case False
    then obtain w1 where "snd (gov_run_once c w) = save_state c (st\<lparr>activated := False, last_detail := ''vetoed''\<rparr>) w1
        \<or> \<not> activated st \<and> snd (gov_run_once c w) = save_state c (st\<lparr>last_detail := ''vetoed''\<rparr>) w1"
      by (cases "activated st") (auto simp: vetoed(4) s1(1) gov_veto_def Let_def)
    then show ?thesis using saved_loaded [OF c d] t by (auto simp: text_stored_state)
  qed
next
  case (governed st1 s f a w1 action st2 w2)
  have s1: "st1 = st" using governed(1) st by (simp add: gov_loaded_def)
  have k: "keeps_counts (count_cycle a st) st2" and
      a: "activated st2 = (activated st \<or> gov_ready (g_criteria c) (count_cycle a st) \<and> g_auto c)"
    using gov_act_keeps [OF governed(5)] gov_act_activates [OF governed(5)] by (simp_all add: s1 count_cycle_def)
  have r: "gov_ready (g_criteria c) (stored_state c st2) = gov_ready (g_criteria c) (count_cycle a st)"
    using k by (simp add: gov_ready_def keeps_counts_def)
  have t2: "text_state st2" using text_keeps_counts [OF k] text_count_cycle [OF t] by simp
  have "gov_loaded d (snd (gov_run_once c w)) = Some (stored_state c st2)" "text_state (stored_state c st2)"
    using saved_loaded [OF c d t2] text_stored_state [OF t2] by (simp_all add: governed(6))
  moreover have "consecutive_green (stored_state c st2) = (if green a then consecutive_green st + 1 else 0)"
      "lifetime_false_promotes (stored_state c st2) = lifetime_false_promotes st + int (false_promotes a)"
    using k by (simp_all add: keeps_counts_def count_cycle_def)
  moreover have "activated (stored_state c st2) = (activated st \<or> gov_ready (g_criteria c) (stored_state c st2) \<and> g_auto c)"
    using a r by simp
  ultimately show ?thesis by blast
qed

definition loaded :: "'s iworld \<Rightarrow> gov_state option" where
  "loaded w = state_from_json (gov_row ops w)"

lemma loaded_gov: "i_ops c = ops \<Longrightarrow> gov_loaded c w = loaded w"
  by (simp add: gov_loaded_def loaded_def gov_row_def load_state_def Let_def split_beta)

lemma step_keeps:
  assumes "gov_setup ops n (c, env)" and "loaded w = Some st"
    and "\<And>st'. text_state st' \<Longrightarrow> \<not> activated st' \<Longrightarrow> consecutive_green st' = consecutive_green st \<Longrightarrow>
           lifetime_false_promotes st' = lifetime_false_promotes st \<Longrightarrow> Q st'"
    and "\<And>st' g m. text_state st' \<Longrightarrow> consecutive_green st' = (if g then consecutive_green st + 1 else 0) \<Longrightarrow>
           lifetime_false_promotes st' = lifetime_false_promotes st + int m \<Longrightarrow>
           activated st' \<Longrightarrow> \<not> activated st \<Longrightarrow> n \<le> consecutive_green st' \<and> lifetime_false_promotes st' = 0 \<Longrightarrow> Q st'"
    and "\<And>st' g m. text_state st' \<Longrightarrow> consecutive_green st' = (if g then consecutive_green st + 1 else 0) \<Longrightarrow>
           lifetime_false_promotes st' = lifetime_false_promotes st + int m \<Longrightarrow> \<not> activated st' \<Longrightarrow> Q st'"
    and "\<not> activated st" and t: "text_state st"
  shows "\<exists>st'. loaded (snd (gov_run_once c (env w))) = Some st' \<and> Q st'"
proof -
  from assms(1) have c: "i_ops c = ops" and n: "n \<le> min_consecutive_green (g_criteria c)"
    and e: "gov_row ops (env w) = gov_row ops w" by (simp_all add: gov_setup_def)
  have "loaded (env w) = Some st" using assms(2) e by (simp add: loaded_def)
  then have l: "gov_loaded c (env w) = Some st" by (simp add: loaded_gov [OF c])
  from gov_step [OF c c l t] consider (same) "loaded (snd (gov_run_once c (env w))) = Some st"
    | (veto) st' where "loaded (snd (gov_run_once c (env w))) = Some st'" "text_state st'" "\<not> activated st'"
        "consecutive_green st' = consecutive_green st" "lifetime_false_promotes st' = lifetime_false_promotes st"
    | (count) st' g m where "loaded (snd (gov_run_once c (env w))) = Some st'"
        "text_state st'"
        "consecutive_green st' = (if g then consecutive_green st + 1 else 0)"
        "lifetime_false_promotes st' = lifetime_false_promotes st + int m"
        "activated st' = (activated st \<or> gov_ready (g_criteria c) st' \<and> g_auto c)"
    unfolding loaded_gov [OF c] by blast
  then show ?thesis
  proof cases
    case same
    with assms(3) [of st] assms(6) t show ?thesis by simp
  next
    case veto
    with assms(3) show ?thesis by blast
  next
    case count
    show ?thesis
    proof (cases "activated st'")
      case True
      with count(5) assms(6) have "n \<le> consecutive_green st' \<and> lifetime_false_promotes st' = 0"
        using n by (simp add: gov_ready_def)
      with assms(4) [OF count(2-4) True assms(6)] count(1) show ?thesis by blast
    next
      case False
      with assms(5) [OF count(2-4)] count(1) show ?thesis by blast
    qed
  qed
qed

lemma step_not_yet:
  assumes "gov_setup ops n (c, env)" and "loaded w = Some st" and "not_yet k st" and "k + 1 < n" and "0 \<le> k"
  shows "\<exists>st'. loaded (snd (gov_run_once c (env w))) = Some st' \<and> not_yet (k + 1) st'"
  by (rule step_keeps [OF assms(1,2)]) (use assms(3-) in \<open>auto simp: not_yet_def split: if_splits\<close>)

lemma step_blocked:
  assumes "gov_setup ops n (c, env)" and "loaded w = Some st" and "blocked st"
  shows "\<exists>st'. loaded (snd (gov_run_once c (env w))) = Some st' \<and> blocked st'"
  by (rule step_keeps [OF assms(1,2)]) (use assms(3) in \<open>auto simp: blocked_def\<close>)

lemma run_not_yet:
  "list_all (gov_setup ops n) cs \<Longrightarrow> loaded w = Some st \<Longrightarrow> not_yet k st \<Longrightarrow> 0 \<le> k \<Longrightarrow> k + int (length cs) < n \<Longrightarrow>
     \<exists>st'. loaded (gov_run cs w) = Some st' \<and> not_yet (k + int (length cs)) st'"
proof (induction cs arbitrary: w st k)
  case (Cons ce cs)
  obtain c env where ce: "ce = (c, env)" by (cases ce)
  have "gov_setup ops n (c, env)" using Cons.prems(1) by (simp add: ce)
  then obtain st1 where "loaded (snd (gov_run_once c (env w))) = Some st1" "not_yet (k + 1) st1"
    using step_not_yet [of n c env w st k] Cons.prems by auto
  from Cons.IH [OF _ this] Cons.prems(1,4,5) show ?case by (simp add: ce algebra_simps)
qed auto

lemma run_blocked:
  "list_all (gov_setup ops n) cs \<Longrightarrow> loaded w = Some st \<Longrightarrow> blocked st \<Longrightarrow>
     \<exists>st'. loaded (gov_run cs w) = Some st' \<and> blocked st'"
proof (induction cs arbitrary: w st)
  case (Cons ce cs)
  obtain c env where ce: "ce = (c, env)" by (cases ce)
  have "gov_setup ops n (c, env)" using Cons.prems(1) by (simp add: ce)
  then obtain st1 where "loaded (snd (gov_run_once c (env w))) = Some st1" "blocked st1"
    using step_blocked [of n c env w st] Cons.prems by auto
  from Cons.IH [OF _ this] Cons.prems(1) show ?case by (simp add: ce)
qed auto

lemma put_row_reads:
  assumes "i_ops c = ops" and "\<not> of_kind ''ingest_watermark'' t (row_obj r)" and "\<not> of_kind ''build_artifact'' t (row_obj r)"
  shows "wm (w_store (put_row c t r w)) = wm (w_store w)"
    and "fst (mo_read ops m k (w_store (put_row c t r w))) = fst (mo_read ops m k (w_store w))"
  using assms by (simp_all add: put_row_def wm_def get_write read_write)

lemma save_state_reads:
  assumes "i_ops c = ops"
  shows "wm (w_store (save_state c st w)) = wm (w_store w)"
    and "fst (mo_read ops m k (w_store (save_state c st w))) = fst (mo_read ops m k (w_store w))"
  unfolding save_state_def
  by (rule put_row_reads [OF assms]; simp add: state_row_kind ACTIVATION_STATE_TYPE_def)+

lemma gov_audit_reads:
  assumes "i_ops c = ops"
  shows "wm (w_store (gov_audit c e a d w)) = wm (w_store w)"
    and "fst (mo_read ops m k (w_store (gov_audit c e a d w))) = fst (mo_read ops m k (w_store w))"
  unfolding gov_audit_def
  by (rule put_row_reads [OF assms]; simp add: of_kind_def)+

lemma gov_act_reads:
  assumes "i_ops c = ops" and "gov_act c st w = Some (action, st1, w2)"
  shows "wm (w_store w2) = wm (w_store w)"
    and "fst (mo_read ops m k (w_store w2)) = fst (mo_read ops m k (w_store w))"
  using assms(2) by (auto simp: gov_act_def Let_def write_latch_def gov_audit_reads [OF assms(1)] split: if_splits)

lemma gov_veto_reads:
  assumes "i_ops c = ops"
  shows "wm (w_store (snd (gov_veto c st w))) = wm (w_store w)"
    and "fst (mo_read ops m k (w_store (snd (gov_veto c st w)))) = fst (mo_read ops m k (w_store w))"
  by (auto simp: gov_veto_def Let_def remove_latch_def save_state_reads [OF assms] gov_audit_reads [OF assms]
      split: option.splits if_splits)

lemma gov_reads:
  assumes c: "i_ops c = ops"
  shows "wm (w_store (snd (gov_run_once c w))) = wm (w_store w)"
    and "fst (mo_read ops m k (w_store (snd (gov_run_once c w)))) = fst (mo_read ops m k (w_store w))"
proof -
  have "wm (w_store (snd (gov_run_once c w))) = wm (w_store w)
    \<and> fst (mo_read ops m k (w_store (snd (gov_run_once c w)))) = fst (mo_read ops m k (w_store w))"
  proof (cases rule: gov_run_once_cases [of c w])
    case raised
    then show ?thesis using raised_store [OF c raised] by simp
  next
    case (vetoed st s f)
    then show ?thesis using load_pure [OF c vetoed(1)] by (simp add: gov_veto_reads [OF c])
  next
    case (governed st s f a w1 action st1 w2)
    have "w_store w1 = w_store w"
      using assess_store [OF c, of st "w\<lparr>w_store := s, w_fs := f\<rparr>"] load_pure [OF c governed(1)]
      unfolding governed(4) by simp
    then show ?thesis
      using gov_act_reads [OF c governed(5)] by (simp add: governed(6) save_state_reads [OF c])
  qed
  then show "wm (w_store (snd (gov_run_once c w))) = wm (w_store w)"
    and "fst (mo_read ops m k (w_store (snd (gov_run_once c w)))) = fst (mo_read ops m k (w_store w))" by simp_all
qed

end

subsection \<open>The latch across one cycle\<close>

lemma raised_files:
  assumes "fst (gov_run_once c w) = None"
  shows "fs_get (w_fs (snd (gov_run_once c w))) q = fs_get (w_fs w) q"
proof (cases "fst (load_state c (w_store w)) = None \<or> mkdirs (i_home c) (w_fs w) = None")
  case True
  then show ?thesis by (auto simp: gov_run_once_def split: prod.splits option.splits)
next
  case False
  then obtain st s f where st: "load_state c (w_store w) = (Some st, s)" "mkdirs (i_home c) (w_fs w) = Some f"
    by (metis option.exhaust prod.collapse)
  let ?w = "w\<lparr>w_store := s, w_fs := f\<rparr>"
  have "w_fs (snd (gov_govern c st ?w)) = f" if "fst (gov_govern c st ?w) = None"
    using that assess_cycle_fs [of c st ?w] by (auto simp: gov_govern_def simp del: assess_cycle_fs split: prod.splits option.splits)
  moreover have "w_fs (snd (gov_veto c st ?w)) = f" if "fst (gov_veto c st ?w) = None"
    using that by (auto simp: gov_veto_def Let_def split: option.splits if_splits)
  ultimately have "w_fs (snd (gov_run_once c w)) = f"
    using assms by (cases "is_vetoed c f") (simp_all add: gov_run_once_def st Let_def)
  with st(2) show ?thesis by simp
qed

lemma vetoed_after_mkdirs: "mkdirs (i_home c) (w_fs w) = Some f \<Longrightarrow> is_vetoed c f = is_vetoed c (w_fs w)"
  by (simp add: is_vetoed_def latch_not_ancestor)

lemma inactive_veto_files:
  "\<not> activated st \<Longrightarrow> w_fs (snd (gov_veto c st w)) = w_fs w"
  by (simp add: gov_veto_def Let_def)

lemma assessed_green:
  assumes "fst (assess_cycle c st w) = Some a" and "green a"
  shows "smoke_ok a \<and> false_promotes a = 0
    \<and> (comparable a = 0 \<or> of_nat (agreed a) / of_nat (comparable a) \<ge> min_agreement (g_criteria c))"
  using assms by (auto simp: assess_cycle_def Let_def split_beta mk_assessment_def tally_agreement_def
      split: option.splits if_splits)

lemma cycle_files:
  assumes "q \<noteq> latch_path c"
  shows "fs_get (w_fs (snd (gov_run_once c w))) q = fs_get (w_fs w) q"
proof (cases rule: gov_run_once_cases [of c w])
  case raised
  then show ?thesis by (rule raised_files)
next
  case (vetoed st s f)
  have "fs_get (w_fs (snd (gov_veto c st v))) q = fs_get (w_fs v) q" for v
    using assms by (auto simp: gov_veto_def Let_def remove_latch_def unlink_get split: option.splits if_splits)
  with vetoed(2) show ?thesis by (simp add: vetoed(4))
next
  case (governed st s f a w1 action st1 w2)
  have "w_fs w1 = f" using assess_cycle_fs [of c st "w\<lparr>w_store := s, w_fs := f\<rparr>"] by (simp add: governed(4))
  then show ?thesis
    using gov_act_latch [OF governed(5), of q] assms governed(2) by (simp add: governed(6))
qed

subsection \<open>A concrete governor\<close>

definition gov_test :: "int \<Rightarrow> bool option \<Rightarrow> mem_store gcfg" where
  "gov_test n verdict = \<lparr>i_ops = mem_ops, i_host = \<lparr>probe = (\<lambda>s. Inr NoScore), events = (\<lambda>s. Inr [])\<rparr>,
     i_env = (\<lambda>_. None), i_home = path_of ''/h'', i_enabled = None, i_limit = 40, i_now = ''now'',
     i_brk_now = Iso 0, i_uuid = (\<lambda>s. ''00000000''), g_gate8 = (\<lambda>s. verdict),
     g_criteria = \<lparr>min_consecutive_green = n, min_agreeing_artifacts = 1, min_agreement = 95 / 100,
       min_agreement_text = ''0.95''\<rparr>, g_auto = True, g_tmp = path_of ''/t'', g_fmt2 = (\<lambda>r. ''1.00''), g_mtime = 0\<rparr>"

definition gov_fs :: fs where
  "gov_fs = \<lparr>files = [(path_of ''/h/a.md'', \<lparr>body = Text ''ok'', mtime = 0\<rparr>)],
     dirs = [path_of ''/'', path_of ''/h''], noread = [], nowrite = []\<rparr>"

text \<open>One pending artifact, and the rows written so far.\<close>

definition gov_world :: "fs \<Rightarrow> (string \<times> mrow) list \<Rightarrow> mem_store iworld" where
  "gov_world f ws = \<lparr>w_fs = f,
     w_brk = \<lparr>sfile = StoredDoc (dump_state default_state), backups = [], lock_busy = False\<rparr>,
     w_store = \<lparr>ms_artifacts = [(''1'', CVal (JObj [(''file'', JStr ''a.md''), (''built_at'', JStr ''t1'')]))],
        ms_watermark = None, ms_writes = ws\<rparr>\<rparr>"

lemma test_ops [simp]: "i_ops (gov_test n v) = mem_ops"
  by (simp add: gov_test_def)

lemma mem_setup: "gov_setup mem_ops n (gov_test n v, \<lambda>w. w)"
  by (simp add: gov_setup_def gov_test_def)

lemma saved_test:
  "gov_loaded (gov_test n v) (gov_world f [(''mesh_memory'', state_row st)])
     = Some (st\<lparr>agreeing_artifacts := map json_sort (agreeing_artifacts st)\<rparr>)"
  by (simp add: gov_loaded_def load_state_def mem_defs state_row_def gov_world_def state_roundtrip)

definition http_test :: "(string \<times> jobj) list gcfg" where
  "http_test = \<lparr>i_ops = http_ops table_post table_read, i_host = \<lparr>probe = (\<lambda>s. Inr NoScore), events = (\<lambda>s. Inr [])\<rparr>,
     i_env = (\<lambda>_. None), i_home = path_of ''/h'', i_enabled = None, i_limit = 40, i_now = ''now'',
     i_brk_now = Iso 0, i_uuid = (\<lambda>s. ''00000000''), g_gate8 = (\<lambda>s. Some True), g_criteria = default_criteria,
     g_auto = True, g_tmp = path_of ''/t'', g_fmt2 = (\<lambda>r. ''1.00''), g_mtime = 0\<rparr>"

definition http_world :: "(string \<times> jobj) list iworld" where
  "http_world = \<lparr>w_fs = gov_fs,
     w_brk = \<lparr>sfile = StoredDoc (dump_state default_state), backups = [], lock_busy = False\<rparr>, w_store = []\<rparr>"

lemma http_test_ops: "i_ops http_test = http_ops table_post table_read"
  by (simp add: http_test_def)

lemma http_setup: "gov_setup (http_ops table_post table_read) 3 (http_test, \<lambda>w. w)"
  by (simp add: gov_setup_def http_test_def default_criteria_def)

lemma http_fresh: "gov_row (http_ops table_post table_read) http_world = None"
  by (simp add: gov_row_def http_ops_def table.http_latest_asks table_asks table_answer_def latest_no_read http_world_def)

text \<open>
  What the laws leave out: when the query for the governor's row answers nothing, as it does for any failure of the
  HTTP store, a cycle takes the fresh state for its own, and so its counts start again.
\<close>

lemma failed_query_forgets:
  assumes "fst (mo_latest (i_ops c) ACTIVATION_STATE_TYPE GOVERNOR_AGENT_ID (w_store w)) = None"
  shows "gov_loaded c w = Some gov_state0"
  using assms by (simp add: gov_loaded_def load_state_def Let_def split_beta state_from_json_def)

lemma dead_service_forgets:
  "i_ops c = http_ops (\<lambda>path p s. ([], s)) rd \<Longrightarrow> gov_loaded c w = Some gov_state0"
  by (rule failed_query_forgets) (simp add: http_ops_def dead_service)

subsection \<open>Properties\<close>

text \<open>C4: while the governor's state, as a cycle loads it, says that the ingestor is not active, and the criteria
  ask for at least one green cycle, that cycle touches the latch only when it activates, over whatever store: there is no
  veto, activation is automatic, this cycle's assessment is green (smoke test passed, no false promotion, and among
  the artifacts that gate 8 has judged the asked share agrees), the counters after it meet every criterion, the latch
  holds the label with this evidence, and the last thing the cycle does is to write the state as active to the store.\<close>

theorem activation_needs_evidence:
  assumes "load_state c (w_store w) = (Some st, s)" and "\<not> activated st"
    and "0 < min_consecutive_green (g_criteria c)"
    and "fs_get (w_fs (snd (gov_run_once c w))) (latch_path c) \<noteq> fs_get (w_fs w) (latch_path c)"
  shows "\<not> is_vetoed c (w_fs w) \<and> g_auto c
    \<and> (\<exists>f (a :: assessment) st1 w2. mkdirs (i_home c) (w_fs w) = Some f
        \<and> fst (assess_cycle c st (w\<lparr>w_store := s, w_fs := f\<rparr>)) = Some a
        \<and> green a \<and> smoke_ok a \<and> false_promotes a = 0
        \<and> (comparable a = 0 \<or> of_nat (agreed a) / of_nat (comparable a) \<ge> min_agreement (g_criteria c))
        \<and> gov_ready (g_criteria c) (count_cycle a st)
        \<and> st1 = (count_cycle a st)\<lparr>activated := True, activated_at := i_now c\<rparr>
        \<and> fs_get (w_fs (snd (gov_run_once c w))) (latch_path c)
            = Some \<lparr>body = Doc (latch_label c st1 (gov_evidence (count_cycle a st))), mtime = g_mtime c\<rparr>
        \<and> snd (gov_run_once c w) = save_state c st1 w2
        \<and> (i_enabled c = None \<longrightarrow> ing_enabled c (w_fs (snd (gov_run_once c w)))))"
proof (cases rule: gov_run_once_cases [of c w])
  case raised
  then show ?thesis using raised_files [OF raised] assms(4) by simp
next
  case (vetoed st1 s1 f)
  then have "st1 = st" using assms(1) by simp
  then have "w_fs (snd (gov_run_once c w)) = f"
    using inactive_veto_files [of st c] assms(2) by (simp add: vetoed(4))
  with vetoed(2) assms(4) show ?thesis by simp
next
  case (governed st0 s0 f a w1 action st1 w2)
  have st0: "st0 = st" "s0 = s" using governed(1) assms(1) by simp_all
  have "w_fs w1 = f" using assess_cycle_fs [of c st0 "w\<lparr>w_store := s0, w_fs := f\<rparr>"] by (simp add: governed(4))
  then have old: "fs_get (w_fs w1) (latch_path c) = fs_get (w_fs w) (latch_path c)" using governed(2) by simp
  have a: "fst (assess_cycle c st (w\<lparr>w_store := s, w_fs := f\<rparr>)) = Some a" using governed(4) by (simp add: st0)
  have na: "\<not> activated (count_cycle a st)" using assms(2) by (simp add: count_cycle_def)
  have act: "activated st1" "fs_get (w_fs w2) (latch_path c) = Some \<lparr>body = Doc (latch_label c st1
        (gov_evidence (count_cycle a st))), mtime = g_mtime c\<rparr>"
    using gov_act_latch [OF governed(5), of "latch_path c"] assms(4) old na by (auto simp: st0 governed(6))
  have st1: "st1 = (count_cycle a st)\<lparr>activated := True, activated_at := i_now c\<rparr>"
    using governed(5) act(1) na by (auto simp: gov_act_def Let_def st0 split: if_splits)
  have ready: "gov_ready (g_criteria c) (count_cycle a st)" and auto: "g_auto c"
    using gov_act_activates [OF governed(5)] act(1) na by (auto simp: st0)
  have green: "green a" using ready assms(3) by (auto simp: gov_ready_def count_cycle_def split: if_splits)
  have run: "snd (gov_run_once c w) = save_state c st1 w2" by (simp add: governed(6))
  then have fs: "w_fs (snd (gov_run_once c w)) = w_fs w2" by simp
  have on: "i_enabled c = None \<longrightarrow> ing_enabled c (w_fs (snd (gov_run_once c w)))"
    using act(2) unfolding fs by (simp add: ing_enabled_def fs_exists_def is_file_def latch_path_def)
  have v: "\<not> is_vetoed c (w_fs w)" using governed(3) by (simp add: vetoed_after_mkdirs [OF governed(2)])
  note parts = governed(2) a green assessed_green [OF a green] ready st1 act(2) [folded fs] run on
  show ?thesis
    by (intro conjI exI [of _ f] exI [of _ a] exI [of _ st1] exI [of _ w2] v auto) (use parts in \<open>blast+\<close>)
qed

theorem activation_needs_evidence_witness:
  "\<exists>st1 w2. activated st1 \<and> snd (gov_run_once (gov_test 1 (Some True)) (gov_world gov_fs []))
     = save_state (gov_test 1 (Some True)) st1 w2"
proof -
  let ?c = "gov_test 1 (Some True)" and ?w = "gov_world gov_fs []"
  have l: "load_state ?c (w_store ?w) = (Some gov_state0, w_store ?w)"
    by (simp add: load_state_def mem_defs gov_world_def state_from_json_def)
  have "fs_get (w_fs (snd (gov_run_once ?c ?w))) (latch_path ?c) \<noteq> None" "fs_get (w_fs ?w) (latch_path ?c) = None"
    by code_simp+
  then have d: "fs_get (w_fs (snd (gov_run_once ?c ?w))) (latch_path ?c) \<noteq> fs_get (w_fs ?w) (latch_path ?c)" by simp
  have k: "\<not> activated gov_state0" "0 < min_consecutive_green (g_criteria ?c)"
    by (simp_all add: gov_state0_def gov_test_def)
  obtain a w2 where "snd (gov_run_once ?c ?w) = save_state ?c ((count_cycle a gov_state0)\<lparr>activated := True, activated_at := i_now ?c\<rparr>) w2"
    using activation_needs_evidence [OF l k d] by blast
  then show ?thesis
    by (intro exI [of _ "(count_cycle a gov_state0)\<lparr>activated := True, activated_at := i_now ?c\<rparr>"] exI [of _ w2] conjI) simp_all
qed

text \<open>C25: over a fresh store that answers every request and keeps what it is sent (the laws \<open>mesh_store\<close>: the store in
  memory has them, and the HTTP store over a service that has those of \<open>mesh_service\<close>) the governor cannot activate before
  as many cycles as the criteria ask for: whatever happens between the cycles, short of writing the governor's own
  row, and whatever the clock, the veto and gate 8 are in each, after fewer cycles its state is not active and has
  counted at most one green cycle for each.\<close>

theorem activation_takes_cycles:
  assumes "mesh_store ops" and "i_ops c = ops" and "gov_row ops w = None" and "list_all (gov_setup ops n) cs"
    and "int (length cs) < n"
  shows "\<exists>st. gov_loaded c (gov_run cs w) = Some st \<and> \<not> activated st \<and> consecutive_green st \<le> int (length cs)"
proof -
  have "mesh_store.loaded ops w = Some gov_state0"
    by (simp add: mesh_store.loaded_def [OF assms(1)] assms(3) state_from_json_def)
  moreover have "not_yet 0 gov_state0" by (simp add: not_yet_def gov_state0_def text_state_def)
  ultimately show ?thesis
    using mesh_store.run_not_yet [OF assms(1,4), of w gov_state0 0] assms(5)
    by (auto simp: mesh_store.loaded_gov [OF assms(1,2)] not_yet_def)
qed

theorem activation_takes_cycles_witness:
  "(\<exists>st. gov_loaded (gov_test 3 (Some True)) (gov_run [(gov_test 3 (Some True), \<lambda>w. w), (gov_test 3 (Some True), \<lambda>w. w)]
       (gov_world gov_fs [])) = Some st \<and> \<not> activated st \<and> consecutive_green st \<le> 2)
   \<and> (\<exists>st. gov_loaded http_test (gov_run [(http_test, \<lambda>w. w), (http_test, \<lambda>w. w)] http_world) = Some st
      \<and> \<not> activated st \<and> consecutive_green st \<le> 2)"
proof
  show "\<exists>st. gov_loaded (gov_test 3 (Some True)) (gov_run [(gov_test 3 (Some True), \<lambda>w. w), (gov_test 3 (Some True), \<lambda>w. w)]
       (gov_world gov_fs [])) = Some st \<and> \<not> activated st \<and> consecutive_green st \<le> 2"
    using activation_takes_cycles [of mem_ops "gov_test 3 (Some True)" "gov_world gov_fs []" 3
        "[(gov_test 3 (Some True), \<lambda>w. w), (gov_test 3 (Some True), \<lambda>w. w)]"]
      mem.mesh_store_axioms mem_setup
    by (simp add: gov_row_def mem_defs gov_world_def)
  show "\<exists>st. gov_loaded http_test (gov_run [(http_test, \<lambda>w. w), (http_test, \<lambda>w. w)] http_world) = Some st
      \<and> \<not> activated st \<and> consecutive_green st \<le> 2"
    using activation_takes_cycles [OF table.http.mesh_store_axioms, of http_test http_world 3
        "[(http_test, \<lambda>w. w), (http_test, \<lambda>w. w)]"] http_setup http_fresh
    by (simp add: http_test_ops)
qed

text \<open>C19: over a store that answers every request and keeps what it is sent (the laws \<open>mesh_store\<close>; after a request that
  fails the governor forgets, \<open>failed_query_forgets\<close>) one false promotion before activation blocks it for good: once
  the state that the governor has written counts one and is not active, no run of cycles, whatever happens between
  them short of writing the governor's own row, makes it active again or forgets the false promotion.\<close>

theorem false_promote_blocks_forever:
  assumes "mesh_store ops" and "i_ops c = ops" and "gov_loaded c w = Some st" and "text_state st" and "\<not> activated st"
    and "0 < lifetime_false_promotes st" and "list_all (gov_setup ops n) cs"
  shows "\<exists>st'. gov_loaded c (gov_run cs w) = Some st' \<and> \<not> activated st' \<and> 0 < lifetime_false_promotes st'"
  using mesh_store.run_blocked [OF assms(1,7), of w st] assms(3-6)
  by (auto simp: mesh_store.loaded_gov [OF assms(1,2)] blocked_def)

theorem false_promote_blocks_forever_witness:
  "(\<exists>st'. gov_loaded (gov_test 3 (Some True)) (gov_run [(gov_test 3 (Some True), \<lambda>w. w)]
      (gov_world gov_fs [(''mesh_memory'', state_row (gov_state0\<lparr>lifetime_false_promotes := 2\<rparr>))])) = Some st'
     \<and> \<not> activated st' \<and> 0 < lifetime_false_promotes st')
   \<and> (\<exists>st'. gov_loaded http_test (gov_run [(http_test, \<lambda>w. w)] (save_state http_test (gov_state0\<lparr>lifetime_false_promotes := 2\<rparr>) http_world))
      = Some st' \<and> \<not> activated st' \<and> 0 < lifetime_false_promotes st')"
proof
  have t: "text_state (gov_state0\<lparr>lifetime_false_promotes := 2\<rparr>)" by (simp add: text_state_def gov_state0_def)
  show "\<exists>st'. gov_loaded (gov_test 3 (Some True)) (gov_run [(gov_test 3 (Some True), \<lambda>w. w)]
      (gov_world gov_fs [(''mesh_memory'', state_row (gov_state0\<lparr>lifetime_false_promotes := 2\<rparr>))])) = Some st'
     \<and> \<not> activated st' \<and> 0 < lifetime_false_promotes st'"
    by (rule false_promote_blocks_forever [OF mem.mesh_store_axioms test_ops saved_test, of _ 3])
      (simp_all add: gov_state0_def mem_setup text_state_def)
  show "\<exists>st'. gov_loaded http_test (gov_run [(http_test, \<lambda>w. w)] (save_state http_test (gov_state0\<lparr>lifetime_false_promotes := 2\<rparr>) http_world))
      = Some st' \<and> \<not> activated st' \<and> 0 < lifetime_false_promotes st'"
    by (rule false_promote_blocks_forever [OF table.http.mesh_store_axioms http_test_ops
          table.http.saved_loaded [OF http_test_ops http_test_ops t], of 3])
      (use t in \<open>simp_all add: gov_state0_def http_setup text_stored_state\<close>)
qed

text \<open>Under a veto a cycle always returns and judges nothing (the breaker is not asked). It leaves
  the state inactive with the same count; when the state was active the latch is gone and an
  ingestor without another switch is dormant; when it was not, a latch that somebody else opened stays.\<close>

theorem veto_freezes:
  assumes "mesh_store (i_ops c)" and "gov_loaded c w = Some st" and "text_state st" and "work_dir (w_fs w) (i_home c)"
    and "is_vetoed c (w_fs w)"
  shows "\<exists>d w'. gov_run_once c w = (Some d, w') \<and> w_brk w' = w_brk w
    \<and> (\<exists>st'. gov_loaded c w' = Some st' \<and> \<not> activated st' \<and> consecutive_green st' = consecutive_green st)
    \<and> (activated st \<longrightarrow> \<not> fs_exists (w_fs w') (latch_path c))
    \<and> (activated st \<longrightarrow> i_enabled c = None \<longrightarrow> \<not> env_on (i_env c) ''ARTIFACT_INGESTOR_ENABLED'' \<longrightarrow>
          \<not> ing_enabled c (w_fs w'))
    \<and> (\<not> activated st \<longrightarrow> fs_get (w_fs w') (latch_path c) = fs_get (w_fs w) (latch_path c))"
proof -
  obtain f where f: "mkdirs (i_home c) (w_fs w) = Some f" "work_dir f (i_home c)"
    using work_dir_mkdirs [OF assms(4)] by blast
  obtain s where l: "load_state c (w_store w) = (Some st, s)"
    using assms(2) by (metis gov_loaded_def prod.collapse)
  let ?w = "w\<lparr>w_store := s, w_fs := f\<rparr>"
  have v: "is_vetoed c f" using assms(5) vetoed_after_mkdirs [OF f(1)] by simp
  have r: "gov_run_once c w = gov_veto c st ?w" by (simp add: gov_run_once_def l f(1) v)
  note saved = mesh_store.saved_loaded [OF assms(1) refl refl]
  show ?thesis
  proof (cases "activated st")
    case True
    obtain w1 where w1: "remove_latch c ?w = Some w1" "w_brk w1 = w_brk w" "\<not> fs_exists (w_fs w1) (latch_path c)"
    proof (cases "is_file f (latch_path c)")
      case True
      then obtain g where g: "unlink (latch_path c) f = Some g" "work_dir g (i_home c)"
        using work_dir_unlink [OF f(2)] unfolding latch_path_def by blast
      then have "\<not> fs_exists g (latch_path c)"
        using unlink_get [OF g(1)] work_dirD(4) [OF g(2)]
        by (simp add: fs_exists_def is_file_def latch_path_def)
      with g True show ?thesis by (intro that [of "?w\<lparr>w_fs := g\<rparr>"]) (simp_all add: remove_latch_def fs_exists_def)
    next
      case False
      then have "\<not> fs_exists f (latch_path c)" using work_dirD(4) [OF f(2)] by (simp add: fs_exists_def latch_path_def)
      then show ?thesis by (intro that [of ?w]) (simp_all add: remove_latch_def)
    qed
    then have "\<not> ing_enabled c (w_fs w1)" if "i_enabled c = None" "\<not> env_on (i_env c) ''ARTIFACT_INGESTOR_ENABLED''"
      using that by (simp add: ing_enabled_def latch_path_def)
    with w1 True show ?thesis by (simp add: r gov_veto_def Let_def saved assms(3))
  next
    case False
    then show ?thesis using f(1) assms(3) by (simp add: r gov_veto_def Let_def saved)
  qed
qed

theorem veto_freezes_witness:
  "\<exists>d w'. gov_run_once (gov_test 3 None) (gov_world (gov_fs\<lparr>files := [(path_of ''/h/.no_auto_activate'', \<lparr>body = Text [], mtime = 0\<rparr>),
        (path_of ''/h/.ingestor_enabled'', \<lparr>body = Text [], mtime = 0\<rparr>)]\<rparr>)
        [(''mesh_memory'', state_row (gov_state0\<lparr>activated := True\<rparr>))]) = (Some d, w')
     \<and> \<not> fs_exists (w_fs w') (latch_path (gov_test 3 None))"
proof -
  let ?f = "gov_fs\<lparr>files := [(path_of ''/h/.no_auto_activate'', \<lparr>body = Text [], mtime = 0\<rparr>),
        (path_of ''/h/.ingestor_enabled'', \<lparr>body = Text [], mtime = 0\<rparr>)]\<rparr>"
  have "work_dir ?f (path_of ''/h'')" "is_vetoed (gov_test 3 None) ?f" by code_simp+
  then show ?thesis
    using veto_freezes [OF _ saved_test, of 3 None "gov_state0\<lparr>activated := True\<rparr>" ?f] mem.mesh_store_axioms
    by (auto simp: gov_test_def gov_world_def text_state_def gov_state0_def)
qed

text \<open>The governor only judges: whatever a cycle does and also when it raises, the pending rows and
  the watermark of the ingestor are read as before it, and no file but the latch has changed.\<close>

theorem governor_only_judges:
  assumes "mesh_store (i_ops c)"
  shows "fst (mo_get_wm (i_ops c) (w_store (snd (gov_run_once c w)))) = fst (mo_get_wm (i_ops c) (w_store w))
    \<and> fst (mo_read (i_ops c) m k (w_store (snd (gov_run_once c w)))) = fst (mo_read (i_ops c) m k (w_store w))
    \<and> (\<forall>q. q = latch_path c \<or> fs_get (w_fs (snd (gov_run_once c w))) q = fs_get (w_fs w) q)"
proof (intro conjI allI)
  show "q = latch_path c \<or> fs_get (w_fs (snd (gov_run_once c w))) q = fs_get (w_fs w) q" for q
    using cycle_files [of q c w] by blast
qed (use mesh_store.gov_reads [OF assms refl] mesh_store.wm_def [OF assms] in simp_all)

theorem governor_only_judges_witness:
  "fst (mo_get_wm mem_ops (w_store (snd (gov_run_once (gov_test 3 None) (gov_world gov_fs []))))) = None"
  using governor_only_judges [of "gov_test 3 None" "gov_world gov_fs []"] mem.mesh_store_axioms
  by (simp add: mem_defs gov_world_def)

end
