(* ===== verification/HollowGate.thy ===== *)
theory HollowGate
  imports PyRegex
begin

text \<open>
  \<open>zo_sentinel/gates/hollow.py\<close>: the rule that refuses modules which look like a feature
  and are not wired to anything. Parsing is an argument: \<open>parse\<close> gives the statements of
  a module's text, its SyntaxError, or another exception (which the rule does not catch).
\<close>

subsection \<open>Modules\<close>

text \<open>
  The statements the rule looks at. A value expression records whether it is a string constant,
  a conditional the dump of its test, an assignment the name of each target that is a plain
  name, an import its names with their aliases; every statement that holds others holds them.
\<close>

datatype pstmt =
    SExpr bool
  | SPass
  | SAssert
  | SIf string "pstmt list" "pstmt list"
  | SAssign "string option list"
  | SAnnAssign "string option"
  | SDef string "pstmt list"
  | SImport "(string \<times> string option) list"
  | SOther "pstmt list"

datatype parsed = Parsed "pstmt list" | BadSyntax | ParseRaises

subsection \<open>Patterns\<close>

definition MOCK :: re where
  "MOCK = ralts
     [rseqs [rilit ''class'', rplus (RChr is_space), rilit ''Mock''],
      rilit ''MockDB'', rilit ''mock database'', rilit ''mock data'', rilit ''placeholder'', rilit ''dummy data'',
      rilit ''simulate fetching'',
      rseqs [rilit ''in-memory '', ralts [rilit ''db'', rilit ''database'']],
      rseqs [rilit ''#'', RStar (RChr (\<lambda>c. c = CHR '' '')), rilit ''Mock'']]"

definition get_or_post :: re where
  "get_or_post = ralts [rlit ''get'', rlit ''post'']"

definition BUILDS_API :: re where
  "BUILDS_API = ralts
     [rlit ''FastAPI('', rlit ''APIRouter('', RSeq (rlit ''@app.'') get_or_post, RSeq (rlit ''@router.'') get_or_post]"

definition REAL_LAYER :: re where
  "REAL_LAYER = ralts
     [rlit ''from app.db'', rlit ''from app.models'', rlit ''import app.db'', rlit ''app.models import'',
      rlit ''get_session'', rlit ''from app import'', rlit ''import verdict_breakdown_api'']"

definition SERVICE_MEMBER :: re where
  "SERVICE_MEMBER = rseqs
     [RAlt RBegin (RChr (\<lambda>c. c = CHR ''/'')), rlit ''services/'', ralts [rlit ''staged'', rlit ''active''], rlit ''/'',
      rplus (RChr (\<lambda>c. c \<noteq> CHR ''/'')), rlit ''/'',
      RGroup 1 (ralts [rlit ''contract'', rlit ''logic'', rlit ''router'']), rlit ''.py'', REnd]"

subsection \<open>What a module holds\<close>

text \<open>Top-level statements without a module docstring and without \<open>pass\<close>.\<close>

definition substantive_body :: "pstmt list \<Rightarrow> pstmt list" where
  "substantive_body body =
     filter (\<lambda>n. n \<noteq> SPass) (case body of SExpr True # rest \<Rightarrow> rest | _ \<Rightarrow> body)"

fun has_assert :: "pstmt \<Rightarrow> bool"
and any_assert :: "pstmt list \<Rightarrow> bool" where
  "has_assert SAssert = True"
| "has_assert (SIf t b e) = (any_assert b \<or> any_assert e)"
| "has_assert (SDef n b) = any_assert b"
| "has_assert (SOther b) = any_assert b"
| "has_assert s = False"
| "any_assert [] = False"
| "any_assert (s # ss) = (has_assert s \<or> any_assert ss)"

definition has_live_main :: "pstmt list \<Rightarrow> bool" where
  "has_live_main body = list_ex (\<lambda>n. case n of
     SIf t b e \<Rightarrow> substr_in ''__name__'' t \<and> list_ex (\<lambda>x. x \<noteq> SPass) b | _ \<Rightarrow> False) body"

definition import_binds :: "string \<times> string option \<Rightarrow> string" where
  "import_binds a = (case snd a of
     Some w \<Rightarrow> if w = [] then hd (split_on (CHR ''.'') (fst a)) else w
   | None \<Rightarrow> hd (split_on (CHR ''.'') (fst a)))"

fun stmt_binds :: "string \<Rightarrow> pstmt \<Rightarrow> bool" where
  "stmt_binds name (SAssign ts) = (Some name \<in> set ts)"
| "stmt_binds name (SAnnAssign t) = (t = Some name)"
| "stmt_binds name (SDef n b) = (n = name)"
| "stmt_binds name (SImport as) = (name \<in> set (map import_binds as))"
| "stmt_binds name _ = False"

definition binds_name :: "pstmt list \<Rightarrow> string \<Rightarrow> bool" where
  "binds_name body name = list_ex (stmt_binds name) body"

subsection \<open>The scans\<close>

definition slash_path :: "string \<Rightarrow> string" where
  "slash_path fp = replace_char (CHR 0x5C) ''/'' fp"

definition member_kind :: "string \<Rightarrow> string option" where
  "member_kind fp = (case re_search SERVICE_MEMBER (slash_path fp) of None \<Rightarrow> None | Some m \<Rightarrow> mgroup m 1)"

definition empty_reason :: string where
  "empty_reason = ''hollow service member: zero top-level statements -- the file is comment/docstring only, so importing it can never fail and its exit-0 is a liveness proof of the interpreter, not of the service''"

definition contract_reason :: string where
  "contract_reason = ''hollow contract: no `assert` anywhere and no live `__main__` block -- a contract that cannot fail is not a contract, and promote_staged_to_active reads its exit-0 as contract_ok=True''"

definition router_reason :: string where
  "router_reason = ''hollow router: parses but binds no module-level `router` symbol -- a router.py MUST expose `router = APIRouter(...)` (the attribute generate_spine/include_spine mounts), mirror services/_exemplar/router.py. The written content is not a router module (a path string, a JSON blob, the generating ''
     @ [CHR ''m'', CHR ''o'', CHR ''d'', CHR ''e'', CHR ''l'', CHR 0x27]
     @ ''s prose, or logic.py content mislanded here), so the service can never be mounted or promoted.''"

text \<open>The reason for refusing, \<open>Some None\<close> for none; \<open>None\<close> when parsing raises.\<close>

definition hollow_service_member_scan :: "(string \<Rightarrow> parsed) \<Rightarrow> string \<Rightarrow> string \<Rightarrow> string option option" where
  "hollow_service_member_scan parse fp source =
     (case member_kind fp of
        None \<Rightarrow> Some None
      | Some kind \<Rightarrow>
        (case parse source of
           ParseRaises \<Rightarrow> None
         | BadSyntax \<Rightarrow> Some None
         | Parsed body \<Rightarrow> Some
            (if substantive_body body = [] then Some empty_reason
             else if kind = ''contract'' \<and> \<not> (any_assert body \<or> has_live_main body) then Some contract_reason
             else if kind = ''router'' \<and> \<not> binds_name body ''router'' then Some router_reason
             else None)))"

definition mock_reason :: string where
  "mock_reason = ''hollow scaffold: mock/placeholder DB (no-hollow CI would reject)''"

definition standalone_reason :: string where
  "standalone_reason = ''hollow scaffold: standalone API with no real data layer (app.db/app.models) (no-hollow CI would reject)''"

definition hollow_root_scan :: "string \<Rightarrow> string option" where
  "hollow_root_scan source =
     (if re_found MOCK source then Some mock_reason
      else if re_found BUILDS_API source \<and> \<not> re_found REAL_LAYER source then Some standalone_reason
      else None)"

definition hollow_scaffold_scan :: "(string \<Rightarrow> parsed) \<Rightarrow> string \<Rightarrow> string \<Rightarrow> string option option" where
  "hollow_scaffold_scan parse fp source =
     (if \<not> endswith fp ''.py'' then Some None
      else (case hollow_service_member_scan parse fp source of
         None \<Rightarrow> None
       | Some (Some r) \<Rightarrow> Some (Some r)
       | Some None \<Rightarrow>
         (if CHR ''/'' \<in> set fp \<or> CHR 0x5C \<in> set fp then Some None else Some (hollow_root_scan source))))"


subsection \<open>Which paths are members\<close>

definition not_slash :: "char \<Rightarrow> bool" where
  "not_slash c = (c \<noteq> CHR ''/'')"

definition member_file :: "string \<Rightarrow> string \<Rightarrow> string \<Rightarrow> string" where
  "member_file lane w kind = ''services/'' @ lane @ ''/'' @ w @ ''/'' @ kind @ ''.py''"

lemma member_match:
  assumes "list_all not_slash w" and "w \<noteq> []" and "lane \<in> {''staged'', ''active''}" and "kind \<in> {''contract'', ''logic'', ''router''}"
  shows "\<exists>t ts. rmatch SERVICE_MEMBER ([], [], member_file lane w kind) = t # ts \<and> m_caps t = [(1, kind)]"
proof -
  define q where "q = RSeq (rlit ''/'') (RSeq (RGroup 1 (ralts [rlit ''contract'', rlit ''logic'', rlit ''router''])) (RSeq (rlit ''.py'') REnd))"
  have q0: "rmatch q (caps, bef, x # u) = []" if "not_slash x" for caps bef x u
    using that by (simp add: q_def rlit_match startswith_def not_slash_def)
  have q1: "\<exists>t. rmatch q (caps, bef, CHR ''/'' # kind @ ''.py'') = [t] \<and> m_caps t = (1, kind) # caps" for caps bef
    using assms(4) by (elim insertE emptyE; simp add: q_def rlit_match startswith_def m_rest_def m_before_def m_caps_def)
  have sm: "SERVICE_MEMBER = RSeq (RAlt RBegin (RChr (\<lambda>c. c = CHR ''/''))) (RSeq (rlit ''services/'')
      (RSeq (ralts [rlit ''staged'', rlit ''active'']) (RSeq (rlit ''/'') (RSeq (rplus (RChr not_slash)) q))))"
    by (simp add: SERVICE_MEMBER_def q_def not_slash_def [abs_def])
  have "rmatch SERVICE_MEMBER ([], [], member_file lane w kind)
      = rmatch (RSeq (rplus (RChr not_slash)) q) ([], rev (''services/'' @ lane @ ''/''), w @ CHR ''/'' # kind @ ''.py'')"
    using assms(3) unfolding sm
    by (auto simp: member_file_def rlit_match startswith_def m_rest_def m_before_def m_caps_def)
  also have "\<dots> = rmatch q ([], rev w @ rev (''services/'' @ lane @ ''/''), CHR ''/'' # kind @ ''.py'')"
    by (rule plus_then [OF assms(1,2) _ q0]) (simp_all add: not_slash_def)
  finally show ?thesis using q1 by fastforce
qed

lemma replace_char_absent: "c \<notin> set s \<Longrightarrow> replace_char c r s = s"
  by (induction s) (auto simp: replace_char_def)

lemma member_kind_member:
  assumes "list_all not_slash w" and "w \<noteq> []" and "CHR 0x5C \<notin> set w"
    and "lane \<in> {''staged'', ''active''}" and "kind \<in> {''contract'', ''logic'', ''router''}"
  shows "member_kind (member_file lane w kind) = Some kind"
proof -
  have "CHR 0x5C \<notin> set (member_file lane w kind)" using assms(3-5) by (auto simp: member_file_def)
  then have sp: "slash_path (member_file lane w kind) = member_file lane w kind"
    unfolding slash_path_def by (rule replace_char_absent)
  obtain t ts where t: "rmatch SERVICE_MEMBER ([], [], member_file lane w kind) = t # ts" "m_caps t = [(1, kind)]"
    using member_match [OF assms(1,2,4,5)] by blast
  then have "re_search SERVICE_MEMBER (member_file lane w kind) = Some (mk_match [] t)"
    by (cases "member_file lane w kind") (auto simp: re_search_def match_at_def)
  with t(2) show ?thesis by (simp add: member_kind_def sp mgroup_def mk_match_def)
qed

subsection \<open>Properties\<close>

text \<open>Every code file of a service directory, staged or active, is policed: it passes exactly when its
  text is no Python (another gate's finding) or a module with a substantive statement that, as a
  contract, can fail and, as a router, binds \<open>router\<close> at its top level.\<close>

theorem members_are_policed:
  assumes "list_all not_slash w" and "w \<noteq> []" and "CHR 0x5C \<notin> set w"
    and "lane \<in> {''staged'', ''active''}" and "kind \<in> {''contract'', ''logic'', ''router''}"
  shows "hollow_scaffold_scan parse (member_file lane w kind) source = Some None \<longleftrightarrow>
    parse source = BadSyntax
    \<or> (\<exists>body. parse source = Parsed body \<and> substantive_body body \<noteq> []
        \<and> (kind = ''contract'' \<longrightarrow> any_assert body \<or> has_live_main body)
        \<and> (kind = ''router'' \<longrightarrow> binds_name body ''router''))"
proof -
  have e: "endswith (member_file lane w kind) ''.py''"
    unfolding member_file_def by (simp only: append_assoc [symmetric] endswith_append)
  have s: "CHR ''/'' \<in> set (member_file lane w kind)" by (simp add: member_file_def)
  show ?thesis
    using e s by (auto simp: hollow_scaffold_scan_def hollow_service_member_scan_def member_kind_member [OF assms]
        split: parsed.splits option.splits if_splits)
qed

theorem members_are_policed_witness:
  "hollow_scaffold_scan (\<lambda>s. Parsed [SExpr False]) (member_file ''staged'' ''w'' ''router'') ''x'' \<noteq> Some None"
  by (subst members_are_policed) (simp_all add: not_slash_def binds_name_def)

end
