(* ===== verification/AutoStage.thy ===== *)
theory AutoStage
  imports PyRegex PyFs
begin

text \<open>
  \<open>zo_sentinel/publisher/auto_stage.py\<close> and \<open>auto_declare.py\<close>: where the publisher writes
  an artifact in its clone, what it writes beside it, and the ledger of unmounted routers. The
  reasons that no caller reads (why an artifact was not moved) are left out.
\<close>

subsection \<open>Names\<close>

definition ACTIVE_PREFIX :: string where
  "ACTIVE_PREFIX = ''services/active/''"

definition STAGED_PREFIX :: string where
  "STAGED_PREFIX = ''services/staged/''"

definition STAGED_MANIFEST :: string where
  "STAGED_MANIFEST = ''service.toml''"

definition lstrip_chars :: "string \<Rightarrow> string \<Rightarrow> string" where
  "lstrip_chars cs s = dropWhile (\<lambda>c. c \<in> set cs) s"

text \<open>How every helper reads a path.\<close>

definition norm_rel :: "string \<Rightarrow> string" where
  "norm_rel rel = lstrip_chars ''./'' (replace_char (CHR 0x5C) ''/'' rel)"

definition in_clone :: "path \<Rightarrow> string \<Rightarrow> path" where
  "in_clone clone rel = path_join clone (path_of rel)"

definition IDENT_RE :: re where
  "IDENT_RE = rseqs
     [RBegin, RChr (\<lambda>c. is_alpha_ascii c \<or> c = CHR ''_''),
      RStar (RChr (\<lambda>c. is_alpha_ascii c \<or> is_digit c \<or> c = CHR ''_'')), REnd]"

definition is_ident :: "string \<Rightarrow> bool" where
  "is_ident s = (re_match IDENT_RE s \<noteq> None)"

definition dquote :: string where
  "dquote = [CHR 0x22]"

definition is_quote :: "char \<Rightarrow> bool" where
  "is_quote c = (c = CHR 0x22 \<or> c = CHR 0x27)"

subsection \<open>Creation of a service\<close>

definition service_name :: "string \<Rightarrow> string option" where
  "service_name rel =
     (let rest = drop (length ACTIVE_PREFIX) rel in
      if rest = [] then None
      else (let name = hd (split_on (CHR ''/'') rest) in if name = [] then None else Some name))"

definition service_exists :: "fs \<Rightarrow> path \<Rightarrow> string \<Rightarrow> bool" where
  "service_exists f clone name = is_file f (in_clone clone (''services/active/'' @ name @ ''/service.toml''))"

definition redirect_reason :: "string \<Rightarrow> string" where
  "redirect_reason name =
     ''services/active/'' @ name @ '' has no service.toml, so this artifact would CREATE a service in active/ without a manifest -- generate_spine --strict fails that as ''
     @ name @ ''=NO_TOML and the PR can never go green. The builder emits one file and cannot also write the manifest, and writing it would be self-mounting. ''
     @ ''Routed to services/staged/, where service_decomposer already puts built services and where promote_staged_to_active is the gated path to active/.''"

definition redirect :: "fs \<Rightarrow> path \<Rightarrow> string \<Rightarrow> string \<times> string option" where
  "redirect f clone rel0 =
     (let rel = norm_rel rel0 in
      if \<not> startswith rel ACTIVE_PREFIX then (rel, None)
      else (case service_name rel of
          None \<Rightarrow> (rel, None)
        | Some name \<Rightarrow>
          (if service_exists f clone name then (rel, None)
           else (STAGED_PREFIX @ drop (length ACTIVE_PREFIX) rel, Some (redirect_reason name)))))"

subsection \<open>Routers\<close>

definition ROUTER_DEF :: re where
  "ROUTER_DEF = ralts
     [rseqs [rlit ''APIRouter'', RStar (RChr is_space), rlit ''(''],
      RSeq (rlit ''@router.'') (ralts [rlit ''get'', rlit ''post'', rlit ''put'', rlit ''delete'', rlit ''patch''])]"

text \<open>\<open>os.path.dirname\<close> is empty exactly for a path without slash.\<close>

definition is_router_module :: "string \<Rightarrow> string \<Rightarrow> bool" where
  "is_router_module rel content =
     (endswith rel ''.py'' \<and> CHR ''/'' \<notin> set (replace_char (CHR 0x5C) ''/'' rel) \<and> re_found ROUTER_DEF content)"

text \<open>A readable source or data file below \<open>app/\<close> has the stem as a word.\<close>

definition is_below :: "path \<Rightarrow> path \<Rightarrow> bool" where
  "is_below base p = (path_abs p = path_abs base \<and> length (path_parts base) < length (path_parts p)
     \<and> take (length (path_parts base)) (path_parts p) = path_parts base)"

definition walked :: "path \<Rightarrow> bool" where
  "walked p = list_ex (endswith (path_name p)) [''.py'', ''.toml'', ''.json'', ''.txt'']"

definition is_mounted :: "fs \<Rightarrow> path \<Rightarrow> string \<Rightarrow> bool" where
  "is_mounted f clone stem =
     (let base = in_clone clone ''app'' in
      is_dir f base
      \<and> list_ex (\<lambda>p. is_below base p \<and> walked p \<and> (case read_text f p of None \<Rightarrow> False
            | Some t \<Rightarrow> re_found (rseqs [RBound, rlit stem, RBound]) (content_text t))) (map fst (files f)))"

definition PREFIX_RE :: re where
  "PREFIX_RE = rseqs
     [rlit ''APIRouter'', RStar (RChr is_space), rlit ''('', RStar (RChr (\<lambda>c. c \<noteq> CHR '')'')), rlit ''prefix'',
      RStar (RChr is_space), rlit ''='', RStar (RChr is_space), RChr is_quote,
      RGroup 1 (rplus (RChr (\<lambda>c. \<not> is_quote c))), RChr is_quote]"

definition manifest_prefix :: "string \<Rightarrow> string" where
  "manifest_prefix content =
     (case re_search PREFIX_RE content of None \<Rightarrow> ''/api''
      | Some m \<Rightarrow> (case mgroup m 1 of Some p \<Rightarrow> if startswith p ''/'' then p else ''/api'' | None \<Rightarrow> ''/api''))"

definition toml_text :: "string \<Rightarrow> string \<Rightarrow> string" where
  "toml_text key v = key @ '' = '' @ dquote @ v @ dquote @ [newline]"

definition render_manifest :: "string \<Rightarrow> string \<Rightarrow> string" where
  "render_manifest name content =
     ''[service]'' @ [newline]
     @ toml_text ''name'' name
     @ toml_text ''import_path'' (''services.active.'' @ name @ ''.router'')
     @ toml_text ''prefix'' (manifest_prefix content)
     @ toml_text ''tag'' name
     @ toml_text ''origin'' ''service''
     @ toml_text ''auth'' ''public''
     @ ''needs_data_layer = true'' @ [newline, newline]
     @ ''# Emitted by zo_sentinel/publisher/auto_stage.py for a root-level builder'' @ [newline]
     @ ''# router. import_path names services.ACTIVE because that is where router.py'' @ [newline]
     @ ''# lives AFTER promote_staged_to_active passes it.'' @ [newline]"

text \<open>The files to write, in order, or \<open>None\<close> where the artifact stays.\<close>

definition drop_ext :: "string \<Rightarrow> string" where
  "drop_ext rel = take (length rel - 3) rel"

definition missing_file :: "fs \<Rightarrow> path \<Rightarrow> string \<Rightarrow> string \<Rightarrow> (string \<times> string) list" where
  "missing_file f clone rel text = (if fs_exists f (in_clone clone rel) then [] else [(rel, text)])"

definition stage_root_router :: "fs \<Rightarrow> path \<Rightarrow> string \<Rightarrow> string \<Rightarrow> (string \<times> string) list option" where
  "stage_root_router f clone rel0 content =
     (let rel = norm_rel rel0; stem = drop_ext rel; base = STAGED_PREFIX @ stem @ ''/'' in
      if \<not> is_router_module rel content then None
      else if \<not> is_ident stem then None
      else if fs_exists f (in_clone clone rel) then None
      else if is_mounted f clone stem then None
      else if is_dir f (in_clone clone (ACTIVE_PREFIX @ stem)) then None
      else Some ([(base @ ''router.py'', content)]
        @ missing_file f clone (base @ STAGED_MANIFEST) (render_manifest stem content)
        @ missing_file f clone (base @ ''__init__.py'') []))"

definition staged_companions :: "fs \<Rightarrow> path \<Rightarrow> string \<Rightarrow> string \<Rightarrow> (string \<times> string) list" where
  "staged_companions f clone rel0 content =
     (let rel = norm_rel rel0 in
      if \<not> startswith rel STAGED_PREFIX \<or> \<not> endswith rel ''/router.py'' then []
      else (let parts = split_on (CHR ''/'') (drop (length STAGED_PREFIX) rel); name = hd parts in
        if length parts \<noteq> 2 \<or> \<not> is_ident name then []
        else missing_file f clone (STAGED_PREFIX @ name @ ''/'' @ STAGED_MANIFEST) (render_manifest name content)
           @ missing_file f clone (STAGED_PREFIX @ name @ ''/__init__.py'') []))"

subsection \<open>The module a manifest names\<close>

definition IMPORT_PATH_RE :: re where
  "IMPORT_PATH_RE = rseqs
     [RLine, RStar (RChr is_space), rlit ''import_path'', RStar (RChr is_space), rlit ''='', RStar (RChr is_space),
      RChr is_quote, RGroup 1 (rplus (RChr (\<lambda>c. \<not> is_quote c))), RChr is_quote]"

definition import_path_of :: "string \<Rightarrow> string option" where
  "import_path_of content =
     (case re_search IMPORT_PATH_RE content of None \<Rightarrow> None | Some m \<Rightarrow> map_option strip (mgroup m 1))"

definition placeholder_router :: "string \<Rightarrow> string" where
  "placeholder_router import_path =
     (let q = dquote @ dquote @ dquote; a = [CHR 0x27] in
      q @ ''Placeholder router co-emitted with this service'' @ a @ ''s manifest so its'' @ [newline]
      @ ''declared import_path ('' @ import_path @ '') resolves to a real, importable module in the'' @ [newline]
      @ ''SAME change (FU-447). A manifest that names a module the change does not'' @ [newline]
      @ ''ship is an orphan the promoter cannot read and a guaranteed'' @ [newline]
      @ ''ModuleNotFoundError at mount. The build lane'' @ a @ ''s router.py pass replaces'' @ [newline]
      @ ''this stand-in with the data-layer-backed surface.'' @ q @ [newline]
      @ ''from fastapi import APIRouter'' @ [newline] @ [newline]
      @ ''router = APIRouter()'' @ [newline])"

definition before_last :: "char \<Rightarrow> string \<Rightarrow> string" where
  "before_last c s = rev (tl (dropWhile (\<lambda>x. x \<noteq> c) (rev s)))"

definition last_segment :: "char \<Rightarrow> string \<Rightarrow> string" where
  "last_segment c s = last (split_on c s)"

definition manifest_companions :: "fs \<Rightarrow> path \<Rightarrow> string \<Rightarrow> string \<Rightarrow> (string \<times> string) list" where
  "manifest_companions f clone rel0 content =
     (let rel = norm_rel rel0 in
      if \<not> endswith rel (''/'' @ STAGED_MANIFEST) then []
      else if \<not> (startswith rel STAGED_PREFIX \<or> startswith rel ACTIVE_PREFIX) then []
      else (case import_path_of content of None \<Rightarrow> []
        | Some import_path \<Rightarrow>
          (let module = last_segment (CHR ''.'') import_path; svc_dir = before_last (CHR ''/'') rel in
           if \<not> is_ident module then []
           else missing_file f clone (svc_dir @ ''/'' @ module @ ''.py'') (placeholder_router import_path)
              @ missing_file f clone (svc_dir @ ''/__init__.py'') [])))"

subsection \<open>The ledger of unmounted routers\<close>

definition DEFERRED_REL :: string where
  "DEFERRED_REL = ''tools/reachability_deferred.json''"

definition declare_reason :: "string \<Rightarrow> string \<Rightarrow> string \<Rightarrow> string" where
  "declare_reason stem task built_at =
     (let day = take 10 built_at in
      ''auto-declared by the publisher for autonomous build '' @ [CHR 0x27] @ (if task = [] then stem else task) @ [CHR 0x27]
      @ (if day = [] then [] else '' on '' @ day)
      @ '': the builder cannot mount its own module (module_from_exemplar lane guard), so this router is unmounted pending the mount-lane review. Remove this entry when it is mounted or deleted.'')"

text \<open>Whether the ledger was changed, with the detail; \<open>err\<close> is the text of an exception.\<close>

definition auto_declare :: "int \<Rightarrow> string \<Rightarrow> path \<Rightarrow> string \<Rightarrow> string \<Rightarrow> string \<Rightarrow> string \<Rightarrow> fs \<Rightarrow> (bool \<times> string) \<times> fs" where
  "auto_declare now err clone rel content task built_at f =
     (let stem = drop_ext (last_segment (CHR ''/'') rel); p = in_clone clone DEFERRED_REL;
          skipped = ((False, ''auto-declare skipped: '' @ err), f) in
      if \<not> is_router_module rel content then ((False, ''not a root-level router module''), f)
      else if is_mounted f clone stem then ((False, ''already mounted -- no declaration needed''), f)
      else if \<not> fs_exists f p then ((False, ''no deferred file in this clone (ratchet not armed here)''), f)
      else (case read_json f p of
          Some (JObj doc) \<Rightarrow>
            (case jget doc ''deferred'' of
               JObj deferred \<Rightarrow>
                 (if dhas deferred stem then ((False, ''already declared''), f)
                  else (let d1 = dput stem (JStr (declare_reason stem task built_at)) deferred in
                    (case write_text now p (Doc (JObj (dput ''deferred'' (JObj (sort_key fst d1)) doc))) f of
                       None \<Rightarrow> skipped | Some g \<Rightarrow> ((True, ''declared '' @ stem), g))))
             | _ \<Rightarrow> ((False, ''deferred file has an unexpected shape -- not touching it''), f))
        | _ \<Rightarrow> skipped))"

subsection \<open>Where files go\<close>

lemma hd_split_on: "hd (split_on d s) = takeWhile (\<lambda>c. c \<noteq> d) s"
  by (induction s) (auto simp: split_on_nonempty split: list.splits)

lemma split_on_chars: "w \<in> set (split_on d s) \<Longrightarrow> set w \<subseteq> set s"
proof (induction s arbitrary: w)
  case (Cons c s)
  obtain v vs where v: "split_on d s = v # vs" by (cases "split_on d s") auto
  have "set u \<subseteq> set s" if "u \<in> set (v # vs)" for u using Cons.IH [of u] that v by simp
  then show ?case using Cons.prems v by (fastforce split: if_splits)
qed simp

lemma replace_append [simp]: "replace_char c r (s @ t) = replace_char c r s @ replace_char c r t"
  by (simp add: replace_char_def)

lemma norm_no_backslash: "CHR 0x5C \<notin> set (norm_rel rel)"
proof -
  have "CHR 0x5C \<notin> set (replace_char (CHR 0x5C) ''/'' rel)" by (auto simp: replace_char_def)
  then show ?thesis by (auto simp: norm_rel_def lstrip_chars_def dest: set_dropWhileD)
qed

lemma replace_absent: "c \<notin> set s \<Longrightarrow> replace_char c r s = s"
  by (induction s) (auto simp: replace_char_def)

text \<open>A path that begins with \<open>services\<close> keeps that beginning.\<close>

lemma norm_prefix:
  assumes "CHR 0x5C \<notin> set p" and "p \<noteq> []" and "hd p \<notin> {CHR ''.'', CHR ''/''}"
  shows "norm_rel (p @ x) = p @ replace_char (CHR 0x5C) ''/'' x"
proof -
  have "norm_rel (p @ x) = lstrip_chars ''./'' (p @ replace_char (CHR 0x5C) ''/'' x)"
    by (simp add: norm_rel_def replace_absent [OF assms(1)])
  then show ?thesis using assms(2,3) by (cases p) (simp_all add: lstrip_chars_def)
qed

lemma norm_staged: "norm_rel (STAGED_PREFIX @ x) = STAGED_PREFIX @ replace_char (CHR 0x5C) ''/'' x"
  by (rule norm_prefix) (simp_all add: STAGED_PREFIX_def)

lemma staged_not_active: "\<not> startswith (STAGED_PREFIX @ x) ACTIVE_PREFIX"
  by (simp add: STAGED_PREFIX_def ACTIVE_PREFIX_def startswith_def)

text \<open>A path that a helper sees below \<open>services/active/\<close> belongs to a service that the clone has.\<close>

definition active_known :: "fs \<Rightarrow> path \<Rightarrow> string \<Rightarrow> bool" where
  "active_known f clone rel \<longleftrightarrow> (startswith (norm_rel rel) ACTIVE_PREFIX \<longrightarrow>
     (case service_name (norm_rel rel) of None \<Rightarrow> True | Some n \<Rightarrow> service_exists f clone n))"

lemma staged_known: "active_known f clone (STAGED_PREFIX @ x)"
  by (simp add: active_known_def norm_staged staged_not_active)

lemma redirect_known:
  assumes "redirect f clone rel = (staged, reason)"
  shows "if reason = None then active_known f clone rel else (\<exists>x. staged = STAGED_PREFIX @ x)"
  using assms by (auto simp: redirect_def active_known_def Let_def split: if_splits option.splits)

lemma missing_file_in: "x \<in> set (missing_file f clone rel t) \<Longrightarrow> fst x = rel"
  by (auto simp: missing_file_def split: if_splits)

lemma before_last_slash:
  assumes "endswith s ([c] @ t)" and "c \<notin> set t"
  shows "s = before_last c s @ [c] @ t"
proof -
  obtain u where u: "s = u @ [c] @ t" using assms(1) by (auto simp: endswith_iff)
  have "dropWhile (\<lambda>x. x \<noteq> c) (rev t @ [c] @ rev u) = dropWhile (\<lambda>x. x \<noteq> c) ([c] @ rev u)"
    using assms(2) by (intro dropWhile_append2) auto
  then have "dropWhile (\<lambda>x. x \<noteq> c) (rev s) = c # rev u" by (simp add: u)
  then show ?thesis by (simp add: before_last_def u)
qed

lemma startswith_upto:
  assumes "d \<notin> set v" and "p \<noteq> []" and "last p = d"
  shows "startswith (u @ d # v) p \<longleftrightarrow> startswith (u @ [d]) p"
proof
  assume s: "startswith (u @ d # v) p"
  then obtain t where "(u @ [d]) @ v = p @ t" by (auto simp: startswith_iff)
  then have "\<exists>us. u @ [d] = p @ us \<and> us @ v = t \<or> (u @ [d]) @ us = p \<and> v = us @ t"
    by (rule iffD1 [OF append_eq_append_conv2])
  then consider us where "u @ [d] = p @ us" | us where "(u @ [d]) @ us = p" "v = us @ t" by blast
  then show "startswith (u @ [d]) p"
  proof cases
    case 1
    then show ?thesis by (simp add: startswith_iff)
  next
    case 2
    then have "us = []" using assms(1,3) by (metis Un_iff last_appendR last_in_set set_append)
    with 2 show ?thesis by (simp add: startswith_iff)
  qed
next
  assume "startswith (u @ [d]) p"
  then obtain t where "u @ [d] = p @ t" by (auto simp: startswith_iff)
  then have "u @ d # v = p @ t @ v" by (metis append.assoc append_Cons append_Nil)
  then show "startswith (u @ d # v) p" unfolding startswith_iff by blast
qed

lemma sibling_known:
  assumes "active_known f clone rel" and "endswith (norm_rel rel) (''/'' @ STAGED_MANIFEST)"
    and "startswith (norm_rel rel) STAGED_PREFIX \<or> startswith (norm_rel rel) ACTIVE_PREFIX"
    and "norm_rel rel \<noteq> ACTIVE_PREFIX @ STAGED_MANIFEST"
  shows "active_known f clone (before_last (CHR ''/'') (norm_rel rel) @ ''/'' @ x)"
proof -
  define dir where "dir = before_last (CHR ''/'') (norm_rel rel)"
  have eq: "norm_rel rel = dir @ CHR ''/'' # STAGED_MANIFEST"
    using before_last_slash [of "norm_rel rel" "CHR ''/''" STAGED_MANIFEST] assms(2)
    by (simp add: dir_def STAGED_MANIFEST_def)
  have nb: "CHR 0x5C \<notin> set (dir @ ''/'')" using norm_no_backslash [of rel] by (auto simp: eq)
  have "startswith (dir @ [CHR ''/'']) STAGED_PREFIX \<or> startswith (dir @ [CHR ''/'']) ACTIVE_PREFIX"
    using assms(3) startswith_upto [of "CHR ''/''" STAGED_MANIFEST STAGED_PREFIX dir]
      startswith_upto [of "CHR ''/''" STAGED_MANIFEST ACTIVE_PREFIX dir]
    by (simp add: eq STAGED_MANIFEST_def STAGED_PREFIX_def ACTIVE_PREFIX_def)
  then obtain pre rest where pr: "dir @ ''/'' = pre @ rest" "pre \<in> {STAGED_PREFIX, ACTIVE_PREFIX}"
    by (auto simp: startswith_iff)
  have hd: "hd (dir @ ''/'') = CHR ''s''" using pr by (auto simp: STAGED_PREFIX_def ACTIVE_PREFIX_def)
  have n: "norm_rel (dir @ ''/'' @ x) = pre @ rest @ replace_char (CHR 0x5C) ''/'' x"
  proof -
    have "norm_rel ((dir @ ''/'') @ x) = (dir @ ''/'') @ replace_char (CHR 0x5C) ''/'' x"
      by (rule norm_prefix) (use nb hd in simp_all)
    moreover have "(dir @ ''/'') @ x = dir @ ''/'' @ x" by simp
    ultimately show ?thesis unfolding pr(1) by (simp only: append_assoc)
  qed
  show ?thesis
  proof (cases "pre = STAGED_PREFIX")
    case True
    then show ?thesis by (simp add: active_known_def dir_def [symmetric] n [simplified] staged_not_active)
  next
    case False
    with pr have pre: "pre = ACTIVE_PREFIX" by simp
    have rest: "rest \<noteq> []"
    proof
      assume "rest = []"
      with pr(1) pre eq have "norm_rel rel = ACTIVE_PREFIX @ STAGED_MANIFEST" by (metis append.assoc append_Cons append_Nil append_Nil2)
      with assms(4) show False by simp
    qed
    then have "last rest = CHR ''/''" using pr(1) by (metis last_appendR last_snoc)
    then have sl: "CHR ''/'' \<in> set rest" using rest by (metis last_in_set)
    have sn: "service_name (ACTIVE_PREFIX @ rest @ y) = service_name (ACTIVE_PREFIX @ rest)" for y
      using rest sl by (auto simp: service_name_def hd_split_on Let_def takeWhile_append)
    have "norm_rel rel = ACTIVE_PREFIX @ rest @ STAGED_MANIFEST"
      using eq pr(1) pre by (metis append.assoc append_Cons append_Nil)
    with assms(1) have "case service_name (ACTIVE_PREFIX @ rest) of None \<Rightarrow> True | Some w \<Rightarrow> service_exists f clone w"
      by (simp add: active_known_def sn)
    then show ?thesis by (simp add: active_known_def dir_def [symmetric] n [simplified] pre sn)
  qed
qed

text \<open>The name of a path in the clone, from the end of the text.\<close>

lemma last_split_suffix: "d \<notin> set t \<Longrightarrow> endswith s t \<Longrightarrow> endswith (last (split_on d s)) t"
proof (induction s)
  case (Cons c s)
  show ?case
  proof (cases "endswith s t")
    case True
    obtain w ws where w: "split_on d s = w # ws" by (cases "split_on d s") auto
    have "endswith (c # w) t" if "endswith w t" using that by (auto simp: endswith_iff)
    with Cons.IH [OF Cons.prems(1) True] w show ?thesis by auto
  next
    case False
    with Cons.prems(2) have "t = c # s" by (auto simp: endswith_iff Cons_eq_append_conv)
    with Cons.prems(1) have "split_on d (c # s) = [t]" using split_on_no_sep [of d "c # s"] by simp
    then show ?thesis by (simp add: endswith_def startswith_def)
  qed
qed simp

lemma path_name_suffix:
  assumes "endswith s t" and "CHR ''/'' \<notin> set t" and "t \<noteq> []" and "last t \<noteq> CHR ''.''"
  shows "endswith (path_name (in_clone clone s)) t"
proof -
  define w where "w = last (split_on (CHR ''/'') s)"
  have w: "endswith w t" unfolding w_def by (rule last_split_suffix [OF assms(2,1)])
  have ne: "w \<noteq> []" "w \<noteq> ''.''"
    using w assms(3,4) by (auto simp: endswith_iff append_eq_Cons_conv)
  obtain ws where "split_on (CHR ''/'') s = ws @ [w]"
    unfolding w_def by (metis append_butlast_last_id split_on_nonempty)
  then have "path_parts (path_of s) = filter (\<lambda>w. w \<noteq> [] \<and> w \<noteq> ''.'') ws @ [w]"
    using ne by (simp add: path_of_def)
  then have "path_name (in_clone clone s) = w"
    by (simp add: in_clone_def path_join_def path_name_def)
  with w show ?thesis by simp
qed

lemma replace_suffix: "replace_char c [r] s = u @ t \<Longrightarrow> r \<notin> set t \<Longrightarrow> endswith s t"
proof (induction s arbitrary: u)
  case (Cons a s)
  show ?case
  proof (cases u)
    case Nil
    have "replace_char c [r] x = y \<Longrightarrow> r \<notin> set y \<Longrightarrow> x = y" for x y
      by (induction x arbitrary: y) (auto simp: replace_char_def split: if_splits)
    with Nil Cons.prems show ?thesis by (metis append_Nil endswith_append)
  next
    case (Cons b v)
    with Cons.prems have "replace_char c [r] s = v @ t" by (auto simp: replace_char_def split: if_splits)
    with Cons.IH Cons.prems(2) show ?thesis by (metis append_Cons endswith_iff)
  qed
qed (simp add: replace_char_def endswith_def startswith_def)

lemma norm_suffix:
  assumes "endswith (norm_rel s) t" and "CHR ''/'' \<notin> set t"
  shows "endswith s t"
proof -
  define n where "n = replace_char (CHR 0x5C) ''/'' s"
  obtain v where "n = v @ norm_rel s"
    unfolding norm_rel_def lstrip_chars_def n_def by (metis takeWhile_dropWhile_id)
  moreover obtain u where "norm_rel s = u @ t" using assms(1) by (auto simp: endswith_iff)
  ultimately have "replace_char (CHR 0x5C) ''/'' s = (v @ u) @ t" by (simp add: n_def)
  then show ?thesis by (rule replace_suffix [OF _ assms(2)])
qed

lemma suffixes_clash: "endswith s t \<Longrightarrow> endswith s u \<Longrightarrow> length t \<le> length u \<Longrightarrow> endswith u t"
  by (auto simp: endswith_iff append_eq_append_conv2)

lemma stage_root_known:
  assumes "stage_root_router f clone rel content = Some ws"
  shows "list_all (\<lambda>x. active_known f clone (fst x)) ws"
  using assms staged_known [of f clone]
  by (auto simp: stage_root_router_def Let_def list_all_iff dest!: missing_file_in split: if_splits)

lemma staged_companions_known: "list_all (\<lambda>x. active_known f clone (fst x)) (staged_companions f clone rel content)"
  using staged_known [of f clone]
  by (auto simp: staged_companions_def Let_def list_all_iff dest!: missing_file_in split: if_splits)

lemma manifest_companions_known:
  assumes "active_known f clone rel" and "norm_rel rel \<noteq> ACTIVE_PREFIX @ STAGED_MANIFEST"
  shows "list_all (\<lambda>x. active_known f clone (fst x)) (manifest_companions f clone rel content)"
  using sibling_known [OF assms(1) _ _ assms(2)]
  by (auto simp: manifest_companions_def Let_def list_all_iff dest!: missing_file_in split: if_splits option.splits)

text \<open>The router of a manifest: it is there already or among the companions.\<close>

definition module_file :: "string \<Rightarrow> string \<Rightarrow> string" where
  "module_file rel import_path = before_last (CHR ''/'') (norm_rel rel) @ ''/'' @ last_segment (CHR ''.'') import_path @ ''.py''"

lemma manifest_module:
  assumes "endswith (norm_rel rel) (''/'' @ STAGED_MANIFEST)"
    and "startswith (norm_rel rel) STAGED_PREFIX \<or> startswith (norm_rel rel) ACTIVE_PREFIX"
    and "import_path_of content = Some ip" and "is_ident (last_segment (CHR ''.'') ip)"
  shows "fs_exists f (in_clone clone (module_file rel ip))
    \<or> module_file rel ip \<in> set (map fst (manifest_companions f clone rel content))"
  using assms by (auto simp: manifest_companions_def module_file_def Let_def missing_file_def)

subsection \<open>What the ledger keeps\<close>

lemma declare_changes:
  assumes "auto_declare now err clone rel content task built f = ((True, detail), g)"
  shows "\<exists>doc deferred. read_json f (in_clone clone DEFERRED_REL) = Some (JObj doc) \<and> jget doc ''deferred'' = JObj deferred
    \<and> \<not> dhas deferred (drop_ext (last_segment (CHR ''/'') rel)) \<and> is_router_module rel content
    \<and> \<not> is_mounted f clone (drop_ext (last_segment (CHR ''/'') rel))
    \<and> write_text now (in_clone clone DEFERRED_REL)
        (Doc (JObj (dput ''deferred'' (JObj (sort_key fst
           (dput (drop_ext (last_segment (CHR ''/'') rel))
             (JStr (declare_reason (drop_ext (last_segment (CHR ''/'') rel)) task built)) deferred))) doc))) f = Some g"
  using assms by (auto simp: auto_declare_def Let_def split: if_splits option.splits json.splits)

lemma declare_keeps:
  assumes "auto_declare now err clone rel content task built f = ((False, detail), g)"
  shows "g = f"
  using assms by (auto simp: auto_declare_def Let_def split: if_splits option.splits json.splits)

text \<open>The ledger is not below \<open>app/\<close>.\<close>

lemma in_clone_parts: "\<not> path_abs (path_of rel) \<Longrightarrow>
    in_clone clone rel = Path (path_abs clone) (path_parts clone @ path_parts (path_of rel))"
  by (simp add: in_clone_def path_join_def)

lemma ledger_not_below_app: "\<not> is_below (in_clone clone ''app'') (in_clone clone DEFERRED_REL)"
proof -
  have "path_of ''app'' = Path False [''app'']" "path_of DEFERRED_REL = Path False [''tools'', ''reachability_deferred.json'']"
    by (simp_all add: path_of_def DEFERRED_REL_def startswith_def)
  then show ?thesis by (simp add: is_below_def in_clone_parts)
qed

lemma mounted_after_declare:
  assumes "write_text now (in_clone clone DEFERRED_REL) t f = Some g" and "is_file f (in_clone clone DEFERRED_REL)"
  shows "is_mounted g clone stem = is_mounted f clone stem"
proof -
  let ?p = "in_clone clone DEFERRED_REL"
  have fr: "noread g = noread f" "dirs g = dirs f" "files g = dput ?p \<lparr>body = t, mtime = now\<rparr> (files f)"
    using assms(1) by (auto simp: write_text_def fs_put_def split: if_splits)
  have get: "fs_get g q = fs_get f q" if "q \<noteq> ?p" for q using write_text_get [OF assms(1)] that by simp
  have ks: "q \<in> set (map fst (files g)) \<longleftrightarrow> q \<in> set (map fst (files f))" for q
    using assms(2) unfolding fr(3) dhas_keys [symmetric] by (auto simp: is_file_def fs_get_def dhas_def)
  define hit where "hit = (\<lambda>h p. is_below (in_clone clone ''app'') p \<and> walked p \<and> (case read_text h p of None \<Rightarrow> False
            | Some t \<Rightarrow> re_found (rseqs [RBound, rlit stem, RBound]) (content_text t)))"
  have "hit g q = hit f q" for q
  proof (cases "q = ?p")
    case True
    then show ?thesis using ledger_not_below_app [of clone] by (simp add: hit_def)
  next
    case False
    then show ?thesis by (simp add: hit_def read_text_def get fr(1))
  qed
  then have "list_ex (hit g) (map fst (files g)) = list_ex (hit f) (map fst (files f))"
    using ks by (auto simp: list_ex_iff simp del: set_map)
  then show ?thesis
    by (simp add: is_mounted_def Let_def is_dir_def fr(2) hit_def)
qed

subsection \<open>Properties\<close>

text \<open>A declaration adds one new key to the ledger and changes nothing else: every earlier entry and every
  other file is as before, and from then on the module counts as declared, whatever is published for it.\<close>

theorem ledger_only_grows:
  assumes "auto_declare now err clone rel content task built f = ((True, detail), g)"
    and "in_clone clone DEFERRED_REL \<notin> set (noread f)"
  shows "\<exists>doc ledger doc' ledger' stem. stem = drop_ext (last_segment (CHR ''/'') rel)
    \<and> read_json f (in_clone clone DEFERRED_REL) = Some (JObj doc) \<and> jget doc ''deferred'' = JObj ledger
    \<and> read_json g (in_clone clone DEFERRED_REL) = Some (JObj doc') \<and> jget doc' ''deferred'' = JObj ledger'
    \<and> dget ledger stem = None
    \<and> (\<forall>k. dget ledger' k = (if k = stem then Some (JStr (declare_reason stem task built)) else dget ledger k))
    \<and> (\<forall>q. q \<noteq> in_clone clone DEFERRED_REL \<longrightarrow> fs_get g q = fs_get f q)
    \<and> (\<forall>now' err' task' built'. auto_declare now' err' clone rel content task' built' g = ((False, ''already declared''), g))"
proof -
  define stem where "stem = drop_ext (last_segment (CHR ''/'') rel)"
  let ?p = "in_clone clone DEFERRED_REL"
  obtain doc ledger where d: "read_json f ?p = Some (JObj doc)" "jget doc ''deferred'' = JObj ledger"
      "\<not> dhas ledger stem" "is_router_module rel content" "\<not> is_mounted f clone stem"
      "write_text now ?p (Doc (JObj (dput ''deferred'' (JObj (sort_key fst
           (dput stem (JStr (declare_reason stem task built)) ledger))) doc))) f = Some g"
    using declare_changes [OF assms(1)] unfolding stem_def by blast
  define ledger' where "ledger' = sort_key fst (dput stem (JStr (declare_reason stem task built)) ledger)"
  define doc' where "doc' = dput ''deferred'' (JObj ledger') doc"
  note w = d(6) [folded ledger'_def, folded doc'_def]
  have fr: "noread g = noread f" using w fs_put_frame by (auto simp: write_text_def)
  have isf: "is_file f ?p"
    using d(1) by (cases "fs_get f ?p") (auto simp: read_json_def read_text_def is_file_def split: if_splits)
  have rd: "read_json g ?p = Some (JObj doc')"
    using assms(2) write_text_get [OF w, of ?p] by (simp add: read_json_def read_text_def fr)
  have led: "jget doc' ''deferred'' = JObj ledger'" by (simp add: doc'_def)
  have "fs_exists g ?p" using write_text_get [OF w, of ?p] by (simp add: fs_exists_def is_file_def)
  moreover have "dhas ledger' stem" by (simp add: ledger'_def)
  moreover have "\<not> is_mounted g clone stem" using mounted_after_declare [OF w isf] d(5) by simp
  ultimately have again: "auto_declare now' err' clone rel content task' built' g = ((False, ''already declared''), g)"
    for now' err' task' built'
    using d(4) rd led by (simp add: auto_declare_def Let_def stem_def)
  have "dget ledger' k = (if k = stem then Some (JStr (declare_reason stem task built)) else dget ledger k)" for k
    by (simp add: ledger'_def)
  moreover have "dget ledger stem = None" using d(3) by (simp add: dhas_def)
  moreover have "fs_get g q = fs_get f q" if "q \<noteq> ?p" for q using write_text_get [OF w] that by simp
  ultimately show ?thesis using d(1,2) rd led again stem_def by blast
qed

definition ledger_fs :: fs where
  "ledger_fs = \<lparr>files = [(path_of ''/c/tools/reachability_deferred.json'',
      \<lparr>body = Doc (JObj [(''deferred'', JObj [(''old_api'', JStr ''x'')])]), mtime = 1\<rparr>)],
     dirs = [path_of ''/'', path_of ''/c'', path_of ''/c/tools''], noread = [], nowrite = []\<rparr>"

definition declared :: "(bool \<times> string) \<times> fs" where
  "declared = auto_declare 5 [] (path_of ''/c'') ''new_api.py'' ''@router.get'' ''t'' [] ledger_fs"

theorem ledger_only_grows_witness:
  "\<exists>doc ledger. read_json (snd declared) (in_clone (path_of ''/c'') DEFERRED_REL) = Some (JObj doc)
    \<and> jget doc ''deferred'' = JObj ledger \<and> dget ledger ''old_api'' = Some (JStr ''x'') \<and> dhas ledger ''new_api''"
proof -
  have "fst declared = (True, ''declared new_api'')" "in_clone (path_of ''/c'') DEFERRED_REL \<notin> set (noread ledger_fs)"
    "drop_ext (last_segment (CHR ''/'') ''new_api.py'') = ''new_api''" by code_simp+
  moreover from this(1) have "auto_declare 5 [] (path_of ''/c'') ''new_api.py'' ''@router.get'' ''t'' [] ledger_fs
      = ((True, ''declared new_api''), snd declared)" by (simp add: declared_def prod_eq_iff)
  moreover have "read_json ledger_fs (in_clone (path_of ''/c'') DEFERRED_REL) =
      Some (JObj [(''deferred'', JObj [(''old_api'', JStr ''x'')])])" by code_simp
  ultimately show ?thesis
    using ledger_only_grows [of 5 "[]" "path_of ''/c''" "''new_api.py''" "''@router.get''" "''t''" "[]" ledger_fs]
    by (auto simp: jget_def dhas_def)
qed

end
