(* ===== verification/GitOps.thy ===== *)
theory GitOps
  imports AutoStage
begin

text \<open>
  \<open>zo_sentinel/publisher/gitops.py\<close>: publishing one artifact through a clone with \<open>git\<close> and
  \<open>gh\<close>. A subprocess is an argument: from its argument vector, the clone's files and the
  state of the repository it gives the exit code and the two outputs, and changes files and
  repository. The clone's record also lists the commands that were run with their exit codes,
  and the pauses of the backoff. The diagnostic texts of \<open>last_error\<close> are left out where
  they are not part of an answer; an executable that cannot be started is not modelled.
\<close>

subsection \<open>Plans and results\<close>

record publish_plan =
  pp_branch :: string
  pp_title :: string
  pp_body :: string
  pp_file :: string
  pp_content :: string
  pp_dedup :: string
  pp_base :: string
  pp_labels :: "string list"

record publish_result =
  pr_ok :: bool
  pr_url :: json
  pr_branch :: string
  pr_detail :: string
  pr_noop :: bool
  pr_permanent :: bool

definition failed_result :: "string \<Rightarrow> string \<Rightarrow> bool \<Rightarrow> publish_result" where
  "failed_result branch detail permanent =
     \<lparr>pr_ok = False, pr_url = JNull, pr_branch = branch, pr_detail = detail, pr_noop = False, pr_permanent = permanent\<rparr>"

definition opened_result :: "string \<Rightarrow> json \<Rightarrow> string \<Rightarrow> publish_result" where
  "opened_result branch url detail =
     \<lparr>pr_ok = True, pr_url = url, pr_branch = branch, pr_detail = detail, pr_noop = False, pr_permanent = False\<rparr>"

definition noop_result :: "string \<Rightarrow> publish_result" where
  "noop_result branch =
     \<lparr>pr_ok = True, pr_url = JNull, pr_branch = branch, pr_detail = ''no-op: artifact already on base (nothing to commit)'',
      pr_noop = True, pr_permanent = False\<rparr>"

subsection \<open>Paths\<close>

text \<open>\<open>os.path.normpath\<close> of an absolute path, as its components.\<close>

fun norm_parts :: "string list \<Rightarrow> string list \<Rightarrow> string list" where
  "norm_parts acc [] = rev acc"
| "norm_parts acc (w # ws) =
     (if w = [] \<or> w = ''.'' then norm_parts acc ws
      else if w = ''..'' then norm_parts (tl acc) ws
      else norm_parts (w # acc) ws)"

definition abs_parts :: "string \<Rightarrow> string list" where
  "abs_parts p = norm_parts [] (split_on (CHR ''/'') p)"

fun common_prefix :: "'a list \<Rightarrow> 'a list \<Rightarrow> nat" where
  "common_prefix (x # xs) (y # ys) = (if x = y then Suc (common_prefix xs ys) else 0)"
| "common_prefix _ _ = 0"

definition relpath :: "string \<Rightarrow> string \<Rightarrow> string" where
  "relpath p start =
     (let ps = abs_parts p; ss = abs_parts start; i = common_prefix ss ps;
          rel = replicate (length ss - i) ''..'' @ drop i ps
      in if rel = [] then ''.'' else join_with ''/'' rel)"

definition basename :: "string \<Rightarrow> string" where
  "basename p = last_segment (CHR ''/'') p"

text \<open>The source root is absolute.\<close>

definition src_root :: "environ \<Rightarrow> string" where
  "src_root env = (case env ''ZO_SENTINEL_ROOT'' of None \<Rightarrow> ''/home/workspace/zo_sentinel'' | Some v \<Rightarrow> v)"

definition repo_relative :: "environ \<Rightarrow> string \<Rightarrow> string" where
  "repo_relative env fp =
     (if \<not> startswith fp ''/'' then fp
      else (let rel = relpath fp (src_root env) in
            replace_char (CHR 0x5C) ''/'' (if startswith rel ''..'' \<or> startswith rel ''/'' then basename fp else rel)))"

definition WINDOWS_RESERVED_CHARS :: string where
  "WINDOWS_RESERVED_CHARS = ''<>:'' @ dquote @ ''|?*''"

text \<open>\<open>sorted({c for c in s if c in cs})\<close>.\<close>

definition bad_chars :: "string \<Rightarrow> string" where
  "bad_chars s = sort (remdups (filter (\<lambda>c. c \<in> set WINDOWS_RESERVED_CHARS) s))"

definition portable_path_violation :: "string \<Rightarrow> string option" where
  "portable_path_violation rel =
     (if bad_chars rel = [] then None
      else Some (''path '' @ repr_str rel @ '' contains Windows-reserved character(s) ''
        @ join_with '' '' (map (\<lambda>c. [c]) (bad_chars rel))
        @ ''; it would make every checkout of the branch fail on the tower (FU-209). Refusing to commit it. This is almost always an UNSUBSTITUTED template placeholder in an emitted path.''))"

subsection \<open>Failures worth a retry\<close>

definition RATE_LIMIT_MARKERS :: "string list" where
  "RATE_LIMIT_MARKERS =
     [''rate limit'', ''secondary rate limit'', ''abuse detection'', ''retry-after'', ''api rate limit exceeded'',
      ''was submitted too quickly'', ''you have exceeded a secondary rate limit'', ''try again later'',
      ''please wait a few minutes'']"

definition TRANSIENT_NET_MARKERS :: "string list" where
  "TRANSIENT_NET_MARKERS =
     [''broken pipe'', ''send failure'', ''connection reset'', ''connection timed out'', ''could not resolve host'',
      ''failed to connect'', ''could not read from remote repository'', ''unexpected disconnect'', ''rpc failed'',
      ''ssl_read'', ''gnutls_handshake'', ''timed out'', ''temporary failure in name resolution'']"

definition DIRTY_TREE_MARKERS :: "string list" where
  "DIRTY_TREE_MARKERS =
     [''would be overwritten by checkout'', ''would be overwritten by merge'', ''Please commit your changes or stash them'']"

definition has_marker :: "string list \<Rightarrow> string \<Rightarrow> bool" where
  "has_marker ms t = list_ex (\<lambda>m. substr_in m t) ms"

definition is_rate_limited :: "string \<Rightarrow> bool" where
  "is_rate_limited t = has_marker RATE_LIMIT_MARKERS (lower t)"

definition is_transient_net :: "string \<Rightarrow> bool" where
  "is_transient_net t = has_marker TRANSIENT_NET_MARKERS (lower t)"

definition is_retryable :: "string \<Rightarrow> bool" where
  "is_retryable t = (is_rate_limited t \<or> is_transient_net t)"

definition is_dirty_tree :: "string \<Rightarrow> bool" where
  "is_dirty_tree t = has_marker DIRTY_TREE_MARKERS t"

subsection \<open>Commands\<close>

record proc =
  rc :: int
  sout :: string
  serr :: string

record 'g clone =
  cl_fs :: fs
  cl_repo :: 'g
  cl_log :: "(string list \<times> int) list"
  cl_slept :: "rat list"
  cl_redirects :: "(string \<times> string) list"

text \<open>\<open>gc_retries\<close> is not negative, as the constructor leaves it; \<open>gc_random n\<close> is the draw after \<open>n\<close> pauses.\<close>

record 'g clicfg =
  gc_dir :: string
  gc_repo :: string
  gc_remote :: string
  gc_author :: string
  gc_email :: string
  gc_retries :: nat
  gc_base :: rat
  gc_cap :: rat
  gc_random :: "nat \<Rightarrow> rat"
  gc_env :: environ
  gc_stamp :: string
  gc_mtime :: int
  gc_python :: string
  gc_err :: string
  gc_run :: "string list \<Rightarrow> fs \<times> 'g \<Rightarrow> proc \<times> fs \<times> 'g"

definition clone_dir :: "('g, 'x) clicfg_scheme \<Rightarrow> path" where
  "clone_dir c = path_of (gc_dir c)"

definition exec_cmd :: "('g, 'x) clicfg_scheme \<Rightarrow> string list \<Rightarrow> 'g clone \<Rightarrow> proc \<times> 'g clone" where
  "exec_cmd c argv w =
     (case gc_run c argv (cl_fs w, cl_repo w) of (r, f, g) \<Rightarrow>
        (r, w\<lparr>cl_fs := f, cl_repo := g, cl_log := cl_log w @ [(argv, rc r)]\<rparr>))"

definition git_argv :: "('g, 'x) clicfg_scheme \<Rightarrow> string list \<Rightarrow> string list" where
  "git_argv c args = [''git'', ''-C'', gc_dir c] @ args"

definition run_git :: "('g, 'x) clicfg_scheme \<Rightarrow> string list \<Rightarrow> 'g clone \<Rightarrow> proc \<times> 'g clone" where
  "run_git c args = exec_cmd c (git_argv c args)"

definition backoff_delay :: "('g, 'x) clicfg_scheme \<Rightarrow> nat \<Rightarrow> nat \<Rightarrow> rat" where
  "backoff_delay c attempt n =
     (let d = min (gc_cap c) (gc_base c * 2 ^ attempt) in d + d / 4 * gc_random c n)"

function run_with_backoff :: "('g, 'x) clicfg_scheme \<Rightarrow> string list \<Rightarrow> nat \<Rightarrow> 'g clone \<Rightarrow> proc \<times> 'g clone" where
  "run_with_backoff c argv attempt w =
     (case exec_cmd c argv w of (r, w1) \<Rightarrow>
        if rc r = 0 then (r, w1)
        else if attempt \<ge> gc_retries c \<or> \<not> is_retryable (serr r @ sout r) then (r, w1)
        else run_with_backoff c argv (Suc attempt)
               (w1\<lparr>cl_slept := cl_slept w1 @ [backoff_delay c attempt (length (cl_slept w1))]\<rparr>))"
  by pat_completeness auto
termination
  by (relation "measure (\<lambda>(c, argv, attempt, w). gc_retries c - attempt)") auto

declare run_with_backoff.simps [simp del]

subsection \<open>Before the write\<close>

definition or_out :: "string \<Rightarrow> string \<Rightarrow> string" where
  "or_out a b = (if a = [] then b else a)"

definition fetch_argv :: "('g, 'x) clicfg_scheme \<Rightarrow> string list" where
  "fetch_argv c = git_argv c [''fetch'', ''--prune'', gc_remote c]"

definition checkout_argv :: "('g, 'x) clicfg_scheme \<Rightarrow> publish_plan \<Rightarrow> string list" where
  "checkout_argv c p = git_argv c [''checkout'', ''-B'', pp_branch p, gc_remote c @ ''/'' @ pp_base p]"

definition stash_dirty_tree :: "('g, 'x) clicfg_scheme \<Rightarrow> 'g clone \<Rightarrow> bool \<times> 'g clone" where
  "stash_dirty_tree c w =
     (case run_git c [''stash'', ''push'', ''--include-untracked'', ''-m'', ''publisher-selfheal '' @ gc_stamp c] w of
        (r, w1) \<Rightarrow> (rc r = 0, w1))"

definition checkout_branch :: "('g, 'x) clicfg_scheme \<Rightarrow> publish_plan \<Rightarrow> 'g clone \<Rightarrow> proc \<times> 'g clone" where
  "checkout_branch c p w =
     (case run_with_backoff c (checkout_argv c p) 0 w of (r, w1) \<Rightarrow>
        if rc r \<noteq> 0 \<and> is_dirty_tree (serr r @ sout r)
        then (case stash_dirty_tree c w1 of (clean, w2) \<Rightarrow>
                if clean then run_with_backoff c (checkout_argv c p) 0 w2 else (r, w2))
        else (r, w1))"

text \<open>The fetch and the checkout: the failed command, if one failed.\<close>

definition prepare :: "('g, 'x) clicfg_scheme \<Rightarrow> publish_plan \<Rightarrow> 'g clone \<Rightarrow> proc option \<times> 'g clone" where
  "prepare c p w =
     (case run_with_backoff c (fetch_argv c) 0 w of (r, w1) \<Rightarrow>
        if rc r \<noteq> 0 then (Some r, w1)
        else (case checkout_branch c p w1 of (r, w2) \<Rightarrow> (if rc r \<noteq> 0 then Some r else None, w2)))"

subsection \<open>What is written\<close>

text \<open>The path of the artifact, the files to write and the redirections, for a path of the repository.\<close>

definition plan_writes :: "fs \<Rightarrow> path \<Rightarrow> string \<Rightarrow> string \<Rightarrow> string \<times> (string \<times> string) list \<times> (string \<times> string) list" where
  "plan_writes f clone rel0 content =
     (case redirect f clone rel0 of (staged, reason) \<Rightarrow>
        (let rel1 = (if reason = None then rel0 else staged);
             moved = (if reason = None then [] else [(rel0, staged)])
         in (case stage_root_router f clone rel1 content of
               Some ws \<Rightarrow> (fst (hd ws), ws, moved @ [(rel1, fst (hd ws))])
             | None \<Rightarrow> (rel1, [(rel1, content)] @ staged_companions f clone rel1 content
                                 @ manifest_companions f clone rel1 content, moved))))"

text \<open>Writing them: the path at which a write failed, if one did.\<close>

fun write_all :: "int \<Rightarrow> path \<Rightarrow> (string \<times> string) list \<Rightarrow> fs \<Rightarrow> string option \<times> fs" where
  "write_all now clone [] f = (None, f)"
| "write_all now clone ((rel, text) # ws) f =
     (let target = in_clone clone rel in
      case mkdirs (path_parent target) f of
        None \<Rightarrow> (Some rel, f)
      | Some g \<Rightarrow>
        (case write_text now target (Text text) g of
           None \<Rightarrow> (Some rel, g)
         | Some h \<Rightarrow> write_all now clone ws h))"

text \<open>The repository's own manifest check, run with \<open>--fix\<close> when the clone has it; its failure is not fatal.\<close>

definition fix_manifests :: "('g, 'x) clicfg_scheme \<Rightarrow> string list \<Rightarrow> 'g clone \<Rightarrow> bool \<times> 'g clone" where
  "fix_manifests c manifests w =
     (let tool = gc_dir c @ ''/tools/check_service_manifests.py'' in
      if \<not> is_file (cl_fs w) (path_of tool) then (True, w)
      else (case exec_cmd c ([gc_python c, tool, ''--fix''] @ map (\<lambda>m. gc_dir c @ ''/'' @ m) manifests) w of
              (r, w1) \<Rightarrow> (rc r = 0, w1)))"

definition fix_written :: "('g, 'x) clicfg_scheme \<Rightarrow> (string \<times> string) list \<Rightarrow> 'g clone \<Rightarrow> 'g clone" where
  "fix_written c ws w =
     (let ms = filter (\<lambda>rel. endswith rel ''/service.toml'') (map fst ws) in
      if ms = [] then w else snd (fix_manifests c ms w))"

fun add_all :: "('g, 'x) clicfg_scheme \<Rightarrow> string list \<Rightarrow> 'g clone \<Rightarrow> proc option \<times> 'g clone" where
  "add_all c [] w = (None, w)"
| "add_all c (rel # rels) w =
     (case run_git c [''add'', rel] w of (r, w1) \<Rightarrow> if rc r \<noteq> 0 then (Some r, w1) else add_all c rels w1)"

text \<open>The declaration in the ledger, added to the commit; a failure is not fatal.\<close>

definition declare_orphan :: "('g, 'x) clicfg_scheme \<Rightarrow> publish_plan \<Rightarrow> string \<Rightarrow> 'g clone \<Rightarrow> 'g clone" where
  "declare_orphan c p rel w =
     (case auto_declare (gc_mtime c) (gc_err c) (clone_dir c) rel (pp_content p) (pp_dedup p) [] (cl_fs w) of
        ((changed, detail), f) \<Rightarrow>
          (if changed then snd (run_git c [''add'', DEFERRED_REL] (w\<lparr>cl_fs := f\<rparr>)) else w\<lparr>cl_fs := f\<rparr>))"

subsection \<open>Commit, push, pull request\<close>

definition commit_args :: "('g, 'x) clicfg_scheme \<Rightarrow> publish_plan \<Rightarrow> string list" where
  "commit_args c p = [''-c'', ''user.name='' @ gc_author c, ''-c'', ''user.email='' @ gc_email c, ''commit'', ''-m'', pp_title p]"

definition push_argv :: "('g, 'x) clicfg_scheme \<Rightarrow> publish_plan \<Rightarrow> string list" where
  "push_argv c p = git_argv c [''push'', ''-u'', gc_remote c, pp_branch p, ''--force-with-lease'']"

definition create_argv :: "('g, 'x) clicfg_scheme \<Rightarrow> publish_plan \<Rightarrow> string list" where
  "create_argv c p = [''gh'', ''pr'', ''create'', ''--repo'', gc_repo c, ''--base'', pp_base p, ''--head'', pp_branch p,
     ''--title'', pp_title p, ''--body'', pp_body p]"

definition view_argv :: "('g, 'x) clicfg_scheme \<Rightarrow> publish_plan \<Rightarrow> string list" where
  "view_argv c p = [''gh'', ''pr'', ''view'', pp_branch p, ''--repo'', gc_repo c, ''--json'', ''url'', ''-q'', ''.url'']"

fun create_labels :: "('g, 'x) clicfg_scheme \<Rightarrow> string list \<Rightarrow> 'g clone \<Rightarrow> 'g clone" where
  "create_labels c [] w = w"
| "create_labels c (lab # labs) w =
     create_labels c labs (snd (exec_cmd c [''gh'', ''label'', ''create'', lab, ''--repo'', gc_repo c, ''--force''] w))"

definition apply_labels :: "('g, 'x) clicfg_scheme \<Rightarrow> string \<Rightarrow> string list \<Rightarrow> 'g clone \<Rightarrow> 'g clone" where
  "apply_labels c url labels w =
     (if labels = [] then w
      else snd (exec_cmd c ([''gh'', ''pr'', ''edit'', url, ''--repo'', gc_repo c]
                  @ concat (map (\<lambda>l. [''--add-label'', l]) labels)) (create_labels c labels w)))"

definition open_pr :: "('g, 'x) clicfg_scheme \<Rightarrow> publish_plan \<Rightarrow> 'g clone \<Rightarrow> publish_result \<times> 'g clone" where
  "open_pr c p w =
     (case run_with_backoff c (create_argv c p) 0 w of (r, w1) \<Rightarrow>
        if rc r \<noteq> 0 then
          (if substr_in ''already exists'' (lower (serr r @ sout r)) then
             (case exec_cmd c (view_argv c p) w1 of (v, w2) \<Rightarrow>
                if rc v = 0 then
                  (let url = strip (sout v) in
                   (opened_result (pp_branch p) (JStr url) ''already exists'',
                    if url \<noteq> [] then apply_labels c url (pp_labels p) w2 else w2))
                else (opened_result (pp_branch p) JNull ''already exists'', w2))
           else (failed_result (pp_branch p) (take 300 (or_out (serr r) ''gh pr create failed'')) False, w1))
        else (let url = strip (sout r) in
              (opened_result (pp_branch p) (JStr url) ''published'', apply_labels c url (pp_labels p) w1)))"

text \<open>From the staged files on.\<close>

definition commit_and_push :: "('g, 'x) clicfg_scheme \<Rightarrow> publish_plan \<Rightarrow> 'g clone \<Rightarrow> publish_result \<times> 'g clone" where
  "commit_and_push c p w =
     (case run_git c [''diff'', ''--cached'', ''--quiet''] w of (d, w1) \<Rightarrow>
        if rc d = 0 then (noop_result (pp_branch p), w1)
        else (case run_git c (commit_args c p) w1 of (r, w2) \<Rightarrow>
          if rc r \<noteq> 0 then (failed_result (pp_branch p) (take 300 (or_out (serr r) ''git commit failed'')) False, w2)
          else (case run_with_backoff c (push_argv c p) 0 w2 of (q, w3) \<Rightarrow>
            if rc q \<noteq> 0 then (failed_result (pp_branch p) (take 300 (or_out (serr q) ''git push failed'')) False, w3)
            else open_pr c p w3)))"

text \<open>From a clean branch on.\<close>

definition write_and_commit :: "('g, 'x) clicfg_scheme \<Rightarrow> publish_plan \<Rightarrow> 'g clone \<Rightarrow> publish_result \<times> 'g clone" where
  "write_and_commit c p w =
     (let rel0 = repo_relative (gc_env c) (pp_file p) in
      case portable_path_violation rel0 of
        Some v \<Rightarrow> (failed_result (pp_branch p) (take 300 v) True, w)
      | None \<Rightarrow>
        (case plan_writes (cl_fs w) (clone_dir c) rel0 (pp_content p) of (rel, ws, moved) \<Rightarrow>
          (case write_all (gc_mtime c) (clone_dir c) ws (cl_fs w) of (bad, f) \<Rightarrow>
            (let w1 = w\<lparr>cl_fs := f, cl_redirects := cl_redirects w @ moved\<rparr> in
             (case bad of
                Some b \<Rightarrow> (failed_result (pp_branch p) (''write '' @ b @ '': '' @ gc_err c) True, w1)
              | None \<Rightarrow>
                (case add_all c (map fst ws) (fix_written c ws w1) of (failed, w2) \<Rightarrow>
                  (case failed of
                     Some r \<Rightarrow> (failed_result (pp_branch p) (take 300 (or_out (serr r) ''git add failed'')) True, w2)
                   | None \<Rightarrow> commit_and_push c p (declare_orphan c p rel w2))))))))"

definition cli_publish :: "('g, 'x) clicfg_scheme \<Rightarrow> publish_plan \<Rightarrow> 'g clone \<Rightarrow> publish_result \<times> 'g clone" where
  "cli_publish c p w =
     (case prepare c p w of (failed, w1) \<Rightarrow>
        (case failed of
           Some r \<Rightarrow> (failed_result (pp_branch p) (take 300 (or_out (serr r) (sout r))) False, w1)
         | None \<Rightarrow> write_and_commit c p w1))"

subsection \<open>The double for tests\<close>

record fake_gitops =
  fk_base_url :: string
  fk_published :: "publish_plan list"

definition fake_publish :: "publish_plan \<Rightarrow> fake_gitops \<Rightarrow> publish_result \<times> fake_gitops" where
  "fake_publish p s =
     (let s1 = s\<lparr>fk_published := fk_published s @ [p]\<rparr>; n = length (fk_published s1)
      in (opened_result (pp_branch p) (JStr (fk_base_url s @ ''/pull/FAKE'' @ nat_str n)) ''fake'', s1))"

subsection \<open>Commands that are retried\<close>

lemma exec_log:
  "exec_cmd c argv w = (r, w1) \<Longrightarrow> cl_log w1 = cl_log w @ [(argv, rc r)] \<and> cl_slept w1 = cl_slept w \<and> cl_redirects w1 = cl_redirects w"
  by (auto simp: exec_cmd_def split: prod.splits)

text \<open>The code's own expectations: a draw is in the unit interval, the backoff is not negative.\<close>

definition sane_backoff :: "('g, 'x) clicfg_scheme \<Rightarrow> bool" where
  "sane_backoff c \<longleftrightarrow> 0 \<le> gc_base c \<and> 0 \<le> gc_cap c \<and> (\<forall>n. 0 \<le> gc_random c n \<and> gc_random c n \<le> 1)"

lemma backoff_delay_bounds:
  assumes "sane_backoff c"
  shows "0 \<le> backoff_delay c k n \<and> backoff_delay c k n \<le> gc_cap c * 5 / 4"
proof -
  define d where "d = min (gc_cap c) (gc_base c * 2 ^ k)"
  have d: "0 \<le> d" "d \<le> gc_cap c" using assms by (auto simp: d_def sane_backoff_def)
  have r: "0 \<le> gc_random c n" "gc_random c n \<le> 1" using assms by (auto simp: sane_backoff_def)
  have "d / 4 * gc_random c n \<le> d / 4 * 1" using d r by (intro mult_left_mono) auto
  moreover have "0 \<le> d / 4 * gc_random c n" using d r by simp
  ultimately show ?thesis using d by (simp add: backoff_delay_def d_def [symmetric])
qed

lemma backoff_spec:
  assumes "run_with_backoff c argv k w = (r, w')" and "sane_backoff c"
  shows "\<exists>ds fails. cl_slept w' = cl_slept w @ ds \<and> length ds \<le> gc_retries c - k
    \<and> list_all (\<lambda>d. 0 \<le> d \<and> d \<le> gc_cap c * 5 / 4) ds
    \<and> cl_log w' = cl_log w @ fails @ [(argv, rc r)] \<and> length fails = length ds
    \<and> list_all (\<lambda>x. fst x = argv \<and> snd x \<noteq> 0) fails
    \<and> (rc r = 0 \<or> \<not> is_retryable (serr r @ sout r) \<or> length ds = gc_retries c - k)"
  using assms
proof (induction c argv k w arbitrary: r w' rule: run_with_backoff.induct)
  case (1 c argv k w)
  obtain r1 w1 where e: "exec_cmd c argv w = (r1, w1)" by fastforce
  note log = exec_log [OF e]
  show ?case
  proof (cases "rc r1 = 0 \<or> k \<ge> gc_retries c \<or> \<not> is_retryable (serr r1 @ sout r1)")
    case True
    then have "run_with_backoff c argv k w = (r1, w1)" by (subst run_with_backoff.simps) (auto simp: e)
    with "1.prems"(1) log True show ?thesis
      by (intro exI [of _ "[]"]) auto
  next
    case False
    define d where "d = backoff_delay c k (length (cl_slept w1))"
    define w2 where "w2 = w1\<lparr>cl_slept := cl_slept w1 @ [d]\<rparr>"
    have step: "run_with_backoff c argv k w = run_with_backoff c argv (Suc k) w2"
      using False by (subst run_with_backoff.simps) (simp add: e d_def w2_def)
    have "\<exists>ds fails. cl_slept w' = cl_slept w2 @ ds \<and> length ds \<le> gc_retries c - Suc k
        \<and> list_all (\<lambda>d. 0 \<le> d \<and> d \<le> gc_cap c * 5 / 4) ds
        \<and> cl_log w' = cl_log w2 @ fails @ [(argv, rc r)] \<and> length fails = length ds
        \<and> list_all (\<lambda>x. fst x = argv \<and> snd x \<noteq> 0) fails
        \<and> (rc r = 0 \<or> \<not> is_retryable (serr r @ sout r) \<or> length ds = gc_retries c - Suc k)"
      unfolding w2_def d_def
      by (rule "1.IH" [OF e [symmetric]]) (use False "1.prems" step in \<open>simp_all add: w2_def d_def\<close>)
    then obtain ds fails where d: "cl_slept w' = cl_slept w2 @ ds" "length ds \<le> gc_retries c - Suc k"
        "list_all (\<lambda>d. 0 \<le> d \<and> d \<le> gc_cap c * 5 / 4) ds"
        "cl_log w' = cl_log w2 @ fails @ [(argv, rc r)]" "length fails = length ds"
        "list_all (\<lambda>x. fst x = argv \<and> snd x \<noteq> 0) fails"
        "rc r = 0 \<or> \<not> is_retryable (serr r @ sout r) \<or> length ds = gc_retries c - Suc k" by blast
    have "0 \<le> d \<and> d \<le> gc_cap c * 5 / 4"
      unfolding d_def by (rule backoff_delay_bounds [OF "1.prems"(2)])
    with d log False show ?thesis
      by (intro exI [of _ "d # ds"] exI [of _ "(argv, rc r1) # fails"]) (auto simp: w2_def)
  qed
qed

subsection \<open>What reaches the remote\<close>

fun is_push :: "string list \<Rightarrow> bool" where
  "is_push (a # b # d # e # rest) = (a = ''git'' \<and> b = ''-C'' \<and> e = ''push'')"
| "is_push _ = False"

definition pushes :: "'g clone \<Rightarrow> nat" where
  "pushes w = length (filter (\<lambda>x. is_push (fst x) \<and> snd x = 0) (cl_log w))"

definition push_count :: "string list \<Rightarrow> proc \<Rightarrow> nat" where
  "push_count argv r = (if is_push argv \<and> rc r = 0 then 1 else 0)"

lemma pushes_update [simp]:
  "pushes (w\<lparr>cl_fs := f\<rparr>) = pushes w" "pushes (w\<lparr>cl_slept := ds\<rparr>) = pushes w" "pushes (w\<lparr>cl_redirects := m\<rparr>) = pushes w"
  by (simp_all add: pushes_def)

lemma exec_pushes: "exec_cmd c argv w = (r, w1) \<Longrightarrow> pushes w1 = pushes w + push_count argv r"
  using exec_log [of c argv w r w1] by (auto simp: pushes_def push_count_def)

lemma backoff_pushes: "run_with_backoff c argv k w = (r, w') \<Longrightarrow> pushes w' = pushes w + push_count argv r"
proof (induction c argv k w arbitrary: r w' rule: run_with_backoff.induct)
  case (1 c argv k w)
  obtain r1 w1 where e: "exec_cmd c argv w = (r1, w1)" by fastforce
  show ?case
  proof (cases "rc r1 = 0 \<or> k \<ge> gc_retries c \<or> \<not> is_retryable (serr r1 @ sout r1)")
    case True
    then have "run_with_backoff c argv k w = (r1, w1)" by (subst run_with_backoff.simps) (auto simp: e)
    with "1.prems" exec_pushes [OF e] show ?thesis by simp
  next
    case False
    then have "run_with_backoff c argv k w = run_with_backoff c argv (Suc k)
        (w1\<lparr>cl_slept := cl_slept w1 @ [backoff_delay c k (length (cl_slept w1))]\<rparr>)"
      by (subst run_with_backoff.simps) (simp add: e)
    with "1.IH" [OF e [symmetric]] False "1.prems" exec_pushes [OF e] show ?thesis
      by (simp add: push_count_def)
  qed
qed

lemma git_push_argv [simp]: "is_push (git_argv c (a # as)) \<longleftrightarrow> a = ''push''"
  by (simp add: git_argv_def)

lemma gh_no_push [simp]: "\<not> is_push (''gh'' # as)"
  by (cases "''gh'' # as" rule: is_push.cases) auto

lemma fix_no_push [simp]: "\<not> is_push ([py, d @ ''/tools/check_service_manifests.py'', fix] @ as)"
proof -
  have "d @ ''/tools/check_service_manifests.py'' \<noteq> ''-C''" by (auto dest: arg_cong [of _ _ length])
  then show ?thesis by (cases as) auto
qed

lemma push_count_no [simp]: "\<not> is_push argv \<Longrightarrow> push_count argv r = 0"
  by (simp add: push_count_def)

lemma git_pushes: "run_git c (a # as) w = (r, w1) \<Longrightarrow> a \<noteq> ''push'' \<Longrightarrow> pushes w1 = pushes w"
  using exec_pushes [of c "git_argv c (a # as)" w r w1] by (simp add: run_git_def)

lemma checkout_pushes: "checkout_branch c p w = (r, w1) \<Longrightarrow> pushes w1 = pushes w"
proof -
  have co: "pushes w1 = pushes w" if "run_with_backoff c (checkout_argv c p) 0 w = (r, w1)" for w r w1
    using backoff_pushes [OF that] by (simp add: checkout_argv_def)
  have st: "pushes w1 = pushes w" if "stash_dirty_tree c w = (r, w1)" for w r w1
    using that by (auto simp: stash_dirty_tree_def dest: git_pushes split: prod.splits)
  show "checkout_branch c p w = (r, w1) \<Longrightarrow> pushes w1 = pushes w"
    by (auto simp: checkout_branch_def dest!: co st split: prod.splits if_splits)
qed

lemma prepare_pushes: "prepare c p w = (r, w1) \<Longrightarrow> pushes w1 = pushes w"
  using backoff_pushes [of c "fetch_argv c" 0 w]
  by (fastforce simp: prepare_def fetch_argv_def dest: checkout_pushes split: prod.splits if_splits)

lemma fix_pushes: "pushes (fix_written c ws w) = pushes w"
  using exec_pushes
  by (fastforce simp: fix_written_def fix_manifests_def Let_def simp del: append.simps split: prod.splits)

lemma add_pushes: "add_all c rels w = (r, w1) \<Longrightarrow> pushes w1 = pushes w"
  by (induction rels arbitrary: w) (auto split: prod.splits if_splits dest!: git_pushes)

lemma declare_pushes: "pushes (declare_orphan c p rel w) = pushes w"
proof -
  have "pushes (snd (run_git c [''add'', DEFERRED_REL] v)) = pushes v" for v
    using git_pushes [of c "''add''" "[DEFERRED_REL]" v] by (cases "run_git c [''add'', DEFERRED_REL] v") simp
  then show ?thesis by (simp add: declare_orphan_def split: prod.splits)
qed

lemma labels_pushes: "pushes (apply_labels c url labels w) = pushes w"
proof -
  have "pushes (snd (exec_cmd c (''gh'' # as) w)) = pushes w" for as w
    using exec_pushes [of c "''gh'' # as" w] by (cases "exec_cmd c (''gh'' # as) w") simp
  moreover from this have "pushes (create_labels c labels w) = pushes w" by (induction labels arbitrary: w) simp_all
  ultimately show ?thesis by (simp add: apply_labels_def)
qed

subsection \<open>The seam\<close>

text \<open>
  What the publisher may rely on, for every implementation of the protocol: \<open>pushed\<close> counts
  the branches that reached the remote. A pull request stands for one of them; nothing to do and
  a permanent failure stand for none; a transient failure may come after the push.
\<close>

locale git_seam =
  fixes publish :: "publish_plan \<Rightarrow> 'w \<Rightarrow> publish_result \<times> 'w"
    and pushed :: "'w \<Rightarrow> nat"
  assumes opened_once: "publish p w = (r, w') \<Longrightarrow> pr_ok r \<Longrightarrow> \<not> pr_noop r \<Longrightarrow> pushed w' = Suc (pushed w)"
    and noop_none: "publish p w = (r, w') \<Longrightarrow> pr_noop r \<Longrightarrow> pr_ok r \<and> pushed w' = pushed w"
    and permanent_none: "publish p w = (r, w') \<Longrightarrow> pr_permanent r \<Longrightarrow> \<not> pr_ok r \<and> pushed w' = pushed w"
    and pushed_at_most_once: "publish p w = (r, w') \<Longrightarrow> pushed w \<le> pushed w' \<and> pushed w' \<le> Suc (pushed w)"
begin

lemma opened_iff:
  assumes "publish p w = (r, w')" and "pr_ok r \<or> pr_permanent r"
  shows "pushed w' = (if pr_ok r \<and> \<not> pr_noop r then Suc (pushed w) else pushed w)"
  using opened_once [OF assms(1)] noop_none [OF assms(1)] permanent_none [OF assms(1)] assms(2) by auto

end

text \<open>How an answer accounts for the pushes since a count.\<close>

definition accounts :: "publish_result \<Rightarrow> nat \<Rightarrow> nat \<Rightarrow> bool" where
  "accounts r n m \<longleftrightarrow> (pr_ok r \<and> \<not> pr_noop r \<longrightarrow> m = Suc n) \<and> (pr_noop r \<longrightarrow> pr_ok r \<and> m = n)
     \<and> (pr_permanent r \<longrightarrow> \<not> pr_ok r \<and> m = n) \<and> n \<le> m \<and> m \<le> Suc n"

lemma accounts_failed: "accounts (failed_result b d permanent) n m \<longleftrightarrow> (if permanent then m = n else m = n \<or> m = Suc n)"
  by (auto simp: accounts_def failed_result_def)

lemma accounts_opened: "accounts (opened_result b u d) n m \<longleftrightarrow> m = Suc n"
  by (auto simp: accounts_def opened_result_def)

lemma accounts_noop: "accounts (noop_result b) n m \<longleftrightarrow> m = n"
  by (auto simp: accounts_def noop_result_def)

lemmas accounts_simps = accounts_failed accounts_opened accounts_noop

lemma open_pr_pushes:
  assumes "open_pr c p w = (r, w')"
  shows "pushes w' = pushes w \<and> \<not> pr_noop r \<and> \<not> pr_permanent r"
proof -
  have cr: "pushes w1 = pushes w" if "run_with_backoff c (create_argv c p) 0 w = (q, w1)" for q w1
    using backoff_pushes [OF that] by (simp add: create_argv_def)
  have vw: "pushes w2 = pushes w1" if "exec_cmd c (view_argv c p) w1 = (q, w2)" for q w1 w2
    using exec_pushes [OF that] by (simp add: view_argv_def)
  show ?thesis
    using assms
    by (auto simp: open_pr_def Let_def labels_pushes opened_result_def failed_result_def dest!: cr vw split: prod.splits if_splits)
qed

lemma commit_and_push_accounts:
  assumes "commit_and_push c p w = (r, w')"
  shows "accounts r (pushes w) (pushes w')"
proof -
  obtain d w1 where d: "run_git c [''diff'', ''--cached'', ''--quiet''] w = (d, w1)" by fastforce
  obtain k w2 where k: "run_git c (commit_args c p) w1 = (k, w2)" by fastforce
  obtain q w3 where q: "run_with_backoff c (push_argv c p) 0 w2 = (q, w3)" by fastforce
  have n: "pushes w1 = pushes w" using git_pushes [OF d] by simp
  have m: "pushes w2 = pushes w1" using git_pushes [of c "''-c''" _ w1 k w2] k by (simp add: commit_args_def)
  have l: "pushes w3 = pushes w2 + (if rc q = 0 then 1 else 0)"
    using backoff_pushes [OF q] by (simp add: push_argv_def push_count_def)
  consider "rc d = 0" | "rc d \<noteq> 0" "rc k \<noteq> 0" | "rc d \<noteq> 0" "rc k = 0" "rc q \<noteq> 0"
    | "rc d \<noteq> 0" "rc k = 0" "rc q = 0" "open_pr c p w3 = (r, w')"
    using assms d k q by (auto simp: commit_and_push_def split: if_splits)
  then show ?thesis
  proof cases
    case 4
    with open_pr_pushes [OF 4(4)] l m n show ?thesis by (auto simp: accounts_def)
  qed (use assms d k q n m l in \<open>auto simp: commit_and_push_def accounts_simps\<close>)
qed

lemma write_and_commit_accounts:
  assumes "write_and_commit c p w = (r, w')"
  shows "accounts r (pushes w) (pushes w')"
proof (cases "portable_path_violation (repo_relative (gc_env c) (pp_file p))")
  case (Some v)
  with assms show ?thesis by (auto simp: write_and_commit_def accounts_simps)
next
  case None
  obtain rel ws moved where pw: "plan_writes (cl_fs w) (clone_dir c) (repo_relative (gc_env c) (pp_file p)) (pp_content p) = (rel, ws, moved)"
    by (cases "plan_writes (cl_fs w) (clone_dir c) (repo_relative (gc_env c) (pp_file p)) (pp_content p)")
  obtain bad f where wa: "write_all (gc_mtime c) (clone_dir c) ws (cl_fs w) = (bad, f)" by fastforce
  define w1 where "w1 = w\<lparr>cl_fs := f, cl_redirects := cl_redirects w @ moved\<rparr>"
  obtain failed w2 where ad: "add_all c (map fst ws) (fix_written c ws w1) = (failed, w2)" by fastforce
  have n: "pushes w1 = pushes w" by (simp add: w1_def)
  have m: "pushes w2 = pushes w" using add_pushes [OF ad] fix_pushes [of c ws w1] n by simp
  have eq: "write_and_commit c p w = (case bad of
        Some b \<Rightarrow> (failed_result (pp_branch p) (''write '' @ b @ '': '' @ gc_err c) True, w1)
      | None \<Rightarrow> (case failed of
          Some r \<Rightarrow> (failed_result (pp_branch p) (take 300 (or_out (serr r) ''git add failed'')) True, w2)
        | None \<Rightarrow> commit_and_push c p (declare_orphan c p rel w2)))"
    by (simp add: write_and_commit_def Let_def None pw wa ad w1_def [symmetric] split: option.splits)
  show ?thesis
  proof (cases "bad = None \<and> failed = None")
    case True
    then have "commit_and_push c p (declare_orphan c p rel w2) = (r, w')" using assms eq by simp
    from commit_and_push_accounts [OF this] show ?thesis by (simp add: declare_pushes m)
  next
    case False
    with assms eq n m show ?thesis by (auto simp: accounts_simps split: option.splits)
  qed
qed

lemma cli_accounts:
  assumes "cli_publish c p w = (r, w')"
  shows "accounts r (pushes w) (pushes w')"
proof -
  obtain failed w1 where pr: "prepare c p w = (failed, w1)" by fastforce
  show ?thesis
    using assms pr prepare_pushes [OF pr] write_and_commit_accounts [of c p w1]
    by (auto simp: cli_publish_def accounts_simps split: option.splits)
qed

interpretation cli: git_seam "cli_publish c" pushes for c
  by unfold_locales (auto dest!: cli_accounts simp: accounts_def)

interpretation fake: git_seam fake_publish "\<lambda>s. length (fk_published s)"
  by unfold_locales (auto simp: fake_publish_def opened_result_def Let_def)

subsection \<open>What is written, and where\<close>

lemma plan_writes_known:
  assumes "plan_writes f clone rel0 content = (rel, ws, moved)" and "norm_rel rel0 \<noteq> ACTIVE_PREFIX @ STAGED_MANIFEST"
  shows "list_all (\<lambda>x. active_known f clone (fst x)) ws"
proof -
  obtain staged reason where r: "redirect f clone rel0 = (staged, reason)" by fastforce
  define rel1 where "rel1 = (if reason = None then rel0 else staged)"
  have k: "active_known f clone rel1"
    using redirect_known [OF r] staged_known [of f clone] by (auto simp: rel1_def split: if_splits)
  have n: "norm_rel rel1 \<noteq> ACTIVE_PREFIX @ STAGED_MANIFEST"
  proof (cases "reason = None")
    case False
    with redirect_known [OF r] obtain x where x: "rel1 = STAGED_PREFIX @ x" by (auto simp: rel1_def)
    show ?thesis
    proof
      assume "norm_rel rel1 = ACTIVE_PREFIX @ STAGED_MANIFEST"
      then have "startswith (norm_rel rel1) ACTIVE_PREFIX" by simp
      then show False by (simp add: x norm_staged staged_not_active)
    qed
  qed (use assms(2) rel1_def in simp)
  have ws: "ws = (case stage_root_router f clone rel1 content of Some vs \<Rightarrow> vs
      | None \<Rightarrow> [(rel1, content)] @ staged_companions f clone rel1 content @ manifest_companions f clone rel1 content)"
    using assms(1) r by (auto simp: plan_writes_def Let_def rel1_def split: option.splits)
  show ?thesis
  proof (cases "stage_root_router f clone rel1 content")
    case None
    with ws k staged_companions_known [of f clone rel1 content] manifest_companions_known [OF k n, of content]
    show ?thesis by simp
  next
    case (Some vs)
    with ws stage_root_known [OF Some] show ?thesis by simp
  qed
qed

text \<open>After the writes every one of the files exists, and nothing that existed is gone.\<close>

lemma write_all_spec:
  assumes "write_all now clone ws f = (None, g)"
  shows "list_all (\<lambda>x. is_file g (in_clone clone (fst x))) ws \<and> (\<forall>q. is_file f q \<longrightarrow> is_file g q)
    \<and> (\<forall>q. is_dir f q \<longrightarrow> is_dir g q) \<and> (\<forall>q. q \<notin> in_clone clone ` set (map fst ws) \<longrightarrow> fs_get g q = fs_get f q)"
  using assms
proof (induction ws arbitrary: f)
  case (Cons x ws)
  obtain rel t where x: "x = (rel, t)" by fastforce
  obtain h k where h: "mkdirs (path_parent (in_clone clone rel)) f = Some h"
      "write_text now (in_clone clone rel) (Text t) h = Some k" "write_all now clone ws k = (None, g)"
    using Cons.prems by (auto simp: x Let_def split: option.splits)
  have f: "is_file k q \<longleftrightarrow> is_file f q \<or> q = in_clone clone rel" for q
    using write_text_get [OF h(2)] mkdirs_get [OF h(1)] by (auto simp: is_file_def)
  have d: "is_dir k q" if "is_dir f q" for q
    using that h(1,2) by (auto simp: mkdirs_def is_dir_def write_text_def fs_put_def split: if_splits)
  have g: "fs_get k q = fs_get f q" if "q \<noteq> in_clone clone rel" for q
    using that write_text_get [OF h(2)] mkdirs_get [OF h(1)] by simp
  from Cons.IH [OF h(3)] f d g show ?case by (auto simp: x)
qed simp

text \<open>The artifact comes first, and what is written beside it has another name.\<close>

lemma companion_shape:
  assumes "x \<in> set (staged_companions f clone rel content)"
  shows "\<exists>b. fst x = b @ ''/service.toml'' \<or> fst x = b @ ''/__init__.py''"
proof -
  let ?b = "STAGED_PREFIX @ hd (split_on (CHR ''/'') (drop (length STAGED_PREFIX) (norm_rel rel)))"
  have "fst x = ?b @ ''/service.toml'' \<or> fst x = ?b @ ''/__init__.py''"
    using assms by (auto simp: staged_companions_def Let_def STAGED_MANIFEST_def dest!: missing_file_in split: if_splits)
  then show ?thesis by blast
qed

lemma stage_root_shape:
  assumes "stage_root_router f clone rel content = Some us"
  shows "\<exists>b vs. us = (b @ ''/router.py'', content) # vs
    \<and> list_all (\<lambda>x. fst x = b @ ''/service.toml'' \<or> fst x = b @ ''/__init__.py'') vs"
proof -
  let ?b = "STAGED_PREFIX @ drop_ext (norm_rel rel)"
  have "us = (?b @ ''/router.py'', content)
      # missing_file f clone (?b @ ''/service.toml'') (render_manifest (drop_ext (norm_rel rel)) content)
      @ missing_file f clone (?b @ ''/__init__.py'') []"
    using assms by (auto simp: stage_root_router_def Let_def STAGED_MANIFEST_def split: if_splits)
  moreover have "list_all (\<lambda>x. fst x = ?b @ ''/service.toml'' \<or> fst x = ?b @ ''/__init__.py'')
      (missing_file f clone (?b @ ''/service.toml'') (render_manifest (drop_ext (norm_rel rel)) content)
      @ missing_file f clone (?b @ ''/__init__.py'') [])"
    by (auto simp: list_all_iff dest!: missing_file_in)
  ultimately show ?thesis by blast
qed

lemma file_endings [simp]:
  "endswith (b @ ''/service.toml'') ''service.toml''" "endswith (b @ ''/__init__.py'') ''__init__.py''"
  "endswith (b @ ''/router.py'') ''router.py''"
  by (simp_all add: endswith_def startswith_def)

lemma staged_companion_names:
  assumes "x \<in> set (staged_companions f clone rel content)"
  shows "endswith rel ''router.py'' \<and> (endswith (fst x) ''service.toml'' \<or> endswith (fst x) ''__init__.py'')"
proof -
  have "endswith (norm_rel rel) ''/router.py''"
    using assms by (auto simp: staged_companions_def Let_def split: if_splits)
  then have "endswith (norm_rel rel) ''router.py''" by (auto simp: endswith_iff)
  then have "endswith rel ''router.py''" by (rule norm_suffix) simp
  with companion_shape [OF assms] show ?thesis by auto
qed

lemma manifest_companion_names:
  assumes "x \<in> set (manifest_companions f clone rel content)"
  shows "endswith rel ''service.toml'' \<and> endswith (fst x) ''.py''"
proof -
  have "endswith (norm_rel rel) (''/'' @ STAGED_MANIFEST)"
    using assms by (auto simp: manifest_companions_def Let_def split: if_splits)
  then have "endswith (norm_rel rel) ''service.toml''" by (auto simp: endswith_iff STAGED_MANIFEST_def)
  then have "endswith rel ''service.toml''" by (rule norm_suffix) simp
  moreover have "endswith (u @ ''/'' @ v @ ''.py'') ''.py''" "endswith (u @ ''/__init__.py'') ''.py''" for u v
    by (simp_all add: endswith_def startswith_def)
  ultimately show ?thesis
    using assms by (auto simp: manifest_companions_def Let_def dest!: missing_file_in split: if_splits option.splits)
qed

lemma names_differ:
  assumes "endswith a t" and "endswith b u" and "CHR ''/'' \<notin> set (t @ u)" and "t \<noteq> []" and "u \<noteq> []"
    and "last t \<noteq> CHR ''.''" and "last u \<noteq> CHR ''.''" and "\<not> endswith t u" and "\<not> endswith u t"
  shows "in_clone clone a \<noteq> in_clone clone b"
proof
  assume eq: "in_clone clone a = in_clone clone b"
  have "endswith (path_name (in_clone clone a)) t" "endswith (path_name (in_clone clone b)) u"
    using path_name_suffix [OF assms(1)] path_name_suffix [OF assms(2)] assms(3-7) by auto
  with eq suffixes_clash assms(8,9) show False by (metis nat_le_linear)
qed

lemma plan_writes_first:
  assumes "plan_writes f clone rel0 content = (rel, ws, moved)"
  shows "\<exists>vs. ws = (rel, content) # vs \<and> in_clone clone rel \<notin> in_clone clone ` set (map fst vs)"
proof -
  obtain staged reason where r: "redirect f clone rel0 = (staged, reason)" by fastforce
  define rel1 where "rel1 = (if reason = None then rel0 else staged)"
  have differ: "in_clone clone a \<noteq> in_clone clone b"
    if "endswith a ''router.py''" "endswith b ''service.toml'' \<or> endswith b ''__init__.py''" for a b
    using that names_differ [of a "''router.py''" b "''service.toml''" clone]
      names_differ [of a "''router.py''" b "''__init__.py''" clone]
    by (auto simp: endswith_def startswith_def)
  have differ': "in_clone clone a \<noteq> in_clone clone b" if "endswith a ''service.toml''" "endswith b ''.py''" for a b
    using that names_differ [of a "''service.toml''" b "''.py''" clone] by (auto simp: endswith_def startswith_def)
  show ?thesis
  proof (cases "stage_root_router f clone rel1 content")
    case None
    then have "ws = (rel, content) # staged_companions f clone rel content @ manifest_companions f clone rel content"
      using assms r by (auto simp: plan_writes_def Let_def rel1_def split: if_splits)
    moreover have "in_clone clone rel \<noteq> in_clone clone (fst x)"
      if "x \<in> set (staged_companions f clone rel content) \<union> set (manifest_companions f clone rel content)" for x
      using that staged_companion_names [of x] manifest_companion_names [of x] differ differ' by blast
    ultimately show ?thesis by force
  next
    case (Some us)
    obtain base vs where u: "us = (base @ ''/router.py'', content) # vs"
        "list_all (\<lambda>x. fst x = base @ ''/service.toml'' \<or> fst x = base @ ''/__init__.py'') vs"
      using stage_root_shape [OF Some] by blast
    have "ws = us" "rel = base @ ''/router.py''"
      using assms r Some u(1) by (auto simp: plan_writes_def Let_def rel1_def split: if_splits)
    moreover have "in_clone clone (base @ ''/router.py'') \<noteq> in_clone clone (fst x)" if "x \<in> set vs" for x
      using that u(2) by (intro differ) (auto simp: list_all_iff)
    ultimately show ?thesis using u(1) by force
  qed
qed

lemma write_all_first:
  assumes "write_all now clone ((rel, text) # ws) f = (None, g)" and "in_clone clone rel \<notin> in_clone clone ` set (map fst ws)"
  shows "fs_get g (in_clone clone rel) = Some \<lparr>body = Text text, mtime = now\<rparr>"
proof -
  obtain h k where h: "write_text now (in_clone clone rel) (Text text) h = Some k" "write_all now clone ws k = (None, g)"
    using assms(1) by (auto simp: Let_def split: option.splits)
  then show ?thesis using write_all_spec [OF h(2)] write_text_get [OF h(1)] assms(2) by simp
qed

text \<open>When the artifact is a manifest, it was not a root-level router.\<close>

lemma plan_writes_manifest:
  assumes "plan_writes f clone rel0 content = (rel, ws, moved)" and "endswith (norm_rel rel) (''/'' @ STAGED_MANIFEST)"
  shows "set (manifest_companions f clone rel content) \<subseteq> set ws"
proof -
  obtain staged reason where r: "redirect f clone rel0 = (staged, reason)" by fastforce
  define rel1 where "rel1 = (if reason = None then rel0 else staged)"
  show ?thesis
  proof (cases "stage_root_router f clone rel1 content")
    case None
    then show ?thesis using assms r by (auto simp: plan_writes_def Let_def rel1_def split: if_splits)
  next
    case (Some us)
    then have "\<exists>b. rel = b @ ''/router.py''"
      using stage_root_shape [OF Some] assms(1) r by (auto simp: plan_writes_def Let_def rel1_def split: if_splits)
    moreover have "endswith (norm_rel rel) ''service.toml''" using assms(2) by (auto simp: endswith_iff STAGED_MANIFEST_def)
    then have "endswith rel ''service.toml''" by (rule norm_suffix) simp
    ultimately have False by (auto simp: endswith_def startswith_def)
    then show ?thesis ..
  qed
qed

subsection \<open>Absolute paths\<close>

definition dotted :: "string set" where
  "dotted = {[], ''.'', ''..''}"

lemma set_tl: "set (tl xs) \<subseteq> set xs"
  by (cases xs) auto

lemma norm_parts_step:
  "norm_parts acc (w # ws) = (if w \<in> dotted then norm_parts (if w = ''..'' then tl acc else acc) ws else norm_parts (w # acc) ws)"
  by (auto simp: dotted_def)

lemma norm_parts_clean: "set acc \<inter> dotted = {} \<Longrightarrow> set (norm_parts acc ws) \<inter> dotted = {}"
proof (induction ws arbitrary: acc)
  case (Cons w ws)
  show ?case
  proof (cases "w \<in> dotted")
    case True
    have "set (if w = ''..'' then tl acc else acc) \<inter> dotted = {}" using set_tl [of acc] Cons.prems by auto
    from Cons.IH [OF this] True show ?thesis by (simp only: norm_parts_step if_True)
  next
    case False
    then have "set (w # acc) \<inter> dotted = {}" using Cons.prems by simp
    from Cons.IH [OF this] False show ?thesis by (simp only: norm_parts_step if_False)
  qed
qed simp

lemma norm_parts_from: "set (norm_parts acc ws) \<subseteq> set acc \<union> set ws"
proof (induction ws arbitrary: acc)
  case (Cons w ws)
  have "set (if w = ''..'' then tl acc else acc) \<subseteq> set acc" using set_tl [of acc] by simp
  moreover have "set (norm_parts (if w = ''..'' then tl acc else acc) ws) \<subseteq> set (if w = ''..'' then tl acc else acc) \<union> set ws"
    by (rule Cons.IH)
  moreover have "set (norm_parts (w # acc) ws) \<subseteq> set (w # acc) \<union> set ws" by (rule Cons.IH)
  ultimately show ?case unfolding norm_parts_step by auto
qed simp

lemma parts_of_join:
  assumes "ws \<noteq> []" and "\<forall>w\<in>set ws. CHR ''/'' \<notin> set w"
  shows "set (path_parts (path_of (join_with ''/'' ws))) \<subseteq> set ws"
  using assms split_join [of ws "CHR ''/''"] by (auto simp: path_of_def)

lemma parts_of_plain: "CHR ''/'' \<notin> set w \<Longrightarrow> set (path_parts (path_of w)) \<subseteq> {w}"
  by (auto simp: path_of_def split_on_no_sep)

lemma startswith_join_dots: "startswith (join_with ''/'' (''..'' # ws)) ''..''"
  by (cases ws) (simp_all add: startswith_def)

lemma replace_plain: "CHR 0x5C \<notin> set s \<Longrightarrow> CHR 0x5C \<notin> set t \<Longrightarrow> replace_char (CHR 0x5C) ''/'' (if b then s else t) = (if b then s else t)"
  by (simp add: replace_absent)

lemma abs_parts_plain: "w \<in> set (abs_parts p) \<Longrightarrow> CHR ''/'' \<notin> set w \<and> set w \<subseteq> set p \<and> w \<notin> dotted"
proof -
  assume w: "w \<in> set (abs_parts p)"
  then have "w \<in> set (split_on (CHR ''/'') p)"
    using norm_parts_from [of "[]" "split_on (CHR ''/'') p"] by (auto simp: abs_parts_def)
  moreover have "set (abs_parts p) \<inter> dotted = {}"
    unfolding abs_parts_def by (rule norm_parts_clean) simp
  ultimately show ?thesis using w split_on_sep_free split_on_chars by fastforce
qed

lemma set_join: "set (join_with d ws) \<subseteq> set d \<union> \<Union> (set ` set ws)"
  by (induction d ws rule: join_with.induct) auto

text \<open>An absolute path is coerced to a relative one without \<open>..\<close>, unless its own last component is \<open>..\<close>.\<close>

lemma repo_relative_inside:
  assumes "startswith fp ''/''" and "CHR 0x5C \<notin> set fp" and "basename fp \<noteq> ''..''"
  shows "\<not> startswith (repo_relative env fp) ''/'' \<and> ''..'' \<notin> set (path_parts (path_of (repo_relative env fp)))"
proof -
  define ps where "ps = abs_parts fp"
  define ss where "ss = abs_parts (src_root env)"
  define i where "i = common_prefix ss ps"
  define parts where "parts = replicate (length ss - i) ''..'' @ drop i ps"
  define rel where "rel = (if parts = [] then ''.'' else join_with ''/'' parts)"
  have rel: "relpath fp (src_root env) = rel"
    by (simp add: relpath_def Let_def rel_def parts_def i_def ss_def ps_def)
  have ps: "CHR ''/'' \<notin> set w \<and> set w \<subseteq> set fp \<and> w \<notin> dotted" if "w \<in> set ps" for w
    using abs_parts_plain that by (simp add: ps_def)
  have base: "CHR ''/'' \<notin> set (basename fp)" "CHR 0x5C \<notin> set (basename fp)"
  proof -
    have "basename fp \<in> set (split_on (CHR ''/'') fp)" by (simp add: basename_def last_segment_def)
    then show "CHR ''/'' \<notin> set (basename fp)" "CHR 0x5C \<notin> set (basename fp)"
      using split_on_sep_free split_on_chars assms(2) by (blast, blast)
  qed
  have b: "\<not> startswith (basename fp) ''/'' \<and> ''..'' \<notin> set (path_parts (path_of (basename fp)))"
    using base(1) parts_of_plain [OF base(1)] assms(3) by (auto simp: startswith_iff)
  show ?thesis
  proof (cases "startswith rel ''..'' \<or> startswith rel ''/''")
    case True
    then have "repo_relative env fp = basename fp"
      using assms(1) base(2) by (simp add: repo_relative_def Let_def rel replace_absent)
    with b show ?thesis by simp
  next
    case False
    have nodots: "length ss - i = 0"
    proof (rule ccontr)
      assume "length ss - i \<noteq> 0"
      then obtain k where "length ss - i = Suc k" using not0_implies_Suc by blast
      then have "parts = ''..'' # replicate k ''..'' @ drop i ps" by (simp add: parts_def)
      then show False using False startswith_join_dots by (simp add: rel_def)
    qed
    then have pp: "parts = drop i ps" by (simp add: parts_def)
    have sub: "set parts \<subseteq> set ps" unfolding pp by (rule set_drop_subset)
    have "CHR 0x5C \<notin> \<Union> (set ` set parts)" using sub ps assms(2) by blast
    then have "CHR 0x5C \<notin> set rel"
      using set_join [of "''/''" parts] by (auto simp: rel_def)
    then have eq: "repo_relative env fp = rel"
      using False assms(1) by (simp add: repo_relative_def Let_def rel replace_absent)
    have "''..'' \<notin> set (path_parts (path_of rel))"
    proof (cases "parts = []")
      case True
      then show ?thesis by (simp add: rel_def path_of_def)
    next
      case False
      have "set (path_parts (path_of rel)) \<subseteq> set parts"
        using parts_of_join [OF False] sub ps False by (auto simp: rel_def)
      then show ?thesis using sub ps by (auto simp: dotted_def)
    qed
    with False eq show ?thesis by simp
  qed
qed

text \<open>A relative path is not looked at; one that leaves the clone is handed on as it is.\<close>

lemma relative_path_escapes: "repo_relative env ''../x.py'' = ''../x.py''"
  by (simp add: repo_relative_def startswith_def)

text \<open>A doubled slash hides a new service of \<open>active/\<close> from the redirection.\<close>

lemma redirect_evaded:
  assumes "clone = Path True cs"
  shows "redirect f clone ''services//active/w/router.py'' = (''services//active/w/router.py'', None)
    \<and> in_clone clone ''services//active/w/router.py'' = in_clone clone ''services/active/w/router.py''"
  using assms
  by (simp add: redirect_def norm_rel_def lstrip_chars_def replace_char_def startswith_def ACTIVE_PREFIX_def
      in_clone_def path_join_def path_of_def)

subsection \<open>The files of a plan\<close>

text \<open>
  A path in normal form: no backslash, no leading dot, and no component that is empty, \<open>.\<close> or \<open>..\<close>. Only for
  such a path do its text and the file it names agree on the directory.
\<close>

definition odd_parts :: "string list" where
  "odd_parts = [[], ''.'', ''..'']"

definition tidy :: "string \<Rightarrow> bool" where
  "tidy s \<longleftrightarrow> CHR 0x5C \<notin> set s \<and> hd s \<noteq> CHR ''.'' \<and> list_all (\<lambda>w. w \<notin> set odd_parts) (split_on (CHR ''/'') s)"

lemma join_split: "join_with [d] (split_on d s) = s"
proof (induction s)
  case (Cons c s)
  obtain w ws where "split_on d s = w # ws" by (cases "split_on d s") auto
  with Cons show ?case by (cases ws) auto
qed simp

lemma tidy_first:
  assumes "tidy s"
  shows "s \<noteq> []" and "hd s \<notin> {CHR ''.'', CHR ''/''}"
proof -
  show ne: "s \<noteq> []" using assms by (auto simp: tidy_def odd_parts_def)
  then obtain c t where s: "s = c # t" by (cases s) auto
  have "c \<noteq> CHR ''/''" using assms by (auto simp: s tidy_def odd_parts_def)
  then show "hd s \<notin> {CHR ''.'', CHR ''/''}" using assms by (simp add: s tidy_def)
qed

lemma tidy_norm: "tidy s \<Longrightarrow> norm_rel s = s"
  using norm_prefix [of s "[]"] tidy_first [of s] by (simp add: tidy_def replace_char_def)

lemma tidy_parts:
  assumes "tidy s"
  shows "in_clone clone s = Path (path_abs clone) (path_parts clone @ split_on (CHR ''/'') s)"
proof -
  have "filter (\<lambda>w. w \<noteq> [] \<and> w \<noteq> ''.'') (split_on (CHR ''/'') s) = split_on (CHR ''/'') s"
    using assms by (intro filter_True) (auto simp: tidy_def list_all_iff odd_parts_def)
  moreover have "\<not> startswith s ''/''" using tidy_first [OF assms] by (cases s) (auto simp: startswith_def)
  ultimately show ?thesis by (simp add: in_clone_def path_join_def path_of_def)
qed

text \<open>A file below a directory of \<open>services/active/\<close>.\<close>

definition in_service :: "path \<Rightarrow> string \<Rightarrow> path \<Rightarrow> bool" where
  "in_service clone n q \<longleftrightarrow> (\<exists>rest. rest \<noteq> [] \<and> path_parts q = path_parts clone @ [''services'', ''active'', n] @ rest)"

lemma tidy_active:
  assumes "tidy s" and "active_known f clone s" and "in_service clone n (in_clone clone s)"
  shows "service_exists f clone n"
proof -
  obtain rest where rest: "rest \<noteq> []" "split_on (CHR ''/'') s = [''services'', ''active'', n] @ rest"
    using assms(3) by (auto simp: in_service_def tidy_parts [OF assms(1)])
  then obtain r rs where r: "rest = r # rs" by (cases rest) auto
  have s: "s = ACTIVE_PREFIX @ n @ CHR ''/'' # join_with ''/'' rest"
    using join_split [of "CHR ''/''" s] by (simp add: rest(2) r ACTIVE_PREFIX_def)
  have n: "n \<noteq> []" "CHR ''/'' \<notin> set n"
    using assms(1) rest(2) split_on_sep_free [of n "CHR ''/''" s] by (auto simp: tidy_def odd_parts_def)
  have "takeWhile (\<lambda>c. c \<noteq> CHR ''/'') (n @ CHR ''/'' # y) = n" for y
    using n(2) by (subst takeWhile_append2) auto
  then have "service_name s = Some n"
    using n(1) by (simp add: s service_name_def hd_split_on Let_def)
  then show ?thesis using assms(2) tidy_norm [OF assms(1)] by (simp add: active_known_def s)
qed

lemma staged_not_in_service:
  assumes "startswith s STAGED_PREFIX"
  shows "\<not> in_service clone n (in_clone clone s)"
proof -
  obtain x where s: "s = STAGED_PREFIX @ x" using assms by (auto simp: startswith_iff)
  have "split_on (CHR ''/'') s = ''services'' # ''staged'' # split_on (CHR ''/'') x"
    using split_on_append_sep [of "CHR ''/''" "''services''" "''staged/'' @ x"] split_on_append_sep [of "CHR ''/''" "''staged''" x]
    by (simp add: s STAGED_PREFIX_def)
  then have "path_parts (path_of s) = ''services'' # ''staged'' # filter (\<lambda>w. w \<noteq> [] \<and> w \<noteq> ''.'') (split_on (CHR ''/'') x)"
    by (simp add: path_of_def)
  moreover have "\<not> path_abs (path_of s)" by (simp add: s path_of_def STAGED_PREFIX_def startswith_def)
  ultimately show ?thesis by (auto simp: in_service_def in_clone_def path_join_def)
qed

lemma star_chr_ways:
  "t \<in> set (star_run (rmatch (RChr p)) n st) \<Longrightarrow> \<exists>w. m_rest st = w @ m_rest t \<and> list_all p w"
proof (induction n arbitrary: st)
  case (Suc n)
  show ?case
  proof (cases "t = st")
    case False
    have "t \<in> set (concat (map (\<lambda>u. if length (m_rest u) < length (m_rest st) then star_run (rmatch (RChr p)) n u else [])
        (rmatch (RChr p) st)))" using False Suc.prems by (simp only: star_run.simps set_append) auto
    then obtain u where u: "u \<in> set (rmatch (RChr p) st)" "t \<in> set (star_run (rmatch (RChr p)) n u)"
      by (auto simp del: rmatch.simps split: if_splits)
    from u(1) obtain c where "m_rest st = c # m_rest u" "p c"
      by (cases "m_rest st") (auto simp: m_rest_def split: if_splits)
    moreover obtain w where "m_rest u = w @ m_rest t \<and> list_all p w" using Suc.IH [OF u(2)] by blast
    ultimately show ?thesis by (intro exI [of _ "c # w"]) simp
  qed (intro exI [of _ "[]"], simp)
qed simp

lemma ident_chars:
  assumes "is_ident s"
  shows "CHR ''/'' \<notin> set s \<and> CHR 0x5C \<notin> set s"
proof -
  let ?p = "\<lambda>c. is_alpha_ascii c \<or> is_digit c \<or> c = CHR ''_''"
  have bad: "\<not> ?p (CHR ''/'')" "\<not> ?p (CHR 0x5C)" and nl: "newline \<noteq> CHR ''/''" "newline \<noteq> CHR 0x5C" by code_simp+
  have re: "IDENT_RE = RSeq RBegin (RSeq (RChr (\<lambda>c. is_alpha_ascii c \<or> c = CHR ''_'')) (RSeq (RStar (RChr ?p)) REnd))"
    by (simp add: IDENT_RE_def)
  from assms obtain t where "t \<in> set (rmatch IDENT_RE ([], [], s))"
    by (auto simp: is_ident_def re_match_def match_at_def split: list.splits)
  then have "t \<in> set (rmatch (RSeq (RChr (\<lambda>c. is_alpha_ascii c \<or> c = CHR ''_'')) (RSeq (RStar (RChr ?p)) REnd)) ([], [], s))"
    unfolding re by (simp add: m_before_def)
  then obtain c u where v: "s = c # u" "?p c" and t: "t \<in> set (rmatch (RSeq (RStar (RChr ?p)) REnd) ([], [c], u))"
    by (cases s) (auto simp: m_rest_def m_caps_def m_before_def split: if_splits)
  have "\<exists>v. v \<in> set (rmatch (RStar (RChr ?p)) ([], [c], u)) \<and> (m_rest v = [] \<or> m_rest v = [newline])"
  proof -
    from t obtain v where "v \<in> set (rmatch (RStar (RChr ?p)) ([], [c], u))" "t \<in> set (rmatch REnd v)"
      by (simp only: rmatch.simps(3) set_concat set_map) blast
    then show ?thesis by (intro exI [of _ v]) (simp split: if_splits)
  qed
  then obtain v where "v \<in> set (rmatch (RStar (RChr ?p)) ([], [c], u))" and e: "m_rest v = [] \<or> m_rest v = [newline]" by blast
  then have "v \<in> set (star_run (rmatch (RChr ?p)) (length u) ([], [c], u))" by (simp add: m_rest_def)
  from star_chr_ways [OF this] obtain w where "u = w @ m_rest v" "list_all ?p w" by (auto simp: m_rest_def)
  then show ?thesis using v e bad nl by (auto simp: list_all_iff)
qed

text \<open>What a plan writes lies below \<open>services/staged/\<close> or has a path in normal form.\<close>

lemma sibling_tidy:
  assumes "tidy (dir @ ''/'' @ y)" and "CHR ''/'' \<notin> set z" and "CHR 0x5C \<notin> set z" and "z \<notin> set odd_parts"
  shows "tidy (dir @ ''/'' @ z)"
proof -
  have d: "dir \<noteq> []" using tidy_first(2) [OF assms(1)] by (cases dir) auto
  have "split_on (CHR ''/'') (dir @ ''/'' @ x) = split_on (CHR ''/'') dir @ split_on (CHR ''/'') x" for x
    using split_on_append [of "CHR ''/''" dir x] by simp
  then show ?thesis using assms d by (simp add: tidy_def split_on_no_sep)
qed

lemma manifest_companion_form:
  assumes "x \<in> set (manifest_companions f clone rel content)"
  obtains z where "fst x = before_last (CHR ''/'') (norm_rel rel) @ ''/'' @ z" "CHR ''/'' \<notin> set z" "CHR 0x5C \<notin> set z"
    "z \<notin> set odd_parts" "norm_rel rel = before_last (CHR ''/'') (norm_rel rel) @ ''/'' @ STAGED_MANIFEST"
proof -
  obtain m z where m: "is_ident m" "endswith (norm_rel rel) (''/'' @ STAGED_MANIFEST)"
    "fst x = before_last (CHR ''/'') (norm_rel rel) @ ''/'' @ z" "z = m @ ''.py'' \<or> z = ''__init__.py''"
    using assms(1) by (auto simp: manifest_companions_def Let_def dest!: missing_file_in split: if_splits option.splits)
  have "CHR ''/'' \<notin> set z" "CHR 0x5C \<notin> set z" "z \<notin> set odd_parts"
    using m(4) ident_chars [OF m(1)] by (auto simp: odd_parts_def append_eq_Cons_conv)
  moreover have "norm_rel rel = before_last (CHR ''/'') (norm_rel rel) @ ''/'' @ STAGED_MANIFEST"
    using before_last_slash [of "norm_rel rel" "CHR ''/''" STAGED_MANIFEST] m(2) by (simp add: STAGED_MANIFEST_def)
  ultimately show ?thesis using m(3) that by blast
qed

lemma manifest_companion_staged:
  assumes "x \<in> set (manifest_companions f clone rel content)" and "startswith rel STAGED_PREFIX"
  shows "startswith (fst x) STAGED_PREFIX"
proof -
  from manifest_companion_form [OF assms(1)] obtain z where z: "fst x = before_last (CHR ''/'') (norm_rel rel) @ ''/'' @ z"
    "norm_rel rel = before_last (CHR ''/'') (norm_rel rel) @ ''/'' @ STAGED_MANIFEST" .
  define dir where "dir = before_last (CHR ''/'') (norm_rel rel)"
  have eq: "norm_rel rel = dir @ CHR ''/'' # STAGED_MANIFEST" using z(2) by (simp add: dir_def)
  obtain y where "norm_rel rel = STAGED_PREFIX @ y" using assms(2) by (auto simp: startswith_iff norm_staged)
  then have "startswith (dir @ CHR ''/'' # STAGED_MANIFEST) STAGED_PREFIX" by (simp add: eq [symmetric])
  then have "startswith (dir @ [CHR ''/'']) STAGED_PREFIX"
    using startswith_upto [of "CHR ''/''" STAGED_MANIFEST STAGED_PREFIX dir] by (simp add: STAGED_MANIFEST_def STAGED_PREFIX_def)
  then obtain t where t: "dir @ [CHR ''/''] = STAGED_PREFIX @ t" by (auto simp: startswith_iff)
  have "fst x = (dir @ [CHR ''/'']) @ z" using z(1) by (simp add: dir_def)
  then show ?thesis by (simp add: t)
qed

lemma manifest_companion_tidy:
  assumes "x \<in> set (manifest_companions f clone rel content)" and "tidy rel"
  shows "tidy (fst x)"
proof -
  from manifest_companion_form [OF assms(1)] obtain z where z: "fst x = before_last (CHR ''/'') (norm_rel rel) @ ''/'' @ z"
    "CHR ''/'' \<notin> set z" "CHR 0x5C \<notin> set z" "z \<notin> set odd_parts"
    "norm_rel rel = before_last (CHR ''/'') (norm_rel rel) @ ''/'' @ STAGED_MANIFEST" .
  have "tidy (before_last (CHR ''/'') (norm_rel rel) @ ''/'' @ STAGED_MANIFEST)"
    using z(5) tidy_norm [OF assms(2)] assms(2) by simp
  from sibling_tidy [OF this z(2-4)] show ?thesis by (simp add: z(1))
qed

lemma staged_companion_staged: "x \<in> set (staged_companions f clone rel content) \<Longrightarrow> startswith (fst x) STAGED_PREFIX"
  by (auto simp: staged_companions_def Let_def dest!: missing_file_in split: if_splits)

lemma stage_root_staged: "stage_root_router f clone rel content = Some vs \<Longrightarrow> x \<in> set vs \<Longrightarrow> startswith (fst x) STAGED_PREFIX"
  by (auto simp: stage_root_router_def Let_def dest!: missing_file_in split: if_splits)

text \<open>A plan's path is staged, or the artifact's own, or beside it.\<close>

lemma plan_writes_cases:
  assumes "plan_writes f clone rel0 content = (rel, ws, moved)" and "x \<in> set ws"
  shows "startswith (fst x) STAGED_PREFIX \<or> fst x = rel0 \<or> x \<in> set (manifest_companions f clone rel0 content)"
proof -
  obtain staged reason where r: "redirect f clone rel0 = (staged, reason)" by fastforce
  define rel1 where "rel1 = (if reason = None then rel0 else staged)"
  have k: "startswith rel1 STAGED_PREFIX \<or> rel1 = rel0"
    using redirect_known [OF r] by (auto simp: rel1_def split: if_splits)
  have ws: "ws = (case stage_root_router f clone rel1 content of Some vs \<Rightarrow> vs
      | None \<Rightarrow> [(rel1, content)] @ staged_companions f clone rel1 content @ manifest_companions f clone rel1 content)"
    using assms(1) r by (auto simp: plan_writes_def Let_def rel1_def split: option.splits)
  show ?thesis
    using k assms(2) ws staged_companion_staged [of x f clone rel1 content] stage_root_staged [of f clone rel1 content _ x]
      manifest_companion_staged [of x f clone rel1 content]
    by (auto split: option.splits)
qed

lemma plan_writes_paths:
  assumes "plan_writes f clone rel0 content = (rel, ws, moved)" and "tidy rel0" and "x \<in> set ws"
  shows "startswith (fst x) STAGED_PREFIX \<or> tidy (fst x)"
  using plan_writes_cases [OF assms(1,3)] manifest_companion_tidy [of x f clone rel0 content] assms(2) by auto

text \<open>The one path of the helpers that names no service: a manifest directly in \<open>services/active/\<close>.\<close>

lemma not_deep_enough:
  assumes "CHR ''/'' \<notin> set z"
  shows "\<not> in_service clone n (in_clone clone (ACTIVE_PREFIX @ z))"
proof -
  have "split_on (CHR ''/'') (ACTIVE_PREFIX @ z) = [''services'', ''active'', z]"
    using split_on_append_sep [of "CHR ''/''" "''services''" "''active/'' @ z"] split_on_append_sep [of "CHR ''/''" "''active''" z]
      split_on_no_sep [OF assms] by (simp add: ACTIVE_PREFIX_def)
  then have "length (path_parts (path_of (ACTIVE_PREFIX @ z))) \<le> 3" by (simp add: path_of_def)
  moreover have "\<not> path_abs (path_of (ACTIVE_PREFIX @ z))" by (simp add: ACTIVE_PREFIX_def path_of_def startswith_def)
  ultimately show ?thesis by (cases "path_parts clone") (auto simp: in_service_def in_clone_def path_join_def Suc_le_eq)
qed

lemma plan_writes_active:
  assumes "plan_writes f clone rel0 content = (rel, ws, moved)" and "tidy rel0" and "x \<in> set ws"
    and "in_service clone n (in_clone clone (fst x))"
  shows "service_exists f clone n"
proof -
  have t: "tidy (fst x)" using plan_writes_paths [OF assms(1-3)] staged_not_in_service assms(4) by blast
  show ?thesis
  proof (cases "rel0 = ACTIVE_PREFIX @ STAGED_MANIFEST")
    case True
    then have n: "norm_rel rel0 = ACTIVE_PREFIX @ STAGED_MANIFEST" using tidy_norm [OF assms(2)] by simp
    have d: "before_last (CHR ''/'') (ACTIVE_PREFIX @ STAGED_MANIFEST) @ ''/'' = ACTIVE_PREFIX" by code_simp
    have "\<exists>z. CHR ''/'' \<notin> set z \<and> fst x = ACTIVE_PREFIX @ z"
      using plan_writes_cases [OF assms(1,3)]
    proof (elim disjE)
      assume "startswith (fst x) STAGED_PREFIX"
      then show ?thesis using staged_not_in_service assms(4) by blast
    next
      assume "fst x = rel0"
      then show ?thesis using True by (auto simp: STAGED_MANIFEST_def)
    next
      assume "x \<in> set (manifest_companions f clone rel0 content)"
      from manifest_companion_form [OF this] obtain z where
        z: "fst x = before_last (CHR ''/'') (norm_rel rel0) @ ''/'' @ z" "CHR ''/'' \<notin> set z" .
      have "fst x = (before_last (CHR ''/'') (ACTIVE_PREFIX @ STAGED_MANIFEST) @ ''/'') @ z" using z(1) n by simp
      then show ?thesis using z(2) unfolding d by blast
    qed
    then show ?thesis using not_deep_enough assms(4) by auto
  next
    case False
    then have "norm_rel rel0 \<noteq> ACTIVE_PREFIX @ STAGED_MANIFEST" using tidy_norm [OF assms(2)] by simp
    from plan_writes_known [OF assms(1) this] assms(3) have "active_known f clone (fst x)" by (simp add: list_all_iff)
    from tidy_active [OF t this assms(4)] show ?thesis .
  qed
qed

subsection \<open>Properties\<close>

text \<open>C17: for an artifact whose path is in normal form (no backslash, no leading dot, no component that is empty,
  \<open>.\<close> or \<open>..\<close>), when the publisher's writes succeed, it has written the artifact's text at the path it
  reports and has changed no file but those of its plan; and it creates no active service: a file it changed below a
  directory of \<open>services/active/\<close> belongs to a service whose manifest was there before.\<close>

theorem publisher_creates_no_active_service:
  assumes "plan_writes f clone rel0 content = (rel, ws, moved)" and "write_all now clone ws f = (None, g)" and "tidy rel0"
  shows "fs_get g (in_clone clone rel) = Some \<lparr>body = Text content, mtime = now\<rparr>
    \<and> (\<forall>q. fs_get g q \<noteq> fs_get f q \<longrightarrow> q \<in> in_clone clone ` set (map fst ws))
    \<and> (\<forall>q n. fs_get g q \<noteq> fs_get f q \<longrightarrow> in_service clone n q \<longrightarrow> service_exists f clone n)"
proof -
  obtain vs where vs: "ws = (rel, content) # vs" "in_clone clone rel \<notin> in_clone clone ` set (map fst vs)"
    using plan_writes_first [OF assms(1)] by blast
  have "fs_get g (in_clone clone rel) = Some \<lparr>body = Text content, mtime = now\<rparr>"
    using write_all_first [OF assms(2) [unfolded vs(1)] vs(2)] .
  moreover have w: "q \<in> in_clone clone ` set (map fst ws)" if "fs_get g q \<noteq> fs_get f q" for q
    using write_all_spec [OF assms(2)] that by blast
  moreover have "service_exists f clone n" if q: "fs_get g q \<noteq> fs_get f q" "in_service clone n q" for q n
  proof -
    from w [OF q(1)] obtain x where "x \<in> set ws" "q = in_clone clone (fst x)" by auto
    with plan_writes_active [OF assms(1,3)] q(2) show ?thesis by blast
  qed
  ultimately show ?thesis by blast
qed

text \<open>A manifest never ships alone: after the writes of a \<open>service.toml\<close> of a staged or active service, the
  module that its \<open>import_path\<close> names lies beside it, from the clone or written with it.\<close>

theorem manifest_never_alone:
  assumes "plan_writes f clone rel0 content = (rel, ws, moved)" and "write_all now clone ws f = (None, g)"
    and "endswith (norm_rel rel) (''/'' @ STAGED_MANIFEST)"
    and "startswith (norm_rel rel) STAGED_PREFIX \<or> startswith (norm_rel rel) ACTIVE_PREFIX"
    and "import_path_of content = Some ip" and "is_ident (last_segment (CHR ''.'') ip)"
  shows "fs_exists g (in_clone clone (module_file rel ip))"
proof -
  note w = write_all_spec [OF assms(2)]
  consider "fs_exists f (in_clone clone (module_file rel ip))"
    | "module_file rel ip \<in> set (map fst (manifest_companions f clone rel content))"
    using manifest_module [OF assms(3-6)] by blast
  then show ?thesis
  proof cases
    case 1
    with w show ?thesis by (auto simp: fs_exists_def)
  next
    case 2
    with plan_writes_manifest [OF assms(1,3)] have "module_file rel ip \<in> set (map fst ws)" by auto
    with w show ?thesis by (auto simp: fs_exists_def list_all_iff)
  qed
qed

text \<open>A command with backoff ends: it is run at most one time more than the retries, each pause is at most a
  quarter above the cap, all runs but the last have failed, and the last succeeded, failed for good, or used up
  the retries.\<close>

theorem backoff_is_bounded:
  assumes "run_with_backoff c argv 0 w = (r, w')" and "sane_backoff c"
  shows "\<exists>ds fails. cl_slept w' = cl_slept w @ ds \<and> length ds \<le> gc_retries c
    \<and> list_all (\<lambda>d. 0 \<le> d \<and> d \<le> gc_cap c * 5 / 4) ds
    \<and> cl_log w' = cl_log w @ fails @ [(argv, rc r)] \<and> length fails = length ds
    \<and> list_all (\<lambda>x. fst x = argv \<and> snd x \<noteq> 0) fails
    \<and> (rc r = 0 \<or> \<not> is_retryable (serr r @ sout r) \<or> length ds = gc_retries c)"
  using backoff_spec [OF assms] by simp

subsection \<open>A small clone\<close>

text \<open>A staged manifest arrives alone, and a network that answers at the third attempt.\<close>

definition small_manifest :: string where
  "small_manifest = ''import_path = '' @ dquote @ ''services.active.w.router'' @ dquote"

definition small_clone :: fs where
  "small_clone = \<lparr>files = [], dirs = [path_of ''/'', path_of ''/c''], noread = [], nowrite = []\<rparr>"

definition small_writes :: "(string \<times> string) list" where
  "small_writes = fst (snd (plan_writes small_clone (path_of ''/c'') ''services/active/w/service.toml'' small_manifest))"

definition small_after :: fs where
  "small_after = snd (write_all 5 (path_of ''/c'') small_writes small_clone)"

lemma small_plan:
  "plan_writes small_clone (path_of ''/c'') ''services/active/w/service.toml'' small_manifest =
     (''services/staged/w/service.toml'', small_writes,
      [(''services/active/w/service.toml'', ''services/staged/w/service.toml'')])"
  "write_all 5 (path_of ''/c'') small_writes small_clone = (None, small_after)"
proof -
  have "fst (plan_writes small_clone (path_of ''/c'') ''services/active/w/service.toml'' small_manifest) = ''services/staged/w/service.toml''"
    "snd (snd (plan_writes small_clone (path_of ''/c'') ''services/active/w/service.toml'' small_manifest)) =
      [(''services/active/w/service.toml'', ''services/staged/w/service.toml'')]"
    "fst (write_all 5 (path_of ''/c'') small_writes small_clone) = None" by code_simp+
  then show "plan_writes small_clone (path_of ''/c'') ''services/active/w/service.toml'' small_manifest =
     (''services/staged/w/service.toml'', small_writes,
      [(''services/active/w/service.toml'', ''services/staged/w/service.toml'')])"
    "write_all 5 (path_of ''/c'') small_writes small_clone = (None, small_after)"
    by (simp_all add: small_writes_def small_after_def prod_eq_iff)
qed

definition flaky :: "nat clicfg" where
  "flaky = \<lparr>gc_dir = ''/c'', gc_repo = ''r'', gc_remote = ''origin'', gc_author = ''a'', gc_email = ''e'', gc_retries = 4,
     gc_base = 30, gc_cap = 600, gc_random = (\<lambda>_. 1 / 2), gc_env = (\<lambda>_. None), gc_stamp = ''t'', gc_mtime = 5,
     gc_python = ''python'', gc_err = [],
     gc_run = (\<lambda>argv (f, n). (\<lparr>rc = (if n < 2 then 1 else 0), sout = [], serr = ''Broken pipe''\<rparr>, f, n + 1))\<rparr>"

definition flaky_world :: "nat clone" where
  "flaky_world = \<lparr>cl_fs = small_clone, cl_repo = 0, cl_log = [], cl_slept = [], cl_redirects = []\<rparr>"

theorem publisher_creates_no_active_service_witness:
  "fs_get small_after (in_clone (path_of ''/c'') ''services/staged/w/service.toml'') = Some \<lparr>body = Text small_manifest, mtime = 5\<rparr>"
proof -
  have "tidy ''services/active/w/service.toml''" by code_simp
  from publisher_creates_no_active_service [OF small_plan this] show ?thesis ..
qed

theorem manifest_never_alone_witness:
  "fs_exists small_after (in_clone (path_of ''/c'') (module_file ''services/staged/w/service.toml'' ''services.active.w.router''))"
  by (rule manifest_never_alone [OF small_plan, where ip = "''services.active.w.router''"]) code_simp+

theorem backoff_is_bounded_witness:
  "\<exists>ds. cl_slept (snd (run_with_backoff flaky [''git'', ''fetch''] 0 flaky_world)) = ds \<and> length ds \<le> 4
    \<and> list_all (\<lambda>d. 0 \<le> d \<and> d \<le> 750) ds"
proof -
  have "sane_backoff flaky" by (simp add: sane_backoff_def flaky_def)
  moreover obtain r w' where r: "run_with_backoff flaky [''git'', ''fetch''] 0 flaky_world = (r, w')" by fastforce
  ultimately show ?thesis using backoff_is_bounded [of flaky "[''git'', ''fetch'']" flaky_world r w']
    by (auto simp: flaky_def flaky_world_def)
qed

end
