(* ===== verification/Publisher.thy ===== *)
theory Publisher
  imports GitOps HollowGate Contracts BuildCompletion
begin

text \<open>
  \<open>zo_sentinel/publisher/publisher.py\<close>: the producer's outbox. An entry is a JSON object,
  the outbox the object its file holds; the operations of one process run one after the other
  under the file lock, and one reading of the clock serves an operation. Git (which files are
  tracked, restoring one, publishing a plan) and the parsers are arguments.
\<close>

subsection \<open>Configuration and world\<close>

record 'g pworld =
  pw_fs :: fs
  pw_git :: 'g

record 'g pubcfg =
  pc_home :: path
  pc_outbox :: path
  pc_quarantine :: path
  pc_enabled :: "bool option"
  pc_env :: environ
  pc_cap :: int
  pc_dup_days :: int
  pc_now :: string
  pc_today :: string
  pc_isonow :: string
  pc_mtime :: int
  pc_iso :: "string \<Rightarrow> rat option"
  pc_parse :: "string \<Rightarrow> parsed"
  pc_tracked :: "string \<Rightarrow> bool"
  pc_checkout :: "string \<Rightarrow> fs \<Rightarrow> bool \<times> fs"
  pc_err :: string
  pc_gitops :: "(publish_plan \<Rightarrow> 'g \<Rightarrow> publish_result \<times> 'g) option"

definition PUBLISHER_AGENT_ID :: string where
  "PUBLISHER_AGENT_ID = ''zo_sentinel.pr_publisher''"

definition PUBLISHER_SENTINEL :: string where
  "PUBLISHER_SENTINEL = ''.pr_publisher_enabled''"

definition TERMINAL :: "string list" where
  "TERMINAL = [''published'', ''noop'', ''refused'', ''quarantined'', ''lost'']"

subsection \<open>Helpers\<close>

definition slug_run :: "char \<Rightarrow> bool" where
  "slug_run c = (\<not> (is_alpha_ascii c \<or> is_digit c \<or> c \<in> {CHR ''.'', CHR ''_'', CHR ''-''}))"

definition slug :: "string \<Rightarrow> nat \<Rightarrow> string" where
  "slug text n =
     (let s = lower (strip_chars ''-'' (re_sub_runs slug_run ''-'' text))
      in strip_chars ''-'' (if take n s = [] then ''artifact'' else take n s))"

definition within_days :: "(string \<Rightarrow> rat option) \<Rightarrow> string \<Rightarrow> string \<Rightarrow> int \<Rightarrow> bool" where
  "within_days rd earlier later days =
     (if earlier = [] \<or> later = [] \<or> days \<le> 0 then False
      else (case (rd earlier, rd later) of
        (Some a, Some b) \<Rightarrow> \<bar>b - a\<bar> \<le> of_int (days * 86400)
      | _ \<Rightarrow> False))"

definition SATURATED_FAMILIES :: re where
  "SATURATED_FAMILIES = rseqs
     [RBegin,
      RGroup 1 (ralts [rlit ''fleet_'', rlit ''org_risk_'', rlit ''mcp_risk_tier'', rlit ''server_risk_delta'',
        rlit ''server_risk_tier'', rlit ''axis_top_servers'', rlit ''scoring_trend'', rlit ''server_exemption'',
        rlit ''cadence_job_runs'']),
      RStar (RChr word_char), rlit ''.'', RGroup 2 (ralts [rlit ''py'', rlit ''html'']), REnd]"

definition saturated_family_scan :: "environ \<Rightarrow> string \<Rightarrow> string option" where
  "saturated_family_scan env fp =
     (if lower (strip (case env ''PR_SATURATION_GATE'' of None \<Rightarrow> ''1'' | Some v \<Rightarrow> v)) \<in> {''0'', ''false'', ''off''} then None
      else if CHR ''/'' \<in> set fp then None
      else if re_match SATURATED_FAMILIES fp \<noteq> None
      then Some (''saturated family (council_cve_expansion_2026_07_10): '' @ fp @
             '' -- no new permutations; wire/join existing modules instead'')
      else None)"

definition or_text :: "string \<Rightarrow> string \<Rightarrow> string" where
  "or_text a b = (if a = [] then b else a)"

definition plan_body :: "string \<Rightarrow> string \<Rightarrow> string \<Rightarrow> string \<Rightarrow> string \<Rightarrow> string \<Rightarrow> string \<Rightarrow> string" where
  "plan_body fpath content task phase interface built_at tier =
     (let bq = [CHR 0x60]; nl = [newline]; none = ''(none)'' in
      ''Autonomous build artifact published for E2E gating.'' @ nl @ nl @
      ''- **file**: '' @ bq @ fpath @ bq @ nl @
      ''- **task**: '' @ or_text task none @ nl @
      ''- **phase**: '' @ or_text phase none @ nl @
      ''- **interface**: '' @ or_text interface none @ nl @
      ''- **built_at**: '' @ or_text built_at none @ nl @
      ''- **bytes**: '' @ nat_str (utf8_size content) @ nl @
      ''- **ladder tier**: '' @ tier @ nl @ nl @
      ''This PR runs the standard E2E gates (ruff / smoke-ladder / frontend). '' @
      ''Opened by '' @ bq @ PUBLISHER_AGENT_ID @ bq @ '' from the producer'' @ [CHR 0x27] @ ''s own outbox.'' @ nl)"

definition plan_for :: "string \<Rightarrow> string \<Rightarrow> string \<Rightarrow> string \<Rightarrow> string \<Rightarrow> string \<Rightarrow> string \<Rightarrow> publish_plan" where
  "plan_for fpath content task phase interface built_at tier =
     \<lparr>pp_branch = ''auto/build/'' @ slug (or_text task fpath) 40 @ ''-'' @ slug built_at 16,
      pp_title = ''build: '' @ or_text task fpath,
      pp_body = plan_body fpath content task phase interface built_at tier,
      pp_file = fpath, pp_content = content, pp_dedup = fpath @ ''@'' @ built_at,
      pp_base = ''main'', pp_labels = ''autonomous-build'' # (if tier \<noteq> [] \<and> tier \<noteq> ''unknown'' then [''ladder:'' @ slug tier 24] else [])\<rparr>"

subsection \<open>The latch\<close>

definition pub_enabled :: "('g, 'x) pubcfg_scheme \<Rightarrow> fs \<Rightarrow> bool" where
  "pub_enabled c f =
     (case pc_enabled c of Some b \<Rightarrow> b
      | None \<Rightarrow> (case pc_env c ''PR_PUBLISHER_ENABLED'' of
          Some v \<Rightarrow> lower (strip v) \<in> {''1'', ''true'', ''yes'', ''on''}
        | None \<Rightarrow> fs_exists f (path_child (pc_home c) PUBLISHER_SENTINEL)))"

subsection \<open>The outbox file\<close>

definition lock_file :: "('g, 'x) pubcfg_scheme \<Rightarrow> path" where
  "lock_file c = with_name (pc_outbox c) (path_name (pc_outbox c) @ ''.lock'')"

text \<open>Entering the lock creates its file; \<open>None\<close> is an OSError.\<close>

definition take_lock :: "('g, 'x) pubcfg_scheme \<Rightarrow> fs \<Rightarrow> fs option" where
  "take_lock c f =
     (case mkdirs (path_parent (pc_outbox c)) f of None \<Rightarrow> None
      | Some g \<Rightarrow> if is_file g (lock_file c) then (if lock_file c \<in> set (nowrite g) then None else Some g)
                 else write_text (pc_mtime c) (lock_file c) (Text []) g)"

fun is_obj :: "json \<Rightarrow> bool" where
  "is_obj (JObj d) = True"
| "is_obj _ = False"

fun obj_of :: "json \<Rightarrow> jobj" where
  "obj_of (JObj d) = d"
| "obj_of _ = []"

text \<open>
  The three tables have the shapes this module writes: entries that are objects, publication
  times that are texts, a budget object. A document of another shape raises where it is used.
\<close>

definition outbox_shape :: "jobj \<Rightarrow> bool" where
  "outbox_shape d \<longleftrightarrow> is_obj (jget d ''entries'') \<and> list_all (\<lambda>kv. is_obj (snd kv)) (obj_of (jget d ''entries''))
     \<and> is_obj (jget d ''published_files'')
     \<and> list_all (\<lambda>kv. as_str (snd kv) \<noteq> None) (obj_of (jget d ''published_files''))
     \<and> is_obj (jget d ''budget'')"

definition outbox_defaults :: "jobj \<Rightarrow> jobj" where
  "outbox_defaults d =
     dsetdefault ''budget'' (JObj [(''day'', JStr []), (''count'', JInt 0)])
       (dsetdefault ''published_files'' (JObj []) (dsetdefault ''entries'' (JObj []) d))"

definition load_outbox :: "('g, 'x) pubcfg_scheme \<Rightarrow> fs \<Rightarrow> jobj option" where
  "load_outbox c f =
     (let v = (case read_json f (pc_outbox c) of None \<Rightarrow> JObj [] | Some v \<Rightarrow> py_or v (JObj [])) in
      if is_obj v \<and> outbox_shape (outbox_defaults (obj_of v)) then Some (outbox_defaults (obj_of v)) else None)"

definition save_outbox :: "('g, 'x) pubcfg_scheme \<Rightarrow> jobj \<Rightarrow> fs \<Rightarrow> fs option" where
  "save_outbox c d f =
     (case mkdirs (path_parent (pc_outbox c)) f of None \<Rightarrow> None
      | Some g \<Rightarrow> atomic_write (pc_mtime c) (pc_outbox c) (Doc (json_sort (JObj d))) g)"

definition entries_of :: "jobj \<Rightarrow> jobj" where
  "entries_of d = obj_of (jget d ''entries'')"

definition entry_of :: "jobj \<Rightarrow> string \<Rightarrow> jobj option" where
  "entry_of d rel = map_option obj_of (dget (entries_of d) rel)"

definition put_entry :: "string \<Rightarrow> jobj \<Rightarrow> jobj \<Rightarrow> jobj" where
  "put_entry rel e d = dput ''entries'' (JObj (dput rel (JObj e) (entries_of d))) d"

definition published_of :: "jobj \<Rightarrow> jobj" where
  "published_of d = obj_of (jget d ''published_files'')"

text \<open>A text field of an entry, the empty text when it is falsy; the fields this module writes are texts.\<close>

definition efield :: "jobj \<Rightarrow> string \<Rightarrow> string \<Rightarrow> string" where
  "efield e k dflt = (let v = jget_or e k (JStr dflt) in if truthy v then py_str v else [])"

definition is_pending :: "jobj \<Rightarrow> bool" where
  "is_pending e = (jget e ''status'' = JStr ''pending'')"

subsection \<open>The refusal rules\<close>

definition duplicate_refusal :: "('g, 'x) pubcfg_scheme \<Rightarrow> string \<Rightarrow> string \<Rightarrow> jobj \<Rightarrow> (string \<times> string) option" where
  "duplicate_refusal c rel built_at published =
     (case dget published rel of
        Some (JStr seen) \<Rightarrow>
          (if seen \<noteq> [] \<and> within_days (pc_iso c) seen built_at (pc_dup_days c)
           then Some (''duplicate_module'', ''same file published '' @ seen @ ''; window '' @ int_str (pc_dup_days c) @ ''d'')
           else None)
      | _ \<Rightarrow> None)"

text \<open>The first rule that refuses, with its reason; \<open>None\<close> when a rule raises.\<close>

definition refusal :: "('g, 'x) pubcfg_scheme \<Rightarrow> string \<Rightarrow> string \<Rightarrow> string \<Rightarrow> jobj \<Rightarrow> (string \<times> string) option option" where
  "refusal c rel content built_at published =
     (case duplicate_refusal c rel built_at published of Some r \<Rightarrow> Some (Some r)
      | None \<Rightarrow>
        (case saturated_family_scan (pc_env c) rel of Some r \<Rightarrow> Some (Some (''saturated_family'', r))
         | None \<Rightarrow>
           (case static_safety_scan content of Some r \<Rightarrow> Some (Some (''blocked'', r))
            | None \<Rightarrow> map_option (map_option (\<lambda>r. (''hollow_blocked'', r)))
                         (hollow_scaffold_scan (pc_parse c) rel content))))"

subsection \<open>Eviction\<close>

definition runtime_path :: "('g, 'x) pubcfg_scheme \<Rightarrow> string \<Rightarrow> path" where
  "runtime_path c rel = path_join (pc_home c) (path_of rel)"

definition kept_path :: "('g, 'x) pubcfg_scheme \<Rightarrow> string \<Rightarrow> string \<Rightarrow> path" where
  "kept_path c bucket rel =
     path_join (path_child (path_child (pc_quarantine c) bucket) (filter (\<lambda>ch. ch \<noteq> CHR '':'') (pc_now c))) (path_of rel)"

text \<open>
  The copy of the file's bytes with the reason beside it: whether the copy was made (\<open>False\<close> is
  an OSError, in which case what was done before stays) and the file system.
\<close>

definition keep_bytes :: "('g, 'x) pubcfg_scheme \<Rightarrow> string \<Rightarrow> string \<Rightarrow> string \<Rightarrow> fs \<Rightarrow> bool \<times> fs" where
  "keep_bytes c rel why bucket f =
     (let dest = kept_path c bucket rel in
      case mkdirs (path_parent dest) f of None \<Rightarrow> (False, f)
      | Some f1 \<Rightarrow>
        (case read_text f1 (runtime_path c rel) of None \<Rightarrow> (False, f1)
         | Some bytes \<Rightarrow>
           (case write_text (pc_mtime c) dest bytes f1 of None \<Rightarrow> (False, f1)
            | Some f2 \<Rightarrow>
              (case write_text (pc_mtime c) (path_child (path_parent dest) (path_name dest @ ''.why'')) (Text why) f2 of
                 None \<Rightarrow> (False, f2) | Some f3 \<Rightarrow> (True, f3)))))"

definition evict_answer :: "bool \<Rightarrow> bool \<Rightarrow> json \<Rightarrow> jobj" where
  "evict_answer gone restored kept =
     [(''evicted'', JBool gone), (''restored_to_head'', JBool restored), (''kept_at'', kept)]"

text \<open>After the copy: a tracked file is restored, an untracked one removed.\<close>

definition clear_runtime :: "('g, 'x) pubcfg_scheme \<Rightarrow> string \<Rightarrow> json \<Rightarrow> fs \<Rightarrow> jobj \<times> fs" where
  "clear_runtime c rel kept f =
     (if pc_tracked c rel
      then (let (done, g) = pc_checkout c rel f in (evict_answer done done kept, g))
      else if is_file f (runtime_path c rel)
      then (case unlink (runtime_path c rel) f of
              None \<Rightarrow> (evict_answer False False kept @ [(''error'', JStr (pc_err c))], f)
            | Some g \<Rightarrow> (evict_answer True False kept, g))
      else (evict_answer True False kept, f))"

definition evict :: "('g, 'x) pubcfg_scheme \<Rightarrow> string \<Rightarrow> string \<Rightarrow> string \<Rightarrow> fs \<Rightarrow> jobj \<times> fs" where
  "evict c rel why bucket f =
     (if is_file f (runtime_path c rel)
      then (case keep_bytes c rel why bucket f of
              (False, g) \<Rightarrow> (evict_answer False False JNull @ [(''error'', JStr (pc_err c))], g)
            | (True, g) \<Rightarrow> clear_runtime c rel (JStr (path_str (kept_path c bucket rel))) g)
      else clear_runtime c rel JNull f)"

subsection \<open>One attempt\<close>

definition close_entry :: "('g, 'x) pubcfg_scheme \<Rightarrow> string \<Rightarrow> string \<Rightarrow> jobj \<Rightarrow> jobj \<Rightarrow> jobj" where
  "close_entry c status detail extra e =
     fold (\<lambda>kv d. dput (fst kv) (snd kv) d)
       ([(''status'', JStr status), (''detail'', JStr detail), (''closed_at'', JStr (pc_now c))] @ extra) e"

type_synonym 'g attempt = "jobj \<times> jobj \<times> jobj \<times> 'g pworld"

text \<open>
  An attempt gives the answer, the entry, the other tables of the document and the world. A
  refused build of the producer is evicted, one of the backfill is held.
\<close>

definition refuse_entry :: "('g, 'x) pubcfg_scheme \<Rightarrow> string \<Rightarrow> string \<Rightarrow> string \<Rightarrow> jobj \<Rightarrow> jobj \<Rightarrow> 'g pworld \<Rightarrow> 'g attempt" where
  "refuse_entry c rel action detail e d w =
     (if jget e ''source'' = JStr ''backfill''
      then ([(''file'', JStr rel), (''action'', JStr ''held''), (''refusal'', JStr action)],
            close_entry c ''held'' (action @ '': '' @ detail) [(''refusal'', JStr action)] e, d, w)
      else (let task = efield e ''task'' [];
                (parked, f1) = (if action = ''hollow_blocked'' \<and> task \<noteq> []
                   then park_directive (pc_mtime c) task (''producer refused a hollow build: '' @ detail) (pc_isonow c)
                          (path_child (pc_home c) ''directives'') (Some (pc_quarantine c)) (pw_fs w)
                   else (False, pw_fs w));
                (ev, f2) = evict c rel (action @ '': '' @ detail) ''evicted'' f1
            in ([(''file'', JStr rel), (''action'', JStr action), (''evicted'', jget ev ''evicted''), (''parked'', JBool parked)],
                close_entry c ''refused'' (action @ '': '' @ detail)
                  [(''refusal'', JStr action), (''eviction'', JObj ev), (''parked'', JBool parked)] e,
                d, w\<lparr>pw_fs := f2\<rparr>)))"

definition entry_plan :: "string \<Rightarrow> string \<Rightarrow> jobj \<Rightarrow> publish_plan" where
  "entry_plan rel content e =
     plan_for rel content (efield e ''task'' []) (efield e ''phase'' []) (efield e ''interface'' [])
       (efield e ''built_at'' []) (efield e ''tier'' ''unknown'')"

text \<open>The budget of the day; \<open>None\<close> when its count is no number.\<close>

definition budget_of :: "('g, 'x) pubcfg_scheme \<Rightarrow> jobj \<Rightarrow> jobj" where
  "budget_of c d =
     (let b = obj_of (jget d ''budget'') in
      if jget b ''day'' = JStr (pc_today c) then b else [(''day'', JStr (pc_today c)), (''count'', JInt 0)])"

definition spent_today :: "('g, 'x) pubcfg_scheme \<Rightarrow> jobj \<Rightarrow> int option" where
  "spent_today c d = (case jget (budget_of c d) ''count'' of JInt n \<Rightarrow> Some n | _ \<Rightarrow> None)"

text \<open>What a result of the publication makes of the entry.\<close>

definition settle :: "('g, 'x) pubcfg_scheme \<Rightarrow> string \<Rightarrow> publish_result \<Rightarrow> int \<Rightarrow> jobj \<Rightarrow> jobj \<Rightarrow> 'g pworld \<Rightarrow> 'g attempt" where
  "settle c rel r count e d w =
     (if pr_ok r
      then (let status = (if pr_noop r then ''noop'' else ''published'');
                d1 = dput ''published_files'' (JObj (dput rel (JStr (or_text (efield e ''built_at'' []) (pc_now c))) (published_of d))) d;
                d2 = (if pr_noop r then d1
                      else dput ''budget'' (JObj (dput ''count'' (JInt (count + 1)) (budget_of c d))) d1);
                (ev, f) = evict c rel (''in flight: '' @ (if truthy (pr_url r) then py_str (pr_url r) else ''noop'')) ''in_flight'' (pw_fs w)
            in ([(''file'', JStr rel), (''action'', JStr status), (''pr_url'', pr_url r)],
                close_entry c status (pr_detail r) [(''pr_url'', pr_url r), (''eviction'', JObj ev)] e,
                d2, w\<lparr>pw_fs := f\<rparr>))
      else if pr_permanent r
      then (let (ev, f) = evict c rel (''permanent publish failure: '' @ pr_detail r) ''evicted'' (pw_fs w)
            in ([(''file'', JStr rel), (''action'', JStr ''quarantined''), (''evicted'', jget ev ''evicted'')],
                close_entry c ''quarantined'' (pr_detail r) [(''eviction'', JObj ev)] e, d, w\<lparr>pw_fs := f\<rparr>))
      else ([(''file'', JStr rel), (''action'', JStr ''transient''), (''detail'', JStr (pr_detail r))],
            dput ''last_error'' (JStr (take 300 (pr_detail r))) e, d, w))"

definition publish_entry :: "('g, 'x) pubcfg_scheme \<Rightarrow> string \<Rightarrow> string \<Rightarrow> jobj \<Rightarrow> jobj \<Rightarrow> 'g pworld \<Rightarrow> 'g attempt option" where
  "publish_entry c rel content e d w =
     (if \<not> pub_enabled c (pw_fs w) then Some ([(''file'', JStr rel), (''action'', JStr ''dormant'')], e, d, w)
      else (case pc_gitops c of
        None \<Rightarrow> Some ([(''file'', JStr rel), (''action'', JStr ''no_clone'')],
            dput ''last_error'' (JStr ''no clone dir -- pending until CliGitOps has a clone'') e, d, w)
      | Some publish \<Rightarrow>
        (case spent_today c d of None \<Rightarrow> None
         | Some n \<Rightarrow>
           (if n \<ge> pc_cap c then Some ([(''file'', JStr rel), (''action'', JStr ''deferred_cap'')], e, d, w)
            else (let (r, g) = publish (entry_plan rel content e) (pw_git w)
                  in Some (settle c rel r n e d (w\<lparr>pw_git := g\<rparr>)))))))"

definition lost_detail :: string where
  "lost_detail = ''file not on disk at publish time -- nothing to version and nothing to evict (tree already consistent)''"

definition attempt_entry :: "('g, 'x) pubcfg_scheme \<Rightarrow> string \<Rightarrow> jobj \<Rightarrow> jobj \<Rightarrow> 'g pworld \<Rightarrow> 'g attempt option" where
  "attempt_entry c rel e d w =
     (let content = (case read_text (pw_fs w) (runtime_path c rel) of None \<Rightarrow> [] | Some t \<Rightarrow> content_text t) in
      if content = []
      then Some ([(''file'', JStr rel), (''action'', JStr ''lost'')], close_entry c ''lost'' lost_detail [] e, d, w)
      else (case refusal c rel content (efield e ''built_at'' []) (published_of d) of
          None \<Rightarrow> None
        | Some (Some (action, detail)) \<Rightarrow> Some (refuse_entry c rel action detail e d w)
        | Some None \<Rightarrow> publish_entry c rel content e d w))"

text \<open>The number of the attempt and its time; \<open>None\<close> when the count is no number.\<close>

definition count_attempt :: "('g, 'x) pubcfg_scheme \<Rightarrow> jobj \<Rightarrow> jobj option" where
  "count_attempt c e = map_option (\<lambda>n. dput ''last_attempt'' (JStr (pc_now c)) (dput ''attempts'' (JInt (n + 1)) e))
     (py_int (jget_or e ''attempts'' (JInt 0)))"

definition attempt_locked :: "('g, 'x) pubcfg_scheme \<Rightarrow> jobj \<Rightarrow> jobj \<Rightarrow> 'g pworld \<Rightarrow> 'g attempt option" where
  "attempt_locked c e d w =
     (case dget e ''file'' of
        Some (JStr rel) \<Rightarrow> (case count_attempt c e of None \<Rightarrow> None | Some e1 \<Rightarrow> attempt_entry c rel e1 d w)
      | _ \<Rightarrow> None)"

text \<open>The answer (\<open>None\<close> when the operation raises) and the world.\<close>

definition attempt :: "('g, 'x) pubcfg_scheme \<Rightarrow> string \<Rightarrow> 'g pworld \<Rightarrow> jobj option \<times> 'g pworld" where
  "attempt c rel w0 =
     (case take_lock c (pw_fs w0) of None \<Rightarrow> (None, w0)
      | Some f \<Rightarrow>
        (let w = w0\<lparr>pw_fs := f\<rparr> in
         case load_outbox c f of None \<Rightarrow> (None, w)
         | Some d \<Rightarrow>
           (case entry_of d rel of
              None \<Rightarrow> (Some [(''file'', JStr rel), (''action'', JStr ''absent'')], w)
            | Some e \<Rightarrow>
              (if e = [] then (Some [(''file'', JStr rel), (''action'', JStr ''absent'')], w)
               else if \<not> is_pending e
               then (Some [(''file'', JStr rel), (''action'', jget_or e ''status'' (JStr ''absent''))], w)
               else (case attempt_locked c e d w of None \<Rightarrow> (None, w)
                 | Some (r, e1, d1, w1) \<Rightarrow>
                   (case save_outbox c (put_entry rel e1 d1) (pw_fs w1) of
                      None \<Rightarrow> (None, w1)
                    | Some g \<Rightarrow> (Some r, w1\<lparr>pw_fs := g\<rparr>)))))))"

subsection \<open>Entry points\<close>

record build_info =
  bi_task :: string
  bi_phase :: string
  bi_interface :: string
  bi_built_at :: string
  bi_tier :: string
  bi_source :: string

definition fresh_entry :: "('g, 'x) pubcfg_scheme \<Rightarrow> string \<Rightarrow> build_info \<Rightarrow> jobj" where
  "fresh_entry c rel b =
     [(''file'', JStr rel), (''task'', JStr (bi_task b)), (''phase'', JStr (bi_phase b)),
      (''interface'', JStr (bi_interface b)), (''built_at'', JStr (or_text (bi_built_at b) (pc_now c))),
      (''tier'', JStr (bi_tier b)), (''source'', JStr (bi_source b)), (''status'', JStr ''pending''),
      (''attempts'', JInt 0), (''enqueued_at'', JStr (pc_now c))]"

text \<open>A pending entry of the same source is refreshed, anything else replaced.\<close>

definition enqueue :: "('g, 'x) pubcfg_scheme \<Rightarrow> string \<Rightarrow> build_info \<Rightarrow> jobj \<Rightarrow> jobj" where
  "enqueue c rel b d =
     (case entry_of d rel of
        Some e \<Rightarrow>
          (if e \<noteq> [] \<and> is_pending e \<and> jget e ''source'' = JStr (bi_source b)
           then put_entry rel
                  (dput ''tier'' (JStr (bi_tier b)) (dput ''built_at'' (JStr (or_text (bi_built_at b) (pc_now c)))
                    (dput ''task'' (if bi_task b \<noteq> [] then JStr (bi_task b) else jget_or e ''task'' (JStr [])) e))) d
           else put_entry rel (fresh_entry c rel b) d)
      | None \<Rightarrow> put_entry rel (fresh_entry c rel b) d)"

definition commit :: "('g, 'x) pubcfg_scheme \<Rightarrow> string \<Rightarrow> build_info \<Rightarrow> 'g pworld \<Rightarrow> jobj option \<times> 'g pworld" where
  "commit c rel b w =
     (case take_lock c (pw_fs w) of None \<Rightarrow> (None, w)
      | Some f \<Rightarrow>
        (case load_outbox c f of None \<Rightarrow> (None, w\<lparr>pw_fs := f\<rparr>)
         | Some d \<Rightarrow>
           (case save_outbox c (enqueue c rel b d) f of None \<Rightarrow> (None, w\<lparr>pw_fs := f\<rparr>)
            | Some g \<Rightarrow> attempt c rel (w\<lparr>pw_fs := g\<rparr>))))"

definition STOPS :: "string list" where
  "STOPS = [''transient'', ''deferred_cap'', ''dormant'', ''no_clone'']"

fun stops_drain :: "json \<Rightarrow> bool" where
  "stops_drain (JStr s) = (s \<in> set STOPS)"
| "stops_drain _ = False"

fun drain_loop :: "('g, 'x) pubcfg_scheme \<Rightarrow> jobj list \<Rightarrow> jobj list \<Rightarrow> 'g pworld \<Rightarrow> jobj list option \<times> 'g pworld" where
  "drain_loop c [] out w = (Some out, w)"
| "drain_loop c (e # es) out w =
     (case dget e ''file'' of
        Some (JStr rel) \<Rightarrow>
          (case attempt c rel w of
             (None, w1) \<Rightarrow> (None, w1)
           | (Some r, w1) \<Rightarrow>
             (if stops_drain (jget r ''action'') then (Some (out @ [r]), w1)
              else drain_loop c es (out @ [r]) w1))
      | _ \<Rightarrow> (None, w))"

definition pending_entries :: "jobj \<Rightarrow> jobj list" where
  "pending_entries d = sort_key (\<lambda>e. efield e ''enqueued_at'' []) (filter is_pending (map (\<lambda>kv. obj_of (snd kv)) (entries_of d)))"

definition drain :: "('g, 'x) pubcfg_scheme \<Rightarrow> nat \<Rightarrow> 'g pworld \<Rightarrow> jobj list option \<times> 'g pworld" where
  "drain c limit w =
     (case load_outbox c (pw_fs w) of None \<Rightarrow> (None, w)
      | Some d \<Rightarrow> drain_loop c (take limit (pending_entries d)) [] w)"

definition backfill_info :: "('g, 'x) pubcfg_scheme \<Rightarrow> build_info" where
  "backfill_info c = \<lparr>bi_task = [], bi_phase = [], bi_interface = [], bi_built_at = pc_now c,
     bi_tier = ''unknown'', bi_source = ''backfill''\<rparr>"

fun backfill_loop :: "('g, 'x) pubcfg_scheme \<Rightarrow> jobj \<Rightarrow> nat \<Rightarrow> string list \<Rightarrow> jobj list \<Rightarrow> 'g pworld \<Rightarrow>
    jobj list option \<times> 'g pworld" where
  "backfill_loop c d limit [] out w = (Some out, w)"
| "backfill_loop c d limit (rel # rels) out w =
     (if length out \<ge> limit then (Some out, w)
      else if dhas (entries_of d) rel then backfill_loop c d limit rels out w
      else (case commit c rel (backfill_info c) w of
              (None, w1) \<Rightarrow> (None, w1)
            | (Some r, w1) \<Rightarrow> backfill_loop c d limit rels (out @ [r]) w1))"

definition backfill :: "('g, 'x) pubcfg_scheme \<Rightarrow> string list \<Rightarrow> nat \<Rightarrow> 'g pworld \<Rightarrow> jobj list option \<times> 'g pworld" where
  "backfill c missing limit w =
     (case load_outbox c (pw_fs w) of None \<Rightarrow> (None, w) | Some d \<Rightarrow> backfill_loop c d limit missing [] w)"

text \<open>Evicting every held entry: the answers, the table and the file system; \<open>None\<close> for an entry without file.\<close>

fun evict_entries :: "('g, 'x) pubcfg_scheme \<Rightarrow> jobj \<Rightarrow> fs \<Rightarrow> (jobj list \<times> jobj) option \<times> fs" where
  "evict_entries c [] f = (Some ([], []), f)"
| "evict_entries c ((k, v) # es) f =
     (let e = obj_of v in
      if jget e ''status'' = JStr ''held''
      then (case dget e ''file'' of
          Some (JStr rel) \<Rightarrow>
            (let (ev, g) = evict c rel (py_str (jget_or e ''detail'' (JStr ''held''))) ''evicted'' f;
                 e1 = dput ''closed_at'' (JStr (pc_now c)) (dput ''eviction'' (JObj ev) (dput ''status'' (JStr ''refused'') e))
             in (case evict_entries c es g of
                   (None, h) \<Rightarrow> (None, h)
                 | (Some (out, rest), h) \<Rightarrow> (Some (((''file'', JStr rel) # ev) # out, (k, JObj e1) # rest), h)))
        | _ \<Rightarrow> (None, f))
      else (case evict_entries c es f of
              (None, h) \<Rightarrow> (None, h)
            | (Some (out, rest), h) \<Rightarrow> (Some (out, (k, v) # rest), h)))"

definition evict_held :: "('g, 'x) pubcfg_scheme \<Rightarrow> 'g pworld \<Rightarrow> jobj list option \<times> 'g pworld" where
  "evict_held c w =
     (case take_lock c (pw_fs w) of None \<Rightarrow> (None, w)
      | Some f \<Rightarrow>
        (case load_outbox c f of None \<Rightarrow> (None, w\<lparr>pw_fs := f\<rparr>)
         | Some d \<Rightarrow>
           (case evict_entries c (entries_of d) f of
              (None, g) \<Rightarrow> (None, w\<lparr>pw_fs := g\<rparr>)
            | (Some (out, es), g) \<Rightarrow>
              (case save_outbox c (dput ''entries'' (JObj es) d) g of
                 None \<Rightarrow> (None, w\<lparr>pw_fs := g\<rparr>) | Some h \<Rightarrow> (Some out, w\<lparr>pw_fs := h\<rparr>)))))"

fun count_statuses :: "jobj list \<Rightarrow> (json \<times> nat) list \<Rightarrow> (json \<times> nat) list" where
  "count_statuses [] acc = acc"
| "count_statuses (e # es) acc =
     (let s = jget e ''status'' in
      count_statuses es (dput s ((case dget acc s of None \<Rightarrow> 0 | Some n \<Rightarrow> n) + 1) acc))"

definition pub_counts :: "('g, 'x) pubcfg_scheme \<Rightarrow> fs \<Rightarrow> ((json \<times> nat) list \<times> json \<times> bool) option" where
  "pub_counts c f = map_option (\<lambda>d. (count_statuses (map (\<lambda>kv. obj_of (snd kv)) (entries_of d)) [],
     jget d ''budget'', pub_enabled c f)) (load_outbox c f)"

subsection \<open>What a saved document says\<close>

definition sorted_obj :: "jobj \<Rightarrow> jobj" where
  "sorted_obj d = obj_of (json_sort (JObj d))"

lemma json_sort_obj: "json_sort (JObj d) = JObj (sorted_obj d)"
  by (simp add: sorted_obj_def)

lemma dget_sorted: "dget (sorted_obj d) k = map_option json_sort (dget d k)"
  using dget_json_sort [of d k] by (simp add: sorted_obj_def)

lemma jget_sorted: "jget (sorted_obj d) k = json_sort (jget d k)"
  by (simp add: jget_def dget_sorted split: option.splits)

lemma dhas_sorted [simp]: "dhas (sorted_obj d) k = dhas d k"
  by (simp add: dhas_def dget_sorted)

lemma is_obj_iff: "is_obj v \<longleftrightarrow> v = JObj (obj_of v)"
  by (cases v) auto

lemma is_obj_sort [simp]: "is_obj (json_sort v) = is_obj v"
  by (cases v) auto

lemma as_str_sort [simp]: "as_str (json_sort v) = as_str v"
  by (cases v) auto

lemma obj_of_sort: "is_obj v \<Longrightarrow> obj_of (json_sort v) = sorted_obj (obj_of v)"
  by (cases v) (auto simp: sorted_obj_def)

lemma sorted_obj_set: "set (sorted_obj d) = (\<lambda>kv. (fst kv, json_sort (snd kv))) ` set d"
  by (simp add: sorted_obj_def)

lemma all_sorted: "list_all (\<lambda>kv. P (snd kv)) (sorted_obj d) = list_all (\<lambda>kv. P (json_sort (snd kv))) d"
  by (simp add: list_all_iff sorted_obj_set)

lemma sorted_shape: "outbox_shape (sorted_obj d) = outbox_shape d"
  using all_sorted [of is_obj] all_sorted [of "\<lambda>v. as_str v \<noteq> None"]
  by (simp add: outbox_shape_def jget_sorted obj_of_sort cong: conj_cong)

lemma shape_keys:
  assumes "outbox_shape d"
  shows "outbox_defaults d = d"
proof -
  have "dhas d k" if "is_obj (jget d k)" for k using that by (auto simp: jget_def dhas_def split: option.splits)
  with assms show ?thesis by (simp add: outbox_defaults_def outbox_shape_def dsetdefault_def)
qed

lemma load_after_save:
  assumes "save_outbox c d f = Some g" and "outbox_shape d" and "pc_outbox c \<notin> set (noread f)"
  shows "load_outbox c g = Some (sorted_obj d)"
proof -
  obtain h where h: "mkdirs (path_parent (pc_outbox c)) f = Some h"
      "atomic_write (pc_mtime c) (pc_outbox c) (Doc (json_sort (JObj d))) h = Some g"
    using assms(1) by (auto simp: save_outbox_def split: option.splits)
  have "pc_outbox c \<notin> set (noread g)"
    using mkdirs_frame [OF h(1)] atomic_write_frame [OF h(2)] assms(3) by simp
  moreover have "fs_get g (pc_outbox c) = Some \<lparr>body = Doc (json_sort (JObj d)), mtime = pc_mtime c\<rparr>"
    using atomic_write_get [OF h(2), of "pc_outbox c"] by simp
  ultimately have "read_json g (pc_outbox c) = Some (JObj (sorted_obj d))"
    by (simp add: read_json_def read_text_def json_sort_obj del: json_sort.simps)
  moreover have "sorted_obj d \<noteq> []"
    using assms(2) dhas_sorted [of d "''entries''"] by (auto simp: outbox_shape_def dhas_def jget_def split: option.splits)
  ultimately show ?thesis
    using assms(2) by (simp add: load_outbox_def py_or_def sorted_shape shape_keys [of "sorted_obj d"])
qed

lemma load_shape: "load_outbox c f = Some d \<Longrightarrow> outbox_shape d"
  by (auto simp: load_outbox_def Let_def split: if_splits)

text \<open>The status of every entry, and what the lock leaves as it was.\<close>

definition estatus :: "jobj \<Rightarrow> string \<Rightarrow> string option option" where
  "estatus d rel = map_option (\<lambda>e. as_str (jget e ''status'')) (entry_of d rel)"

lemma entry_sorted: "outbox_shape d \<Longrightarrow> entry_of (sorted_obj d) rel = map_option sorted_obj (entry_of d rel)"
proof -
  assume s: "outbox_shape d"
  have o: "is_obj v" if "dget (entries_of d) rel = Some v" for v
    using s dget_in_set [OF that] by (auto simp: outbox_shape_def entries_of_def list_all_iff)
  have "entries_of (sorted_obj d) = sorted_obj (entries_of d)"
    using s by (simp add: entries_of_def jget_sorted outbox_shape_def obj_of_sort)
  then show ?thesis
    using o by (cases "dget (entries_of d) rel") (simp_all add: entry_of_def dget_sorted obj_of_sort)
qed

lemma estatus_sorted: "outbox_shape d \<Longrightarrow> estatus (sorted_obj d) rel = estatus d rel"
  by (simp add: estatus_def entry_sorted jget_sorted option.map_comp comp_def)

lemma pending_status: "is_pending e \<longleftrightarrow> as_str (jget e ''status'') = Some ''pending''"
  by (cases "jget e ''status''") (auto simp: is_pending_def)

lemma spent_sorted: "outbox_shape d \<Longrightarrow> spent_today c (sorted_obj d) = spent_today c d"
proof -
  assume "outbox_shape d"
  then have "obj_of (jget (sorted_obj d) ''budget'') = sorted_obj (obj_of (jget d ''budget''))"
    by (simp add: jget_sorted outbox_shape_def obj_of_sort)
  moreover have "json_sort v = JStr s \<longleftrightarrow> v = JStr s" "json_sort v = JInt n \<longleftrightarrow> v = JInt n" for v s n
    by (cases v; simp)+
  ultimately show ?thesis
    by (auto simp: spent_today_def budget_of_def Let_def jget_sorted split: json.splits)
qed

subsection \<open>What an attempt leaves\<close>

text \<open>Restoring a tracked file changes nobody's permissions.\<close>

definition git_frame :: "('g, 'x) pubcfg_scheme \<Rightarrow> bool" where
  "git_frame c \<longleftrightarrow> (\<forall>rel f. noread (snd (pc_checkout c rel f)) = noread f)"

lemma write_text_frame: "write_text now p t f = Some g \<Longrightarrow> noread g = noread f"
  using fs_put_frame by (auto simp: write_text_def)

lemma take_lock_noread: "take_lock c f = Some g \<Longrightarrow> noread g = noread f"
  by (auto simp: take_lock_def dest!: write_text_frame mkdirs_frame split: option.splits if_splits)

lemma keep_bytes_noread: "noread (snd (keep_bytes c rel why bucket f)) = noread f"
  by (auto simp: keep_bytes_def Let_def dest!: write_text_frame mkdirs_frame split: option.splits)

lemma clear_runtime_noread: "git_frame c \<Longrightarrow> noread (snd (clear_runtime c rel kept f)) = noread f"
  by (auto simp: clear_runtime_def git_frame_def Let_def split_beta dest!: unlink_frame split: option.splits)

lemma evict_noread: "git_frame c \<Longrightarrow> noread (snd (evict c rel why bucket f)) = noread f"
  using keep_bytes_noread [of c rel why bucket f]
  by (auto simp: evict_def clear_runtime_noread split: prod.splits bool.splits)

lemma park_one_noread: "noread (snd (park_one now did t d z)) = noread (snd z)"
  by (cases z) (auto simp: park_one_def dest!: write_text_frame mkdirs_frame split: option.splits)

lemma park_directive_noread: "noread (snd (park_directive now did reason whn d du f)) = noread f"
  by (auto simp: park_directive_def Let_def split_beta park_one_noread dest!: unlink_frame split: option.splits)

lemma refusal_action:
  "refusal c rel content t p = Some (Some (a, r)) \<Longrightarrow>
     a \<in> {''duplicate_module'', ''saturated_family'', ''blocked'', ''hollow_blocked''}"
  by (auto simp: refusal_def duplicate_refusal_def split: option.splits json.splits if_splits)

definition outcomes :: "string list" where
  "outcomes = [''pending'', ''published'', ''noop'', ''refused'', ''held'', ''quarantined'', ''lost'']"

text \<open>An answer that tells of a pull request opened by this very attempt.\<close>

definition is_opened :: "jobj \<Rightarrow> bool" where
  "is_opened r \<longleftrightarrow> jget r ''action'' = JStr ''published'' \<and> dhas r ''pr_url''"

text \<open>What is known of an attempt on a pending entry.\<close>

definition attempt_ok :: "('g, 'x) pubcfg_scheme \<Rightarrow> jobj \<Rightarrow> 'g pworld \<Rightarrow> 'g attempt \<Rightarrow> bool" where
  "attempt_ok c d w a = (case a of (r, e1, d1, w1) \<Rightarrow>
     outbox_shape d1 \<and> entries_of d1 = entries_of d \<and> noread (pw_fs w1) = noread (pw_fs w)
     \<and> (\<exists>s. jget e1 ''status'' = JStr s \<and> s \<in> set outcomes)
     \<and> (\<forall>n. spent_today c d = Some n \<longrightarrow>
          (if is_opened r then spent_today c d1 = Some (n + 1) \<and> n < pc_cap c
           else spent_today c d1 = Some n)))"

lemma close_status: "list_all (\<lambda>kv. fst kv \<noteq> ''status'') extra \<Longrightarrow> jget (close_entry c s t extra e) ''status'' = JStr s"
proof -
  have "list_all (\<lambda>kv. fst kv \<noteq> ''status'') xs \<Longrightarrow> jget (fold (\<lambda>kv d. dput (fst kv) (snd kv) d) xs d) ''status'' = jget d ''status''"
    for xs and d :: jobj by (induction xs arbitrary: d) auto
  then show "list_all (\<lambda>kv. fst kv \<noteq> ''status'') extra \<Longrightarrow> jget (close_entry c s t extra e) ''status'' = JStr s"
    by (simp add: close_entry_def)
qed

lemma refuse_ok:
  assumes "outbox_shape d" and "git_frame c" and "action \<noteq> ''published''"
  shows "attempt_ok c d w (refuse_entry c rel action detail e d w)"
proof (cases "jget e ''source'' = JStr ''backfill''")
  case True
  with assms show ?thesis by (simp add: refuse_entry_def attempt_ok_def is_opened_def close_status outcomes_def)
next
  case False
  have p: "noread (snd (if b then park_directive n k r i d u f else (False, f))) = noread f" for b n k r i d u f
    by (simp add: park_directive_noread)
  from False assms show ?thesis
    by (simp add: refuse_entry_def attempt_ok_def is_opened_def Let_def split_beta close_status outcomes_def evict_noread p)
qed

lemma settle_ok:
  assumes "outbox_shape d" and "git_frame c" and "is_pending e" and "spent_today c d = Some n" and "n < pc_cap c"
  shows "attempt_ok c d w (settle c rel r n e d w)"
proof -
  have pub: "list_all (\<lambda>kv. as_str (snd kv) \<noteq> None) (dput k (JStr t) (published_of d))" for k t
    using assms(1) set_dput [of _ k "JStr t" "published_of d"]
    by (fastforce simp: outbox_shape_def published_of_def list_all_iff)
  show ?thesis
    using assms pub
    by (auto simp: settle_def attempt_ok_def is_opened_def dhas_def Let_def split_beta close_status outcomes_def evict_noread is_pending_def
        outbox_shape_def entries_of_def spent_today_def budget_of_def Let_def)
qed

lemma publish_ok:
  assumes "outbox_shape d" and "git_frame c" and "is_pending e" and "publish_entry c rel content e d w = Some a"
  shows "attempt_ok c d w a"
proof -
  have same: "attempt_ok c d w ([(''file'', JStr rel), (''action'', JStr s)], e', d, w)"
    if "s \<noteq> ''published''" and "jget e' ''status'' = JStr ''pending''" for s e'
    using that assms(1) by (simp add: attempt_ok_def is_opened_def outcomes_def)
  have e: "jget e ''status'' = JStr ''pending''" using assms(3) by (simp add: is_pending_def)
  show ?thesis
  proof (cases "pub_enabled c (pw_fs w) \<and> (\<exists>publish n. pc_gitops c = Some publish \<and> spent_today c d = Some n \<and> n < pc_cap c)")
    case True
    then obtain publish n where pn: "pub_enabled c (pw_fs w)" "pc_gitops c = Some publish" "spent_today c d = Some n" "n < pc_cap c"
      by blast
    obtain r g where rg: "publish (entry_plan rel content e) (pw_git w) = (r, g)" by fastforce
    have "a = settle c rel r n e d (w\<lparr>pw_git := g\<rparr>)" using assms(4) pn rg by (simp add: publish_entry_def)
    with settle_ok [OF assms(1-3) pn(3,4), of "w\<lparr>pw_git := g\<rparr>" rel r] show ?thesis by (simp add: attempt_ok_def)
  next
    case False
    with assms(4) e same show ?thesis
      by (auto simp: publish_entry_def Let_def split: if_splits option.splits prod.splits)
  qed
qed

lemma attempt_entry_ok:
  assumes "outbox_shape d" and "git_frame c" and "is_pending e" and "attempt_entry c rel e d w = Some a"
  shows "attempt_ok c d w a"
proof -
  define content where "content = (case read_text (pw_fs w) (runtime_path c rel) of None \<Rightarrow> [] | Some t \<Rightarrow> content_text t)"
  define ref where "ref = refusal c rel content (efield e ''built_at'' []) (published_of d)"
  have a: "attempt_entry c rel e d w = (if content = []
      then Some ([(''file'', JStr rel), (''action'', JStr ''lost'')], close_entry c ''lost'' lost_detail [] e, d, w)
      else (case ref of None \<Rightarrow> None
        | Some (Some (action, detail)) \<Rightarrow> Some (refuse_entry c rel action detail e d w)
        | Some None \<Rightarrow> publish_entry c rel content e d w))"
    unfolding attempt_entry_def content_def ref_def Let_def by (rule refl)
  show ?thesis
  proof (cases "content = []")
    case True
    with a assms(1,4) show ?thesis by (auto simp: attempt_ok_def is_opened_def close_status outcomes_def)
  next
    case False
    with a assms(4) consider (refused) action detail where "ref = Some (Some (action, detail))" "a = refuse_entry c rel action detail e d w"
      | (published) "publish_entry c rel content e d w = Some a"
      by (auto split: option.splits)
    then show ?thesis
    proof cases
      case refused
      then have "action \<noteq> ''published''" using refusal_action [of c rel content] by (auto simp: ref_def)
      with refuse_ok [OF assms(1,2)] refused(2) show ?thesis by simp
    next
      case published
      with publish_ok [OF assms(1-3)] show ?thesis by simp
    qed
  qed
qed

subsection \<open>The life of an entry\<close>

text \<open>How the status of an entry changes: only a pending one does, to one of the outcomes.\<close>

definition settles :: "string option \<Rightarrow> string option \<Rightarrow> bool" where
  "settles s t \<longleftrightarrow> t = s \<or> s = Some ''pending'' \<and> t \<in> Some ` set outcomes"

lemma settles_refl: "settles s s"
  by (simp add: settles_def)

lemma settles_trans: "settles s t \<Longrightarrow> settles t u \<Longrightarrow> settles s u"
  by (auto simp: settles_def)

text \<open>The number of pull requests among some answers.\<close>

definition opened :: "jobj list \<Rightarrow> nat" where
  "opened rs = length (filter is_opened rs)"

text \<open>What operations that only attempt leave of the document, with the answers they gave.\<close>

definition attempted :: "('g, 'x) pubcfg_scheme \<Rightarrow> jobj \<Rightarrow> jobj \<Rightarrow> jobj list \<Rightarrow> bool" where
  "attempted c d d' rs \<longleftrightarrow>
     (\<forall>k. rel_option settles (estatus d k) (estatus d' k))
     \<and> (\<forall>n. spent_today c d = Some n \<longrightarrow> spent_today c d' = Some (n + int (opened rs))
          \<and> (opened rs > 0 \<longrightarrow> n + int (opened rs) \<le> pc_cap c))"

lemma attempted_refl: "attempted c d d []"
  by (auto simp: attempted_def opened_def settles_refl intro: option.rel_refl)

lemma attempted_trans:
  assumes "attempted c d d1 rs" and "attempted c d1 d2 qs"
  shows "attempted c d d2 (rs @ qs)"
proof -
  have "rel_option settles (estatus d k) (estatus d2 k)" for k
    using assms unfolding attempted_def
    by (metis (no_types, lifting) option.rel_transp settles_trans transpD transpI)
  moreover have "opened (rs @ qs) = opened rs + opened qs" by (simp add: opened_def)
  ultimately show ?thesis
    using assms by (auto simp: attempted_def)
qed

lemma entries_put [simp]: "entries_of (put_entry rel e d) = dput rel (JObj e) (entries_of d)"
  by (simp add: put_entry_def entries_of_def)

lemma entry_put [simp]: "entry_of (put_entry rel e d) k = (if k = rel then Some e else entry_of d k)"
  by (simp add: entry_of_def)

lemma shape_put: "outbox_shape d \<Longrightarrow> outbox_shape (put_entry rel e d)"
  using set_dput [of _ rel "JObj e" "entries_of d"]
  by (fastforce simp: outbox_shape_def put_entry_def entries_of_def list_all_iff)

lemma spent_put [simp]: "spent_today c (put_entry rel e d) = spent_today c d"
  by (simp add: spent_today_def budget_of_def put_entry_def)

lemma lock_not_outbox: "lock_file c \<noteq> pc_outbox c"
proof
  assume "lock_file c = pc_outbox c"
  then have "path_name (lock_file c) = path_name (pc_outbox c)" by simp
  then show False by (simp add: lock_file_def with_name_def)
qed

lemma take_lock_load: "take_lock c f = Some g \<Longrightarrow> load_outbox c g = load_outbox c f"
proof -
  assume t: "take_lock c f = Some g"
  have "fs_get g (pc_outbox c) = fs_get f (pc_outbox c)"
    using t lock_not_outbox [of c]
    by (auto simp: take_lock_def write_text_get split: option.splits if_splits)
  then show ?thesis using take_lock_noread [OF t] by (simp add: load_outbox_def read_json_def read_text_def)
qed

definition outbox_readable :: "('g, 'x) pubcfg_scheme \<Rightarrow> 'g pworld \<Rightarrow> bool" where
  "outbox_readable c w \<longleftrightarrow> pc_outbox c \<notin> set (noread (pw_fs w))"

text \<open>An attempt that answers either found nothing to do or settled a pending entry and saved.\<close>

lemma attempt_cases:
  assumes "attempt c rel w = (Some r, w')" and "load_outbox c (pw_fs w) = Some d"
  obtains (nothing) f where "take_lock c (pw_fs w) = Some f" "w' = w\<lparr>pw_fs := f\<rparr>" "\<not> is_opened r"
  | (saved) f e rel' e0 e1 d1 w1 g where "take_lock c (pw_fs w) = Some f" "entry_of d rel = Some e" "is_pending e"
      "dget e ''file'' = Some (JStr rel')" "count_attempt c e = Some e0"
      "attempt_entry c rel' e0 d (w\<lparr>pw_fs := f\<rparr>) = Some (r, e1, d1, w1)"
      "save_outbox c (put_entry rel e1 d1) (pw_fs w1) = Some g" "w' = w1\<lparr>pw_fs := g\<rparr>"
proof -
  obtain f where f: "take_lock c (pw_fs w) = Some f" using assms(1) by (auto simp: attempt_def split: option.splits)
  let ?w = "w\<lparr>pw_fs := f\<rparr>"
  have l: "load_outbox c f = Some d" using assms(2) take_lock_load [OF f] by simp
  show thesis
  proof (cases "\<exists>e. entry_of d rel = Some e \<and> is_pending e")
    case False
    with assms(1) f l have "w' = ?w \<and> \<not> is_opened r"
      by (auto simp: attempt_def Let_def is_opened_def dhas_def split: option.splits if_splits)
    then show thesis using f that(1) [of f] by simp
  next
    case True
    then obtain e where e: "entry_of d rel = Some e" "is_pending e" by blast
    then have "e \<noteq> []" by (auto simp: is_pending_def)
    with assms(1) f l e obtain r1 e1 d1 w1 g where s: "attempt_locked c e d ?w = Some (r1, e1, d1, w1)"
        "save_outbox c (put_entry rel e1 d1) (pw_fs w1) = Some g" "r1 = r" "w' = w1\<lparr>pw_fs := g\<rparr>"
      by (auto simp: attempt_def Let_def split: option.splits)
    then obtain rel' e0 where "dget e ''file'' = Some (JStr rel')" "count_attempt c e = Some e0"
        "attempt_entry c rel' e0 d ?w = Some (r, e1, d1, w1)"
      by (auto simp: attempt_locked_def split: option.splits json.splits)
    with saved [OF f e] s show thesis by blast
  qed
qed

lemma count_attempt_pending: "count_attempt c e = Some e0 \<Longrightarrow> is_pending e0 = is_pending e"
  by (auto simp: count_attempt_def is_pending_def)

lemma attempt_attempted:
  assumes "attempt c rel w = (Some r, w')" and "load_outbox c (pw_fs w) = Some d" and "git_frame c" and "outbox_readable c w"
  shows "outbox_readable c w' \<and> (\<exists>d'. load_outbox c (pw_fs w') = Some d' \<and> attempted c d d' [r])"
proof (cases rule: attempt_cases [OF assms(1,2)])
  case (1 f)
  then have "attempted c d d [r]" using attempted_refl [of c d] by (simp add: attempted_def opened_def)
  then show ?thesis
    using 1 assms(2,4) take_lock_load [OF 1(1)] take_lock_noread [OF 1(1)] by (simp add: outbox_readable_def)
next
  case (2 f e rel' e0 e1 d1 w1 g)
  have sh: "outbox_shape d" using load_shape [OF assms(2)] .
  have ok: "attempt_ok c d (w\<lparr>pw_fs := f\<rparr>) (r, e1, d1, w1)"
    using attempt_entry_ok [OF sh assms(3) _ 2(6)] count_attempt_pending [OF 2(5)] 2(3) by simp
  let ?d = "put_entry rel e1 d1"
  have shp: "outbox_shape ?d" using ok by (simp add: attempt_ok_def shape_put)
  have nr: "noread (pw_fs w1) = noread (pw_fs w)" using ok take_lock_noread [OF 2(1)] by (simp add: attempt_ok_def)
  have ld: "load_outbox c g = Some (sorted_obj ?d)"
    using load_after_save [OF 2(7) shp] nr assms(4) by (simp add: outbox_readable_def)
  have "noread g = noread (pw_fs w1)"
    using 2(7) by (auto simp: save_outbox_def dest!: mkdirs_frame atomic_write_frame split: option.splits)
  then have rd: "outbox_readable c w'" using assms(4) nr by (simp add: outbox_readable_def 2(8))
  have same: "entry_of ?d k = (if k = rel then Some e1 else entry_of d k)" for k
    using ok by (simp add: attempt_ok_def entry_of_def)
  have st: "estatus (sorted_obj ?d) k = (if k = rel then Some (as_str (jget e1 ''status'')) else estatus d k)" for k
    unfolding estatus_sorted [OF shp] using same [of k] by (simp add: estatus_def del: entry_put)
  have "rel_option settles (estatus d k) (estatus (sorted_obj ?d) k)" for k
  proof (cases "k = rel")
    case True
    have "settles (as_str (jget e ''status'')) (as_str (jget e1 ''status''))"
      using ok 2(3) by (auto simp: attempt_ok_def settles_def pending_status)
    with True 2(2) show ?thesis by (simp only: st) (simp add: estatus_def)
  next
    case False
    then show ?thesis by (simp add: st settles_refl option.rel_refl)
  qed
  moreover have "spent_today c d = Some n \<Longrightarrow> spent_today c (sorted_obj ?d) = Some (n + int (opened [r]))
      \<and> (opened [r] > 0 \<longrightarrow> n + int (opened [r]) \<le> pc_cap c)" for n
    using ok by (auto simp: spent_sorted [OF shp] attempt_ok_def opened_def split: if_splits)
  ultimately have "attempted c d (sorted_obj ?d) [r]" by (simp add: attempted_def)
  with ld rd show ?thesis by (simp add: 2(8))
qed

text \<open>What was saved in between survives the attempts that follow.\<close>

lemma drain_loop_attempted:
  assumes "drain_loop c es out w = (Some out', w')" and "load_outbox c (pw_fs w) = Some d"
    and "git_frame c" and "outbox_readable c w"
  shows "\<exists>rs d'. out' = out @ rs \<and> load_outbox c (pw_fs w') = Some d' \<and> attempted c d d' rs \<and> outbox_readable c w'"
  using assms
proof (induction es arbitrary: out w d)
  case Nil
  then show ?case using attempted_refl [of c d] by auto
next
  case (Cons e es)
  then obtain rel r w1 where a: "dget e ''file'' = Some (JStr rel)" "attempt c rel w = (Some r, w1)"
    by (auto split: option.splits json.splits prod.splits)
  obtain d1 where d1: "outbox_readable c w1" "load_outbox c (pw_fs w1) = Some d1" "attempted c d d1 [r]"
    using attempt_attempted [OF a(2) Cons.prems(2-4)] by blast
  show ?case
  proof (cases "stops_drain (jget r ''action'')")
    case True
    with Cons.prems(1) a have "out' = out @ [r]" "w' = w1" by auto
    with d1 show ?thesis by blast
  next
    case False
    with Cons.prems(1) a have "drain_loop c es (out @ [r]) w1 = (Some out', w')" by simp
    from Cons.IH [OF this d1(2) Cons.prems(3) d1(1)] obtain rs d'
      where r: "out' = (out @ [r]) @ rs" "load_outbox c (pw_fs w') = Some d'" "attempted c d1 d' rs" "outbox_readable c w'" by blast
    from attempted_trans [OF d1(3) r(3)] have "attempted c d d' ([r] @ rs)" .
    with r show ?thesis by (intro exI [of _ "[r] @ rs"]) auto
  qed
qed

lemma drain_attempted:
  assumes "drain c limit w = (Some rs, w')" and "load_outbox c (pw_fs w) = Some d"
    and "git_frame c" and "outbox_readable c w"
  shows "\<exists>d'. load_outbox c (pw_fs w') = Some d' \<and> attempted c d d' rs"
  using drain_loop_attempted [OF _ assms(2-4)] assms(1,2) by (fastforce simp: drain_def)

text \<open>Git is called for one plan only, after every rule.\<close>

lemma refuse_git: "refuse_entry c rel a r e d w = (x, e1, d1, w1) \<Longrightarrow> pw_git w1 = pw_git w"
  by (auto simp: refuse_entry_def Let_def split: if_splits prod.splits)

lemma settle_git: "settle c rel r n e d w = (x, e1, d1, w1) \<Longrightarrow> pw_git w1 = pw_git w"
  by (auto simp: settle_def Let_def split: if_splits prod.splits)

text \<open>What has to hold for a build to reach git.\<close>

definition gated :: "('g, 'x) pubcfg_scheme \<Rightarrow> fs \<Rightarrow> jobj \<Rightarrow> string \<Rightarrow> string \<Rightarrow> jobj \<Rightarrow> bool" where
  "gated c f d rel content e \<longleftrightarrow>
     content \<noteq> [] \<and> map_option content_text (read_text f (runtime_path c rel)) = Some content
     \<and> duplicate_refusal c rel (efield e ''built_at'' []) (published_of d) = None
     \<and> saturated_family_scan (pc_env c) rel = None \<and> static_safety_scan content = None
     \<and> hollow_scaffold_scan (pc_parse c) rel content = Some None
     \<and> pub_enabled c f \<and> (\<exists>n. spent_today c d = Some n \<and> n < pc_cap c)"

lemma refusal_none:
  "refusal c rel content t p = Some None \<longleftrightarrow>
     duplicate_refusal c rel t p = None \<and> saturated_family_scan (pc_env c) rel = None
     \<and> static_safety_scan content = None \<and> hollow_scaffold_scan (pc_parse c) rel content = Some None"
  by (auto simp: refusal_def split: option.splits)

lemma publish_entry_git:
  assumes "publish_entry c rel content e d w = Some (r, e1, d1, w1)" and "pw_git w1 \<noteq> pw_git w"
  shows "pub_enabled c (pw_fs w) \<and> (\<exists>n. spent_today c d = Some n \<and> n < pc_cap c)
    \<and> (\<exists>publish. pc_gitops c = Some publish \<and> pw_git w1 = snd (publish (entry_plan rel content e) (pw_git w)))"
  using assms by (auto simp: publish_entry_def Let_def dest: settle_git split: if_splits option.splits prod.splits)

lemma attempt_entry_git:
  assumes "attempt_entry c rel e d w = Some (r, e1, d1, w1)" and "pw_git w1 \<noteq> pw_git w"
  shows "\<exists>content publish. gated c (pw_fs w) d rel content e \<and> pc_gitops c = Some publish
    \<and> pw_git w1 = snd (publish (entry_plan rel content e) (pw_git w))"
proof -
  obtain t where t: "read_text (pw_fs w) (runtime_path c rel) = Some t" "content_text t \<noteq> []"
    using assms by (auto simp: attempt_entry_def Let_def split: option.splits if_splits)
  with assms have "refusal c rel (content_text t) (efield e ''built_at'' []) (published_of d) = Some None
      \<and> publish_entry c rel (content_text t) e d w = Some (r, e1, d1, w1)"
    by (auto simp: attempt_entry_def Let_def dest: refuse_git split: option.splits)
  with t publish_entry_git [of c rel "content_text t" e d w, OF _ assms(2)] show ?thesis
    by (intro exI [of _ "content_text t"]) (auto simp: gated_def refusal_none)
qed

lemma attempt_git:
  assumes "pw_git (snd (attempt c rel w)) \<noteq> pw_git w"
  shows "\<exists>f d e rel' e0 r e1 d1 w1. take_lock c (pw_fs w) = Some f \<and> load_outbox c f = Some d \<and> entry_of d rel = Some e
    \<and> is_pending e \<and> dget e ''file'' = Some (JStr rel') \<and> count_attempt c e = Some e0
    \<and> attempt_entry c rel' e0 d (w\<lparr>pw_fs := f\<rparr>) = Some (r, e1, d1, w1) \<and> pw_git w1 = pw_git (snd (attempt c rel w))"
proof -
  from assms obtain f d e where o: "take_lock c (pw_fs w) = Some f" "load_outbox c f = Some d" "entry_of d rel = Some e" "is_pending e"
    by (auto simp: attempt_def Let_def split: option.splits if_splits)
  then have "e \<noteq> []" by (auto simp: is_pending_def)
  with o assms obtain r e1 d1 w1 where l: "attempt_locked c e d (w\<lparr>pw_fs := f\<rparr>) = Some (r, e1, d1, w1)"
      "pw_git w1 = pw_git (snd (attempt c rel w))"
    by (auto simp: attempt_def Let_def split: option.splits)
  from l(1) obtain rel' e0 where "dget e ''file'' = Some (JStr rel')" "count_attempt c e = Some e0"
      "attempt_entry c rel' e0 d (w\<lparr>pw_fs := f\<rparr>) = Some (r, e1, d1, w1)"
    by (auto simp: attempt_locked_def split: option.splits json.splits)
  with o l(2) show ?thesis by blast
qed

text \<open>A refusal is final even where its eviction failed: the file stays in the runtime tree.\<close>

lemma keep_bytes_keeps: "is_file f p \<Longrightarrow> is_file (snd (keep_bytes c rel why bucket f)) p"
  by (auto simp: keep_bytes_def Let_def is_file_def write_text_get mkdirs_get split: option.splits)

lemma refused_although_kept:
  assumes "is_file (pw_fs w) (runtime_path c rel)" and "\<not> fst (keep_bytes c rel (action @ '': '' @ detail) ''evicted'' (pw_fs w))"
    and "jget e ''source'' \<noteq> JStr ''backfill''" and "action \<noteq> ''hollow_blocked''"
    and "refuse_entry c rel action detail e d w = (r, e1, d1, w1)"
  shows "jget e1 ''status'' = JStr ''refused'' \<and> jget r ''evicted'' = JBool False \<and> is_file (pw_fs w1) (runtime_path c rel)"
  using assms keep_bytes_keeps [OF assms(1), of c rel "action @ '': '' @ detail" "''evicted''"]
  by (auto simp: refuse_entry_def evict_def evict_answer_def close_status jget_Cons split: prod.splits bool.splits)

subsection \<open>What reaches the remote\<close>

text \<open>What an answer says of the branches pushed for it: one for an opened pull request, none otherwise, but a
  transient failure may hide one.\<close>

definition reports :: "jobj \<Rightarrow> nat \<Rightarrow> nat \<Rightarrow> bool" where
  "reports r n m \<longleftrightarrow> m = n + (if is_opened r then 1 else 0)
     \<or> jget r ''action'' = JStr ''transient'' \<and> \<not> is_opened r \<and> n \<le> m \<and> m \<le> Suc n"

text \<open>The loop stops at a transient failure, so that only the last answer can hide a push.\<close>

definition reported :: "jobj list \<Rightarrow> nat \<Rightarrow> nat \<Rightarrow> bool" where
  "reported rs n m \<longleftrightarrow> n + opened rs \<le> m
     \<and> m \<le> n + opened rs + (if rs \<noteq> [] \<and> jget (last rs) ''action'' = JStr ''transient'' then 1 else 0)"

lemma reports_same: "\<not> is_opened r \<Longrightarrow> reports r n n"
  by (simp add: reports_def)

lemma reported_Cons:
  assumes "reports r n k" and "stops_drain (jget r ''action'') \<and> rs = [] \<and> m = k
      \<or> \<not> stops_drain (jget r ''action'') \<and> reported rs k m"
  shows "reported (r # rs) n m"
proof (cases "stops_drain (jget r ''action'')")
  case True
  with assms show ?thesis by (auto simp: reports_def reported_def opened_def)
next
  case False
  then have "jget r ''action'' \<noteq> JStr ''transient''" by (auto simp: STOPS_def)
  with assms False show ?thesis by (cases "rs = []") (auto simp: reports_def reported_def opened_def)
qed

context git_seam
begin

lemma settle_reports:
  assumes "publish p g = (r, g')" and "settle c rel r n e d w = (x, e1, d1, w1)"
  shows "reports x (pushed g) (pushed g')"
proof -
  have op: "is_opened x \<longleftrightarrow> pr_ok r \<and> \<not> pr_noop r"
    using assms(2) by (auto simp: settle_def is_opened_def dhas_def jget_def Let_def split: if_splits prod.splits)
  show ?thesis
  proof (cases "pr_ok r \<or> pr_permanent r")
    case True
    from opened_iff [OF assms(1) this] op show ?thesis by (simp add: reports_def)
  next
    case False
    then have "jget x ''action'' = JStr ''transient''"
      using assms(2) by (auto simp: settle_def jget_def split: if_splits)
    with op False pushed_at_most_once [OF assms(1)] show ?thesis by (simp add: reports_def)
  qed
qed

lemma publish_entry_reports:
  assumes "publish_entry c rel content e d w = Some (x, e1, d1, w1)" and "pc_gitops c = Some publish"
  shows "reports x (pushed (pw_git w)) (pushed (pw_git w1))"
proof -
  obtain r g where rg: "publish (entry_plan rel content e) (pw_git w) = (r, g)" by fastforce
  have same: "reports [(''file'', JStr rel), (''action'', JStr s)] n n" if "s \<noteq> ''published''" for s n
    using that by (simp add: reports_def is_opened_def jget_def)
  consider n where "settle c rel r n e d (w\<lparr>pw_git := g\<rparr>) = (x, e1, d1, w1)"
    | s where "x = [(''file'', JStr rel), (''action'', JStr s)]" "s \<noteq> ''published''" "w1 = w"
    using assms rg by (auto simp: publish_entry_def split: if_splits option.splits)
  then show ?thesis
  proof cases
    case 1
    with settle_reports [OF rg 1] settle_git [OF 1] show ?thesis by simp
  next
    case 2
    with same show ?thesis by simp
  qed
qed

lemma attempt_entry_reports:
  assumes "attempt_entry c rel e d w = Some (x, e1, d1, w1)" and "pc_gitops c = Some publish"
  shows "reports x (pushed (pw_git w)) (pushed (pw_git w1))"
proof (cases "pw_git w1 = pw_git w \<and> \<not> is_opened x")
  case False
  have refused: "\<not> is_opened y" if "refuse_entry c rel a r e d w = (y, f1, d2, w2)" "a \<noteq> ''published''" for y a r f1 d2 w2
    using that by (auto simp: refuse_entry_def is_opened_def dhas_def jget_def Let_def split: if_splits prod.splits)
  have "\<exists>content. publish_entry c rel content e d w = Some (x, e1, d1, w1)"
    using assms(1) False refusal_action
    by (fastforce simp: attempt_entry_def Let_def is_opened_def dhas_def dest: refuse_git dest: refused split: option.splits if_splits)
  with publish_entry_reports assms(2) show ?thesis by blast
qed (simp add: reports_same)

lemma attempt_reports:
  assumes "attempt c rel w = (Some r, w')" and "pc_gitops c = Some publish"
  shows "reports r (pushed (pw_git w)) (pushed (pw_git w'))"
proof -
  obtain f d where "take_lock c (pw_fs w) = Some f" "load_outbox c f = Some d"
    using assms(1) by (auto simp: attempt_def Let_def split: option.splits)
  then have l: "load_outbox c (pw_fs w) = Some d" using take_lock_load by fastforce
  show ?thesis
  proof (cases rule: attempt_cases [OF assms(1) l])
    case (1 f)
    then show ?thesis by (simp add: reports_same)
  next
    case (2 f e rel' e0 e1 d1 w1 g)
    from attempt_entry_reports [OF 2(6) assms(2)] 2(8) show ?thesis by simp
  qed
qed

lemma drain_loop_reports:
  assumes "drain_loop c es out w = (Some out', w')" and "pc_gitops c = Some publish"
  shows "\<exists>rs. out' = out @ rs \<and> reported rs (pushed (pw_git w)) (pushed (pw_git w'))"
  using assms(1)
proof (induction es arbitrary: out w)
  case Nil
  then show ?case by (simp add: reported_def opened_def)
next
  case (Cons e es)
  then obtain rel r w1 where a: "attempt c rel w = (Some r, w1)"
      "(if stops_drain (jget r ''action'') then (Some (out @ [r]), w1) else drain_loop c es (out @ [r]) w1) = (Some out', w')"
    by (auto split: option.splits json.splits prod.splits)
  note rep = attempt_reports [OF a(1) assms(2)]
  show ?case
  proof (cases "stops_drain (jget r ''action'')")
    case True
    then have "reported [r] (pushed (pw_git w)) (pushed (pw_git w1))" by (intro reported_Cons [OF rep]) simp
    with a(2) True show ?thesis by auto
  next
    case False
    with a(2) have "drain_loop c es (out @ [r]) w1 = (Some out', w')" by simp
    from Cons.IH [OF this] obtain rs where rs: "out' = (out @ [r]) @ rs" "reported rs (pushed (pw_git w1)) (pushed (pw_git w'))" by blast
    have "reported (r # rs) (pushed (pw_git w)) (pushed (pw_git w'))"
      using False rs(2) by (intro reported_Cons [OF rep]) simp
    with rs(1) show ?thesis by auto
  qed
qed

lemma drain_reports:
  assumes "drain c limit w = (Some rs, w')" and "pc_gitops c = Some publish"
  shows "reported rs (pushed (pw_git w)) (pushed (pw_git w'))"
  using drain_loop_reports [OF _ assms(2), of _ "[]"] assms(1) by (fastforce simp: drain_def split: option.splits)

end

subsection \<open>A small outbox\<close>

text \<open>One pending build and one published, the latch on, git a counter.\<close>

definition small_fs :: fs where
  "small_fs = \<lparr>files =
      [(path_of ''/o/outbox.json'', \<lparr>body = Doc (JObj
         [(''entries'', JObj [(''a.py'', JObj [(''file'', JStr ''a.py''), (''status'', JStr ''pending''), (''built_at'', JStr ''t'')]),
                              (''b.py'', JObj [(''file'', JStr ''b.py''), (''status'', JStr ''published'')])])]), mtime = 1\<rparr>),
       (path_of ''/h/a.py'', \<lparr>body = Text ''x=1'', mtime = 1\<rparr>)],
     dirs = [path_of ''/'', path_of ''/o'', path_of ''/h'', path_of ''/q''], noread = [], nowrite = []\<rparr>"

definition small_world :: "nat pworld" where
  "small_world = \<lparr>pw_fs = small_fs, pw_git = 0\<rparr>"

definition small_cfg :: "nat pubcfg" where
  "small_cfg = \<lparr>pc_home = path_of ''/h'', pc_outbox = path_of ''/o/outbox.json'', pc_quarantine = path_of ''/q'',
     pc_enabled = Some True, pc_env = (\<lambda>_. None), pc_cap = 3, pc_dup_days = 7, pc_now = ''n'', pc_today = ''d'',
     pc_isonow = ''i'', pc_mtime = 9, pc_iso = (\<lambda>_. None), pc_parse = (\<lambda>_. BadSyntax), pc_tracked = (\<lambda>_. False),
     pc_checkout = (\<lambda>_ f. (True, f)), pc_err = [],
     pc_gitops = Some (\<lambda>p n. (\<lparr>pr_ok = True, pr_url = JStr ''u'', pr_branch = pp_branch p, pr_detail = [], pr_noop = False, pr_permanent = False\<rparr>, n + 1))\<rparr>"

lemma small_setup:
  "git_frame small_cfg" "outbox_readable small_cfg small_world"
  by (simp_all add: git_frame_def outbox_readable_def small_cfg_def small_world_def small_fs_def)

definition small_doc :: jobj where
  "small_doc = the (load_outbox small_cfg small_fs)"

lemma small_load: "load_outbox small_cfg (pw_fs small_world) = Some small_doc"
  by code_simp

lemma small_drain: "drain small_cfg 10 small_world =
    (Some [[(''file'', JStr ''a.py''), (''action'', JStr ''published''), (''pr_url'', JStr ''u'')]],
     snd (drain small_cfg 10 small_world))"
proof -
  have "fst (drain small_cfg 10 small_world) =
      Some [[(''file'', JStr ''a.py''), (''action'', JStr ''published''), (''pr_url'', JStr ''u'')]]"
    by code_simp
  then show ?thesis by (metis prod.collapse)
qed

subsection \<open>Properties\<close>

text \<open>C9: a drain of a readable outbox that answers neither loses nor adds an entry; an entry that is not
  pending keeps its status, and a pending one either stays so or ends as published, noop, refused, held,
  quarantined or lost.\<close>

theorem drain_loses_nothing:
  assumes "drain c limit w = (Some rs, w')" and "load_outbox c (pw_fs w) = Some d"
    and "git_frame c" and "outbox_readable c w"
  shows "\<exists>d'. load_outbox c (pw_fs w') = Some d' \<and> (\<forall>k. rel_option settles (estatus d k) (estatus d' k))"
  using drain_attempted [OF assms] by (auto simp: attempted_def)

theorem drain_loses_nothing_witness:
  "estatus small_doc ''a.py'' = Some (Some ''pending'') \<and>
   (\<exists>d'. load_outbox small_cfg (pw_fs (snd (drain small_cfg 10 small_world))) = Some d'
      \<and> (\<forall>k. rel_option settles (estatus small_doc k) (estatus d' k)))"
proof
  show "estatus small_doc ''a.py'' = Some (Some ''pending'')" by code_simp
  show "\<exists>d'. load_outbox small_cfg (pw_fs (snd (drain small_cfg 10 small_world))) = Some d'
      \<and> (\<forall>k. rel_option settles (estatus small_doc k) (estatus d' k))"
    by (rule drain_loses_nothing [OF small_drain small_load small_setup])
qed

text \<open>C20: the pull requests a drain opens are exactly those it adds to the day's count, and a drain that opens
  one leaves the count within the cap.\<close>

theorem drain_respects_cap:
  assumes "drain c limit w = (Some rs, w')" and "load_outbox c (pw_fs w) = Some d"
    and "git_frame c" and "outbox_readable c w" and "spent_today c d = Some n"
  shows "\<exists>d'. load_outbox c (pw_fs w') = Some d' \<and> spent_today c d' = Some (n + int (opened rs))
    \<and> (opened rs > 0 \<longrightarrow> n + int (opened rs) \<le> pc_cap c)"
  using drain_attempted [OF assms(1-4)] assms(5) by (auto simp: attempted_def)

theorem drain_respects_cap_witness:
  "\<exists>d'. load_outbox small_cfg (pw_fs (snd (drain small_cfg 10 small_world))) = Some d' \<and> spent_today small_cfg d' = Some 1"
proof -
  have "spent_today small_cfg small_doc = Some 0" by code_simp
  from drain_respects_cap [OF small_drain small_load small_setup this] show ?thesis
    by (auto simp: opened_def is_opened_def dhas_def jget_def)
qed

text \<open>C1: what an attempt hands to git is the plan of the one pending entry it was asked for, with the file's
  own text, after the four refusal rules let it pass, with the latch on and the day's cap not reached.\<close>

theorem only_gated_builds_reach_git:
  assumes "pw_git (snd (attempt c rel w)) \<noteq> pw_git w"
  shows "\<exists>f d e rel' e0 content publish. take_lock c (pw_fs w) = Some f \<and> load_outbox c f = Some d
    \<and> entry_of d rel = Some e \<and> is_pending e \<and> dget e ''file'' = Some (JStr rel') \<and> count_attempt c e = Some e0
    \<and> gated c f d rel' content e0 \<and> pc_gitops c = Some publish
    \<and> pw_git (snd (attempt c rel w)) = snd (publish (entry_plan rel' content e0) (pw_git w))"
proof -
  from attempt_git [OF assms] obtain f d e rel' e0 r e1 d1 w1 where a: "take_lock c (pw_fs w) = Some f"
    "load_outbox c f = Some d" "entry_of d rel = Some e" "is_pending e" "dget e ''file'' = Some (JStr rel')"
    "count_attempt c e = Some e0" "attempt_entry c rel' e0 d (w\<lparr>pw_fs := f\<rparr>) = Some (r, e1, d1, w1)"
    "pw_git w1 = pw_git (snd (attempt c rel w))" by blast
  then have "pw_git w1 \<noteq> pw_git (w\<lparr>pw_fs := f\<rparr>)" using assms by simp
  from attempt_entry_git [OF a(7) this] a show ?thesis by auto
qed

theorem only_gated_builds_reach_git_witness:
  "\<exists>f d e rel' e0 content. take_lock small_cfg small_fs = Some f \<and> load_outbox small_cfg f = Some d
    \<and> entry_of d ''a.py'' = Some e \<and> is_pending e \<and> dget e ''file'' = Some (JStr rel') \<and> count_attempt small_cfg e = Some e0
    \<and> gated small_cfg f d rel' content e0"
proof -
  have "pw_git (snd (attempt small_cfg ''a.py'' small_world)) \<noteq> pw_git small_world" by code_simp
  from only_gated_builds_reach_git [OF this] show ?thesis by (auto simp: small_world_def)
qed


text \<open>C15: over the real clone, a drain that answers has pushed one branch for every pull request it reports as
  opened and none for anything else it reports, but that the transient failure at which it stopped, if it did, may
  have pushed its branch.\<close>

theorem drain_pushes_what_it_reports:
  assumes "drain c limit w = (Some rs, w')" and "pc_gitops c = Some (cli_publish gc)"
  shows "pushes (pw_git w) + opened rs \<le> pushes (pw_git w')
    \<and> pushes (pw_git w') \<le> pushes (pw_git w) + opened rs
        + (if rs \<noteq> [] \<and> jget (last rs) ''action'' = JStr ''transient'' then 1 else 0)"
  using cli.drain_reports [OF assms] unfolding reported_def .

text \<open>The outbox of before over a clone whose commands succeed, with something staged.\<close>

definition real_git :: "unit clicfg" where
  "real_git = \<lparr>gc_dir = ''/c'', gc_repo = ''r'', gc_remote = ''origin'', gc_author = ''a'', gc_email = ''e'', gc_retries = 4,
     gc_base = 30, gc_cap = 600, gc_random = (\<lambda>_. 1 / 2), gc_env = (\<lambda>_. None), gc_stamp = ''t'', gc_mtime = 5,
     gc_python = ''python'', gc_err = [],
     gc_run = (\<lambda>argv (f, u). (\<lparr>rc = (if ''--cached'' \<in> set argv then 1 else 0), sout = ''u'', serr = []\<rparr>, f, u))\<rparr>"

definition real_cfg :: "unit clone pubcfg" where
  "real_cfg = \<lparr>pc_home = path_of ''/h'', pc_outbox = path_of ''/o/outbox.json'', pc_quarantine = path_of ''/q'',
     pc_enabled = Some True, pc_env = (\<lambda>_. None), pc_cap = 3, pc_dup_days = 7, pc_now = ''n'', pc_today = ''d'',
     pc_isonow = ''i'', pc_mtime = 9, pc_iso = (\<lambda>_. None), pc_parse = (\<lambda>_. BadSyntax), pc_tracked = (\<lambda>_. False),
     pc_checkout = (\<lambda>_ f. (True, f)), pc_err = [], pc_gitops = Some (cli_publish real_git)\<rparr>"

definition real_world :: "unit clone pworld" where
  "real_world = \<lparr>pw_fs = small_fs, pw_git = \<lparr>cl_fs = small_clone, cl_repo = (), cl_log = [], cl_slept = [], cl_redirects = []\<rparr>\<rparr>"

theorem drain_pushes_what_it_reports_witness:
  "pushes (pw_git (snd (drain real_cfg 10 real_world))) = 1"
proof -
  have "fst (drain real_cfg 10 real_world) =
      Some [[(''file'', JStr ''a.py''), (''action'', JStr ''published''), (''pr_url'', JStr ''u'')]]" by code_simp
  then have d: "drain real_cfg 10 real_world =
     (Some [[(''file'', JStr ''a.py''), (''action'', JStr ''published''), (''pr_url'', JStr ''u'')]],
      snd (drain real_cfg 10 real_world))" by (metis prod.collapse)
  have g: "pc_gitops real_cfg = Some (cli_publish real_git)" by (simp add: real_cfg_def)
  have "pushes (pw_git real_world) = 0" by (simp add: real_world_def pushes_def)
  with drain_pushes_what_it_reports [OF d g] show ?thesis
    by (simp add: opened_def is_opened_def dhas_def jget_def)
qed

end
