(* ===== verification/Engine.thy ===== *)
theory Engine
  imports BuildCompletion PyRegex Policy
begin

text \<open>
  \<open>zo_sentinel/engine_build.py\<close>: one grounded completion writes the declared output, a local check
  reads it, and while the check fails and repairs remain the failure is sent back;
  \<open>tools/selftest_verdict.py\<close>: what the output of a self test proves. The model behind the shim is a
  function of the calls so far, so that the calls can be counted; compiling and running a file are
  arguments that may change the file system. Error texts and reasons that nobody reads are left out.
\<close>

subsection \<open>Lines and fences\<close>

text \<open>\<open>str.splitlines()\<close> on code points below 256: the flag says that a carriage return ended the line.\<close>

definition line_end :: "char \<Rightarrow> bool" where
  "line_end c = (let n = chr_code c in (10 \<le> n \<and> n \<le> 13) \<or> (28 \<le> n \<and> n \<le> 30) \<or> n = 133)"

fun lines_from :: "string \<Rightarrow> bool \<Rightarrow> string \<Rightarrow> string list" where
  "lines_from acc cr [] = (if acc = [] then [] else [rev acc])"
| "lines_from acc cr (c # s) =
     (if cr \<and> c = newline then lines_from acc False s
      else if line_end c then rev acc # lines_from [] (chr_code c = 13) s
      else lines_from (c # acc) False s)"

definition splitlines :: "string \<Rightarrow> string list" where
  "splitlines s = lines_from [] False s"

definition fence :: string where
  "fence = replicate 3 (CHR 0x60)"

definition FENCED :: re where
  "FENCED = rseqs [rlit fence, RStar (RChr (\<lambda>c. c \<noteq> newline)), RChr (\<lambda>c. c = newline),
     RGroup 1 (RLazyStar (RChr (\<lambda>_. True))), rlit fence]"

text \<open>The first fenced block, or the text without its fence lines.\<close>

definition strip_code_fences :: "string \<Rightarrow> string" where
  "strip_code_fences txt =
     (let s = strip txt in
      case re_search FENCED s of
        Some m \<Rightarrow> strip (case mgroup m 1 of None \<Rightarrow> [] | Some g \<Rightarrow> g)
      | None \<Rightarrow> strip (join_with [newline]
          (filter (\<lambda>ln. \<not> startswith (lstrip ln) fence) (splitlines s))))"

text \<open>\<open>p.suffix\<close>.\<close>

definition path_suffix :: "path \<Rightarrow> string" where
  "path_suffix p = drop (length (path_stem p)) (path_name p)"

subsection \<open>Verdicts on a self test\<close>

datatype st_verdict = VPass | VRed | VUnknown

definition FIRST_PARTY_ROOTS :: "string list" where
  "FIRST_PARTY_ROOTS = [''app'', ''services'', ''zo_sentinel'', ''tools'']"

definition quote_char :: "char \<Rightarrow> bool" where
  "quote_char c = (c = CHR 0x27 \<or> c = CHR 0x22)"

definition quoted_group :: "nat \<Rightarrow> re" where
  "quoted_group n = rseqs [RChr quote_char, RGroup n (rplus (RChr (\<lambda>c. \<not> quote_char c))), RChr quote_char]"

definition CANNOT_IMPORT_NAME :: re where
  "CANNOT_IMPORT_NAME = rseqs [rlit ''cannot import name '', quoted_group 1, rlit '' from '', quoted_group 2]"

definition NO_MODULE :: re where
  "NO_MODULE = RSeq (rlit ''No module named '') (quoted_group 1)"

definition RELATIVE_IMPORT :: string where
  "RELATIVE_IMPORT = ''attempted relative import with no known parent package''"

definition join_parts :: "path \<Rightarrow> string list \<Rightarrow> path" where
  "join_parts r ws = foldl (\<lambda>p w. path_join p (path_of w)) r ws"

definition with_py :: "path \<Rightarrow> string list \<Rightarrow> path" where
  "with_py r ws = join_parts r (butlast ws @ [last ws @ ''.py''])"

text \<open>Whether a dotted module exists on disk; \<open>None\<close> when the parent package is not there either.\<close>

definition module_exists :: "fs \<Rightarrow> path \<Rightarrow> string \<Rightarrow> bool option" where
  "module_exists f r dotted =
     (let ws = split_on (CHR ''.'') dotted in
      if \<not> is_dir f r then None
      else if is_file f (with_py r ws) \<or> is_file f (join_parts r (ws @ [''__init__.py''])) then Some True
      else if length ws > 1 \<and> (is_dir f (join_parts r (butlast ws)) \<or> is_file f (with_py r (butlast ws)))
        then Some False
      else None)"

definition classify_selftest :: "fs \<Rightarrow> path \<Rightarrow> int \<Rightarrow> string \<Rightarrow> string \<Rightarrow> st_verdict" where
  "classify_selftest f r rc combined out =
     (if rc = 0 \<and> substr_in ''PASS'' (if out \<noteq> [] then out else combined) then VPass
      else if re_found CANNOT_IMPORT_NAME combined then VRed
      else if substr_in RELATIVE_IMPORT combined then VRed
      else (case re_search NO_MODULE combined of
          Some m \<Rightarrow>
            (let missing = (case mgroup m 1 of None \<Rightarrow> [] | Some g \<Rightarrow> g);
                 base = hd (split_on (CHR ''.'') missing)
             in if CHR ''.'' \<in> set missing \<and> base \<in> set FIRST_PARTY_ROOTS
                then (if module_exists f r missing = Some False then VRed else VUnknown)
                else VUnknown)
        | None \<Rightarrow> VRed))"

definition blocks_completion :: "st_verdict \<Rightarrow> bool" where
  "blocks_completion v = (v = VRed)"

subsection \<open>The engine\<close>

datatype run_result = Ran int string string | RunTimedOut | RunRaised

text \<open>The calls made so far, latest first: the model asked and the prompt.\<close>

type_synonym calls = "(string \<times> string) list"

record ecfg =
  e_env :: environ
  e_toml :: "jobj option"
  e_home :: path
  e_repairs0 :: int
  e_timeout :: string
  e_oserror :: string
  e_now :: int
  e_tmp :: string
  e_chat :: "calls \<Rightarrow> string \<Rightarrow> string \<Rightarrow> string option"
  e_compile :: "path \<Rightarrow> fs \<Rightarrow> string option \<times> fs"
  e_run :: "path \<Rightarrow> fs \<Rightarrow> run_result \<times> fs"

definition off_values :: "string list" where
  "off_values = [[], ''0'', ''off'', ''false'']"

text \<open>The policy layer first; the inline reading only if that raises.\<close>

definition engine_enabled :: "environ \<Rightarrow> jobj option \<Rightarrow> path \<Rightarrow> fs \<Rightarrow> bool" where
  "engine_enabled env toml droot f =
     (case flag env toml (Some droot) f ''builder.engine_build'' of
        Some b \<Rightarrow> b
      | None \<Rightarrow>
        (if lower (strip (case env ''ZO_ENGINE_BUILD'' of None \<Rightarrow> [] | Some s \<Rightarrow> s)) \<notin> set off_values then True
         else let sf = path_child droot ''.engine_build_on'' in
           is_file f sf \<and> (case read_text f sf of None \<Rightarrow> False
             | Some t \<Rightarrow> lower (strip (content_text t)) \<notin> set off_values)))"

definition DEFAULT_RUNGS :: "string list" where
  "DEFAULT_RUNGS = [''zo-ladder-nvidia'', ''zo-ladder-high'']"

definition rungs :: "ecfg \<Rightarrow> fs \<Rightarrow> string list" where
  "rungs c f =
     (let raw0 = (case e_env c ''ZO_ENGINE_RUNGS'' of None \<Rightarrow> [] | Some s \<Rightarrow> s);
          raw = (if strip raw0 \<noteq> [] then raw0
            else (case pvalue (e_env c) (e_toml c) None f ''builder.engine_rungs'' of None \<Rightarrow> [] | Some v \<Rightarrow> py_str v));
          parts = filter (\<lambda>p. p \<noteq> []) (map strip (split_on (CHR '','') raw))
      in if strip raw \<noteq> [] \<and> parts \<noteq> [] then parts else DEFAULT_RUNGS)"

definition max_repairs :: "ecfg \<Rightarrow> fs \<Rightarrow> int" where
  "max_repairs c f =
     (case Option.bind (pvalue (e_env c) (e_toml c) None f ''builder.engine_max_repairs'') py_int of
        None \<Rightarrow> e_repairs0 c | Some n \<Rightarrow> n)"

definition rung_for_attempt :: "ecfg \<Rightarrow> fs \<Rightarrow> int \<Rightarrow> string" where
  "rung_for_attempt c f attempt = (let rs = rungs c f in rs ! min (nat attempt) (length rs - 1))"

text \<open>Writing through a temporary file in the same directory, which is removed when the move fails.\<close>

definition engine_write :: "ecfg \<Rightarrow> path \<Rightarrow> string \<Rightarrow> fs \<Rightarrow> bool \<times> fs" where
  "engine_write c p txt f =
     (let tmp = path_child (path_parent p) (e_tmp c @ ''.engine.tmp'') in
      case mkdirs (path_parent p) f of None \<Rightarrow> (False, f)
      | Some f1 \<Rightarrow>
        (case write_text (e_now c) tmp (Text txt) f1 of None \<Rightarrow> (False, f1)
         | Some f2 \<Rightarrow>
           (case fs_replace tmp p f2 of
              Some f3 \<Rightarrow> (True, f3)
            | None \<Rightarrow> (False, case unlink tmp f2 of None \<Rightarrow> f2 | Some f3 \<Rightarrow> f3))))"

definition env_gap :: "string \<Rightarrow> bool" where
  "env_gap combined = (substr_in ''ModuleNotFoundError'' combined \<or> substr_in ''ImportError'' combined)"

definition local_check :: "ecfg \<Rightarrow> path \<Rightarrow> fs \<Rightarrow> bool \<times> string \<times> fs" where
  "local_check c out f =
     (case read_text f out of
        None \<Rightarrow> (False, ''unreadable output: '' @ e_oserror c, f)
      | Some src \<Rightarrow>
        (if path_suffix out \<noteq> ''.py'' then (True, [], f)
         else (case e_compile c out f of
             (Some e, f1) \<Rightarrow> (False, ''py_compile failed: '' @ e, f1)
           | (None, f1) \<Rightarrow>
             (if \<not> substr_in ''__main__'' (content_text src) then (True, [], f1)
              else (case e_run c out f1 of
                  (RunTimedOut, f2) \<Rightarrow> (False, ''self-test timed out after '' @ e_timeout c @ ''s'', f2)
                | (RunRaised, f2) \<Rightarrow> (True, [], f2)
                | (Ran rc so se, f2) \<Rightarrow>
                  (let combined = so @ se in
                   if rc = 0 \<and> substr_in ''PASS'' combined then (True, [], f2)
                   else if env_gap combined then (True, [], f2)
                   else (False, ''self-test did not PASS (rc='' @ int_str rc @ ''): '' @ last_n 1200 combined, f2)))))))"

text \<open>One call of the shim: the directive's identity rides on the name of the model.\<close>

definition chat :: "ecfg \<Rightarrow> json \<Rightarrow> string \<Rightarrow> string \<Rightarrow> calls \<Rightarrow> string option \<times> calls" where
  "chat c did model prompt cs =
     (let wire = (if truthy did \<and> CHR ''#'' \<notin> set model then model @ ''#'' @ py_str did else model)
      in (e_chat c cs wire prompt, (wire, prompt) # cs))"

definition task_prompt :: "string \<Rightarrow> path option \<Rightarrow> string" where
  "task_prompt task out = ''Complete this task: '' @ task @
     (case out of None \<Rightarrow> [] | Some p \<Rightarrow> [newline, newline] @ ''Write the COMPLETE content of '' @
        [CHR 0x60] @ path_name p @ [CHR 0x60] @ ''. It must compile (py_compile) and its __main__ '' @
        ''self-test must print PASS, exactly as the directive'' @ [CHR 0x27] @ ''s ACCEPTANCE describes.'')"

definition fix_prompt :: "string \<Rightarrow> path \<Rightarrow> string \<Rightarrow> string" where
  "fix_prompt task p detail =
     ''The file '' @ [CHR 0x60] @ path_name p @ [CHR 0x60] @ '' you produced FAILED verification.'' @ [newline] @
     ''FAILURE:'' @ [newline] @ last_n 1500 detail @ [newline, newline] @
     ''Original task: '' @ take 4000 task @ [newline, newline] @
     ''Output the corrected COMPLETE file content -- the whole file, not a diff. It must compile and '' @
     ''its __main__ self-test must print PASS.''"

text \<open>
  The repair rounds: the outcome of the last check, its detail and the rounds used, nothing when a
  call or a write raised. The number is the rounds that remain.
\<close>

fun repair_loop :: "ecfg \<Rightarrow> path \<Rightarrow> json \<Rightarrow> string \<Rightarrow> string \<Rightarrow> nat \<Rightarrow> bool \<Rightarrow> string \<Rightarrow> nat \<Rightarrow> fs \<times> calls \<Rightarrow>
    (bool \<times> nat) option \<times> fs \<times> calls" where
  "repair_loop c out did model task 0 ok detail k w = (Some (ok, k), w)"
| "repair_loop c out did model task (Suc n) ok detail k w =
     (if ok then (Some (ok, k), w)
      else (case chat c did model (fix_prompt task out detail) (snd w) of
          (None, cs) \<Rightarrow> (None, fst w, cs)
        | (Some txt, cs) \<Rightarrow>
          (let code = strip_code_fences txt in
           if strip code = [] then (Some (False, Suc k), fst w, cs)
           else (case engine_write c out code (fst w) of
               (False, g) \<Rightarrow> (None, g, cs)
             | (True, g) \<Rightarrow>
               (case local_check c out g of
                  (ok2, detail2, g2) \<Rightarrow> repair_loop c out did model task n ok2 detail2 (Suc k) (g2, cs))))))"

record engine_result =
  er_success :: bool
  er_result :: string
  er_model :: string
  er_repairs :: nat

definition engine_failed :: "string \<Rightarrow> string \<Rightarrow> engine_result" where
  "engine_failed txt model = \<lparr>er_success = False, er_result = txt, er_model = model, er_repairs = 0\<rparr>"

definition build_with_engine :: "ecfg \<Rightarrow> jobj \<Rightarrow> string \<Rightarrow> int \<Rightarrow> fs \<times> calls \<Rightarrow> engine_result \<times> fs \<times> calls" where
  "build_with_engine c d task attempt w =
     (let model = rung_for_attempt c (fst w) attempt;
          did = py_or (jget d ''directive_id'') (jget d ''task'');
          out = declared_output d (e_home c)
      in case chat c did model (task_prompt task out) (snd w) of
           (None, cs) \<Rightarrow> (engine_failed [] model, fst w, cs)
         | (Some txt, cs) \<Rightarrow>
           (case out of
              None \<Rightarrow> (\<lparr>er_success = (txt \<noteq> []), er_result = txt, er_model = model, er_repairs = 0\<rparr>, fst w, cs)
            | Some p \<Rightarrow>
              (let code = strip_code_fences txt in
               if strip code = [] then (engine_failed txt model, fst w, cs)
               else (case engine_write c p code (fst w) of
                   (False, g) \<Rightarrow> (engine_failed txt model, g, cs)
                 | (True, g) \<Rightarrow>
                   (case local_check c p g of
                      (ok, detail, g2) \<Rightarrow>
                        (case repair_loop c p did model task (nat (max_repairs c g2)) ok detail 0 (g2, cs) of
                           (None, w3) \<Rightarrow> (engine_failed txt model, w3)
                         | (Some (ok3, k), w3) \<Rightarrow>
                           (\<lparr>er_success = ok3, er_result = txt, er_model = model, er_repairs = k\<rparr>, w3)))))))"

subsection \<open>The first fenced block\<close>

definition tick :: char where
  "tick = CHR 0x60"

lemma fence_tick: "fence = [tick, tick, tick]"
  by (simp add: fence_def tick_def numeral_3_eq_3)

lemma lazy_any_run:
  "lazy_run (rmatch (RChr (\<lambda>_. True))) n (caps, bef, s)
    = map (\<lambda>i. (caps, rev (take i s) @ bef, drop i s)) [0..<Suc (min n (length s))]"
proof (induction n arbitrary: bef s)
  case (Suc n)
  show ?case
  proof (cases s)
    case Nil
    then show ?thesis by (simp add: m_rest_def)
  next
    case (Cons c t)
    have step: "rmatch (RChr (\<lambda>_. True)) (caps, bef, c # t) = [(caps, c # bef, t)]"
      by (simp add: m_rest_def m_caps_def m_before_def)
    have "lazy_run (rmatch (RChr (\<lambda>_. True))) (Suc n) (caps, bef, s)
        = (caps, bef, s) # lazy_run (rmatch (RChr (\<lambda>_. True))) n (caps, c # bef, t)"
      unfolding Cons lazy_run.simps step by (simp add: m_rest_def)
    also have "\<dots> = (caps, bef, s) # map (\<lambda>i. (caps, rev (take i t) @ c # bef, drop i t)) [0..<Suc (min n (length t))]"
      by (simp only: Suc)
    also have "\<dots> = map (\<lambda>i. (caps, rev (take i s) @ bef, drop i s)) (0 # map Suc [0..<Suc (min n (length t))])"
      by (simp add: Cons del: upt_Suc)
    also have "0 # map Suc [0..<Suc (min n (length t))] = [0..<Suc (min (Suc n) (length s))]"
      unfolding map_Suc_upt Cons length_Cons min_Suc_Suc by (rule upt_conv_Cons [symmetric]) simp
    finally show ?thesis .
  qed
qed simp

text \<open>The lazy group stops at the first fence.\<close>

lemma lazy_until_fence:
  assumes "tick \<notin> set w"
  shows "\<exists>ts. rmatch (RSeq (RGroup 1 (RLazyStar (RChr (\<lambda>_. True)))) (rlit fence)) (caps, bef, w @ fence @ u)
    = ((1, w) # caps, rev fence @ rev w @ bef, u) # ts"
proof -
  define s where "s = w @ fence @ u"
  define st where "st i = ((1 :: nat, take i s) # caps, rev (take i s) @ bef, drop i s)" for i
  have g: "rmatch (RGroup 1 (RLazyStar (RChr (\<lambda>_. True)))) (caps, bef, s) = map st [0..<Suc (length s)]"
    using lazy_any_run [of "length s" caps bef s]
    by (simp add: st_def [abs_def] m_rest_def m_before_def m_caps_def del: upt_Suc)
  have no: "rmatch (rlit fence) (st i) = []" if "i < length w" for i
  proof -
    have "drop i s = (w ! i) # drop (Suc i) w @ fence @ u"
      using that by (simp add: s_def Cons_nth_drop_Suc [symmetric])
    moreover have "w ! i \<noteq> tick" using assms that nth_mem by metis
    ultimately show ?thesis by (simp add: st_def rlit_match startswith_def fence_tick)
  qed
  have yes: "rmatch (rlit fence) (st (length w)) = [((1, w) # caps, rev fence @ rev w @ bef, u)]"
    by (simp add: st_def s_def rlit_match)
  have "length w \<le> length s" by (simp add: s_def)
  then have split: "[0..<Suc (length s)] = [0..<length w] @ length w # [Suc (length w)..<Suc (length s)]"
    using upt_add_eq_append [of 0 "length w" "Suc (length s) - length w"] upt_conv_Cons [of "length w" "Suc (length s)"]
    by (simp del: upt_Suc)
  have "rmatch (RSeq (RGroup 1 (RLazyStar (RChr (\<lambda>_. True)))) (rlit fence)) (caps, bef, s)
      = concat (map (\<lambda>i. rmatch (rlit fence) (st i)) [0..<length w]) @ rmatch (rlit fence) (st (length w))
        @ concat (map (\<lambda>i. rmatch (rlit fence) (st i)) [Suc (length w)..<Suc (length s)])"
    unfolding rmatch.simps(3) g split by (simp add: comp_def del: upt_Suc)
  moreover have "concat (map (\<lambda>i. rmatch (rlit fence) (st i)) [0..<length w]) = []" using no by simp
  ultimately show ?thesis by (simp only: yes s_def append.simps) blast
qed

lemma fenced_here:
  assumes "newline \<notin> set lang" and "tick \<notin> set w"
  shows "\<exists>m. match_at FENCED bef (fence @ lang @ newline # w @ fence @ u) = Some m \<and> mgroup m 1 = Some w"
proof -
  let ?q2 = "RSeq (RGroup 1 (RLazyStar (RChr (\<lambda>_. True)))) (rlit fence)"
  let ?q = "RSeq (RChr (\<lambda>c. c = newline)) ?q2"
  have q0: "rmatch ?q (caps, b, x # v) = []" if "x \<noteq> newline" for caps b x v
    using that by (simp add: m_rest_def)
  have nl: "list_all (\<lambda>c. c \<noteq> newline) lang" using assms(1) by (auto simp: list_all_iff)
  have "rmatch FENCED ([], bef, fence @ lang @ newline # w @ fence @ u)
      = concat (map (rmatch ?q) (rmatch (RStar (RChr (\<lambda>c. c \<noteq> newline))) ([], rev fence @ bef, lang @ newline # w @ fence @ u)))"
    by (simp add: FENCED_def rmatch_rlit del: rmatch.simps add: rmatch.simps(3))
  also have "\<dots> = rmatch ?q ([], rev lang @ rev fence @ bef, newline # w @ fence @ u)"
    by (rule star_then [OF nl _ q0]) simp_all
  also have "\<dots> = rmatch ?q2 ([], newline # rev lang @ rev fence @ bef, w @ fence @ u)"
    by (simp add: m_rest_def m_caps_def m_before_def del: rmatch.simps add: rmatch.simps(2,3))
  finally have eq: "rmatch FENCED ([], bef, fence @ lang @ newline # w @ fence @ u)
      = rmatch ?q2 ([], newline # rev lang @ rev fence @ bef, w @ fence @ u)" .
  obtain ts where "rmatch ?q2 ([], newline # rev lang @ rev fence @ bef, w @ fence @ u)
      = ((1, w) # [], rev fence @ rev w @ newline # rev lang @ rev fence @ bef, u) # ts"
    using lazy_until_fence [OF assms(2)] by blast
  with eq show ?thesis
    by (simp add: match_at_def mk_match_def mgroup_def m_caps_def)
qed

lemma fenced_not_before: "x \<noteq> tick \<Longrightarrow> match_at FENCED bef (x # s) = None"
  by (simp add: match_at_def FENCED_def rlit_match startswith_def fence_tick)

lemma fenced_search:
  assumes "tick \<notin> set pre" and "newline \<notin> set lang" and "tick \<notin> set w"
  shows "\<exists>m. search_from FENCED bef (pre @ fence @ lang @ newline # w @ fence @ u) = Some m \<and> mgroup m 1 = Some w"
  using assms(1)
proof (induction pre arbitrary: bef)
  case Nil
  obtain m where m: "match_at FENCED bef (fence @ lang @ newline # w @ fence @ u) = Some m" "mgroup m 1 = Some w"
    using fenced_here [OF assms(2,3)] by blast
  obtain c v where "fence @ lang @ newline # w @ fence @ u = c # v" by (simp add: fence_tick)
  with m show ?case by simp
next
  case (Cons x pre)
  then show ?case using fenced_not_before [of x] by auto
qed

lemma dropWhile_stop: "\<not> P y \<Longrightarrow> dropWhile P (xs @ y # ys) = dropWhile P xs @ y # ys"
  by (induction xs) auto

lemma strip_around:
  assumes "\<not> is_space a" and "\<not> is_space b"
  shows "strip (pre @ a # mid @ b # post) = dropWhile is_space pre @ a # mid @ b # rev (dropWhile is_space (rev post))"
  using assms by (simp add: strip_def dropWhile_stop)

subsection \<open>What the engine touches\<close>

text \<open>Compiling and running leave the files alone (the byte code cache apart, which nobody reads).\<close>

definition quiet_checks :: "ecfg \<Rightarrow> bool" where
  "quiet_checks c \<longleftrightarrow> (\<forall>p f. snd (e_compile c p f) = f \<and> snd (e_run c p f) = f)"

lemma local_check_quiet: "quiet_checks c \<Longrightarrow> snd (snd (local_check c p f)) = f"
  by (auto simp: local_check_def quiet_checks_def Let_def split: option.splits prod.splits run_result.splits)
    (metis snd_conv)+

definition temp_of :: "ecfg \<Rightarrow> path \<Rightarrow> path" where
  "temp_of c p = path_child (path_parent p) (e_tmp c @ ''.engine.tmp'')"

lemma engine_write_frame:
  assumes "engine_write c p txt f = (b, g)"
  shows "q \<noteq> p \<Longrightarrow> q \<noteq> temp_of c p \<Longrightarrow> fs_get g q = fs_get f q"
  using assms
  by (auto simp: engine_write_def temp_of_def Let_def write_text_get fs_replace_get unlink_get split: option.splits)

text \<open>The rounds: one call each, only the output and its temporary file touched, the last check true.\<close>

lemma repair_loop_spec:
  assumes "quiet_checks c" and "repair_loop c p did model task n ok detail k (f, cs) = (r, g, cs2)"
    and "ok = fst (local_check c p f)"
  shows "length cs2 \<le> length cs + n
    \<and> (\<forall>q. q \<noteq> p \<longrightarrow> q \<noteq> temp_of c p \<longrightarrow> fs_get g q = fs_get f q)
    \<and> (case r of None \<Rightarrow> True | Some (ok2, k2) \<Rightarrow> k2 \<le> k + n \<and> (ok2 \<longrightarrow> fst (local_check c p g)))"
  using assms(2,3)
proof (induction n arbitrary: ok detail k f cs)
  case (Suc n)
  show ?case
  proof (cases ok)
    case True
    with Suc.prems show ?thesis by auto
  next
    case False
    obtain a cs1 where ch: "chat c did model (fix_prompt task p detail) cs = (a, cs1)" by fastforce
    then have len: "length cs1 = length cs + 1" by (auto simp: chat_def Let_def)
    show ?thesis
    proof (cases a)
      case None
      with Suc.prems False ch len show ?thesis by auto
    next
      case (Some ans)
      show ?thesis
      proof (cases "strip (strip_code_fences ans) = []")
        case True
        with Suc.prems(1) False ch len Some show ?thesis by auto
      next
        case blank: False
        obtain b h where wr: "engine_write c p (strip_code_fences ans) f = (b, h)" by fastforce
        note fr = engine_write_frame [OF wr]
        show ?thesis
        proof (cases b)
          case False
          with Suc.prems(1) \<open>\<not> ok\<close> ch len Some blank wr fr show ?thesis by auto
        next
          case True
          obtain ok2 detail2 where lc: "local_check c p h = (ok2, detail2, h)"
            using local_check_quiet [OF assms(1), of p h] by (cases "local_check c p h") auto
          have "repair_loop c p did model task n ok2 detail2 (Suc k) (h, cs1) = (r, g, cs2)"
            using Suc.prems(1) \<open>\<not> ok\<close> ch Some blank wr True lc by simp
          from Suc.IH [OF this] lc len fr show ?thesis by (auto split: option.splits)
        qed
      qed
    qed
  qed
qed auto

subsection \<open>Properties\<close>

text \<open>C34: the engine is bounded and keeps to its file. With checks that leave the files alone, a build of a
  directive that declares an output makes at most one call and one more per allowed repair, changes no
  other file than the declared output and its temporary neighbour, and reports a success only when the
  file it leaves passes the local check.\<close>

theorem engine_is_bounded:
  assumes "quiet_checks c" and "declared_output d (e_home c) = Some p" and "\<forall>g. max_repairs c g \<le> int n"
    and "build_with_engine c d task attempt (f, cs) = (r, g, cs2)"
  shows "length cs2 \<le> length cs + 1 + n \<and> er_repairs r \<le> n
    \<and> (\<forall>q. q \<noteq> p \<longrightarrow> q \<noteq> temp_of c p \<longrightarrow> fs_get g q = fs_get f q)
    \<and> (er_success r \<longrightarrow> fst (local_check c p g))"
proof -
  let ?m = "rung_for_attempt c f attempt" and ?did = "py_or (jget d ''directive_id'') (jget d ''task'')"
  obtain a cs1 where ch: "chat c ?did ?m (task_prompt task (Some p)) cs = (a, cs1)" by fastforce
  then have len: "length cs1 = length cs + 1" by (auto simp: chat_def Let_def)
  show ?thesis
  proof (cases a)
    case None
    with assms(2,4) ch len show ?thesis by (auto simp: build_with_engine_def engine_failed_def)
  next
    case (Some ans)
    show ?thesis
    proof (cases "strip (strip_code_fences ans) = []")
      case True
      with Some assms(2,4) ch len show ?thesis by (auto simp: build_with_engine_def engine_failed_def)
    next
      case blank: False
      obtain b h where wr: "engine_write c p (strip_code_fences ans) f = (b, h)" by fastforce
      note fr = engine_write_frame [OF wr]
      show ?thesis
      proof (cases b)
        case False
        with Some blank wr assms(2,4) ch len fr show ?thesis
          by (auto simp: build_with_engine_def engine_failed_def)
      next
        case True
        obtain ok detail where lc: "local_check c p h = (ok, detail, h)"
          using local_check_quiet [OF assms(1), of p h] by (cases "local_check c p h") auto
        obtain r3 g3 cs3 where rl: "repair_loop c p ?did ?m task (nat (max_repairs c h)) ok detail 0 (h, cs1) = (r3, g3, cs3)"
          by (metis prod_cases3)
        have "nat (max_repairs c h) \<le> n" using assms(3) by (simp add: nat_le_iff)
        with repair_loop_spec [OF assms(1) rl] lc
        have sp: "length cs3 \<le> length cs1 + n" "\<forall>q. q \<noteq> p \<longrightarrow> q \<noteq> temp_of c p \<longrightarrow> fs_get g3 q = fs_get h q"
            "case r3 of None \<Rightarrow> True | Some (ok2, k2) \<Rightarrow> k2 \<le> n \<and> (ok2 \<longrightarrow> fst (local_check c p g3))"
          by (auto split: option.splits)
        have "build_with_engine c d task attempt (f, cs) = (case r3 of None \<Rightarrow> (engine_failed ans ?m, g3, cs3)
            | Some (ok3, k) \<Rightarrow> (\<lparr>er_success = ok3, er_result = ans, er_model = ?m, er_repairs = k\<rparr>, g3, cs3))"
          using Some blank wr True lc rl ch assms(2)
          by (simp add: build_with_engine_def Let_def split: option.splits prod.splits)
        with sp fr len assms(4) show ?thesis
          by (auto simp: engine_failed_def split: option.splits prod.splits)
      qed
    qed
  qed
qed

text \<open>An engine whose model answers first with a file that does not compile, then with one that does.\<close>

definition test_engine :: ecfg where
  "test_engine = \<lparr>e_env = (\<lambda>n. if n = ''ZO_ENGINE_MAX_REPAIRS'' then Some ''2'' else None), e_toml = None,
     e_home = path_of ''/h'', e_repairs0 = 1, e_timeout = ''90'', e_oserror = ''io'', e_now = 5, e_tmp = ''t1'',
     e_chat = (\<lambda>cs m p. Some (if cs = [] then ''bad'' else ''good = 1'')),
     e_compile = (\<lambda>p f. (if read_text f p = Some (Text ''bad'') then Some ''name'' else None, f)),
     e_run = (\<lambda>p f. (RunRaised, f))\<rparr>"

definition engine_fs :: fs where
  "engine_fs = \<lparr>files = [(path_of ''/h/b.py'', \<lparr>body = Text ''x'', mtime = 1\<rparr>)],
     dirs = [path_of ''/'', path_of ''/h''], noread = [], nowrite = []\<rparr>"

lemma test_max_repairs: "max_repairs test_engine g = 2"
proof -
  have "dget KEYS ''builder.engine_max_repairs''
      = Some (key_spec TInt (JInt 1) ''ZO_ENGINE_MAX_REPAIRS'' None ''bounded repair rounds per engine build'')"
    "int_of_str ''2'' = Some 2"
    by code_simp+
  then show ?thesis
    by (simp add: max_repairs_def pvalue_def resolve_def key_spec_def test_engine_def overlay_def coerce_def Let_def)
qed

theorem engine_is_bounded_witness:
  "length (snd (snd (build_with_engine test_engine [(''directive_id'', JStr ''d1''), (''output_file'', JStr ''a.py'')] ''do'' 0 (engine_fs, []))))
      \<le> length ([] :: calls) + 1 + 2
   \<and> fst (local_check test_engine (path_of ''/h/a.py'')
       (fst (snd (build_with_engine test_engine [(''directive_id'', JStr ''d1''), (''output_file'', JStr ''a.py'')] ''do'' 0 (engine_fs, [])))))"
proof -
  let ?b = "build_with_engine test_engine [(''directive_id'', JStr ''d1''), (''output_file'', JStr ''a.py'')] ''do'' 0 (engine_fs, [])"
  obtain r g cs where b: "?b = (r, g, cs)" by (metis prod_cases3)
  have q: "quiet_checks test_engine" by (simp add: quiet_checks_def test_engine_def)
  have o: "declared_output [(''directive_id'', JStr ''d1''), (''output_file'', JStr ''a.py'')] (e_home test_engine)
      = Some (path_of ''/h/a.py'')" by code_simp
  have "er_success (fst ?b)" by code_simp
  then have "er_success r" by (simp add: b)
  with engine_is_bounded [OF q o _ b, of 2] test_max_repairs b show ?thesis by simp
qed

text \<open>The first fenced block of an answer is what is written: whatever surrounds it, when no backtick
  stands before it or inside it, the stripped code is extracted and nothing of the fences is left.\<close>

theorem fenced_code_is_extracted:
  assumes "tick \<notin> set pre" and "newline \<notin> set lang" and "tick \<notin> set code"
  shows "strip_code_fences (pre @ fence @ lang @ newline # code @ fence @ post) = strip code"
proof -
  have t: "\<not> is_space tick" by code_simp
  let ?post = "rev (dropWhile is_space (rev post))"
  have "pre @ fence @ lang @ newline # code @ fence @ post
      = pre @ tick # ([tick, tick] @ lang @ newline # code @ [tick, tick]) @ tick # post"
    by (simp add: fence_tick)
  then have "strip (pre @ fence @ lang @ newline # code @ fence @ post)
      = dropWhile is_space pre @ fence @ lang @ newline # code @ fence @ ?post"
    by (simp only: strip_around [OF t t]) (simp add: fence_tick)
  moreover have "tick \<notin> set (dropWhile is_space pre)" using assms(1) set_dropWhileD by metis
  then obtain m where "re_search FENCED (dropWhile is_space pre @ fence @ lang @ newline # code @ fence @ ?post) = Some m"
      "mgroup m 1 = Some code"
    using fenced_search [OF _ assms(2,3)] unfolding re_search_def by blast
  ultimately show ?thesis by (simp add: strip_code_fences_def Let_def)
qed

theorem fenced_code_is_extracted_witness:
  "strip_code_fences (''Here it is: '' @ fence @ ''python'' @ newline # '' x = 1 '' @ fence @ '' Done.'') = strip '' x = 1 ''"
  by (rule fenced_code_is_extracted) code_simp+

text \<open>
  The local check does not mirror the gate: a module that asks for a name that does not exist passes the
  check as a gap of the environment, so that no repair is tried, and is red at the gate.
\<close>

lemma local_check_laxer_than_gate:
  assumes "e_compile c p f = (None, f1)" and "read_text f p = Some src" and "path_suffix p = ''.py''"
    and "substr_in ''__main__'' (content_text src)"
    and "e_run c p f1 = (Ran 1 [] ''ImportError: cannot import name \"Orgs\" from \"app.models\"'', f2)"
  shows "fst (local_check c p f) \<and> classify_selftest f2 r 1 ''ImportError: cannot import name \"Orgs\" from \"app.models\"'' [] = VRed"
proof -
  let ?m = "''ImportError: cannot import name \"Orgs\" from \"app.models\"''"
  have "env_gap ?m" and "re_found CANNOT_IMPORT_NAME ?m" by code_simp+
  with assms show ?thesis by (simp add: local_check_def classify_selftest_def Let_def)
qed

end
