(* ===== verification/WriteGuard.thy ===== *)
theory WriteGuard
  imports Engine
begin

text \<open>
  \<open>zo_sentinel/undeclared_write_guard.py\<close>: after a run of the building agent, the tracked files that
  became dirty during the run and that the directive did not declare are copied aside and restored
  from the last commit. Git is an argument: a command changes the files and answers with its exit
  code and its output, or not at all.
\<close>

type_synonym git_cmd = "string list \<Rightarrow> fs \<Rightarrow> (int \<times> string) option \<times> fs"

definition LOAD_BEARING_MARKERS :: "string list" where
  "LOAD_BEARING_MARKERS = [''zo_sentinel/__init__.py'', ''app/__init__.py'']"

text \<open>The dirty tracked files; \<open>None\<close> when git cannot say.\<close>

definition tracked_dirty :: "git_cmd \<Rightarrow> fs \<Rightarrow> string list option \<times> fs" where
  "tracked_dirty git f =
     (case git [''diff'', ''--name-only'', ''HEAD''] f of
        (Some (rc, out), g) \<Rightarrow>
          (if rc = 0 then Some (filter (\<lambda>w. w \<noteq> []) (map strip (splitlines out))) else None, g)
      | (None, g) \<Rightarrow> (None, g))"

record revert_action =
  ra_file :: string
  ra_forensics :: "path option"
  ra_restored :: bool

record guard_cfg =
  wg_git :: git_cmd
  wg_repo :: path
  wg_day :: string
  wg_stamp :: string

text \<open>The copy kept for inspection; the flag is false when making it raises.\<close>

definition forensic_path :: "guard_cfg \<Rightarrow> string \<Rightarrow> string \<Rightarrow> path" where
  "forensic_path c did rel =
     path_join (path_child (path_child (wg_repo c) ''_ghost_writes'') (wg_day c))
       (path_of (replace_char (CHR ''/'') ''__'' rel @ ''.'' @ did @ ''.'' @ wg_stamp c))"

definition keep_copy :: "guard_cfg \<Rightarrow> string \<Rightarrow> string \<Rightarrow> fs \<Rightarrow> bool \<times> path option \<times> fs" where
  "keep_copy c did rel f =
     (let src = path_join (wg_repo c) (path_of rel); dst = forensic_path c did rel in
      case fs_get f src of
        None \<Rightarrow> (True, None, f)
      | Some x \<Rightarrow>
        (case mkdirs (path_child (path_child (wg_repo c) ''_ghost_writes'') (wg_day c)) f of
           None \<Rightarrow> (False, None, f)
         | Some f1 \<Rightarrow>
           (if src \<in> set (noread f1) then (False, None, f1)
            else (case fs_put dst x f1 of None \<Rightarrow> (False, None, f1) | Some f2 \<Rightarrow> (True, Some dst, f2)))))"

text \<open>One offending file: a failed copy leaves it as it is, the verification reads git again.\<close>

definition revert_one :: "guard_cfg \<Rightarrow> string \<Rightarrow> string \<Rightarrow> fs \<Rightarrow> revert_action option \<times> fs" where
  "revert_one c did rel f =
     (case keep_copy c did rel f of
        (False, _, f1) \<Rightarrow> (None, f1)
      | (True, kept, f1) \<Rightarrow>
        (case wg_git c [''checkout'', ''HEAD'', ''--'', rel] f1 of
           (r, f2) \<Rightarrow>
             (case tracked_dirty (wg_git c) f2 of
                (still, f3) \<Rightarrow>
                  (Some \<lparr>ra_file = rel, ra_forensics = kept,
                     ra_restored = ((case r of None \<Rightarrow> False | Some (rc, out) \<Rightarrow> rc = 0)
                       \<and> (case still of None \<Rightarrow> False | Some ds \<Rightarrow> rel \<notin> set ds))\<rparr>, f3))))"

fun revert_all :: "guard_cfg \<Rightarrow> string \<Rightarrow> string list \<Rightarrow> fs \<Rightarrow> revert_action list \<times> fs" where
  "revert_all c did [] f = ([], f)"
| "revert_all c did (rel # rels) f =
     (let (a, f1) = revert_one c did rel f; (as, f2) = revert_all c did rels f1
      in ((case a of None \<Rightarrow> as | Some x \<Rightarrow> x # as), f2))"

definition offends :: "string option \<Rightarrow> string \<Rightarrow> bool" where
  "offends decl rel = (rel \<in> set LOAD_BEARING_MARKERS \<or> (decl \<noteq> None \<and> Some rel \<noteq> decl))"

definition offending :: "string list \<Rightarrow> string option \<Rightarrow> string list \<Rightarrow> string list" where
  "offending before decl after =
     sort (remdups (filter (\<lambda>r. r \<notin> set before \<and> offends decl r) after))"

text \<open>No snapshot from before the run is no reason to act.\<close>

definition sweep :: "guard_cfg \<Rightarrow> string \<Rightarrow> string list option \<Rightarrow> string option \<Rightarrow> fs \<Rightarrow> revert_action list \<times> fs" where
  "sweep c did before decl f =
     (case before of None \<Rightarrow> ([], f)
      | Some ds \<Rightarrow>
        (case tracked_dirty (wg_git c) f of
           (None, f1) \<Rightarrow> ([], f1)
         | (Some after, f1) \<Rightarrow> revert_all c did (offending ds decl after) f1))"

subsection \<open>The contract of a work tree\<close>

text \<open>
  What the guard relies on: asking for the dirty files changes nothing; checking out a file makes it
  clean, touches no other file and makes none dirty; a file of the forensics directory is not tracked.
  \<open>dirty\<close> is the set that git would report.
\<close>

definition checkout_ok :: "guard_cfg \<Rightarrow> (fs \<Rightarrow> string set) \<Rightarrow> string \<Rightarrow> fs \<Rightarrow> (int \<times> string) option \<Rightarrow> fs \<Rightarrow> bool" where
  "checkout_ok c dirty rel f r g \<longleftrightarrow> dirty g \<subseteq> dirty f \<and> dirty f - {rel} \<subseteq> dirty g
     \<and> ((\<exists>out. r = Some (0, out)) \<longrightarrow> rel \<notin> dirty g)
     \<and> (\<forall>p. p \<noteq> path_join (wg_repo c) (path_of rel) \<longrightarrow> fs_get g p = fs_get f p)"

definition is_work_tree :: "guard_cfg \<Rightarrow> (fs \<Rightarrow> string set) \<Rightarrow> bool" where
  "is_work_tree c dirty \<longleftrightarrow>
     (\<forall>f. snd (tracked_dirty (wg_git c) f) = f
        \<and> (\<forall>ds. fst (tracked_dirty (wg_git c) f) = Some ds \<longrightarrow> set ds = dirty f))
   \<and> (\<forall>f rel. checkout_ok c dirty rel f (fst (wg_git c [''checkout'', ''HEAD'', ''--'', rel] f))
        (snd (wg_git c [''checkout'', ''HEAD'', ''--'', rel] f)))
   \<and> (\<forall>f did rel. dirty (snd (snd (keep_copy c did rel f))) = dirty f)"

lemma work_tree_ask:
  assumes "is_work_tree c dirty" and "tracked_dirty (wg_git c) f = (r, g)"
  shows "g = f \<and> (\<forall>ds. r = Some ds \<longrightarrow> set ds = dirty f)"
proof -
  have "snd (tracked_dirty (wg_git c) f) = f
      \<and> (\<forall>ds. fst (tracked_dirty (wg_git c) f) = Some ds \<longrightarrow> set ds = dirty f)"
    using assms(1) unfolding is_work_tree_def by blast
  then show ?thesis by (simp add: assms(2))
qed

lemma work_tree_checkout:
  assumes "is_work_tree c dirty" and "wg_git c [''checkout'', ''HEAD'', ''--'', rel] f = (r, g)"
  shows "checkout_ok c dirty rel f r g"
proof -
  have "checkout_ok c dirty rel f (fst (wg_git c [''checkout'', ''HEAD'', ''--'', rel] f))
      (snd (wg_git c [''checkout'', ''HEAD'', ''--'', rel] f))"
    using assms(1) unfolding is_work_tree_def by blast
  then show ?thesis by (simp add: assms(2))
qed

lemma work_tree_copy: "is_work_tree c dirty \<Longrightarrow> keep_copy c did rel f = (b, k, g) \<Longrightarrow> dirty g = dirty f"
  unfolding is_work_tree_def by (metis snd_conv)

text \<open>The files a copy may create lie below the forensics directory of the day.\<close>

lemma keep_copy_get:
  "keep_copy c did rel f = (b, k, g) \<Longrightarrow> p \<noteq> forensic_path c did rel \<Longrightarrow> fs_get g p = fs_get f p"
  by (auto simp: keep_copy_def Let_def fs_put_get mkdirs_get split: option.splits if_splits)

lemma revert_one_spec:
  assumes "is_work_tree c dirty" and "revert_one c did rel f = (a, g)"
  shows "dirty g \<subseteq> dirty f" and "dirty f - {rel} \<subseteq> dirty g"
    and "a = Some x \<Longrightarrow> ra_file x = rel \<and> (ra_restored x \<longrightarrow> rel \<notin> dirty g)"
    and "p \<noteq> path_join (wg_repo c) (path_of rel) \<Longrightarrow> p \<noteq> forensic_path c did rel \<Longrightarrow> fs_get g p = fs_get f p"
proof -
  obtain b k f1 where kc: "keep_copy c did rel f = (b, k, f1)" by (metis prod_cases3)
  obtain r f2 where co: "wg_git c [''checkout'', ''HEAD'', ''--'', rel] f1 = (r, f2)" by fastforce
  obtain st f3 where td: "tracked_dirty (wg_git c) f2 = (st, f3)" by fastforce
  have eq: "b \<Longrightarrow> g = f2 \<and> a = Some \<lparr>ra_file = rel, ra_forensics = k,
      ra_restored = ((case r of None \<Rightarrow> False | Some (rc, out) \<Rightarrow> rc = 0)
        \<and> (case st of None \<Rightarrow> False | Some ds \<Rightarrow> rel \<notin> set ds))\<rparr>" "\<not> b \<Longrightarrow> g = f1 \<and> a = None"
    using assms(2) kc co td work_tree_ask [OF assms(1) td] by (auto simp: revert_one_def)
  have d: "dirty f1 = dirty f" by (rule work_tree_copy [OF assms(1) kc])
  note co2 = work_tree_checkout [OF assms(1) co, unfolded checkout_ok_def d]
  show "dirty g \<subseteq> dirty f" and "dirty f - {rel} \<subseteq> dirty g"
    using eq co2 d by (cases b; auto)+
  show "a = Some x \<Longrightarrow> ra_file x = rel \<and> (ra_restored x \<longrightarrow> rel \<notin> dirty g)"
    using eq co2 by (cases b) (auto split: option.splits)
  show "p \<noteq> path_join (wg_repo c) (path_of rel) \<Longrightarrow> p \<noteq> forensic_path c did rel \<Longrightarrow> fs_get g p = fs_get f p"
    using eq co2 keep_copy_get [OF kc] by (cases b) auto
qed

lemma revert_all_spec:
  assumes "is_work_tree c dirty" and "revert_all c did rels f = (as, g)"
  shows "dirty g \<subseteq> dirty f \<and> dirty f - set rels \<subseteq> dirty g
    \<and> (\<forall>x \<in> set as. ra_file x \<in> set rels \<and> (ra_restored x \<longrightarrow> ra_file x \<notin> dirty g))
    \<and> (\<forall>p. (\<forall>r \<in> set rels. p \<noteq> path_join (wg_repo c) (path_of r) \<and> p \<noteq> forensic_path c did r) \<longrightarrow>
          fs_get g p = fs_get f p)"
  using assms(2)
proof (induction rels arbitrary: f as g)
  case (Cons rel rels)
  obtain a f1 where r1: "revert_one c did rel f = (a, f1)" by fastforce
  obtain as1 f2 where r2: "revert_all c did rels f1 = (as1, f2)" by fastforce
  note s1 = revert_one_spec [OF assms(1) r1]
  note s2 = Cons.IH [OF r2]
  have eq: "as = (case a of None \<Rightarrow> as1 | Some x \<Rightarrow> x # as1)" "g = f2"
    using Cons.prems r1 r2 by simp_all
  have "\<forall>x \<in> set as. ra_file x \<in> set (rel # rels) \<and> (ra_restored x \<longrightarrow> ra_file x \<notin> dirty g)"
  proof (cases a)
    case None
    with s2 eq show ?thesis by auto
  next
    case (Some y)
    with s1(3) [OF Some] s2 eq show ?thesis by auto
  qed
  with s1(1,2,4) s2 eq show ?case by auto
qed auto

subsection \<open>Properties\<close>

text \<open>C26: the guard undoes only what the run did. In a work tree, a sweep after a run never touches a
  file that was dirty before the run, nor, for a directive that declares an output, that output,
  unless it is a load-bearing marker; it makes nothing dirty; what it reports as restored became dirty
  during the run, was not declared or is a marker, and is clean afterwards; and without a snapshot it
  does nothing.\<close>

theorem guard_reverts_only_the_run:
  assumes "is_work_tree c dirty" and "sweep c did before decl f = (as, g)"
  shows "dirty g \<subseteq> dirty f
    \<and> (before = None \<longrightarrow> as = [] \<and> g = f)
    \<and> (\<forall>ds r. before = Some ds \<longrightarrow> r \<in> dirty f \<longrightarrow> r \<in> set ds \<or> \<not> offends decl r \<longrightarrow> r \<in> dirty g)
    \<and> (\<forall>ds p. before = Some ds \<longrightarrow> fs_get g p \<noteq> fs_get f p \<longrightarrow>
         (\<exists>r. r \<in> dirty f \<and> r \<notin> set ds \<and> offends decl r
           \<and> (p = path_join (wg_repo c) (path_of r) \<or> p = forensic_path c did r)))
    \<and> (\<forall>x ds. before = Some ds \<longrightarrow> x \<in> set as \<longrightarrow> ra_file x \<in> dirty f - set ds \<and> offends decl (ra_file x)
         \<and> (ra_restored x \<longrightarrow> ra_file x \<notin> dirty g))"
proof (cases before)
  case None
  with assms(2) show ?thesis by (simp add: sweep_def)
next
  case (Some ds)
  obtain r f1 where td: "tracked_dirty (wg_git c) f = (r, f1)" by fastforce
  then have f1: "f1 = f" and set_r: "\<And>xs. r = Some xs \<Longrightarrow> set xs = dirty f"
    using work_tree_ask [OF assms(1)] by auto
  show ?thesis
  proof (cases r)
    case None
    with assms(2) td f1 \<open>before = Some ds\<close> show ?thesis by (simp add: sweep_def)
  next
    case (Some after)
    then have ra: "revert_all c did (offending ds decl after) f = (as, g)"
      using assms(2) td f1 \<open>before = Some ds\<close> by (simp add: sweep_def)
    have off: "set (offending ds decl after) = {r \<in> dirty f. r \<notin> set ds \<and> offends decl r}"
      using set_r [OF Some] by (auto simp: offending_def)
    have sp: "dirty g \<subseteq> dirty f" "dirty f - {r \<in> dirty f. r \<notin> set ds \<and> offends decl r} \<subseteq> dirty g"
      "\<forall>x \<in> set as. ra_file x \<in> dirty f \<and> ra_file x \<notin> set ds \<and> offends decl (ra_file x)
         \<and> (ra_restored x \<longrightarrow> ra_file x \<notin> dirty g)"
      "\<forall>p. (\<forall>r. r \<in> dirty f \<and> r \<notin> set ds \<and> offends decl r \<longrightarrow>
          p \<noteq> path_join (wg_repo c) (path_of r) \<and> p \<noteq> forensic_path c did r) \<longrightarrow> fs_get g p = fs_get f p"
      using revert_all_spec [OF assms(1) ra] unfolding off by auto
    have "\<forall>p. fs_get g p \<noteq> fs_get f p \<longrightarrow> (\<exists>r. r \<in> dirty f \<and> r \<notin> set ds \<and> offends decl r
           \<and> (p = path_join (wg_repo c) (path_of r) \<or> p = forensic_path c did r))"
      using sp(4) by blast
    with sp(1-3) \<open>before = Some ds\<close> show ?thesis by auto
  qed
qed

text \<open>A repository with one tracked file, a package marker that the run has overwritten.\<close>

definition marker :: path where
  "marker = path_of ''/h/app/__init__.py''"

definition marker_clean :: "fs \<Rightarrow> bool" where
  "marker_clean f = (case fs_get f marker of None \<Rightarrow> False | Some x \<Rightarrow> body x = Text ''m'')"

definition marker_git :: git_cmd where
  "marker_git argv f =
     (if argv = [''diff'', ''--name-only'', ''HEAD'']
      then (Some (0, if marker_clean f then [] else ''app/__init__.py'' @ [newline]), f)
      else if argv = [''checkout'', ''HEAD'', ''--'', ''app/__init__.py'']
      then (Some (0, []), f\<lparr>files := dput marker \<lparr>body = Text ''m'', mtime = 9\<rparr> (files f)\<rparr>)
      else (Some (1, []), f))"

definition marker_cfg :: guard_cfg where
  "marker_cfg = \<lparr>wg_git = marker_git, wg_repo = path_of ''/h'', wg_day = ''D'', wg_stamp = ''T''\<rparr>"

definition marker_dirty :: "fs \<Rightarrow> string set" where
  "marker_dirty f = (if marker_clean f then {} else {''app/__init__.py''})"

lemma forensics_elsewhere: "forensic_path marker_cfg did rel \<noteq> marker"
proof -
  have "\<not> startswith (replace_char (CHR ''/'') ''__'' rel @ x # ys) ''/''" if "x \<noteq> CHR ''/''" for x ys
    using that by (cases rel) (auto simp: replace_char_def startswith_def)
  then have "\<not> path_abs (path_of (replace_char (CHR ''/'') ''__'' rel @ ''.'' @ did @ ''.'' @ ''T''))"
    by (simp add: path_of_def)
  moreover have h: "path_of ''/h'' = Path True [''h'']" by code_simp
  have m: "marker = Path True [''h'', ''app'', ''__init__.py'']" by code_simp
  ultimately show ?thesis unfolding m by (simp add: forensic_path_def marker_cfg_def path_join_def path_child_def h)
qed

lemma marker_work_tree: "is_work_tree marker_cfg marker_dirty"
proof -
  have lines: "filter (\<lambda>w. w \<noteq> []) (map strip (splitlines (''app/__init__.py'' @ [newline]))) = [''app/__init__.py'']"
    "filter (\<lambda>w. w \<noteq> []) (map strip (splitlines [])) = []"
    by code_simp+
  have ask: "tracked_dirty marker_git f = (Some (if marker_clean f then [] else [''app/__init__.py'']), f)" for f
    using lines by (simp add: tracked_dirty_def marker_git_def)
  have co: "checkout_ok marker_cfg marker_dirty rel f (fst (marker_git [''checkout'', ''HEAD'', ''--'', rel] f))
      (snd (marker_git [''checkout'', ''HEAD'', ''--'', rel] f))" for rel f
  proof (cases "rel = ''app/__init__.py''")
    case True
    have "path_join (wg_repo marker_cfg) (path_of ''app/__init__.py'') = marker" by code_simp
    with True show ?thesis
      by (auto simp: checkout_ok_def marker_git_def marker_dirty_def marker_clean_def fs_get_def)
  next
    case False
    then show ?thesis by (simp add: checkout_ok_def marker_git_def)
  qed
  have cp: "marker_dirty (snd (snd (keep_copy marker_cfg did rel f))) = marker_dirty f" for did rel f
  proof -
    obtain b k g where g: "keep_copy marker_cfg did rel f = (b, k, g)" by (metis prod_cases3)
    have "fs_get g marker = fs_get f marker"
      using keep_copy_get [OF g] forensics_elsewhere [of did rel] by metis
    then show ?thesis by (simp add: g marker_dirty_def marker_clean_def)
  qed
  have "wg_git marker_cfg = marker_git" by (simp add: marker_cfg_def)
  with ask co cp show ?thesis by (simp add: is_work_tree_def marker_dirty_def)
qed

definition overwritten :: fs where
  "overwritten = \<lparr>files = [(marker, \<lparr>body = Text ''broken'', mtime = 5\<rparr>)],
     dirs = [path_of ''/'', path_of ''/h'', path_of ''/h/app''], noread = [], nowrite = []\<rparr>"

theorem guard_reverts_only_the_run_witness:
  "map (\<lambda>x. (ra_file x, ra_restored x)) (fst (sweep marker_cfg ''d1'' (Some []) None overwritten)) = [(''app/__init__.py'', True)]
   \<and> marker_dirty (snd (sweep marker_cfg ''d1'' (Some []) None overwritten)) \<subseteq> marker_dirty overwritten
   \<and> ''app/__init__.py'' \<notin> marker_dirty (snd (sweep marker_cfg ''d1'' (Some []) None overwritten))"
proof -
  obtain as g where sw: "sweep marker_cfg ''d1'' (Some []) None overwritten = (as, g)" by fastforce
  have "map (\<lambda>x. (ra_file x, ra_restored x)) (fst (sweep marker_cfg ''d1'' (Some []) None overwritten)) = [(''app/__init__.py'', True)]"
    by code_simp
  moreover then obtain x where x: "x \<in> set as" "ra_file x = ''app/__init__.py''" "ra_restored x"
    by (auto simp: sw)
  moreover have "marker_dirty g \<subseteq> marker_dirty overwritten" "ra_file x \<notin> marker_dirty g"
    using guard_reverts_only_the_run [OF marker_work_tree sw] x by blast+
  ultimately show ?thesis by (simp add: sw)
qed

end
