(* ===== verification/GooseTask.thy ===== *)
theory GooseTask
  imports WriteGuard BuildLessons BuildRouting MeshStore
begin

text \<open>
  \<open>goose_runner_lib/context.py\<close>: what the runner puts into a build task, the recipe it chooses, the
  daily budget of the service recipe and the run of the agent inside the guard. The agent is an
  argument that changes the files; so are the answer of the write service, the schema and the fixed
  texts of the prompts. Error texts are left out: the runner only logs them.
  A failure that the caller of a helper has to handle is \<open>None\<close> or the flag \<open>False\<close>.
\<close>

subsection \<open>Configuration\<close>

record col_meta =
  cm_pk :: bool
  cm_not_null :: bool
  cm_default :: bool

record kl_model =
  kl_name :: string
  kl_table :: string
  kl_cols :: "string list"
  kl_rels :: "string list"
  kl_meta :: "(string, col_meta) dict"
  kl_required :: "string list"

datatype goose_run = GRan int string | GNoResult

record gcfg =
  g_env :: environ
  g_home :: path
  g_task_file :: path
  g_lessons :: path
  g_state_file :: path
  g_now :: int
  g_ts :: string
  g_clock :: string
  g_day :: string
  g_bin :: string
  g_models :: "kl_model list option"
  g_schema_header :: string
  g_data_access :: string
  g_bus_tables :: string
  g_guard :: guard_cfg
  g_float :: "rat \<Rightarrow> json"
  g_exec :: "string list \<Rightarrow> (string, string) dict \<Rightarrow> fs \<Rightarrow> goose_run \<times> fs"

text \<open>\<open>directive.get("directive_id") or directive.get("id", default)\<close>, as a text.\<close>

definition did_or :: "string \<Rightarrow> jobj \<Rightarrow> json" where
  "did_or dflt d = py_or (jget d ''directive_id'') (jget_or d ''id'' (JStr dflt))"

subsection \<open>The task file\<close>

text \<open>\<open>content[:200]\<close>; other values than texts and lists cannot be sliced.\<close>

definition slice200 :: "json \<Rightarrow> json option" where
  "slice200 v = (case v of JStr s \<Rightarrow> Some (JStr (take 200 s)) | JList xs \<Rightarrow> Some (JList (take 200 xs)) | _ \<Rightarrow> None)"

text \<open>The default of \<open>get\<close> is evaluated even when the key is there.\<close>

definition write_task_spec :: "gcfg \<Rightarrow> jobj \<Rightarrow> fs \<Rightarrow> fs option" where
  "write_task_spec c d f =
     (let content = jget_or d ''content'' (jget_or d ''description'' (JStr [])) in
      case slice200 content of None \<Rightarrow> None
      | Some short \<Rightarrow>
        write_text (g_now c) (g_task_file c)
          (Doc (JObj [(''directive_id'', did_or (''unknown_'' @ g_clock c) d),
             (''description'', jget_or d ''description'' short),
             (''content'', content),
             (''complexity'', jget_or d ''complexity'' (JStr ''low'')),
             (''source'', JStr ''goose_tier1''),
             (''created_at'', JStr (g_ts c))])) f)"

subsection \<open>Context\<close>

definition graph_sql :: "string \<Rightarrow> string" where
  "graph_sql fname = ''SELECT DISTINCT e.relation AS rel, n1.label AS who, n1.source_file AS file '' @
     ''FROM code_edges e JOIN code_nodes n1 ON e.src=n1.id JOIN code_nodes n2 ON e.dst=n2.id '' @
     ''WHERE n2.source_file LIKE '' @ sql_quote (CHR ''%'' # fname) @
     '' AND e.relation IN ('' @ join_with '','' (map sql_quote [''calls'', ''imports'', ''imports_from'', ''uses'', ''inherits'']) @
     '') LIMIT 20''"

text \<open>\<open>post\<close> answers a query; any failure leaves the task without this context.\<close>

definition graph_context :: "gcfg \<Rightarrow> (string \<Rightarrow> json) \<Rightarrow> jobj \<Rightarrow> string" where
  "graph_context c query d =
     (case declared_output d (g_home c) of None \<Rightarrow> []
      | Some out \<Rightarrow>
        (let fname = sql_escape (path_name out) in
         if fname = [] then []
         else (case query (graph_sql fname) of
             JObj r \<Rightarrow>
               (case jget_or r ''rows'' (JList []) of
                  JList rows \<Rightarrow>
                    (if rows = [] \<or> \<not> list_all (\<lambda>x. case x of JObj _ \<Rightarrow> True | _ \<Rightarrow> False) rows then []
                     else ''GRAPH CONTEXT -- existing code that depends on '' @ path_name out @
                       '' (do NOT break these contracts):'' @ [newline] @
                       join_with [newline] (map (\<lambda>x. case x of
                           JObj e \<Rightarrow> ''  - '' @ py_str (jget e ''who'') @ '' ('' @ py_str (jget e ''file'') @ '') '' @
                             py_str (jget e ''rel'') @ '' it''
                         | _ \<Rightarrow> []) rows))
                | _ \<Rightarrow> [])
           | _ \<Rightarrow> [])))"

text \<open>The open lessons on the target, and the security advisory last; a subject that is no text has none.\<close>

definition lesson_subject :: "gcfg \<Rightarrow> jobj \<Rightarrow> string" where
  "lesson_subject c d =
     (case declared_output d (g_home c) of
        Some out \<Rightarrow> path_name out
      | None \<Rightarrow> (case as_str (py_or (jget d ''directive_id'') (py_or (jget d ''id'') (JStr []))) of
           None \<Rightarrow> [] | Some s \<Rightarrow> s))"

definition security_text :: "jobj list \<Rightarrow> string" where
  "security_text sec = (case sec of [] \<Rightarrow> []
     | l # _ \<Rightarrow> [newline, newline] @ ''SECONDARY (security advisory, NON-BLOCKING -- do not sacrifice '' @
         ''the working feature or schema-binding to satisfy this): '' @
         take 300 (py_str (jget_or l ''observation'' (JStr []))))"

definition lessons_context :: "gcfg \<Rightarrow> jobj \<Rightarrow> fs \<Rightarrow> string" where
  "lessons_context c d f =
     (let subject = lesson_subject c d in
      if subject = [] then []
      else strip (format_lessons_context (open_lessons_for f (g_lessons c) subject) subject
             @ security_text (open_lessons_for f (g_lessons c) (subject @ ''::security''))))"

definition with_context :: "string \<Rightarrow> string \<Rightarrow> string" where
  "with_context task ctx = (if ctx = [] then task else task @ [newline, newline] @ ctx)"

text \<open>The columns of a model with their flags, and the models a directive names.\<close>

definition fmt_col :: "kl_model \<Rightarrow> string \<Rightarrow> string" where
  "fmt_col m col =
     (let flags = (case dget (kl_meta m) col of
            None \<Rightarrow> (if col \<in> set (kl_required m) then [''required''] else [])
          | Some x \<Rightarrow> (if cm_pk x then [''PK''] else [])
              @ (if col \<in> set (kl_required m) then [''required''] else if cm_not_null x then [''NOT NULL''] else [])
              @ (if cm_default x then [''default''] else []))
      in if flags = [] then col else col @ '' ['' @ join_with '','' flags @ '']'')"

definition model_hit :: "string \<Rightarrow> kl_model \<Rightarrow> string option" where
  "model_hit blob m =
     (if (substr_in (lower (kl_name m)) blob \<or> (kl_table m \<noteq> [] \<and> substr_in (lower (kl_table m)) blob))
         \<and> filter (\<lambda>x. x \<noteq> []) (kl_cols m) \<noteq> []
      then Some (''  '' @ kl_name m @ '' (table '' @ kl_table m @ ''): '' @
        join_with '', '' (map (fmt_col m) (filter (\<lambda>x. x \<noteq> []) (kl_cols m))))
      else None)"

datatype ground = Matched | NoTableMatched | KlError

definition schema_ground_context :: "gcfg \<Rightarrow> jobj \<Rightarrow> string \<times> ground" where
  "schema_ground_context c d =
     (case g_models c of
        None \<Rightarrow> ([], KlError)
      | Some ms \<Rightarrow>
        (if ms = [] then ([], KlError)
         else (let hits = List.map_filter (model_hit (lower (json_dumps (JObj d)))) ms in
           if hits = [] then ([], NoTableMatched)
           else (g_schema_header c @ join_with [newline] (take 8 (sort hits)), Matched))))"

definition soa_schema_excerpt :: "gcfg \<Rightarrow> jobj \<Rightarrow> string" where
  "soa_schema_excerpt c d = fst (schema_ground_context c d)"

definition reads_block :: "gcfg \<Rightarrow> fs \<Rightarrow> json \<Rightarrow> string option" where
  "reads_block c f v =
     (let rel = py_str v; p = path_join (g_home c) (path_of rel) in
      if \<not> is_file f p then None
      else (case read_text f p of None \<Rightarrow> None
        | Some t \<Rightarrow> (let b = take 8000 (content_text t) in
            if strip b = [] then None
            else Some (''REFERENCE FILE -- mirror this structure and idioms (imports, the '' @
              ''ORM query/write style over app.models, docstring shape); ADAPT to '' @
              ''THIS service, do not copy verbatim, and do NOT write raw SQL:'' @ [newline] @
              ''# '' @ rel @ [newline] @ b))))"

definition reads_context :: "gcfg \<Rightarrow> fs \<Rightarrow> jobj \<Rightarrow> string" where
  "reads_context c f d = (case py_or (jget d ''reads'') (JList []) of
     JList xs \<Rightarrow> join_with [newline, newline] (List.map_filter (reads_block c f) xs) | _ \<Rightarrow> [])"

definition SYMBOL_TABLE_POINTER :: re where
  "SYMBOL_TABLE_POINTER = rseqs [rlit ''SYMBOL TABLE: docs/SCHEMA_TRUTH.md'', RLazyStar (RChr (\<lambda>_. True)),
     rlit ''never invent one. '']"

definition engine_task :: "gcfg \<Rightarrow> fs \<Rightarrow> string \<Rightarrow> jobj \<Rightarrow> string" where
  "engine_task c f task d =
     (let (txt, klass) = schema_ground_context c d; ref = reads_context c f d;
          tail = (if g_bus_tables c = [] then [] else [g_bus_tables c]) @ (if ref = [] then [] else [ref])
      in join_with [newline, newline]
           (if klass \<noteq> Matched then task # tail else re_delete SYMBOL_TABLE_POINTER task # txt # tail))"

subsection \<open>Recipes\<close>

definition RECIPE_ALLOW :: "string list" where
  "RECIPE_ALLOW = [''webapp_backend_fastapi'', ''webapp_frontend_react'', ''webapp_fullstack'',
     ''module_from_exemplar'', ''architect'', ''service_dir_from_exemplar'']"

definition BACKEND_HINTS :: "string list" where
  "BACKEND_HINTS = [''oauth'', ''login_service'', ''rbac'', ''role_enforc'', ''require_role'', ''tenant'', ''api_key'',
     ''session'', ''jwt'', ''auth_'', ''_auth'', ''org_model'', ''_api'', ''verdict'', ''scoring'', ''_consumer'', ''dashboard'',
     ''registry_search'', ''report'', ''compliance'', ''risk_register'', ''risk_trend'', ''policy'', ''decisions'', ''watchlist'']"

definition FRONTEND_HINTS :: "string list" where
  "FRONTEND_HINTS = [''.html'', ''_dashboard.'', ''frontend'', ''_ui.'', ''_view.'', ''react'']"

definition select_recipe :: "path \<Rightarrow> jobj \<Rightarrow> string option" where
  "select_recipe home d =
     (let r = strip (py_str (py_or (jget_or d ''recipe'' (JStr [])) (JStr []))) in
      if r \<in> set RECIPE_ALLOW \<and> r \<noteq> ''architect'' then Some r
      else (let blob = lower (join_with '' '' (map (\<lambda>k. py_str (jget_or d k (JStr [])))
              [''directive_id'', ''id'', ''output_file'', ''target_file'', ''title'', ''description'']))
              @ (case declared_output d home of None \<Rightarrow> [] | Some p \<Rightarrow> '' '' @ lower (path_str p))
        in if list_ex (\<lambda>h. substr_in h blob) FRONTEND_HINTS then Some ''webapp_frontend_react''
           else if list_ex (\<lambda>h. substr_in h blob) BACKEND_HINTS then Some ''webapp_backend_fastapi''
           else None))"

definition blanks :: re where
  "blanks = RStar (RChr is_space)"

definition nonblanks :: "nat \<Rightarrow> re" where
  "nonblanks n = RGroup n (rplus (RChr (\<lambda>c. \<not> is_space c)))"

definition PARAMS_LINE :: re where
  "PARAMS_LINE = rseqs [rlit ''parameters:'', blanks, REnd]"

definition KEY_LINE :: re where
  "KEY_LINE = rseqs [blanks, rlit ''-'', blanks, rlit ''key:'', blanks, nonblanks 1]"

definition REQUIREMENT_LINE :: re where
  "REQUIREMENT_LINE = rseqs [blanks, rlit ''requirement:'', blanks, nonblanks 1]"

definition yaml_word :: "rmatch_obj \<Rightarrow> string" where
  "yaml_word m = strip_chars [CHR 0x22, CHR 0x27] (strip (case mgroup m 1 of None \<Rightarrow> [] | Some g \<Rightarrow> g))"

fun scan_params :: "bool \<Rightarrow> string \<Rightarrow> string list \<Rightarrow> string list" where
  "scan_params inside cur [] = []"
| "scan_params inside cur (l # ls) =
     (if re_match PARAMS_LINE l \<noteq> None then scan_params True cur ls
      else if inside \<and> take 1 l \<notin> {[], '' '', [CHR 0x09], ''#''} then []
      else if \<not> inside then scan_params inside cur ls
      else (case re_match KEY_LINE l of
          Some m \<Rightarrow> scan_params inside (yaml_word m) ls
        | None \<Rightarrow>
          (case re_match REQUIREMENT_LINE l of
             Some m \<Rightarrow> (if cur \<noteq> [] \<and> yaml_word m = ''required'' then cur # scan_params inside cur ls
               else scan_params inside cur ls)
           | None \<Rightarrow> scan_params inside cur ls)))"

definition recipe_required_params :: "fs \<Rightarrow> path \<Rightarrow> string list" where
  "recipe_required_params f p = (case read_text f p of None \<Rightarrow> []
     | Some t \<Rightarrow> scan_params False [] (splitlines (content_text t)))"


subsection \<open>The daily budget of the service recipe\<close>

definition soa_int_env :: "environ \<Rightarrow> string \<Rightarrow> int \<Rightarrow> int" where
  "soa_int_env env name dflt =
     (case int_of_str (case env name of None \<Rightarrow> int_str dflt | Some s \<Rightarrow> if s = [] then int_str dflt else s) of
        None \<Rightarrow> dflt | Some n \<Rightarrow> max 0 n)"

definition soa_max :: "gcfg \<Rightarrow> int" where
  "soa_max c = soa_int_env (g_env c) ''SOA_GOOSE_MAX_PER_DAY'' 8"

definition SOA_RECIPE :: string where
  "SOA_RECIPE = ''service_dir_from_exemplar''"

definition WIN_FORBIDDEN :: string where
  "WIN_FORBIDDEN = ''<>:'' @ [CHR 0x22] @ ''/'' @ [CHR 0x5C] @ ''|?*''"

definition name_char :: "char \<Rightarrow> bool" where
  "name_char c = (is_digit c \<or> is_alpha_ascii c \<or> c = CHR ''_'')"

definition sanitise_service_name :: "string \<Rightarrow> string" where
  "sanitise_service_name raw =
     (let s0 = foldl (\<lambda>s ch. replace_char ch ''_'' s) (strip raw) WIN_FORBIDDEN;
          s1 = re_sub_runs (\<lambda>c. \<not> name_char c) ''_'' s0;
          s2 = re_sub_runs (\<lambda>c. c = CHR ''_'') ''_'' s1
      in lower (strip_chars ''_'' s2))"

definition NAME_PREFIXES :: "string list" where
  "NAME_PREFIXES = [''build_'', ''scaffold_'', ''create_'', ''emit_'']"

definition NAME_SUFFIXES :: "string list" where
  "NAME_SUFFIXES = [''_service_toml'', ''_service_dir'', ''_contract'', ''_router'', ''_logic'', ''_init'', ''_api_logic'']"

text \<open>The first affix that fits is cut, once.\<close>

definition cut_prefix :: "string list \<Rightarrow> string \<Rightarrow> string" where
  "cut_prefix ps s = (case find (startswith s) ps of None \<Rightarrow> s | Some p \<Rightarrow> drop (length p) s)"

definition cut_suffix :: "string list \<Rightarrow> string \<Rightarrow> string" where
  "cut_suffix ps s = (case find (endswith s) ps of None \<Rightarrow> s | Some p \<Rightarrow> take (length s - length p) s)"

definition soa_service_name :: "string \<Rightarrow> string" where
  "soa_service_name did =
     (let s = cut_suffix NAME_SUFFIXES (cut_prefix NAME_PREFIXES (sanitise_service_name did)) in
      if s \<noteq> [] then s else if sanitise_service_name did \<noteq> [] then sanitise_service_name did else ''unnamed_service'')"

definition soa_service_spec :: "gcfg \<Rightarrow> jobj \<Rightarrow> json \<Rightarrow> string option" where
  "soa_service_spec c d content =
     (let excerpt = soa_schema_excerpt c d in
      if excerpt = [] then None
      else Some (excerpt @ [newline, newline] @
        ''UNVERIFIED INTENT -- the directive as written. It may name tables or '' @
        ''columns that do not exist. Where it disagrees with REAL SCHEMA above, '' @
        ''REAL SCHEMA wins:'' @ [newline] @ json_dumps content))"

text \<open>The counters: a file that cannot be read counts nothing.\<close>

definition soa_state_read :: "gcfg \<Rightarrow> fs \<Rightarrow> json" where
  "soa_state_read c f = (case read_json f (g_state_file c) of None \<Rightarrow> JObj [] | Some v \<Rightarrow> v)"

definition soa_state_write :: "gcfg \<Rightarrow> json \<Rightarrow> fs \<Rightarrow> fs" where
  "soa_state_write c v f =
     (case mkdirs (path_parent (g_state_file c)) f of None \<Rightarrow> f
      | Some f1 \<Rightarrow> (case write_text (g_now c) (g_state_file c) (Doc (json_sort v)) f1 of None \<Rightarrow> f1 | Some f2 \<Rightarrow> f2))"

definition OUTCOMES :: "string list" where
  "OUTCOMES = [''attempt'', ''success'', ''fail'', ''capped'', ''ineligible'']"

definition json_inc :: "gcfg \<Rightarrow> json \<Rightarrow> json option" where
  "json_inc c v = (case v of JInt i \<Rightarrow> Some (JInt (i + 1)) | JBool b \<Rightarrow> Some (JInt ((if b then 1 else 0) + 1))
     | JFloat r s \<Rightarrow> Some (g_float c (r + 1)) | _ \<Rightarrow> None)"

text \<open>\<open>if outcome in row: row[outcome] += 1\<close> for whatever the file holds as the row.\<close>

definition count_outcome :: "gcfg \<Rightarrow> string \<Rightarrow> json \<Rightarrow> json option" where
  "count_outcome c outcome row = (case row of
       JObj r \<Rightarrow> (case dget r outcome of None \<Rightarrow> Some row
          | Some v \<Rightarrow> map_option (\<lambda>w. JObj (dput outcome w r)) (json_inc c v))
     | JList xs \<Rightarrow> (if JStr outcome \<in> set xs then None else Some row)
     | JStr s \<Rightarrow> (if substr_in outcome s then None else Some row)
     | _ \<Rightarrow> None)"

definition sub_obj :: "string \<Rightarrow> jobj \<Rightarrow> jobj option" where
  "sub_obj k d = (case jget_or d k (JObj []) of JObj x \<Rightarrow> Some x | _ \<Rightarrow> None)"

definition fresh_row :: json where
  "fresh_row = JObj (map (\<lambda>k. (k, JInt 0)) OUTCOMES)"

definition count_in :: "gcfg \<Rightarrow> string \<Rightarrow> string \<Rightarrow> json \<Rightarrow> (json \<times> json) option" where
  "count_in c name outcome v = (case v of
       JObj st \<Rightarrow> Option.bind (sub_obj ''per_recipe'' st) (\<lambda>pr. Option.bind (sub_obj (g_day c) pr) (\<lambda>pd.
         map_option (\<lambda>row. (row, JObj (dput ''per_recipe'' (JObj (dput (g_day c) (JObj (dput name row pd)) pr)) st)))
           (count_outcome c outcome (jget_or pd name fresh_row))))
     | _ \<Rightarrow> None)"

text \<open>The line logged after a success or a failure formats all five counters as numbers.\<close>

definition loggable :: "json \<Rightarrow> bool" where
  "loggable row = (case row of JObj r \<Rightarrow> list_all (\<lambda>k. case jget r k of JInt _ \<Rightarrow> True | JBool _ \<Rightarrow> True
       | JFloat _ _ \<Rightarrow> True | _ \<Rightarrow> False) OUTCOMES | _ \<Rightarrow> False)"

definition recipe_counter :: "gcfg \<Rightarrow> string \<Rightarrow> string \<Rightarrow> fs \<Rightarrow> bool \<times> fs" where
  "recipe_counter c name outcome f =
     (case count_in c name outcome (soa_state_read c f) of
        None \<Rightarrow> (False, f)
      | Some (row, v) \<Rightarrow> (outcome \<notin> {''success'', ''fail''} \<or> loggable row, soa_state_write c v f))"

definition soa_used :: "gcfg \<Rightarrow> fs \<Rightarrow> int option" where
  "soa_used c f = (case soa_state_read c f of
       JObj st \<Rightarrow> (case py_or (jget st ''per_recipe'') (JObj []) of
           JObj pr \<Rightarrow> Option.bind (sub_obj (g_day c) pr) (\<lambda>pd. Option.bind (sub_obj SOA_RECIPE pd)
             (\<lambda>row. py_int (py_or (jget_or row ''attempt'' (JInt 0)) (JInt 0))))
         | _ \<Rightarrow> None)
     | _ \<Rightarrow> None)"

definition soa_budget_left :: "gcfg \<Rightarrow> fs \<Rightarrow> int option" where
  "soa_budget_left c f = map_option (\<lambda>n. soa_max c - n) (soa_used c f)"

datatype soa = SoaRaises | SoaNo | SoaParams string string

definition soa_params_or_none :: "gcfg \<Rightarrow> string \<Rightarrow> jobj \<Rightarrow> json \<Rightarrow> fs \<Rightarrow> soa \<times> fs" where
  "soa_params_or_none c did d content f =
     (if soa_max c \<le> 0 then (SoaNo, f)
      else (case soa_budget_left c f of
          None \<Rightarrow> (SoaRaises, f)
        | Some left \<Rightarrow>
          (let give_up = (\<lambda>why. case recipe_counter c SOA_RECIPE why f of (ok, g) \<Rightarrow> (if ok then SoaNo else SoaRaises, g)) in
           if left \<le> 0 then give_up ''capped''
           else (case soa_service_spec c d content of
               None \<Rightarrow> give_up ''ineligible''
             | Some spec \<Rightarrow> (SoaParams (soa_service_name did) spec, f)))))"


subsection \<open>Running the agent\<close>

text \<open>\<open>p.resolve()\<close> without links: every \<open>..\<close> removes the part before it.\<close>

fun drop_dots :: "string list \<Rightarrow> string list \<Rightarrow> string list" where
  "drop_dots acc [] = rev acc"
| "drop_dots acc (w # ws) = drop_dots (if w = ''..'' then tl acc else w # acc) ws"

definition resolved :: "path \<Rightarrow> path" where
  "resolved p = Path (path_abs p) (drop_dots [] (path_parts p))"

definition declared_rel :: "gcfg \<Rightarrow> jobj \<Rightarrow> string option" where
  "declared_rel c d =
     (if d = [] then None
      else (case declared_output d (g_home c) of None \<Rightarrow> None
        | Some p \<Rightarrow>
          (let h = path_parts (resolved (g_home c)); q = path_parts (resolved p) in
           if take (length h) q = h then Some (path_str (Path False (drop (length h) q))) else None)))"

definition recipe_file :: "gcfg \<Rightarrow> string \<Rightarrow> path" where
  "recipe_file c name = path_join (path_child (g_home c) ''goose_recipes'') (path_of (name @ ''.yaml''))"

definition chosen_recipe :: "gcfg \<Rightarrow> string option \<Rightarrow> fs \<Rightarrow> path" where
  "chosen_recipe c recipe f =
     (let p = recipe_file c (case recipe of None \<Rightarrow> ''architect'' | Some r \<Rightarrow> if r = [] then ''architect'' else r)
      in if fs_exists f p then p else recipe_file c ''architect'')"

text \<open>What the agent's environment has on top of the daemon's own.\<close>

definition shadow_model :: "environ \<Rightarrow> string \<Rightarrow> (string, string) dict \<Rightarrow> (string, string) dict" where
  "shadow_model env did extra =
     (let gm = (case dget extra ''GOOSE_MODEL'' of Some m \<Rightarrow> Some m | None \<Rightarrow> env ''GOOSE_MODEL'') in
      case gm of None \<Rightarrow> extra
      | Some m \<Rightarrow> (if env ''ZO_SHADOW_DID_IN_MODEL'' = Some ''1'' \<and> m \<noteq> [] \<and> did \<noteq> [] \<and> CHR ''#'' \<notin> set m
          then dput ''GOOSE_MODEL'' (m @ ''#'' @ did) extra else extra))"

definition agent_env :: "gcfg \<Rightarrow> string \<Rightarrow> (string, string) dict \<Rightarrow> fs \<Rightarrow> (string, string) dict \<times> fs" where
  "agent_env c did extra f =
     (let e = shadow_model (g_env c) did extra in
      if g_bin c = ''goose'' then (e, f)
      else (let iso = (case g_env c ''ZO_BUILDER_GOOSE_HOME'' of None \<Rightarrow> ''/home/workspace/.goose_builder'' | Some s \<Rightarrow> s)
        in (dput ''XDG_STATE_HOME'' (iso @ ''/.local/state'') (dput ''XDG_DATA_HOME'' (iso @ ''/.local/share'')
              (dput ''XDG_CONFIG_HOME'' (iso @ ''/.config'') (dput ''HOME'' iso e))),
            if iso = [] then f else case mkdirs (path_of iso) f of None \<Rightarrow> f | Some g \<Rightarrow> g)))"

definition agent_argv :: "gcfg \<Rightarrow> path \<Rightarrow> string list \<Rightarrow> (string, string) dict \<Rightarrow> string list" where
  "agent_argv c p required params = [g_bin c, ''run'', ''--recipe'', path_str p] @
     concat (map (\<lambda>k. [''--params'', k @ ''='' @ (case dget params k of None \<Rightarrow> [] | Some v \<Rightarrow> v)])
       (if required = [] then [''task_description''] else required))"

definition undeclared_text :: "string list \<Rightarrow> string" where
  "undeclared_text fs = ''undeclared tracked write(s) reverted: '' @ py_repr (JList (map JStr fs)) @
     '' -- write ONLY the declared output path; never repo package markers or other tracked files''"

definition after_run :: "gcfg \<Rightarrow> string \<Rightarrow> string list option \<Rightarrow> string option \<Rightarrow> fs \<Rightarrow> fs" where
  "after_run c did dirty0 decl f =
     (case sweep (g_guard c) did dirty0 decl f of
        (as, g) \<Rightarrow> if as = [] then g
          else snd (record_lesson (g_now c) (g_lessons c) did did ''undeclared_write''
            (undeclared_text (map ra_file as)) 2 (g_ts c) g))"

text \<open>The bracket around the agent: the sweep runs however the agent ended.\<close>

definition bracketed_run :: "gcfg \<Rightarrow> string \<Rightarrow> jobj \<Rightarrow> string list \<Rightarrow> (string, string) dict \<Rightarrow> fs \<Rightarrow> goose_run \<times> fs" where
  "bracketed_run c did d argv env f =
     (let (dirty0, f1) = tracked_dirty (wg_git (g_guard c)) f;
          (r, f2) = g_exec c argv env f1
      in (r, after_run c did dirty0 (declared_rel c d) f2))"

text \<open>The agent's output when it succeeded.\<close>

definition counted_run :: "gcfg \<Rightarrow> string \<Rightarrow> jobj \<Rightarrow> path \<Rightarrow> string list \<Rightarrow> (string, string) dict \<Rightarrow>
    (string, string) dict \<Rightarrow> fs \<Rightarrow> string option \<times> fs" where
  "counted_run c did d p required params env f =
     (case recipe_counter c (path_stem p) ''attempt'' f of
        (False, f1) \<Rightarrow> (None, f1)
      | (True, f1) \<Rightarrow>
        (case bracketed_run c did d (agent_argv c p required params) env f1 of
           (GNoResult, f2) \<Rightarrow> (None, f2)
         | (GRan rc out, f2) \<Rightarrow>
           (case recipe_counter c (path_stem p) (if rc = 0 then ''success'' else ''fail'') f2 of
              (ok, f3) \<Rightarrow> (if ok \<and> rc = 0 then Some out else None, f3))))"

definition run_goose_task :: "gcfg \<Rightarrow> string \<Rightarrow> json \<Rightarrow> (string, string) dict \<Rightarrow> string option \<Rightarrow> jobj \<Rightarrow> fs \<Rightarrow>
    string option \<times> fs" where
  "run_goose_task c did content extra recipe d f =
     (let p = chosen_recipe c recipe f; (env, f1) = agent_env c did extra f;
          base = [(''task_description'', json_dumps content)]; required = recipe_required_params f1 p;
          go = (\<lambda>params g.
            if list_all (dhas params) required then counted_run c did d p required params env g
            else (None, snd (recipe_counter c (path_stem p) ''ineligible'' g)))
      in if substr_in SOA_RECIPE (path_name p)
         then (case soa_params_or_none c did d content f1 of
             (SoaParams name spec, g) \<Rightarrow> go (base @ [(''service_name'', name), (''service_spec'', spec)]) g
           | (_, g) \<Rightarrow> (None, g))
         else go base f1)"


subsection \<open>Names of services\<close>

definition plain_char :: "char \<Rightarrow> bool" where
  "plain_char c = (is_digit c \<or> is_lower_ascii c \<or> c = CHR ''_'')"

abbreviation not_both_under :: "char \<Rightarrow> char \<Rightarrow> bool" where
  "not_both_under a b \<equiv> \<not> (a = CHR ''_'' \<and> b = CHR ''_'')"

definition plain_name :: "string \<Rightarrow> bool" where
  "plain_name s \<longleftrightarrow> s \<noteq> [] \<and> list_all plain_char s \<and> hd s \<noteq> CHR ''_'' \<and> last s \<noteq> CHR ''_''
     \<and> successively not_both_under s"

lemma lower_name_char: "name_char c \<Longrightarrow> plain_char (lower_char c) \<and> (lower_char c = CHR ''_'' \<longleftrightarrow> c = CHR ''_'')"
proof -
  have "list_all (\<lambda>c. name_char c \<longrightarrow> plain_char (lower_char c) \<and> (lower_char c = CHR ''_'' \<longleftrightarrow> c = CHR ''_'')) Enum.enum"
    by code_simp
  then show "name_char c \<Longrightarrow> plain_char (lower_char c) \<and> (lower_char c = CHR ''_'' \<longleftrightarrow> c = CHR ''_'')"
    unfolding list_all_iff using in_enum by blast
qed

lemma under_runs:
  "successively not_both_under (sub_runs (\<lambda>c. c = CHR ''_'') ''_'' r s)
   \<and> (r \<longrightarrow> (\<forall>c t. sub_runs (\<lambda>c. c = CHR ''_'') ''_'' r s = c # t \<longrightarrow> c \<noteq> CHR ''_''))"
proof (induction s arbitrary: r)
  case (Cons c s)
  show ?case using Cons [of True] Cons [of False]
    by (cases "sub_runs (\<lambda>c. c = CHR ''_'') ''_'' True s") (auto simp: successively_Cons)
qed simp

lemma sub_runs_set: "set (sub_runs p w r s) \<subseteq> set w \<union> {c \<in> set s. \<not> p c}"
  by (induction s arbitrary: r) (auto split: if_splits)

lemma strip_chars_split: "\<exists>u v. s = u @ strip_chars cs s @ v"
proof -
  let ?t = "dropWhile (\<lambda>c. c \<in> set cs) s"
  have "s = takeWhile (\<lambda>c. c \<in> set cs) s @ ?t" by simp
  moreover have "?t = strip_chars cs s @ rev (takeWhile (\<lambda>c. c \<in> set cs) (rev ?t))"
    unfolding strip_chars_def by (metis rev_append rev_rev_ident takeWhile_dropWhile_id)
  ultimately show ?thesis by metis
qed

lemma strip_chars_ends:
  assumes "strip_chars cs s \<noteq> []"
  shows "hd (strip_chars cs s) \<notin> set cs" and "last (strip_chars cs s) \<notin> set cs"
proof -
  let ?t = "dropWhile (\<lambda>c. c \<in> set cs) s"
  obtain v where v: "?t = strip_chars cs s @ v"
    unfolding strip_chars_def by (metis rev_append rev_rev_ident takeWhile_dropWhile_id)
  have "hd ?t \<notin> set cs" using assms v hd_dropWhile [of "\<lambda>c. c \<in> set cs" s] by auto
  then show "hd (strip_chars cs s) \<notin> set cs" using assms v by (metis hd_append2)
  show "last (strip_chars cs s) \<notin> set cs"
    using assms hd_dropWhile [of "\<lambda>c. c \<in> set cs" "rev ?t"] unfolding strip_chars_def
    by (simp add: last_rev)
qed

lemma sanitised_plain: "sanitise_service_name raw = [] \<or> plain_name (sanitise_service_name raw)"
proof -
  define s1 where "s1 = re_sub_runs (\<lambda>c. \<not> name_char c) ''_'' (foldl (\<lambda>s ch. replace_char ch ''_'' s) (strip raw) WIN_FORBIDDEN)"
  define s2 where "s2 = re_sub_runs (\<lambda>c. c = CHR ''_'') ''_'' s1"
  define s3 where "s3 = strip_chars ''_'' s2"
  have eq: "sanitise_service_name raw = map lower_char s3"
    by (simp add: sanitise_service_name_def s1_def s2_def s3_def lower_def Let_def)
  have under: "name_char (CHR ''_'')" by (simp add: name_char_def)
  have "set s1 \<subseteq> Collect name_char"
    using sub_runs_set [of "\<lambda>c. \<not> name_char c" "''_''"] under unfolding s1_def re_sub_runs_def by fastforce
  then have n2: "set s2 \<subseteq> Collect name_char"
    using sub_runs_set [of "\<lambda>c. c = CHR ''_''" "''_''"] under unfolding s2_def re_sub_runs_def by fastforce
  obtain u v where uv: "s2 = u @ s3 @ v" using strip_chars_split unfolding s3_def by blast
  have n3: "\<forall>c \<in> set s3. name_char c" using n2 uv by auto
  have "successively not_both_under s2" using under_runs unfolding s2_def re_sub_runs_def by blast
  then have "successively not_both_under s3" unfolding uv by (auto simp: successively_append_iff)
  then have succ: "successively not_both_under (map lower_char s3)"
    unfolding successively_map using n3 lower_name_char
    by (rule_tac successively_mono [of _ s3]) auto
  show ?thesis
  proof (cases s3)
    case Nil
    then show ?thesis by (simp add: eq)
  next
    case (Cons a t)
    then have ne: "s3 \<noteq> []" by simp
    have "hd s3 \<noteq> CHR ''_''" "last s3 \<noteq> CHR ''_''"
      using strip_chars_ends [of "''_''" s2] ne unfolding s3_def by auto
    then have "hd (map lower_char s3) \<noteq> CHR ''_''" "last (map lower_char s3) \<noteq> CHR ''_''"
      using n3 lower_name_char ne by (auto simp: hd_map last_map)
    with succ ne n3 lower_name_char show ?thesis by (auto simp: eq plain_name_def list_all_iff)
  qed
qed

lemma plain_name_split: "plain_name (u @ CHR ''_'' # v) \<Longrightarrow> plain_name u \<and> plain_name v"
  by (cases u; cases v) (auto simp: plain_name_def successively_append_iff successively_Cons split: if_splits)

lemma cut_prefix_plain: "plain_name s \<Longrightarrow> plain_name (cut_prefix NAME_PREFIXES s)"
proof -
  assume s: "plain_name s"
  have aff: "\<exists>u. p = u @ ''_''" if "p \<in> set NAME_PREFIXES" for p
    using that by (auto simp: NAME_PREFIXES_def)
  show ?thesis
  proof (cases "find (startswith s) NAME_PREFIXES")
    case (Some p)
    then have p: "p \<in> set NAME_PREFIXES" "startswith s p" by (auto simp: find_Some_iff)
    obtain u where u: "p = u @ ''_''" using aff [OF p(1)] by blast
    obtain v where v: "s = p @ v" using p(2) unfolding startswith_iff by blast
    have "plain_name v" using s plain_name_split [of u v] by (simp add: u v)
    with Some v show ?thesis by (simp add: cut_prefix_def)
  qed (simp add: cut_prefix_def s)
qed

lemma cut_suffix_plain: "plain_name s \<Longrightarrow> plain_name (cut_suffix NAME_SUFFIXES s)"
proof -
  assume s: "plain_name s"
  have aff: "\<exists>v. p = CHR ''_'' # v" if "p \<in> set NAME_SUFFIXES" for p
    using that by (auto simp: NAME_SUFFIXES_def)
  show ?thesis
  proof (cases "find (endswith s) NAME_SUFFIXES")
    case (Some p)
    then have p: "p \<in> set NAME_SUFFIXES" "endswith s p" by (auto simp: find_Some_iff)
    obtain v where v: "p = CHR ''_'' # v" using aff [OF p(1)] by blast
    obtain u where w: "s = u @ p" using p(2) unfolding endswith_iff by blast
    have "plain_name u" using s plain_name_split [of u v] by (simp add: v w)
    with Some w show ?thesis by (simp add: cut_suffix_def)
  qed (simp add: cut_suffix_def s)
qed

text \<open>The last entry of the suffixes is never the one that is cut: the shorter one before it fits too.\<close>

lemma api_logic_never_cut: "endswith s ''_api_logic'' \<Longrightarrow> find (endswith s) NAME_SUFFIXES \<noteq> Some ''_api_logic''"
  by (auto simp: NAME_SUFFIXES_def endswith_iff)

lemma api_logic_keeps_api: "soa_service_name ''build_risk_api_logic'' = ''risk_api''"
  by code_simp

text \<open>Whatever the identity of a directive, the service directory made from it has a name that
  every checkout accepts: only small letters, digits and single underscores, none of them at an end,
  and never empty.\<close>

theorem service_name_is_plain: "plain_name (soa_service_name did)"
proof (cases "sanitise_service_name did = []")
  case True
  then have "soa_service_name did = ''unnamed_service''"
    by (simp add: soa_service_name_def cut_prefix_def cut_suffix_def NAME_PREFIXES_def NAME_SUFFIXES_def
        startswith_def endswith_def)
  moreover have "plain_name ''unnamed_service''" by code_simp
  ultimately show ?thesis by simp
next
  case False
  then have "plain_name (sanitise_service_name did)" using sanitised_plain by blast
  then have "plain_name (cut_suffix NAME_SUFFIXES (cut_prefix NAME_PREFIXES (sanitise_service_name did)))"
    using cut_prefix_plain cut_suffix_plain by blast
  then show ?thesis by (auto simp: soa_service_name_def plain_name_def)
qed


subsection \<open>The budget\<close>

text \<open>The file of counters holds a well-formed row of the service recipe, with \<open>n\<close> attempts today.\<close>

definition attempts_row :: "gcfg \<Rightarrow> json \<Rightarrow> jobj option" where
  "attempts_row c v = (case v of
       JObj st \<Rightarrow> Option.bind (sub_obj ''per_recipe'' st) (\<lambda>pr. Option.bind (sub_obj (g_day c) pr) (\<lambda>pd.
         case jget_or pd SOA_RECIPE fresh_row of JObj row \<Rightarrow> Some row | _ \<Rightarrow> None))
     | _ \<Rightarrow> None)"

definition attempts_are :: "gcfg \<Rightarrow> fs \<Rightarrow> int \<Rightarrow> bool" where
  "attempts_are c f n \<longleftrightarrow> (\<exists>row. attempts_row c (soa_state_read c f) = Some row
     \<and> dget row ''attempt'' = Some (JInt n))"

lemma used_from_attempts: "attempts_are c f n \<Longrightarrow> soa_used c f = Some n"
proof -
  assume "attempts_are c f n"
  then obtain row st pr pd where st: "soa_state_read c f = JObj st" "sub_obj ''per_recipe'' st = Some pr"
      "sub_obj (g_day c) pr = Some pd" "jget_or pd SOA_RECIPE fresh_row = JObj row" "dget row ''attempt'' = Some (JInt n)"
    by (auto simp: attempts_are_def attempts_row_def split: json.splits bind_splits)
  have pr: "py_or (jget st ''per_recipe'') (JObj []) = JObj pr"
    using st(2) by (auto simp: sub_obj_def jget_or_def jget_def py_or_def split: json.splits option.splits)
  show ?thesis
  proof (cases "dget pd SOA_RECIPE")
    case None
    with st(4,5) have "n = 0" by (auto simp: jget_or_def fresh_row_def OUTCOMES_def)
    moreover have "sub_obj SOA_RECIPE pd = Some []" using None by (simp add: sub_obj_def jget_or_def)
    ultimately show ?thesis using st(1,3) pr by (simp add: soa_used_def jget_or_def py_or_def)
  next
    case (Some v)
    with st(4) have "sub_obj SOA_RECIPE pd = Some row" by (simp add: sub_obj_def jget_or_def)
    with st(1,3,5) pr show ?thesis by (cases "n = 0") (simp_all add: soa_used_def jget_or_def py_or_def)
  qed
qed

text \<open>In a working directory an attempt is counted.\<close>

lemma attempt_counted:
  assumes "work_dir f d" and "g_state_file c = path_child d nm" and "attempts_are c f n"
  shows "\<exists>g. recipe_counter c SOA_RECIPE ''attempt'' f = (True, g) \<and> attempts_are c g (n + 1)"
proof -
  obtain row st pr pd where st: "soa_state_read c f = JObj st" "sub_obj ''per_recipe'' st = Some pr"
      "sub_obj (g_day c) pr = Some pd" "jget_or pd SOA_RECIPE fresh_row = JObj row" "dget row ''attempt'' = Some (JInt n)"
    using assms(3) by (auto simp: attempts_are_def attempts_row_def split: json.splits bind_splits)
  define row2 where "row2 = dput ''attempt'' (JInt (n + 1)) row"
  define pd2 where "pd2 = dput SOA_RECIPE (JObj row2) pd"
  define pr2 where "pr2 = dput (g_day c) (JObj pd2) pr"
  define st2 where "st2 = dput ''per_recipe'' (JObj pr2) st"
  have cnt: "count_in c SOA_RECIPE ''attempt'' (soa_state_read c f) = Some (JObj row2, JObj st2)"
    using st by (simp add: count_in_def count_outcome_def json_inc_def row2_def pd2_def pr2_def st2_def)
  obtain f1 where f1: "mkdirs d f = Some f1" "work_dir f1 d" using work_dir_mkdirs [OF assms(1)] by blast
  obtain f2 where f2: "write_text (g_now c) (path_child d nm) (Doc (json_sort (JObj st2))) f1 = Some f2" "work_dir f2 d"
    using work_dir_write [OF f1(2)] by blast
  have w: "soa_state_write c (JObj st2) f = f2"
    using f1 f2 by (simp add: soa_state_write_def assms(2))
  have rd: "soa_state_read c f2 = json_sort (JObj st2)"
    using read_json_get [OF work_dirD(2) [OF f2(2)]] write_text_get [OF f2(1)]
    by (simp add: soa_state_read_def assms(2))
  let ?srt = "\<lambda>d. sort_key fst (map (\<lambda>kv. (fst kv, json_sort (snd kv))) d)"
  have g: "dget (map (\<lambda>kv. (fst kv, json_sort (snd kv))) x) k = map_option json_sort (dget x k)" for x :: jobj and k
    using dget_json_sort [of x k] by simp
  have "sub_obj ''per_recipe'' (?srt st2) = Some (?srt pr2)" "sub_obj (g_day c) (?srt pr2) = Some (?srt pd2)"
    "jget_or (?srt pd2) SOA_RECIPE fresh_row = JObj (?srt row2)" "dget (?srt row2) ''attempt'' = Some (JInt (n + 1))"
    by (simp_all add: sub_obj_def jget_or_def g st2_def pr2_def pd2_def row2_def)
  then have "attempts_are c f2 (n + 1)" by (simp add: attempts_are_def attempts_row_def rd)
  moreover have "recipe_counter c SOA_RECIPE ''attempt'' f = (True, f2)"
    unfolding recipe_counter_def cnt by (simp add: w)
  ultimately show ?thesis by blast
qed

text \<open>Without budget the answer does not depend on the agent.\<close>

lemma exec_blind [simp]:
  "agent_env (c\<lparr>g_exec := e\<rparr>) did extra f = agent_env c did extra f"
  "chosen_recipe (c\<lparr>g_exec := e\<rparr>) recipe f = chosen_recipe c recipe f"
  "soa_params_or_none (c\<lparr>g_exec := e\<rparr>) did d content f = soa_params_or_none c did d content f"
  by (cases c; simp only: agent_env_def chosen_recipe_def recipe_file_def soa_params_or_none_def soa_max_def
      soa_budget_left_def soa_used_def soa_state_read_def recipe_counter_def count_in_def count_outcome_def
      json_inc_def soa_state_write_def soa_service_spec_def soa_schema_excerpt_def schema_ground_context_def
      gcfg.simps cong: if_cong option.case_cong json.case_cong prod.case_cong)+

text \<open>C27: the daily cap of the service recipe. With the counters in order, once the attempts of the
  day have reached the cap the agent is not run on that recipe any more, whatever it would do, and
  the task is left to the engine; until then every attempt that is counted raises the number by one.\<close>

theorem canary_budget_is_kept:
  assumes "work_dir f1 dir" and "g_state_file c = path_child dir nm" and "attempts_are c f1 n"
    and "f1 = snd (agent_env c did extra f)" and "substr_in SOA_RECIPE (path_name (chosen_recipe c recipe f))"
  shows "(soa_max c \<le> n \<longrightarrow> fst (run_goose_task c did content extra recipe d f) = None
      \<and> (\<forall>e. run_goose_task (c\<lparr>g_exec := e\<rparr>) did content extra recipe d f
            = run_goose_task c did content extra recipe d f))
    \<and> (\<exists>g. recipe_counter c SOA_RECIPE ''attempt'' f1 = (True, g) \<and> attempts_are c g (n + 1))"
proof -
  obtain env where env: "agent_env c did extra f = (env, f1)" using assms(4) by (metis prod.collapse)
  have "\<exists>a g. soa_params_or_none c did d content f1 = (a, g) \<and> (a = SoaNo \<or> a = SoaRaises)" if "soa_max c \<le> n"
    using that used_from_attempts [OF assms(3)]
    by (auto simp: soa_params_or_none_def soa_budget_left_def Let_def split: prod.splits)
  then have "\<exists>g. \<forall>e. run_goose_task (c\<lparr>g_exec := e\<rparr>) did content extra recipe d f = (None, g)
      \<and> run_goose_task c did content extra recipe d f = (None, g)" if "soa_max c \<le> n"
    using that env assms(5) unfolding run_goose_task_def by (fastforce simp: Let_def)
  then show ?thesis using attempt_counted [OF assms(1-3)] by (metis fst_conv)
qed


definition spent_cfg :: gcfg where
  "spent_cfg = \<lparr>g_env = [''SOA_GOOSE_MAX_PER_DAY'' \<mapsto> ''1''], g_home = path_of ''/h'', g_task_file = path_of ''/t'',
     g_lessons = path_of ''/h/lessons'', g_state_file = path_child (path_of ''/l'') ''c.json'', g_now = 5, g_ts = ''T'',
     g_clock = ''5'', g_day = ''D'', g_bin = ''goose'', g_models = None, g_schema_header = [], g_data_access = [],
     g_bus_tables = [], g_guard = marker_cfg, g_float = (\<lambda>r. JNull), g_exec = (\<lambda>argv env f. (GRan 0 ''ok'', f))\<rparr>"

definition spent_fs :: fs where
  "spent_fs = \<lparr>files = [(path_child (path_of ''/l'') ''c.json'', \<lparr>body = Doc (JObj [(''per_recipe'', JObj [(''D'', JObj
        [(SOA_RECIPE, JObj [(''attempt'', JInt 1), (''success'', JInt 1), (''fail'', JInt 0), (''capped'', JInt 0),
           (''ineligible'', JInt 0)])])])]), mtime = 1\<rparr>),
      (path_of ''/h/goose_recipes/service_dir_from_exemplar.yaml'', \<lparr>body = Text ''x'', mtime = 1\<rparr>)],
     dirs = [path_of ''/'', path_of ''/l'', path_of ''/h'', path_of ''/h/goose_recipes''], noread = [], nowrite = []\<rparr>"

theorem canary_budget_is_kept_witness:
  "fst (run_goose_task spent_cfg ''d1'' (JStr ''c'') [] (Some SOA_RECIPE) [] spent_fs) = None
   \<and> (\<exists>g. recipe_counter spent_cfg SOA_RECIPE ''attempt'' spent_fs = (True, g) \<and> attempts_are spent_cfg g (1 + 1))"
proof -
  have "work_dir spent_fs (path_of ''/l'')" "g_state_file spent_cfg = path_child (path_of ''/l'') ''c.json''"
    "attempts_row spent_cfg (soa_state_read spent_cfg spent_fs) = Some [(''attempt'', JInt 1), (''success'', JInt 1),
       (''fail'', JInt 0), (''capped'', JInt 0), (''ineligible'', JInt 0)]"
    "spent_fs = snd (agent_env spent_cfg ''d1'' [] spent_fs)"
    "substr_in SOA_RECIPE (path_name (chosen_recipe spent_cfg (Some SOA_RECIPE) spent_fs))"
    "soa_max spent_cfg \<le> 1"
    by code_simp+
  then show ?thesis using canary_budget_is_kept [of spent_fs "path_of ''/l''" spent_cfg "''c.json''" 1 "''d1''" "[]" spent_fs
      "Some SOA_RECIPE" "JStr ''c''" "[]"] by (simp add: attempts_are_def)
qed

end
