(* ===== verification/Loopback.thy ===== *)
theory Loopback
  imports PyFs
begin

text \<open>
  \<open>src/state_loopback.py\<close>: the manifest in which every step of the builder reads as failed until a
  proof of success is recorded. A function that raises is \<open>None\<close>; the one clock reading of an
  operation is an argument. The specification is the set of the steps that read as passed.
\<close>

definition PASS :: string where
  "PASS = ''PASS''"

definition FAIL :: string where
  "FAIL = ''FAIL''"

definition results_file :: "path \<Rightarrow> path" where
  "results_file d = path_child d ''test-results.json''"

subsection \<open>The manifest\<close>

text \<open>A missing, unreadable or corrupt file is the empty manifest.\<close>

definition load_results :: "path \<Rightarrow> fs \<Rightarrow> json" where
  "load_results d f =
     (case (if fs_exists f (results_file d) then read_json f (results_file d) else None) of
        Some v \<Rightarrow> v
      | None \<Rightarrow> JObj [(''contract'', JStr ''default-fail''), (''updated_at'', JNull), (''steps'', JObj [])])"

definition save_results :: "int \<Rightarrow> string \<Rightarrow> path \<Rightarrow> jobj \<Rightarrow> fs \<Rightarrow> fs option" where
  "save_results now ts d m f =
     atomic_write now (results_file d) (Doc (JObj (dput ''updated_at'' (JStr ts) m))) f"

definition step_entry :: "string \<Rightarrow> string \<Rightarrow> json \<Rightarrow> json" where
  "step_entry ts status proof_text =
     JObj [(''status'', JStr status), (''proof'', proof_text), (''updated_at'', JStr ts)]"

text \<open>\<open>data["steps"]\<close> as an object; \<open>None\<close> when one of the two look-ups raises.\<close>

definition steps_of :: "json \<Rightarrow> (jobj \<times> jobj) option" where
  "steps_of v = (case v of
       JObj m \<Rightarrow> (case dget m ''steps'' of Some (JObj st) \<Rightarrow> Some (m, st) | _ \<Rightarrow> None)
     | _ \<Rightarrow> None)"

definition put_steps :: "int \<Rightarrow> string \<Rightarrow> path \<Rightarrow> jobj \<Rightarrow> jobj \<Rightarrow> fs \<Rightarrow> fs option" where
  "put_steps now ts d m st f = save_results now ts d (dput ''steps'' (JObj st) m) f"

text \<open>The loop body does not run for an empty list, so that the steps are not looked up.\<close>

definition init_manifest :: "int \<Rightarrow> string \<Rightarrow> path \<Rightarrow> string list \<Rightarrow> fs \<Rightarrow> fs option" where
  "init_manifest now ts d steps f =
     (if steps = [] then (case load_results d f of JObj m \<Rightarrow> save_results now ts d m f | _ \<Rightarrow> None)
      else (case steps_of (load_results d f) of None \<Rightarrow> None
        | Some (m, st) \<Rightarrow>
            put_steps now ts d m (fold (\<lambda>s. dsetdefault s (step_entry ts FAIL JNull)) steps st) f))"

definition record_pass :: "int \<Rightarrow> string \<Rightarrow> path \<Rightarrow> string \<Rightarrow> string \<Rightarrow> fs \<Rightarrow> fs option" where
  "record_pass now ts d step prf f =
     (if strip prf = [] then None
      else (case steps_of (load_results d f) of None \<Rightarrow> None
        | Some (m, st) \<Rightarrow> put_steps now ts d m (dput step (step_entry ts PASS (JStr (strip prf))) st) f))"

definition record_fail :: "int \<Rightarrow> string \<Rightarrow> path \<Rightarrow> string \<Rightarrow> string \<Rightarrow> fs \<Rightarrow> fs option" where
  "record_fail now ts d step prf f =
     (case steps_of (load_results d f) of None \<Rightarrow> None
      | Some (m, st) \<Rightarrow> put_steps now ts d m
          (dput step (step_entry ts FAIL (if strip prf = [] then JNull else JStr (strip prf))) st) f)"

text \<open>What the gate runner reports: tier, name and outcome of each gate, and the overall outcome.\<close>

record gate_report =
  gr_gates :: "(int \<times> string \<times> bool) list"
  gr_passed :: bool

definition gate_detail :: "gate_report \<Rightarrow> string" where
  "gate_detail r = ''uv_gate_runner: '' @ join_with ''; ''
     (map (\<lambda>(t, n, ok). ''T'' @ int_str t @ '' '' @ n @ ''='' @ (if ok then ''P'' else ''F'')) (gr_gates r))"

definition record_gate_result :: "int \<Rightarrow> string \<Rightarrow> path \<Rightarrow> string \<Rightarrow> gate_report \<Rightarrow> fs \<Rightarrow> fs option" where
  "record_gate_result now ts d step r f =
     (if gr_passed r then record_pass now ts d step (gate_detail r) f
      else record_fail now ts d step (gate_detail r) f)"

text \<open>The summary: all steps, those that pass, those that do not, and whether all do.\<close>

definition is_pass :: "json \<Rightarrow> bool option" where
  "is_pass v = (case v of JObj e \<Rightarrow> Some (jget e ''status'' = JStr PASS) | _ \<Rightarrow> None)"

definition summary :: "path \<Rightarrow> fs \<Rightarrow> (nat \<times> string list \<times> string list \<times> bool) option" where
  "summary d f =
     (case load_results d f of
        JObj m \<Rightarrow>
          (case jget_or m ''steps'' (JObj []) of
             JObj st \<Rightarrow>
               (if list_all (\<lambda>kv. is_pass (snd kv) \<noteq> None) st
                then (let passed = filter (\<lambda>kv. is_pass (snd kv) = Some True) st;
                          failed = filter (\<lambda>kv. is_pass (snd kv) \<noteq> Some True) st
                      in Some (length st, map fst passed, map fst failed, st \<noteq> [] \<and> failed = []))
                else None)
           | _ \<Rightarrow> None)
      | _ \<Rightarrow> None)"

subsection \<open>The specification\<close>

text \<open>An operation, or a crash that leaves a text that is no document.\<close>

datatype lb_op =
    OInit "string list"
  | OPass string string
  | OFail string string
  | OGate string gate_report
  | OCrash string

definition or_same :: "fs \<Rightarrow> fs option \<Rightarrow> fs" where
  "or_same f r = (case r of None \<Rightarrow> f | Some g \<Rightarrow> g)"

fun apply_lb :: "int \<Rightarrow> string \<Rightarrow> path \<Rightarrow> lb_op \<Rightarrow> fs \<Rightarrow> fs" where
  "apply_lb now ts d (OInit ss) f = or_same f (init_manifest now ts d ss f)"
| "apply_lb now ts d (OPass s prf) f = or_same f (record_pass now ts d s prf f)"
| "apply_lb now ts d (OFail s prf) f = or_same f (record_fail now ts d s prf f)"
| "apply_lb now ts d (OGate s r) f = or_same f (record_gate_result now ts d s r f)"
| "apply_lb now ts d (OCrash junk) f = or_same f (write_text now (results_file d) (Text junk) f)"

text \<open>The steps that read as passed, and what an operation does to them.\<close>

definition passing :: "path \<Rightarrow> fs \<Rightarrow> string set" where
  "passing d f = {s. \<exists>m st v. steps_of (load_results d f) = Some (m, st) \<and> dget st s = Some v
     \<and> is_pass v = Some True}"

fun lb_spec :: "lb_op \<Rightarrow> string set \<Rightarrow> string set" where
  "lb_spec (OInit ss) P = P"
| "lb_spec (OPass s prf) P = (if strip prf = [] then P else insert s P)"
| "lb_spec (OFail s prf) P = P - {s}"
| "lb_spec (OGate s r) P = (if gr_passed r then insert s P else P - {s})"
| "lb_spec (OCrash junk) P = {}"

text \<open>A state directory in working order whose manifest, where it can be read, has its steps.\<close>

definition lb_ok :: "path \<Rightarrow> fs \<Rightarrow> bool" where
  "lb_ok d f \<longleftrightarrow> work_dir f d \<and> steps_of (load_results d f) \<noteq> None"

lemma steps_of_some: "steps_of v = Some (m, st) \<longleftrightarrow> v = JObj m \<and> dget m ''steps'' = Some (JObj st)"
  by (auto simp: steps_of_def split: json.splits option.splits)

text \<open>A written manifest is read back.\<close>

lemma save_works:
  assumes "work_dir f d"
  shows "\<exists>g. save_results now ts d m f = Some g \<and> work_dir g d
    \<and> load_results d g = JObj (dput ''updated_at'' (JStr ts) m)"
proof -
  obtain g where g: "atomic_write now (results_file d) (Doc (JObj (dput ''updated_at'' (JStr ts) m))) f = Some g"
      "work_dir g d"
    using work_dir_atomic [OF assms] unfolding results_file_def by blast
  have "load_results d g = JObj (dput ''updated_at'' (JStr ts) m)"
    using read_json_get [OF work_dirD(2) [OF g(2)]] atomic_write_get [OF g(1)]
    by (simp add: load_results_def fs_exists_def is_file_def)
  with g show ?thesis by (auto simp: save_results_def)
qed

lemma put_steps_works:
  assumes "work_dir f d"
  shows "\<exists>g m'. put_steps now ts d m st f = Some g \<and> work_dir g d
    \<and> steps_of (load_results d g) = Some (m', st)"
  using save_works [OF assms, of now ts "dput ''steps'' (JObj st) m"]
  by (auto simp: put_steps_def steps_of_some)

lemma passing_steps:
  "steps_of (load_results d f) = Some (m, st) \<Longrightarrow> passing d f = {s. \<exists>v. dget st s = Some v \<and> is_pass v = Some True}"
  by (auto simp: passing_def)

lemma put_steps_refines:
  assumes "lb_ok d f" and "steps_of (load_results d f) = Some (m, st)"
  shows "lb_ok d (or_same f (put_steps now ts d m st' f))
    \<and> passing d (or_same f (put_steps now ts d m st' f)) = {s. \<exists>v. dget st' s = Some v \<and> is_pass v = Some True}"
proof -
  obtain g m' where g: "put_steps now ts d m st' f = Some g" "work_dir g d"
      "steps_of (load_results d g) = Some (m', st')"
    using put_steps_works [of f d now ts m st'] assms(1) by (auto simp: lb_ok_def)
  then show ?thesis using passing_steps [OF g(3)] by (simp add: or_same_def lb_ok_def)
qed

lemma is_pass_entry [simp]: "is_pass (step_entry ts status prf) = Some (status = PASS)"
  by (simp add: is_pass_def step_entry_def)

lemma fail_not_pass [simp]: "FAIL \<noteq> PASS"
  by (simp add: FAIL_def PASS_def)

lemma seeded_passing:
  "{s. \<exists>v. dget (fold (\<lambda>s. dsetdefault s (step_entry ts FAIL JNull)) ss st) s = Some v \<and> is_pass v = Some True}
   = {s. \<exists>v. dget st s = Some v \<and> is_pass v = Some True}"
proof (induction ss arbitrary: st)
  case (Cons x ss)
  have "{s. \<exists>v. dget (dsetdefault x (step_entry ts FAIL JNull) st) s = Some v \<and> is_pass v = Some True}
     = {s. \<exists>v. dget st s = Some v \<and> is_pass v = Some True}"
    by (auto simp: dget_dsetdefault split: if_splits)
  with Cons show ?case by simp
qed simp

lemma strip_nonblank: "c \<in> set s \<Longrightarrow> \<not> is_space c \<Longrightarrow> strip s \<noteq> []"
proof -
  have "c \<in> set xs \<Longrightarrow> \<not> is_space c \<Longrightarrow> c \<in> set (dropWhile is_space xs)" for xs
    by (induction xs) auto
  then show "c \<in> set s \<Longrightarrow> \<not> is_space c \<Longrightarrow> strip s \<noteq> []"
    by (fastforce simp: strip_def dropWhile_eq_Nil_conv)
qed

lemma gate_detail_nonblank: "strip (gate_detail r) \<noteq> []"
proof -
  have "\<not> is_space (CHR ''u'')" by code_simp
  then show ?thesis
    by (intro strip_nonblank [of "CHR ''u''"]) (simp_all add: gate_detail_def)
qed

text \<open>Every operation refines its specification.\<close>

lemma pass_refines:
  assumes "lb_ok d f"
  shows "lb_ok d (or_same f (record_pass now ts d s prf f))
    \<and> passing d (or_same f (record_pass now ts d s prf f)) = lb_spec (OPass s prf) (passing d f)"
proof -
  obtain m st where st: "steps_of (load_results d f) = Some (m, st)" using assms by (auto simp: lb_ok_def)
  show ?thesis
    using put_steps_refines [OF assms st] assms st passing_steps [OF st]
    by (auto simp: record_pass_def or_same_def [of f None])
qed

lemma fail_refines:
  assumes "lb_ok d f"
  shows "lb_ok d (or_same f (record_fail now ts d s prf f))
    \<and> passing d (or_same f (record_fail now ts d s prf f)) = passing d f - {s}"
proof -
  obtain m st where st: "steps_of (load_results d f) = Some (m, st)" using assms by (auto simp: lb_ok_def)
  show ?thesis
    using put_steps_refines [OF assms st] assms passing_steps [OF st]
    by (auto simp: record_fail_def st)
qed

lemma init_refines:
  assumes "lb_ok d f"
  shows "lb_ok d (or_same f (init_manifest now ts d ss f))
    \<and> passing d (or_same f (init_manifest now ts d ss f)) = passing d f"
proof -
  obtain m st where st: "steps_of (load_results d f) = Some (m, st)" using assms by (auto simp: lb_ok_def)
  show ?thesis
  proof (cases "ss = []")
    case False
    then show ?thesis
      using put_steps_refines [OF assms st] passing_steps [OF st] by (simp add: init_manifest_def st seeded_passing)
  next
    case True
    obtain g where g: "save_results now ts d m f = Some g" "work_dir g d"
        "load_results d g = JObj (dput ''updated_at'' (JStr ts) m)"
      using save_works [of f d now ts m] assms by (auto simp: lb_ok_def)
    have "steps_of (load_results d g) = Some (dput ''updated_at'' (JStr ts) m, st)"
      using st g(3) by (simp add: steps_of_some)
    with g True st show ?thesis
      using passing_steps [OF st] passing_steps [of d g]
      by (simp add: init_manifest_def steps_of_some or_same_def lb_ok_def)
  qed
qed

lemma crash_refines:
  assumes "lb_ok d f"
  shows "lb_ok d (or_same f (write_text now (results_file d) (Text junk) f))
    \<and> passing d (or_same f (write_text now (results_file d) (Text junk) f)) = {}"
proof -
  obtain g where g: "write_text now (results_file d) (Text junk) f = Some g" "work_dir g d"
    using work_dir_write assms unfolding results_file_def lb_ok_def by blast
  have "read_json g (results_file d) = None"
    using read_json_get [OF work_dirD(2) [OF g(2)]] write_text_get [OF g(1)] by simp
  then have "steps_of (load_results d g) = Some ([(''contract'', JStr ''default-fail''), (''updated_at'', JNull), (''steps'', JObj [])], [])"
    by (simp add: load_results_def steps_of_def)
  with g passing_steps [of d g] show ?thesis by (simp add: or_same_def lb_ok_def)
qed

lemma apply_refines:
  assumes "lb_ok d f"
  shows "lb_ok d (apply_lb now ts d op f) \<and> passing d (apply_lb now ts d op f) = lb_spec op (passing d f)"
proof (cases op)
  case (OGate s r)
  then show ?thesis
    using pass_refines [OF assms, of now ts s "gate_detail r"] fail_refines [OF assms, of now ts s "gate_detail r"]
    by (simp add: record_gate_result_def gate_detail_nonblank)
qed (use pass_refines fail_refines init_refines crash_refines assms in auto)

interpretation lb: invariant_system "apply_lb now ts d" "lb_ok d"
  for now :: int and ts :: string and d :: path
  by unfold_locales (rule conjunct1 [OF apply_refines])

subsection \<open>Properties\<close>

text \<open>C35: a step reads as passed only on proof. In a working state directory the set of the passing
  steps after any sequence of operations and crashes is the one that the specification computes: a
  nonblank proof or a passed gate report adds its step, a failure removes it, a crash that corrupts
  the file empties the set, and seeding the manifest again changes nothing.\<close>

theorem manifest_defaults_to_fail:
  assumes "lb_ok d f"
  shows "passing d (fold (apply_lb now ts d) ops f) = fold lb_spec ops (passing d f)"
  using assms
proof (induction ops arbitrary: f)
  case (Cons op ops)
  then show ?case using apply_refines [OF Cons.prems, of now ts op] by simp
qed simp

theorem manifest_defaults_to_fail_witness:
  "passing (path_of ''/s'') (fold (apply_lb 5 ''t'' (path_of ''/s''))
      [OInit [''a'', ''b''], OPass ''a'' ''compiled'', OPass ''b'' '' '', OInit [''a''], OGate ''b'' \<lparr>gr_gates = [], gr_passed = True\<rparr>,
       OFail ''a'' ''red'']
      \<lparr>files = [], dirs = [path_of ''/'', path_of ''/s''], noread = [], nowrite = []\<rparr>) = {''b''}"
proof -
  have "lb_ok (path_of ''/s'') \<lparr>files = [], dirs = [path_of ''/'', path_of ''/s''], noread = [], nowrite = []\<rparr>"
    by code_simp
  moreover have "steps_of (load_results (path_of ''/s'') \<lparr>files = [], dirs = [path_of ''/'', path_of ''/s''], noread = [], nowrite = []\<rparr>)
      = Some ([(''contract'', JStr ''default-fail''), (''updated_at'', JNull), (''steps'', JObj [])], [])"
    by code_simp
  then have "passing (path_of ''/s'') \<lparr>files = [], dirs = [path_of ''/'', path_of ''/s''], noread = [], nowrite = []\<rparr> = {}"
    by (simp add: passing_def)
  moreover have "strip ''compiled'' \<noteq> []" "strip '' '' = []" by code_simp+
  ultimately show ?thesis
    by (simp only: manifest_defaults_to_fail [where now = 5 and ts = "''t''"]) auto
qed

end
