(* ===== verification/BuildGates.thy ===== *)
theory BuildGates
  imports GooseTask HollowGate Loopback GitOps
begin

text \<open>
  The gates between a build and its completion: the pure part of \<open>schema_kl.py\<close>, the syntax tier of
  \<open>tools/uv_gate_runner.py\<close> and the gate chain of \<open>goose_runner_lib/completion.py\<close>. Parsers, git, the
  run of a self test, the repair of class names and the reading of bus queries are arguments. A gate
  whose own machinery raises lets the build through; the reasons a gate writes down as a lesson are
  part of the model, what it only logs is not.
\<close>

subsection \<open>The schema linter\<close>

text \<open>The nodes of a module in the order of the walk: calls with the plain name called or the attribute
  called, attribute accesses on a plain name, and text constants.\<close>

datatype anode =
    ACall "string option" string "string option list"
  | AAttr string string
  | AText string
  | AOther

datatype walked = Walked "anode list" | WSyntax string | WRaises

definition CLASS_ALLOW :: "string list" where
  "CLASS_ALLOW = [''metadata'', ''registry'', ''query'', ''classes'', ''__table__'', ''__tablename__'', ''__mapper__'',
     ''__table_args__'', ''__name__'', ''__init__'', ''__dict__'', ''__doc__'', ''__eq__'', ''__ne__'', ''c'']"

definition model_named :: "kl_model list \<Rightarrow> string \<Rightarrow> kl_model option" where
  "model_named ms n = find (\<lambda>m. kl_name m = n) ms"

definition real_tables :: "kl_model list \<Rightarrow> string list" where
  "real_tables ms = filter (\<lambda>t. t \<noteq> []) (map kl_table ms)
     @ [''mcp_signal_scores'', ''mesh_memory'', ''mcp_discovery_candidates'', ''mcp_submissions'']"

definition cols_text :: "kl_model \<Rightarrow> string" where
  "cols_text m = py_repr (JList (map JStr (sort (remdups (kl_cols m)))))"

definition quoted :: "string \<Rightarrow> string" where
  "quoted s = [CHR 0x27] @ s @ [CHR 0x27]"

definition base_text :: string where
  "base_text = ''inline declarative_base() -- do not define a local Base/models; '' @
     ''import the real app.db Base + app.models classes (mirror the exemplar)''"

definition kwarg_text :: "kl_model \<Rightarrow> string \<Rightarrow> string \<Rightarrow> string" where
  "kwarg_text m n k = n @ ''(...): unknown column kwarg '' @ quoted k @ '' (valid columns: '' @ cols_text m @ '')''"

definition attr_text :: "kl_model \<Rightarrow> string \<Rightarrow> string \<Rightarrow> string" where
  "attr_text m n a = n @ ''.'' @ a @ '': unknown attribute (not a column of '' @ n @ ''; valid columns: '' @ cols_text m @ '')''"

definition csv_text :: "string \<Rightarrow> string \<Rightarrow> string" where
  "csv_text v stem = ''data-source hallucination: '' @ quoted v @ '' -- '' @ quoted stem @
     '' is a DATABASE table, not a CSV. Read it from the DB via the write_service '' @
     ''/query endpoint (POST http://127.0.0.1:8772/query, e.g. ws_query('' @ [CHR 0x22] @ ''SELECT ... FROM '' @
     stem @ '' ...'' @ [CHR 0x22] @ '')), never a local CSV file.''"

definition csv_stem :: "string \<Rightarrow> string" where
  "csv_stem low = (let w = last_segment (CHR 0x5C) (last_segment (CHR ''/'') low) in take (length w - 4) w)"

fun lint_node :: "kl_model list \<Rightarrow> anode \<Rightarrow> string list" where
  "lint_node ms (ACall n fname kws) =
     (if fname = ''declarative_base'' then [base_text] else [])
     @ (case Option.bind n (model_named ms) of None \<Rightarrow> []
        | Some m \<Rightarrow> List.map_filter (\<lambda>k. case k of None \<Rightarrow> None
            | Some a \<Rightarrow> if a \<noteq> [] \<and> a \<notin> set (kl_cols m) then Some (kwarg_text m fname a) else None) kws)"
| "lint_node ms (AAttr n a) =
     (case model_named ms n of None \<Rightarrow> []
      | Some m \<Rightarrow> if a \<notin> set (kl_cols m @ kl_rels m @ CLASS_ALLOW) \<and> \<not> startswith a ''__''
          then [attr_text m n a] else [])"
| "lint_node ms (AText v) =
     (let low = lower v; stem = csv_stem low in
      if endswith low ''.csv'' \<and> stem \<in> set (real_tables ms) then [csv_text v stem] else [])"
| "lint_node ms AOther = []"

fun uniq_first :: "'a list \<Rightarrow> 'a list \<Rightarrow> 'a list" where
  "uniq_first seen [] = []"
| "uniq_first seen (x # xs) = (if x \<in> set seen then uniq_first seen xs else x # uniq_first (x # seen) xs)"

text \<open>\<open>sql\<close> are the complaints about bus queries, none without a catalog; \<open>None\<close> when parsing raises.\<close>

definition lint_source :: "(string \<Rightarrow> walked) \<Rightarrow> kl_model list \<Rightarrow> (string \<Rightarrow> string list) \<Rightarrow> string \<Rightarrow> string list option" where
  "lint_source walk ms sql src =
     (if ms = [] then Some []
      else (case walk src of
          WRaises \<Rightarrow> None
        | WSyntax e \<Rightarrow> Some [''syntax error: '' @ e]
        | Walked ns \<Rightarrow> Some (uniq_first [] (concat (map (lint_node ms) ns) @ sql src))))"

subsection \<open>Configuration\<close>

record gatecfg =
  gt_env :: environ
  gt_toml :: "jobj option"
  gt_home :: path
  gt_droot :: path
  gt_lessons :: path
  gt_state :: path
  gt_now :: int
  gt_ts :: string
  gt_git :: "fs \<Rightarrow> string list \<Rightarrow> (int \<times> string) option"
  gt_sha :: "string \<Rightarrow> string"
  gt_runner :: bool
  gt_parse :: "string \<Rightarrow> parsed"
  gt_pyc :: "string \<Rightarrow> bool option"
  gt_html :: "string \<Rightarrow> (nat \<times> bool) option"
  gt_models :: "kl_model list option"
  gt_walk :: "string \<Rightarrow> walked"
  gt_sql :: "string \<Rightarrow> string list"
  gt_casing :: "path \<Rightarrow> fs \<Rightarrow> bool option \<times> fs"
  gt_python :: string
  gt_exec :: "string list \<Rightarrow> (string, string) dict \<Rightarrow> fs \<Rightarrow> (int \<times> string \<times> string) option \<times> fs"

text \<open>The output of the last self test that was red, by directive.\<close>

type_synonym red = "(string, string) dict"

definition note_lesson :: "gatecfg \<Rightarrow> string \<Rightarrow> string \<Rightarrow> string \<Rightarrow> string \<Rightarrow> int \<Rightarrow> fs \<Rightarrow> fs" where
  "note_lesson c subject did kind obs severity f =
     snd (record_lesson (gt_now c) (gt_lessons c) subject did kind obs severity (gt_ts c) f)"

subsection \<open>The single gates\<close>

definition gate_diff_state :: "gatecfg \<Rightarrow> fs \<Rightarrow> (string \<times> bool) option" where
  "gate_diff_state c f = workspace_diff_state (gt_git c f) (gt_sha c)"

definition unchanged_text :: "bool \<Rightarrow> string" where
  "unchanged_text clean = ''ghost-edit: empty diff -- '' @
     (if clean then ''workspace has no uncommitted changes at all'' else ''workspace diff unchanged since build start'') @
     ''. The build reported success but modified no files in the workspace; the edit must actually land on disk.''"

definition edit_diff_gate :: "gatecfg \<Rightarrow> jobj \<Rightarrow> string \<Rightarrow> (string \<times> bool) option \<Rightarrow> fs \<Rightarrow> bool \<times> fs" where
  "edit_diff_gate c d did pre f =
     (if declared_output d (gt_home c) \<noteq> None then (True, f)
      else (case gate_diff_state c f of None \<Rightarrow> (True, f)
        | Some (fp, dirty) \<Rightarrow>
          (if dirty \<and> (case pre of None \<Rightarrow> True | Some p \<Rightarrow> fp \<noteq> fst p) then (True, f)
           else (False, note_lesson c did did ''ghost_edit'' (unchanged_text (\<not> dirty)) 3 f))))"

text \<open>Tier 0; \<open>None\<close> when the parser or the compiler raises something else than a rejection.\<close>

definition tier0_syntax :: "gatecfg \<Rightarrow> path \<Rightarrow> fs \<Rightarrow> bool option" where
  "tier0_syntax c p f =
     (case read_text f p of None \<Rightarrow> Some False
      | Some t \<Rightarrow> (case gt_parse c (content_text t) of
            BadSyntax \<Rightarrow> Some False | ParseRaises \<Rightarrow> None
          | Parsed b \<Rightarrow> gt_pyc c (content_text t)))"

definition tier0_report :: "bool \<Rightarrow> gate_report" where
  "tier0_report ok = \<lparr>gr_gates = [(0, ''syntax'', ok)], gr_passed = ok\<rparr>"

definition syntax_gate :: "gatecfg \<Rightarrow> jobj \<Rightarrow> string \<Rightarrow> fs \<Rightarrow> bool \<times> fs" where
  "syntax_gate c d did f =
     (case declared_output d (gt_home c) of None \<Rightarrow> (True, f)
      | Some p \<Rightarrow>
        (if \<not> gt_runner c \<or> \<not> is_file f p then (True, f)
         else if lower (path_suffix p) \<in> {''.html'', ''.htm''} then
           (case Option.bind (read_text f p) (\<lambda>t. gt_html c (content_text t)) of
              None \<Rightarrow> (True, f) | Some (tags, shown) \<Rightarrow> (tags > 0 \<and> shown, f))
         else if path_suffix p \<noteq> ''.py'' then (True, f)
         else (case tier0_syntax c p f of None \<Rightarrow> (True, f)
           | Some ok \<Rightarrow>
             (case record_gate_result (gt_now c) (gt_ts c) (gt_state c) did (tier0_report ok) f of
                None \<Rightarrow> (True, f) | Some g \<Rightarrow> (ok, g)))))"

definition schema_text :: "string list \<Rightarrow> string" where
  "schema_text vs = ''schema PRM rejected this build -- the module uses a schema not in app.models. '' @
     ''Fix EXACTLY these before rebuilding: '' @ join_with '' | '' (take 8 vs)"

definition schema_prm_gate :: "gatecfg \<Rightarrow> jobj \<Rightarrow> string \<Rightarrow> fs \<Rightarrow> bool \<times> fs" where
  "schema_prm_gate c d did f =
     (case declared_output d (gt_home c) of None \<Rightarrow> (True, f)
      | Some p \<Rightarrow>
        (if \<not> fs_exists f p \<or> lower (path_suffix p) \<noteq> ''.py'' then (True, f)
         else (case (gt_models c, read_text f p) of
             (Some ms, Some t) \<Rightarrow>
               (case lint_source (gt_walk c) ms (gt_sql c) (content_text t) of
                  Some (v # vs) \<Rightarrow> (False, note_lesson c (path_name p) did ''schema_prm'' (schema_text (v # vs)) 3 f)
                | _ \<Rightarrow> (True, f))
           | _ \<Rightarrow> (True, f))))"

definition relative_to :: "path \<Rightarrow> path \<Rightarrow> string option" where
  "relative_to base p =
     (if path_abs p = path_abs base \<and> take (length (path_parts base)) (path_parts p) = path_parts base
      then Some (path_str (Path False (drop (length (path_parts base)) (path_parts p)))) else None)"

definition hollow_text :: "string \<Rightarrow> string" where
  "hollow_text reason = ''no-hollow gate rejected this build -- '' @ reason @ ''. The module must read the '' @
     ''REAL data layer: import from app.db / app.models (get_session), mirror '' @
     ''verdict_breakdown_api.py, and carry NO mock/placeholder/in-memory DB. '' @
     ''Rebuild it against the real schema.''"

definition no_hollow_gate :: "gatecfg \<Rightarrow> jobj \<Rightarrow> string \<Rightarrow> fs \<Rightarrow> bool \<times> fs" where
  "no_hollow_gate c d did f =
     (if flag (gt_env c) (gt_toml c) (Some (gt_droot c)) f ''builder.no_hollow_gate'' = Some False then (True, f)
      else (case declared_output d (gt_home c) of None \<Rightarrow> (True, f)
        | Some p \<Rightarrow>
          (if \<not> fs_exists f p then (True, f)
           else (case read_text f p of None \<Rightarrow> (True, f)
             | Some t \<Rightarrow>
               (let rel = (case relative_to (gt_home c) p of None \<Rightarrow> path_name p
                      | Some r \<Rightarrow> replace_char (CHR 0x5C) ''/'' r) in
                case hollow_scaffold_scan (gt_parse c) rel (content_text t) of
                  Some (Some reason) \<Rightarrow>
                    (False, note_lesson c (path_name p) did ''no_hollow'' (hollow_text reason) 3 f)
                | _ \<Rightarrow> (True, f))))))"

text \<open>\<open>str.isidentifier\<close> on code points below 256.\<close>

definition id_start :: "char \<Rightarrow> bool" where
  "id_start c = (let n = chr_code c in is_alpha_ascii c \<or> c = CHR ''_'' \<or> n \<in> {170, 181, 186}
     \<or> (192 \<le> n \<and> n \<noteq> 215 \<and> n \<noteq> 247))"

definition is_identifier :: "string \<Rightarrow> bool" where
  "is_identifier s = (s \<noteq> [] \<and> id_start (hd s)
     \<and> list_all (\<lambda>c. id_start c \<or> is_digit c \<or> chr_code c = 183) s)"

text \<open>\<open>os.path.relpath\<close> and \<open>splitext\<close>: the module that \<open>-m\<close> runs, if the file can be one.\<close>

definition splitext_root :: "string \<Rightarrow> string" where
  "splitext_root s =
     (let base = last_segment (CHR ''/'') s; dir = take (length s - length base) s;
          dots = takeWhile (\<lambda>c. c = CHR ''.'') base in
      case last_dot (drop (length dots) base) of None \<Rightarrow> s
      | Some i \<Rightarrow> dir @ dots @ take i (drop (length dots) base))"

definition dotted_module :: "path \<Rightarrow> path \<Rightarrow> string option" where
  "dotted_module home p =
     (let rel = relpath (path_str p) (path_str home) in
      if startswith rel ''..'' then None
      else (let parts = split_on (CHR ''/'') (splitext_root rel) in
        if list_all is_identifier parts then Some (join_with ''.'' parts) else None))"

definition selftest_argv :: "gatecfg \<Rightarrow> path \<Rightarrow> string list" where
  "selftest_argv c p = (case dotted_module (gt_home c) p of
       None \<Rightarrow> [gt_python c, path_str p] | Some m \<Rightarrow> [gt_python c, ''-m'', m])"

definition selftest_env :: "gatecfg \<Rightarrow> (string, string) dict" where
  "selftest_env c = [(''DATABASE_URL'', ''sqlite://''), (''CLERK_PUBLISHABLE_KEY'', []),
     (''PYTHONPATH'', path_str (gt_home c) @ '':'' @ (case gt_env c ''PYTHONPATH'' of None \<Rightarrow> [] | Some s \<Rightarrow> s))]"

definition repaired_source :: "gatecfg \<Rightarrow> path \<Rightarrow> content \<Rightarrow> fs \<Rightarrow> content \<times> fs" where
  "repaired_source c p src f =
     (if gt_env c ''ZO_MODEL_CASING_AUTOFIX'' = Some ''0'' then (src, f)
      else (case gt_casing c p f of
          (Some True, g) \<Rightarrow> (case read_text g p of None \<Rightarrow> src | Some t \<Rightarrow> t, g)
        | (_, g) \<Rightarrow> (src, g)))"

definition selftest_gate :: "gatecfg \<Rightarrow> jobj \<Rightarrow> string \<Rightarrow> fs \<times> red \<Rightarrow> bool \<times> fs \<times> red" where
  "selftest_gate c d did w =
     (case declared_output d (gt_home c) of None \<Rightarrow> (True, w)
      | Some p \<Rightarrow>
        (case (if fs_exists (fst w) p then read_text (fst w) p else None) of None \<Rightarrow> (True, w)
         | Some src0 \<Rightarrow>
           (let (src, f1) = repaired_source c p src0 (fst w) in
            if \<not> substr_in ''__main__'' (content_text src) then (True, f1, snd w)
            else (case gt_exec c (selftest_argv c p) (selftest_env c) f1 of
                (None, f2) \<Rightarrow> (True, f2, snd w)
              | (Some (code, printed, errout), f2) \<Rightarrow>
                (let combined = printed @ [newline] @ errout in
                 case classify_selftest f2 (gt_home c) code combined printed of
                   VPass \<Rightarrow> (True, f2, ddel did (snd w))
                 | VRed \<Rightarrow> (False, f2, dput did (strip combined) (snd w))
                 | VUnknown \<Rightarrow> (True, f2, snd w))))))"

subsection \<open>The chain\<close>

definition GATE_REASONS :: "(string, string) dict" where
  "GATE_REASONS = [
     (''engine_failed'', ''engine reported failure (no build produced)''),
     (''output_missing'', ''declared output_file was not produced''),
     (''edit_diff'', ''ghost-edit: empty diff -- edit-class build produced no edit''),
     (''syntax'', ''declared output failed the syntax/parse gate''),
     (''schema_prm'', ''declared output failed the schema-PRM gate''),
     (''no_hollow'', ''declared output failed the no-hollow gate''),
     (''selftest'', ''module __main__ self-test ran and did not PASS'')]"

definition DEFAULT_GATE :: string where
  "DEFAULT_GATE = ''output_missing''"

definition gate_error_text :: "string option \<Rightarrow> string" where
  "gate_error_text gate =
     (let key = (case gate of None \<Rightarrow> DEFAULT_GATE | Some g \<Rightarrow> if g = [] then DEFAULT_GATE else g) in
      case dget GATE_REASONS key of
        None \<Rightarrow> ''gate=unattributed: build rejected by an unrecognised gate ('' @ key @ '')''
      | Some reason \<Rightarrow> ''gate='' @ key @ '': '' @ reason)"

text \<open>The gate that rejected the build, nothing when all let it through.\<close>

definition gate_chain :: "gatecfg \<Rightarrow> jobj \<Rightarrow> string \<Rightarrow> (string \<times> bool) option \<Rightarrow> bool \<Rightarrow> fs \<times> red \<Rightarrow>
    string option \<times> fs \<times> red" where
  "gate_chain c d did pre engine_ok w =
     (if \<not> engine_ok then (Some ''engine_failed'', w)
      else if \<not> output_confirmed (fst w) d (gt_home c) MIN_OUTPUT_BYTES then (Some ''output_missing'', w)
      else (case edit_diff_gate c d did pre (fst w) of
          (False, f1) \<Rightarrow> (Some ''edit_diff'', f1, snd w)
        | (True, f1) \<Rightarrow>
          (case syntax_gate c d did f1 of
             (False, f2) \<Rightarrow> (Some ''syntax'', f2, snd w)
           | (True, f2) \<Rightarrow>
             (case schema_prm_gate c d did f2 of
                (False, f3) \<Rightarrow> (Some ''schema_prm'', f3, snd w)
              | (True, f3) \<Rightarrow>
                (case no_hollow_gate c d did f3 of
                   (False, f4) \<Rightarrow> (Some ''no_hollow'', f4, snd w)
                 | (True, f4) \<Rightarrow>
                   (case selftest_gate c d did (f4, snd w) of
                      (ok, w5) \<Rightarrow> (if ok then None else Some ''selftest'', w5)))))))"

subsection \<open>The feedback of a red self test\<close>

definition RAW_SQL_PATTERNS :: "(string \<times> re) list" where
  "RAW_SQL_PATTERNS = [
     (''raw INSERT statement'', rseqs [RBound, rilit ''INSERT'', rplus (RChr is_space), rilit ''INTO'', RBound]),
     (''VALUES (...) placeholder list'', rseqs [RBound, rilit ''VALUES'', RStar (RChr is_space), rlit ''('']),
     (''execute()/executemany() on a SQL string literal'',
        rseqs [rilit ''.execute'', ropt (rilit ''many''), RStar (RChr is_space), rlit ''('', RStar (RChr is_space), RChr quote_char]),
     (''sqlalchemy text() wrapping a SQL string'',
        rseqs [RBound, rilit ''text'', RStar (RChr is_space), rlit ''('', RStar (RChr is_space), RChr quote_char]),
     (''raw DBAPI cursor'', rseqs [rilit ''.cursor'', RStar (RChr is_space), rlit ''(''])]"

definition raw_sql_lint :: "string \<Rightarrow> string" where
  "raw_sql_lint code =
     (let hits = sort (map fst (filter (\<lambda>p. re_found (snd p) code) RAW_SQL_PATTERNS)) in
      if code = [] \<or> hits = [] then [] else ''raw-SQL signals: '' @ join_with ''; '' hits)"

definition orm_text :: "string \<Rightarrow> string" where
  "orm_text lint = ''Static check of your last output -- '' @ lint @ ''. You wrote raw SQL; do NOT. '' @
     ''Use the SQLAlchemy ORM only: import the model class from app.models, query '' @
     ''with select()/session, and SEED rows via session.add(ModelName(col=value, '' @
     ''...)) setting every required column -- never an INSERT/SELECT string, '' @
     ''execute() on a string, or a hand-counted VALUES (?, ?, ...) placeholder list '' @
     ''(that placeholder/column mismatch is exactly what failed).''"

definition selftest_feedback :: "string \<Rightarrow> string \<Rightarrow> string" where
  "selftest_feedback err code =
     (let tail = last_n 1200 (strip err); lint = raw_sql_lint code in
      join_with [newline]
        ([[],
          ''## PREVIOUS ATTEMPT FAILED ITS ACCEPTANCE SELF-TEST -- FIX EXACTLY THIS'',
          ''Your last output was written to disk and its __main__ self-test was run.'',
          ''It did NOT print PASS. The captured stdout+stderr tail was:'',
          fence,
          if tail = [] then ''(no output captured)'' else tail,
          fence,
          ''Correct the specific error shown above and re-emit the COMPLETE file.'']
         @ (if lint = [] then [] else [[], orm_text lint])))"


subsection \<open>What a gate touches\<close>

lemma note_lesson_get: "q \<notin> {lesson_path (gt_lessons c) subject, with_name (lesson_path (gt_lessons c) subject)
      (path_name (lesson_path (gt_lessons c) subject) @ ''.tmp'')} \<Longrightarrow>
    fs_get (note_lesson c subject did kind obs n f) q = fs_get f q"
  by (auto simp: note_lesson_def record_lesson_def Let_def atomic_write_get mkdirs_get split: option.splits)

text \<open>A green gate of the chain has changed at most the manifest.\<close>

lemma edit_diff_passed: "edit_diff_gate c d did pre f = (True, g) \<Longrightarrow> g = f"
  by (auto simp: edit_diff_gate_def split: option.splits prod.splits if_splits)

lemma schema_passed: "schema_prm_gate c d did f = (True, g) \<Longrightarrow> g = f"
  by (auto simp: schema_prm_gate_def split: option.splits if_splits list.splits)

lemma hollow_passed: "no_hollow_gate c d did f = (True, g) \<Longrightarrow> g = f"
  by (auto simp: no_hollow_gate_def Let_def split: option.splits if_splits)

definition manifest_files :: "gatecfg \<Rightarrow> path set" where
  "manifest_files c = {results_file (gt_state c), with_name (results_file (gt_state c)) ''test-results.json.tmp''}"

lemma put_steps_frame:
  "put_steps now ts d m st f = Some g \<Longrightarrow> q \<notin> {results_file d, with_name (results_file d) ''test-results.json.tmp''} \<Longrightarrow>
    fs_get g q = fs_get f q \<and> noread g = noread f"
  unfolding put_steps_def save_results_def
  using atomic_write_get [of now "results_file d"] atomic_write_frame [of now "results_file d"]
  by (auto simp: results_file_def)

lemma syntax_frame:
  assumes "syntax_gate c d did f = (b, g)" and "q \<notin> manifest_files c"
  shows "fs_get g q = fs_get f q \<and> noread g = noread f"
proof -
  have "record_gate_result (gt_now c) (gt_ts c) (gt_state c) did r f = Some h \<Longrightarrow>
      fs_get h q = fs_get f q \<and> noread h = noread f" for r h
    using assms(2) put_steps_frame
    by (fastforce simp: record_gate_result_def record_pass_def record_fail_def manifest_files_def split: if_splits option.splits)
  with assms(1) show ?thesis
    by (auto simp: syntax_gate_def Let_def split: option.splits if_splits prod.splits)
qed

lemma gate_result_recorded:
  assumes "work_dir f (gt_state c)" and "steps_of (load_results (gt_state c) f) \<noteq> None"
  shows "record_gate_result (gt_now c) (gt_ts c) (gt_state c) did r f \<noteq> None"
proof -
  obtain m st where m: "steps_of (load_results (gt_state c) f) = Some (m, st)" using assms(2) by fast
  with m put_steps_works [OF assms(1)] gate_detail_nonblank [of r] show ?thesis
    by (fastforce simp: record_gate_result_def record_pass_def record_fail_def)
qed

lemma syntax_passed:
  assumes "syntax_gate c d did f = (True, g)" and "declared_output d (gt_home c) = Some p" and "is_file f p"
    and "gt_runner c" and "path_suffix p = ''.py''"
    and "\<And>r. record_gate_result (gt_now c) (gt_ts c) (gt_state c) did r f \<noteq> None"
  shows "tier0_syntax c p f \<noteq> Some False"
proof
  assume "tier0_syntax c p f = Some False"
  moreover obtain h where "record_gate_result (gt_now c) (gt_ts c) (gt_state c) did (tier0_report False) f = Some h"
    using assms(6) by blast
  moreover have "lower ''.py'' \<notin> {''.html'', ''.htm''}" by code_simp
  ultimately show False using assms(1-5) by (simp add: syntax_gate_def)
qed

text \<open>A manifest that is a document without steps cannot be written to, and that waives the syntax gate.\<close>

lemma syntax_gate_waived:
  assumes "load_results (gt_state c) f = JObj []"
  shows "fst (syntax_gate c d did f) \<or>
    (\<exists>p. declared_output d (gt_home c) = Some p \<and> lower (path_suffix p) \<in> {''.html'', ''.htm''})"
proof -
  have "record_gate_result (gt_now c) (gt_ts c) (gt_state c) did r f = None" for r
    using assms by (simp add: record_gate_result_def record_pass_def record_fail_def steps_of_def)
  then show ?thesis by (auto simp: syntax_gate_def split: option.splits)
qed

text \<open>C8: what a Python build must survive to be completed, where the gate runner is installed, its report can be
  written to the manifest and the output is not one of the manifest's own files (without the first two the syntax gate
  lets everything through). When the gate chain lets such an output through, its engine reported success, the declared
  file was there with the minimum size and could be read, neither the parser nor the compiler rejected its text (one that
  fails in another way rejects nothing), the schema linter had nothing to say about it, the hollow rule found no fault
  unless it was switched off, and where its self test ran, the verdict was not red. The gates up to the self test changed
  no file but the manifest.\<close>

theorem gate_chain_is_strict:
  assumes "gate_chain c d did pre engine_ok (f, red) = (None, g, red2)"
    and "declared_output d (gt_home c) = Some p" and "path_suffix p = ''.py''" and "gt_runner c"
    and "p \<notin> manifest_files c" and "\<And>r. record_gate_result (gt_now c) (gt_ts c) (gt_state c) did r f \<noteq> None"
  shows "engine_ok \<and> (\<exists>x h. fs_get f p = Some x \<and> content_size (body x) \<ge> MIN_OUTPUT_BYTES
    \<and> read_text f p = Some (body x)
    \<and> gt_parse c (content_text (body x)) \<noteq> BadSyntax
    \<and> (\<forall>b. gt_parse c (content_text (body x)) = Parsed b \<longrightarrow> gt_pyc c (content_text (body x)) \<noteq> Some False)
    \<and> (\<forall>ms v vs. gt_models c = Some ms \<longrightarrow> lint_source (gt_walk c) ms (gt_sql c) (content_text (body x)) \<noteq> Some (v # vs))
    \<and> (\<forall>q. q \<notin> manifest_files c \<longrightarrow> fs_get h q = fs_get f q)
    \<and> (flag (gt_env c) (gt_toml c) (Some (gt_droot c)) h ''builder.no_hollow_gate'' = Some False
       \<or> (\<forall>reason. hollow_scaffold_scan (gt_parse c) (case relative_to (gt_home c) p of None \<Rightarrow> path_name p
            | Some r \<Rightarrow> replace_char (CHR 0x5C) ''/'' r) (content_text (body x)) \<noteq> Some (Some reason)))
    \<and> (\<forall>src f1 code printed errout f2. repaired_source c p (body x) h = (src, f1) \<longrightarrow> substr_in ''__main__'' (content_text src) \<longrightarrow>
         gt_exec c (selftest_argv c p) (selftest_env c) f1 = (Some (code, printed, errout), f2) \<longrightarrow>
         classify_selftest f2 (gt_home c) code (printed @ [newline] @ errout) printed \<noteq> VRed))"
proof -
  have ok: "engine_ok" "output_confirmed f d (gt_home c) MIN_OUTPUT_BYTES"
    using assms(1) by (auto simp: gate_chain_def split: if_splits)
  have ed: "edit_diff_gate c d did pre f = (True, f)" using assms(2) by (simp add: edit_diff_gate_def)
  obtain h where sy: "syntax_gate c d did f = (True, h)"
    using assms(1) ok ed by (auto simp: gate_chain_def split: prod.splits bool.splits if_splits)
  have sc: "schema_prm_gate c d did h = (True, h)"
    using assms(1) ok ed sy schema_passed
    by (fastforce simp: gate_chain_def split: prod.splits bool.splits if_splits)
  have ho: "no_hollow_gate c d did h = (True, h)"
    using assms(1) ok ed sy sc hollow_passed
    by (fastforce simp: gate_chain_def split: prod.splits bool.splits if_splits)
  have st: "fst (selftest_gate c d did (h, red))"
    using assms(1) ok ed sy sc ho by (auto simp: gate_chain_def split: prod.splits if_splits)
  obtain x where x: "fs_get f p = Some x" "content_size (body x) \<ge> MIN_OUTPUT_BYTES"
    using ok(2) assms(2) by (auto simp: output_confirmed_def output_present_def split: option.splits)
  have fr: "\<forall>q. q \<notin> manifest_files c \<longrightarrow> fs_get h q = fs_get f q \<and> noread h = noread f"
    using syntax_frame [OF sy] by blast
  have hx: "fs_get h p = Some x" "noread h = noread f" using fr assms(5) x(1) by auto
  have t0: "tier0_syntax c p f \<noteq> Some False"
    using syntax_passed [OF sy assms(2) _ assms(4,3,6)] x(1) by (simp add: is_file_def)
  from t0 have rd: "read_text f p = Some (body x)" and ps: "gt_parse c (content_text (body x)) \<noteq> BadSyntax"
    using x(1) by (auto simp: tier0_syntax_def read_text_def split: if_splits option.splits)
  have pc: "\<forall>b. gt_parse c (content_text (body x)) = Parsed b \<longrightarrow> gt_pyc c (content_text (body x)) \<noteq> Some False"
    using t0 rd by (auto simp: tier0_syntax_def)
  from rd have rdh: "read_text h p = Some (body x)" using hx x(1) by (auto simp: read_text_def split: if_splits)
  have ex: "fs_exists h p" using hx by (simp add: fs_exists_def is_file_def)
  have py: "lower (path_suffix p) = ''.py''" unfolding assms(3) by code_simp
  have "\<forall>ms v vs. gt_models c = Some ms \<longrightarrow> lint_source (gt_walk c) ms (gt_sql c) (content_text (body x)) \<noteq> Some (v # vs)"
    using sc ex py rdh assms(2) by (auto simp: schema_prm_gate_def)
  moreover have "flag (gt_env c) (gt_toml c) (Some (gt_droot c)) h ''builder.no_hollow_gate'' = Some False
       \<or> (\<forall>reason. hollow_scaffold_scan (gt_parse c) (case relative_to (gt_home c) p of None \<Rightarrow> path_name p
            | Some r \<Rightarrow> replace_char (CHR 0x5C) ''/'' r) (content_text (body x)) \<noteq> Some (Some reason))"
    using ho ex rdh assms(2) by (auto simp: no_hollow_gate_def Let_def)
  moreover have "\<forall>src f1 code printed errout f2. repaired_source c p (body x) h = (src, f1) \<longrightarrow> substr_in ''__main__'' (content_text src) \<longrightarrow>
         gt_exec c (selftest_argv c p) (selftest_env c) f1 = (Some (code, printed, errout), f2) \<longrightarrow>
         classify_selftest f2 (gt_home c) code (printed @ [newline] @ errout) printed \<noteq> VRed"
    using st ex rdh assms(2) by (auto simp: selftest_gate_def Let_def)
  ultimately show ?thesis using ok(1) x rd ps pc fr by blast
qed


definition ok_cfg :: gatecfg where
  "ok_cfg = \<lparr>gt_env = Map.empty, gt_toml = None, gt_home = path_of ''/h'', gt_droot = path_of ''/h/d'',
     gt_lessons = path_of ''/h/l'', gt_state = path_of ''/s'', gt_now = 5, gt_ts = ''T'', gt_git = (\<lambda>f a. None),
     gt_sha = id, gt_runner = True, gt_parse = (\<lambda>s. Parsed []), gt_pyc = (\<lambda>s. Some True), gt_html = (\<lambda>s. None),
     gt_models = Some [\<lparr>kl_name = ''Org'', kl_table = ''orgs'', kl_cols = [''id''], kl_rels = [], kl_meta = [], kl_required = []\<rparr>],
     gt_walk = (\<lambda>s. Walked [AAttr ''Org'' ''id'']), gt_sql = (\<lambda>s. []), gt_casing = (\<lambda>p f. (None, f)), gt_python = ''python'',
     gt_exec = (\<lambda>a e f. (Some (0, ''PASS'', []), f))\<rparr>"

definition ok_fs :: fs where
  "ok_fs = \<lparr>files = [(path_of ''/h/x.py'', \<lparr>body = Text (''from app.models import Org # __main__ block prints PASS''), mtime = 1\<rparr>)],
     dirs = [path_of ''/'', path_of ''/h'', path_of ''/s''], noread = [], nowrite = []\<rparr>"

theorem gate_chain_is_strict_witness:
  "fst (gate_chain ok_cfg [(''output_file'', JStr ''x.py'')] ''d1'' None True (ok_fs, [])) = None
   \<and> (\<exists>x. fs_get ok_fs (path_of ''/h/x.py'') = Some x \<and> content_size (body x) \<ge> MIN_OUTPUT_BYTES)"
proof -
  have n: "fst (gate_chain ok_cfg [(''output_file'', JStr ''x.py'')] ''d1'' None True (ok_fs, [])) = None" by code_simp
  then obtain g r where ch: "gate_chain ok_cfg [(''output_file'', JStr ''x.py'')] ''d1'' None True (ok_fs, []) = (None, g, r)"
    by (metis prod.collapse)
  have o: "declared_output [(''output_file'', JStr ''x.py'')] (gt_home ok_cfg) = Some (path_of ''/h/x.py'')"
    "path_suffix (path_of ''/h/x.py'') = ''.py''" "gt_runner ok_cfg" "path_of ''/h/x.py'' \<notin> manifest_files ok_cfg"
    unfolding manifest_files_def by code_simp+
  have "work_dir ok_fs (gt_state ok_cfg)" "steps_of (load_results (gt_state ok_cfg) ok_fs) \<noteq> None" by code_simp+
  then have w: "record_gate_result (gt_now ok_cfg) (gt_ts ok_cfg) (gt_state ok_cfg) did r ok_fs \<noteq> None" for did r
    by (rule gate_result_recorded)
  show ?thesis using n gate_chain_is_strict [OF ch o w] by blast
qed

end
