(* ===== verification/SpineRouter.thy ===== *)
theory SpineRouter
  imports PyFs PyRegex
begin

text \<open>
  \<open>tools/spine_mount_router.py\<close>: the deterministic part of the router that the runner asks before it
  spends a build on an application surface: the mounts of the generated spine, the overlap of words,
  and the classification of a directive as a route, a new service or an orphan.
\<close>

definition REJECT :: string where
  "REJECT = ''REJECT_UNSPINED''"

definition FALLBACK_MOUNTS :: "string list" where
  "FALLBACK_MOUNTS = [''dashboard_summary_api'', ''facet_enum_service'', ''ask_answer_api'', ''config_scan_api'']"

definition STOPWORDS :: "string list" where
  "STOPWORDS = [''api'', ''service'', ''svc'', ''build'', ''scaffold'', ''add'', ''fix'', ''create'', ''new'', ''update'',
     ''init'', ''contract'', ''logic'', ''router'', ''route'', ''toml'', ''the'', ''a'', ''an'', ''for'', ''to'',
     ''of'', ''and'', ''with'', ''endpoint'', ''view'', ''page'', ''get'', ''post'', ''handler'', ''module'',
     ''directive'', ''app'', ''ui'', ''html'', ''json'', ''def'', ''class'', ''import'', ''serve'', ''server'']"

definition word_part :: "char \<Rightarrow> bool" where
  "word_part c = (is_lower_ascii c \<or> is_digit c)"

text \<open>The words between the separators; the empty ones go with the short ones.\<close>

definition tokens :: "string \<Rightarrow> string list" where
  "tokens s = remdups (filter (\<lambda>t. length t \<ge> 2 \<and> t \<notin> set STOPWORDS)
     (split_on (CHR '' '') (map (\<lambda>c. if word_part c then c else CHR '' '') (lower s))))"

definition MOUNT_NAME :: re where
  "MOUNT_NAME = rseqs [rlit ([CHR 0x27] @ ''name'' @ [CHR 0x27] @ '':''), RStar (RChr is_space), rlit [CHR 0x27],
     RGroup 1 (rplus (RChr (\<lambda>c. c \<noteq> CHR 0x27))), rlit [CHR 0x27]]"

definition discover_mounts :: "fs \<Rightarrow> path \<Rightarrow> string list" where
  "discover_mounts f spine =
     (case read_text f spine of None \<Rightarrow> FALLBACK_MOUNTS
      | Some t \<Rightarrow>
        (let uniq = sort (remdups (map (\<lambda>m. case mgroup m 1 of None \<Rightarrow> [] | Some g \<Rightarrow> g)
               (re_finditer MOUNT_NAME (content_text t))))
         in if uniq \<noteq> [] then uniq else FALLBACK_MOUNTS))"

definition overlap :: "string list \<Rightarrow> string \<Rightarrow> nat" where
  "overlap gtok m = length (filter (\<lambda>t. t \<in> set (tokens m)) gtok)"

fun best_mount :: "string list \<Rightarrow> string list \<Rightarrow> string \<times> nat \<Rightarrow> string \<times> nat" where
  "best_mount gtok [] b = b"
| "best_mount gtok (m # ms) b =
     best_mount gtok ms (if overlap gtok m > snd b then (m, overlap gtok m) else b)"

definition route_deterministic :: "string \<Rightarrow> string list \<Rightarrow> string" where
  "route_deterministic goal mounts =
     (let gtok = tokens goal in
      if gtok = [] then REJECT
      else (let (best, score) = best_mount gtok mounts (REJECT, 0) in if score \<ge> 1 then best else REJECT))"

definition BUILD_PREFIXES :: "string list" where
  "BUILD_PREFIXES = [''build_'', ''scaffold_'', ''create_'', ''add_'', ''make_'', ''wire_'']"

definition STAGE_SUFFIXES :: "string list" where
  "STAGE_SUFFIXES = [''_init'', ''_contract'', ''_logic'', ''_router'', ''_service_toml'', ''_handler'', ''_view'',
     ''_model'', ''_schema'']"

definition valid_service :: "string \<Rightarrow> bool" where
  "valid_service nm = (nm \<noteq> [] \<and> is_lower_ascii (hd nm) \<and> length nm \<ge> 3
     \<and> list_all (\<lambda>c. word_part c \<or> c = CHR ''_'') nm \<and> nm \<notin> {''api'', ''service'', ''svc''})"

definition candidate_service :: "string \<Rightarrow> string \<times> string \<times> bool" where
  "candidate_service did =
     (let orig = lower (strip did);
          (full, had_prefix) = (case find (startswith orig) BUILD_PREFIXES of
              None \<Rightarrow> (orig, False) | Some p \<Rightarrow> (drop (length p) orig, True));
          (cand, had_suffix) = (case find (\<lambda>s. endswith full s \<and> length full > length s) STAGE_SUFFIXES of
              None \<Rightarrow> (full, False) | Some s \<Rightarrow> (take (length full - length s) full, True))
      in (full, cand, had_prefix \<and> had_suffix \<and> cand \<noteq> []))"

datatype decision = Route string | NewService string | Orphan

definition classify_directive :: "string \<Rightarrow> string \<Rightarrow> string list \<Rightarrow> decision" where
  "classify_directive goal did mounts =
     (let (full, cand, structured) = candidate_service did in
      if full \<noteq> [] \<and> full \<in> set mounts then Route full
      else if cand \<noteq> [] \<and> cand \<in> set mounts then Route cand
      else if structured \<and> valid_service cand then NewService cand
      else (let lex = route_deterministic goal mounts in if lex \<noteq> REJECT then Route lex else Orphan))"

subsection \<open>What the lexical router answers\<close>

lemma best_mount_spec:
  "best_mount gtok ms (b, n) = (m, k) \<Longrightarrow> n \<le> k \<and> (\<forall>x \<in> set ms. overlap gtok x \<le> k)
    \<and> (m = b \<and> k = n \<or> m \<in> set ms \<and> k = overlap gtok m \<and> k > n)"
proof (induction ms arbitrary: b n)
  case (Cons x xs)
  show ?case
  proof (cases "overlap gtok x > n")
    case True
    then have "best_mount gtok xs (x, overlap gtok x) = (m, k)" using Cons.prems by simp
    from Cons.IH [OF this] True show ?thesis by auto
  next
    case False
    then have "best_mount gtok xs (b, n) = (m, k)" using Cons.prems by simp
    from Cons.IH [OF this] False show ?thesis by auto
  qed
qed simp

lemma overlap_empty: "overlap [] m = 0"
  by (simp add: overlap_def)

lemma route_spec:
  assumes "REJECT \<notin> set mounts"
  shows "(route_deterministic goal mounts = REJECT \<longleftrightarrow> (\<forall>m \<in> set mounts. overlap (tokens goal) m = 0))
    \<and> (route_deterministic goal mounts \<noteq> REJECT \<longrightarrow> route_deterministic goal mounts \<in> set mounts
        \<and> (\<forall>m \<in> set mounts. overlap (tokens goal) m \<le> overlap (tokens goal) (route_deterministic goal mounts)))"
proof -
  obtain m k where mk: "best_mount (tokens goal) mounts (REJECT, 0) = (m, k)" by fastforce
  note b = best_mount_spec [OF mk]
  have r: "route_deterministic goal mounts = (if tokens goal = [] then REJECT else if k \<ge> 1 then m else REJECT)"
    by (simp add: route_deterministic_def mk)
  show ?thesis
  proof (cases "tokens goal = []")
    case True
    then show ?thesis by (simp add: r overlap_empty)
  next
    case False
    then show ?thesis using b assms by (cases "k = 0") (auto simp: r)
  qed
qed

subsection \<open>Structured directives\<close>

lemma lower_part: "word_part c \<or> c = CHR ''_'' \<Longrightarrow> lower_char c = c \<and> \<not> is_space c"
proof -
  have "list_all (\<lambda>c. word_part c \<or> c = CHR ''_'' \<longrightarrow> lower_char c = c \<and> \<not> is_space c) Enum.enum"
    by code_simp
  then show "word_part c \<or> c = CHR ''_'' \<Longrightarrow> lower_char c = c \<and> \<not> is_space c"
    unfolding list_all_iff using in_enum by blast
qed

lemma plain_id_kept: "list_all (\<lambda>c. word_part c \<or> c = CHR ''_'') s \<Longrightarrow> lower (strip s) = s"
proof -
  assume s: "list_all (\<lambda>c. word_part c \<or> c = CHR ''_'') s"
  have d: "list_all (\<lambda>c. word_part c \<or> c = CHR ''_'') t \<Longrightarrow> dropWhile is_space t = t" for t
    using lower_part by (cases t) auto
  have "strip s = s" using d [OF s] d [of "rev s"] s by (simp add: strip_def)
  moreover have "map lower_char s = s"
    using s lower_part by (simp add: list_all_iff map_idI)
  ultimately show ?thesis by (simp add: lower_def)
qed

lemma find_unique: "p \<in> set xs \<Longrightarrow> P p \<Longrightarrow> (\<And>x. x \<in> set xs \<Longrightarrow> x \<noteq> p \<Longrightarrow> \<not> P x) \<Longrightarrow> find P xs = Some p"
  by (induction xs) auto

text \<open>No affix of the two lists begins or ends another of its list.\<close>

definition apart :: "string list \<Rightarrow> bool" where
  "apart ps = list_all (\<lambda>p. list_all (\<lambda>x. x = p \<or> (\<not> startswith p x \<and> \<not> startswith x p)) ps) ps"

lemma apart_affixes: "apart BUILD_PREFIXES" "apart (map rev STAGE_SUFFIXES)"
  by code_simp+

lemma startswith_other: "\<not> startswith p x \<Longrightarrow> \<not> startswith x p \<Longrightarrow> \<not> startswith (p @ s) x"
  unfolding startswith_iff by (auto simp: append_eq_append_conv2)

lemma prefix_found:
  assumes "p \<in> set BUILD_PREFIXES"
  shows "find (startswith (p @ s)) BUILD_PREFIXES = Some p"
proof (rule find_unique [OF assms])
  show "\<not> startswith (p @ s) x" if "x \<in> set BUILD_PREFIXES" "x \<noteq> p" for x
    using apart_affixes(1) assms that by (intro startswith_other) (auto simp: apart_def list_all_iff)
qed simp

lemma suffix_found:
  assumes "q \<in> set STAGE_SUFFIXES" and "s \<noteq> []"
  shows "find (\<lambda>x. endswith (s @ q) x \<and> length (s @ q) > length x) STAGE_SUFFIXES = Some q"
proof (rule find_unique [OF assms(1)])
  show "endswith (s @ q) q \<and> length (s @ q) > length q" using assms(2) by (simp add: endswith_def)
  show "\<not> (endswith (s @ q) x \<and> length (s @ q) > length x)" if "x \<in> set STAGE_SUFFIXES" "x \<noteq> q" for x
  proof -
    have "\<not> startswith (rev q @ rev s) (rev x)"
      using apart_affixes(2) assms(1) that by (intro startswith_other) (auto simp: apart_def list_all_iff)
    then show ?thesis by (simp add: endswith_def)
  qed
qed

lemma candidate_of_structured:
  assumes "p \<in> set BUILD_PREFIXES" and "q \<in> set STAGE_SUFFIXES" and "valid_service nm"
  shows "candidate_service (p @ nm @ q) = (nm @ q, nm, True)"
proof -
  have n: "nm \<noteq> []" using assms(3) by (auto simp: valid_service_def)
  have "list_all (\<lambda>c. word_part c \<or> c = CHR ''_'') p" "list_all (\<lambda>c. word_part c \<or> c = CHR ''_'') q"
    using assms(1,2) by (auto simp: BUILD_PREFIXES_def STAGE_SUFFIXES_def word_part_def is_lower_ascii_def Let_def chr_code_Char)
  then have "lower (strip (p @ nm @ q)) = p @ nm @ q"
    using assms(3) by (intro plain_id_kept) (auto simp: valid_service_def)
  then show ?thesis using prefix_found [OF assms(1), of "nm @ q"] suffix_found [OF assms(2) n] n
    by (simp add: candidate_service_def)
qed

text \<open>C33: the spine gate never turns legitimate work away. A directive that builds or scaffolds one
  stage of a service with a proper name is a route to its mount or a new service, whatever its goal
  says; an orphan is exactly a directive that names no mount, is no such build, and shares no
  distinctive word with any mount; and a route goes to a mount that exists.\<close>

theorem spine_keeps_service_builds:
  assumes "p \<in> set BUILD_PREFIXES" and "q \<in> set STAGE_SUFFIXES" and "valid_service nm" and "REJECT \<notin> set mounts"
  shows "classify_directive goal (p @ nm @ q) mounts
       = (if nm @ q \<in> set mounts then Route (nm @ q) else if nm \<in> set mounts then Route nm else NewService nm)
    \<and> (classify_directive goal did mounts = Orphan \<longleftrightarrow>
        (let (full, cand, structured) = candidate_service did in
          (full = [] \<or> full \<notin> set mounts) \<and> (cand = [] \<or> cand \<notin> set mounts)
          \<and> \<not> (structured \<and> valid_service cand) \<and> (\<forall>m \<in> set mounts. overlap (tokens goal) m = 0)))
    \<and> (\<forall>m. classify_directive goal did mounts = Route m \<longrightarrow> m \<in> set mounts)"
proof -
  have n: "nm \<noteq> []" using assms(3) by (auto simp: valid_service_def)
  have "classify_directive goal (p @ nm @ q) mounts
       = (if nm @ q \<in> set mounts then Route (nm @ q) else if nm \<in> set mounts then Route nm else NewService nm)"
    using n assms(3) by (simp add: classify_directive_def candidate_of_structured [OF assms(1-3)])
  moreover have "classify_directive goal did mounts = Orphan \<longleftrightarrow>
        (let (full, cand, structured) = candidate_service did in
          (full = [] \<or> full \<notin> set mounts) \<and> (cand = [] \<or> cand \<notin> set mounts)
          \<and> \<not> (structured \<and> valid_service cand) \<and> (\<forall>m \<in> set mounts. overlap (tokens goal) m = 0))"
    using route_spec [OF assms(4), of goal] by (auto simp: classify_directive_def Let_def split: prod.splits)
  moreover have "\<forall>m. classify_directive goal did mounts = Route m \<longrightarrow> m \<in> set mounts"
    using route_spec [OF assms(4), of goal]
    by (auto simp: classify_directive_def Let_def split: prod.splits if_splits)
  ultimately show ?thesis by blast
qed

theorem spine_keeps_service_builds_witness:
  "classify_directive ''mine bitcoin'' ''build_gap_api_router'' [''cve_api''] = NewService ''gap_api''
   \<and> (classify_directive ''mine bitcoin'' ''add_miner'' [''cve_api''] = Orphan)"
proof -
  have "classify_directive ''mine bitcoin'' (''build_'' @ ''gap_api'' @ ''_router'') [''cve_api''] = NewService ''gap_api''"
    using spine_keeps_service_builds [of "''build_''" "''_router''" "''gap_api''" "[''cve_api'']" "''mine bitcoin''" "''add_miner''"]
    by (simp add: BUILD_PREFIXES_def STAGE_SUFFIXES_def REJECT_def valid_service_def word_part_def is_lower_ascii_def
        Let_def chr_code_Char)
  moreover have "classify_directive ''mine bitcoin'' ''add_miner'' [''cve_api''] = Orphan" by code_simp
  ultimately show ?thesis by simp
qed

end
