(* ===== verification/Progress.thy ===== *)
theory Progress
  imports Loopback Engine
begin

text \<open>
  The checkpoint log of \<open>src/state_loopback.py\<close>: a file with one line per step and, at its end, the
  cursor from which a restarted runner resumes. Parsing a text as JSON is an argument.
\<close>

definition progress_file :: "path \<Rightarrow> path" where
  "progress_file d = path_child d ''PROGRESS.md''"

definition CURSOR_OPEN :: string where
  "CURSOR_OPEN = ''<!-- resume-cursor''"

definition CURSOR_CLOSE :: string where
  "CURSOR_CLOSE = ''-->''"

definition rstrip :: "string \<Rightarrow> string" where
  "rstrip s = rev (dropWhile is_space (rev s))"

text \<open>The lines outside earlier cursors; the flag says that a cursor is open.\<close>

fun keep_lines :: "bool \<Rightarrow> string list \<Rightarrow> string list" where
  "keep_lines skip [] = []"
| "keep_lines skip (l # ls) =
     (if startswith (strip l) CURSOR_OPEN then keep_lines True ls
      else if skip then keep_lines (\<not> endswith (strip l) CURSOR_CLOSE) ls
      else l # keep_lines False ls)"

definition NEW_LOG :: "string list" where
  "NEW_LOG = [''# PROGRESS'', [],
     ''Crash-resilient checkpoint log for the Zo Sentinel build loop.'',
     ''Managed by '' @ [CHR 0x60] @ ''state_loopback.py'' @ [CHR 0x60] @ ''. The fenced cursor at the bottom is'',
     ''parsed on spin-up by '' @ [CHR 0x60] @ ''resume()'' @ [CHR 0x60] @ '' -- do not hand-edit it.'', []]"

text \<open>\<open>json.dumps(cursor, indent=2)\<close> of the cursor the runner passes.\<close>

definition cursor_text :: "string \<Rightarrow> string \<Rightarrow> string" where
  "cursor_text step ts = ''{'' @ [newline] @ ''  '' @ json_str ''last_step'' @ '': '' @ json_str step @ '','' @ [newline] @
     ''  '' @ json_str ''at'' @ '': '' @ json_str ts @ [newline] @ ''}''"

definition log_line :: "string \<Rightarrow> string \<Rightarrow> string \<Rightarrow> string" where
  "log_line ts step nt = ''- ['' @ ts @ ''] **'' @ step @ ''**'' @ (if nt = [] then [] else '' -- '' @ nt)"

definition log_text :: "string list \<Rightarrow> string \<Rightarrow> string \<Rightarrow> string" where
  "log_text ls step ts = rstrip (join_with [newline] ls) @ [newline] @ [newline] @ CURSOR_OPEN @ [newline] @
     cursor_text step ts @ [newline] @ CURSOR_CLOSE @ [newline]"

text \<open>\<open>None\<close> when the log cannot be read or written.\<close>

definition kept_lines :: "path \<Rightarrow> fs \<Rightarrow> string list option" where
  "kept_lines d f = (if fs_exists f (progress_file d)
     then map_option (\<lambda>t. keep_lines False (splitlines (content_text t))) (read_text f (progress_file d))
     else Some NEW_LOG)"

definition checkpoint :: "int \<Rightarrow> string \<Rightarrow> path \<Rightarrow> string \<Rightarrow> string \<Rightarrow> fs \<Rightarrow> fs option" where
  "checkpoint now ts d step nt f =
     (case kept_lines d f of None \<Rightarrow> None
      | Some ls \<Rightarrow> write_text now (progress_file d) (Text (log_text (ls @ [log_line ts step nt]) step ts)) f)"

text \<open>\<open>s.split(sep, 1)\<close>: the text before the first \<open>sep\<close> and after it, if there is one.\<close>

fun split_first :: "string \<Rightarrow> string \<Rightarrow> string \<times> string option" where
  "split_first sep [] = ([], if sep = [] then Some [] else None)"
| "split_first sep (c # s) =
     (if startswith (c # s) sep then ([], Some (drop (length sep) (c # s)))
      else case split_first sep s of (a, b) \<Rightarrow> (c # a, b))"

datatype cursor = NoCursor | Cursor json | ResumeRaises

definition resume :: "(string \<Rightarrow> json option) \<Rightarrow> path \<Rightarrow> fs \<Rightarrow> cursor" where
  "resume loads d f =
     (if \<not> fs_exists f (progress_file d) then NoCursor
      else (case read_text f (progress_file d) of None \<Rightarrow> ResumeRaises
        | Some t \<Rightarrow>
          (case split_first CURSOR_OPEN (content_text t) of
             (_, None) \<Rightarrow> NoCursor
           | (_, Some rest) \<Rightarrow>
             (case loads (strip (fst (split_first CURSOR_CLOSE rest))) of
                None \<Rightarrow> NoCursor | Some v \<Rightarrow> Cursor v))))"

subsection \<open>Lines of a text\<close>

lemma lines_from_append:
  assumes "cr \<longrightarrow> acc = []"
  shows "lines_from acc cr (a @ newline # b) = lines_from acc cr (a @ [newline]) @ lines_from [] False b"
  using assms
proof (induction a arbitrary: acc cr)
  case Nil
  have "line_end newline" "chr_code newline \<noteq> 13" by code_simp+
  with Nil show ?case by auto
qed auto

lemma splitlines_append: "splitlines (a @ newline # b) = splitlines (a @ [newline]) @ splitlines b"
  unfolding splitlines_def by (rule lines_from_append) simp

lemma lines_from_chars: "l \<in> set (lines_from acc cr s) \<Longrightarrow> set l \<subseteq> set acc \<union> set s"
  by (induction acc cr s rule: lines_from.induct) (auto split: if_splits)

lemma splitlines_chars: "l \<in> set (splitlines s) \<Longrightarrow> set l \<subseteq> set s"
  using lines_from_chars [of l "[]" False s] by (simp add: splitlines_def)

lemma set_dropWhile_sub: "set (dropWhile P s) \<subseteq> set s"
  using set_dropWhileD by fastforce

lemma strip_chars_sub: "set (strip s) \<subseteq> set s"
  unfolding strip_def using set_dropWhile_sub [of is_space s] set_dropWhile_sub [of is_space "rev (dropWhile is_space s)"] by auto

lemma rstrip_chars_sub: "set (rstrip s) \<subseteq> set s"
  unfolding rstrip_def using set_dropWhile_sub [of is_space "rev s"] by auto

subsection \<open>Plain lines\<close>

definition plain_text :: "string \<Rightarrow> bool" where
  "plain_text s \<longleftrightarrow> CHR ''<'' \<notin> set s \<and> CHR ''>'' \<notin> set s"

definition plain_log :: "string list \<Rightarrow> bool" where
  "plain_log ls \<longleftrightarrow> (\<forall>l \<in> set ls. CHR ''<'' \<notin> set l)"

lemma not_open: "CHR ''<'' \<notin> set l \<Longrightarrow> \<not> startswith (strip l) CURSOR_OPEN"
proof
  assume l: "CHR ''<'' \<notin> set l" and "startswith (strip l) CURSOR_OPEN"
  then obtain t where "strip l = CURSOR_OPEN @ t" unfolding startswith_iff by blast
  moreover have "CHR ''<'' \<in> set CURSOR_OPEN" by (simp add: CURSOR_OPEN_def)
  ultimately show False using l strip_chars_sub [of l] by (metis Un_iff set_append subsetD)
qed

lemma not_close: "CHR ''>'' \<notin> set l \<Longrightarrow> \<not> endswith (strip l) CURSOR_CLOSE"
proof
  assume l: "CHR ''>'' \<notin> set l" and "endswith (strip l) CURSOR_CLOSE"
  then obtain t where "strip l = t @ CURSOR_CLOSE" unfolding endswith_iff by blast
  moreover have "CHR ''>'' \<in> set CURSOR_CLOSE" by (simp add: CURSOR_CLOSE_def)
  ultimately show False using l strip_chars_sub [of l] by (metis Un_iff set_append subsetD)
qed

lemma keep_plain: "plain_log ls \<Longrightarrow> keep_lines False (ls @ ms) = ls @ keep_lines False ms"
  by (induction ls) (auto simp: plain_log_def not_open)

lemma skip_plain: "\<forall>l \<in> set ls. plain_text l \<Longrightarrow> keep_lines True (ls @ ms) = keep_lines True ms"
  by (induction ls) (auto simp: plain_text_def not_open not_close)

lemma hex_digit_plain: "n < 16 \<Longrightarrow> plain_text [hex_digit n]"
proof -
  have "list_all (\<lambda>n. CHR ''<'' \<noteq> hex_digit n \<and> CHR ''>'' \<noteq> hex_digit n) [0..<16]" by code_simp
  then show "n < 16 \<Longrightarrow> plain_text [hex_digit n]" by (simp add: list_all_iff plain_text_def)
qed

lemma json_char_plain:
  assumes "c \<noteq> CHR ''<''" and "c \<noteq> CHR ''>''"
  shows "plain_text (json_char c)"
proof -
  have n: "chr_code c < 256" by (simp add: chr_code_def)
  have "plain_text [hex_digit (chr_code c div 16)]" "plain_text [hex_digit (chr_code c mod 16)]"
    by (rule hex_digit_plain, use n in simp)+
  with assms show ?thesis by (simp add: json_char_def Let_def plain_text_def)
qed

lemma json_str_plain: "plain_text s \<Longrightarrow> plain_text (json_str s)"
proof -
  assume s: "plain_text s"
  have "plain_text (json_char c)" if "c \<in> set s" for c
    by (rule json_char_plain) (use s that in \<open>auto simp: plain_text_def\<close>)
  then show ?thesis by (auto simp: json_str_def plain_text_def)
qed

lemma cursor_plain: "plain_text step \<Longrightarrow> plain_text ts \<Longrightarrow> plain_text (cursor_text step ts)"
proof -
  assume "plain_text step" "plain_text ts"
  then have "plain_text (json_str step)" "plain_text (json_str ts)" by (simp_all add: json_str_plain)
  moreover have "plain_text (json_str ''last_step'')" "plain_text (json_str ''at'')" "plain_text [newline]"
    unfolding plain_text_def by code_simp+
  ultimately show ?thesis by (auto simp: cursor_text_def plain_text_def)
qed

lemma join_chars: "set (join_with d ls) \<subseteq> set d \<union> \<Union> (set ` set ls)"
  by (induction d ls rule: join_with.induct) auto

text \<open>A log that is written keeps its lines and loses the cursors before.\<close>

lemma log_text_lines:
  "splitlines (log_text ls step ts) = splitlines (rstrip (join_with [newline] ls) @ [newline]) @ [[], CURSOR_OPEN]
     @ splitlines (cursor_text step ts @ [newline]) @ [CURSOR_CLOSE]"
proof -
  have e: "splitlines [newline] = [[]]" "splitlines (CURSOR_OPEN @ [newline]) = [CURSOR_OPEN]"
    "splitlines (CURSOR_CLOSE @ [newline]) = [CURSOR_CLOSE]"
    by code_simp+
  have "log_text ls step ts = rstrip (join_with [newline] ls) @ newline # ([] @ newline # (CURSOR_OPEN @ newline #
      (cursor_text step ts @ newline # (CURSOR_CLOSE @ [newline]))))"
    by (simp add: log_text_def)
  also have "splitlines \<dots> = splitlines (rstrip (join_with [newline] ls) @ [newline]) @ splitlines ([] @ [newline])
      @ splitlines (CURSOR_OPEN @ [newline]) @ splitlines (cursor_text step ts @ [newline]) @ splitlines (CURSOR_CLOSE @ [newline])"
    unfolding splitlines_append [of "rstrip (join_with [newline] ls)" "[] @ _"] splitlines_append [of "[]" "CURSOR_OPEN @ _"]
      splitlines_append [of CURSOR_OPEN "cursor_text step ts @ _"] splitlines_append [of "cursor_text step ts" "CURSOR_CLOSE @ _"] ..
  finally show ?thesis by (simp add: e)
qed

lemma kept_of_log:
  assumes "plain_log ls" and "plain_text step" and "plain_text ts"
  shows "plain_log (keep_lines False (splitlines (log_text ls step ts)))"
proof -
  let ?a = "splitlines (rstrip (join_with [newline] ls) @ [newline])"
  have nl: "newline \<noteq> CHR ''<''" "plain_text [newline]" unfolding plain_text_def by code_simp+
  have a: "plain_log ?a"
    using assms(1) splitlines_chars rstrip_chars_sub [of "join_with [newline] ls"] join_chars [of "[newline]" ls] nl
    unfolding plain_log_def by fastforce
  have j: "\<forall>l \<in> set (splitlines (cursor_text step ts @ [newline])). plain_text l"
    using splitlines_chars cursor_plain [OF assms(2,3)] nl(2) unfolding plain_text_def by fastforce
  have o: "startswith (strip CURSOR_OPEN) CURSOR_OPEN" "keep_lines True [CURSOR_CLOSE] = []"
    "\<not> startswith (strip []) CURSOR_OPEN" by code_simp+
  have "keep_lines False (splitlines (log_text ls step ts)) = ?a @ [[]]"
    unfolding log_text_lines keep_plain [OF a] using o skip_plain [OF j] by simp
  with a show ?thesis by (simp add: plain_log_def)
qed

subsection \<open>Resuming\<close>

lemma split_first_at: "CHR ''<'' \<notin> set a \<Longrightarrow> split_first CURSOR_OPEN (a @ CURSOR_OPEN @ b) = (a, Some b)"
proof (induction a)
  case Nil
  have "CURSOR_OPEN @ b = CHR ''<'' # tl (CURSOR_OPEN @ b)" by (simp add: CURSOR_OPEN_def)
  then have "split_first CURSOR_OPEN (CURSOR_OPEN @ b) = ([], Some (drop (length CURSOR_OPEN) (CURSOR_OPEN @ b)))"
    by (metis split_first.simps(2) startswith_append)
  then show ?case by simp
next
  case (Cons c a)
  then have "\<not> startswith (c # a @ CURSOR_OPEN @ b) CURSOR_OPEN"
    by (auto simp: startswith_iff CURSOR_OPEN_def)
  with Cons show ?case by simp
qed

lemma split_close_at: "CHR ''>'' \<notin> set a \<Longrightarrow> fst (split_first CURSOR_CLOSE (a @ CURSOR_CLOSE @ b)) = a"
proof (induction a)
  case Nil
  then show ?case by (simp add: CURSOR_CLOSE_def startswith_def)
next
  case (Cons c a)
  have "\<not> startswith (c # a @ CURSOR_CLOSE @ b) CURSOR_CLOSE"
    using Cons.prems by (cases a; cases "tl a") (auto simp: startswith_iff CURSOR_CLOSE_def)
  with Cons show ?case by (simp add: split_beta)
qed

lemma strip_cursor: "strip (newline # cursor_text step ts @ [newline]) = cursor_text step ts"
proof -
  define m where "m = [newline] @ ''  '' @ json_str ''last_step'' @ '': '' @ json_str step @ '','' @ [newline] @
     ''  '' @ json_str ''at'' @ '': '' @ json_str ts @ [newline]"
  have c: "cursor_text step ts = CHR ''{'' # m @ [CHR ''}'']" by (simp add: cursor_text_def m_def)
  have "\<not> is_space (CHR ''{'')" "\<not> is_space (CHR ''}'')" "is_space newline" by code_simp+
  then show ?thesis using strip_around [of "CHR ''{''" "CHR ''}''" "[newline]" m "[newline]"] by (simp add: c)
qed

lemma resume_log:
  assumes "plain_log ls" and "plain_text step" and "plain_text ts"
    and "fs_get g (progress_file d) = Some x" and "body x = Text (log_text ls step ts)" and "progress_file d \<notin> set (noread g)"
  shows "resume loads d g = (case loads (cursor_text step ts) of None \<Rightarrow> NoCursor | Some v \<Rightarrow> Cursor v)"
proof -
  let ?r = "rstrip (join_with [newline] ls) @ [newline, newline]"
  have nl: "newline \<noteq> CHR ''<''" "newline \<noteq> CHR ''>''" by code_simp+
  have r: "CHR ''<'' \<notin> set ?r"
    using assms(1) rstrip_chars_sub [of "join_with [newline] ls"] join_chars [of "[newline]" ls] nl(1)
    unfolding plain_log_def by auto
  have lt: "log_text ls step ts = ?r @ CURSOR_OPEN @ (newline # cursor_text step ts @ [newline]) @ CURSOR_CLOSE @ [newline]"
    by (simp add: log_text_def)
  have s1: "split_first CURSOR_OPEN (log_text ls step ts) = (?r, Some ((newline # cursor_text step ts @ [newline]) @ CURSOR_CLOSE @ [newline]))"
    unfolding lt by (rule split_first_at [OF r])
  have "CHR ''>'' \<notin> set (newline # cursor_text step ts @ [newline])"
    using cursor_plain [OF assms(2,3)] nl(2) by (auto simp: plain_text_def)
  then have s2: "fst (split_first CURSOR_CLOSE ((newline # cursor_text step ts @ [newline]) @ CURSOR_CLOSE @ [newline]))
      = newline # cursor_text step ts @ [newline]" by (rule split_close_at)
  have "read_text g (progress_file d) = Some (Text (log_text ls step ts))" "fs_exists g (progress_file d)"
    using assms(4-6) by (auto simp: read_text_def fs_exists_def is_file_def)
  then show ?thesis
    by (simp only: resume_def s1 s2 strip_cursor content_text_def content.case option.case prod.case not_True_eq_False if_False)
qed

fun checkpoints :: "int \<Rightarrow> path \<Rightarrow> (string \<times> string \<times> string) list \<Rightarrow> fs \<Rightarrow> fs option" where
  "checkpoints now d [] f = Some f"
| "checkpoints now d ((step, nt, ts) # cs) f = Option.bind (checkpoint now ts d step nt f) (checkpoints now d cs)"

lemma checkpoint_step:
  assumes "kept_lines d f = Some ls" and "plain_log ls" and "plain_text step" and "plain_text nt" and "plain_text ts"
    and "progress_file d \<notin> set (noread f)" and "checkpoint now ts d step nt f = Some g"
  shows "(\<exists>ms. kept_lines d g = Some ms \<and> plain_log ms) \<and> progress_file d \<notin> set (noread g)
    \<and> resume loads d g = (case loads (cursor_text step ts) of None \<Rightarrow> NoCursor | Some v \<Rightarrow> Cursor v)"
proof -
  let ?ls = "ls @ [log_line ts step nt]"
  have "CHR ''<'' \<notin> set (log_line ts step nt)"
    using assms(3-5) by (auto simp: log_line_def plain_text_def)
  then have p: "plain_log ?ls" using assms(2) by (auto simp: plain_log_def)
  have w: "write_text now (progress_file d) (Text (log_text ?ls step ts)) f = Some g"
    using assms(1,7) by (simp add: checkpoint_def)
  have g: "fs_get g (progress_file d) = Some \<lparr>body = Text (log_text ?ls step ts), mtime = now\<rparr>" "noread g = noread f"
    using write_text_get [OF w] fs_put_frame [OF w [unfolded write_text_def]] by auto
  have "kept_lines d g = Some (keep_lines False (splitlines (log_text ?ls step ts)))"
    using g assms(6) by (simp add: kept_lines_def fs_exists_def is_file_def read_text_def content_text_def)
  then show ?thesis
    using kept_of_log [OF p assms(3,5)] resume_log [OF p assms(3,5) g(1)] g(2) assms(6) by simp
qed

text \<open>C36: a restarted runner resumes at the last checkpoint: from a log whose lines are plain, or from
  none, after any sequence of checkpoints of plain steps the cursor that is read is the one that the
  last of them wrote, whatever cursors were written before.\<close>

theorem resume_finds_last_checkpoint:
  assumes "kept_lines d f = Some ls" and "plain_log ls" and "progress_file d \<notin> set (noread f)"
    and "\<forall>x \<in> set (cs @ [(step, nt, ts)]). plain_text (fst x) \<and> plain_text (fst (snd x)) \<and> plain_text (snd (snd x))"
    and "checkpoints now d (cs @ [(step, nt, ts)]) f = Some g" and "loads (cursor_text step ts) = Some v"
  shows "resume loads d g = Cursor v"
  using assms(1-5)
proof (induction cs arbitrary: f ls)
  case Nil
  then have "checkpoint now ts d step nt f = Some g" by (auto split: bind_splits)
  with Nil.prems checkpoint_step [of d f ls step nt ts now g loads] assms(6) show ?case by simp
next
  case (Cons c cs)
  obtain s n t where c: "c = (s, n, t)" by (cases c) auto
  obtain h where h: "checkpoint now t d s n f = Some h" "checkpoints now d (cs @ [(step, nt, ts)]) h = Some g"
    using Cons.prems(5) c by (auto split: bind_splits)
  obtain ms where ms: "kept_lines d h = Some ms" "plain_log ms" "progress_file d \<notin> set (noread h)"
    using checkpoint_step [OF Cons.prems(1,2) _ _ _ Cons.prems(3) h(1)] Cons.prems(4) c by auto
  show ?case by (rule Cons.IH [OF ms _ h(2)]) (use Cons.prems(4) in auto)
qed

definition two_steps :: "fs option" where
  "two_steps = checkpoints 5 (path_of ''/s'') ([(''d1'', ''complete'', ''T1'')] @ [(''d2'', ''complete'', ''T2'')])
     \<lparr>files = [], dirs = [path_of ''/'', path_of ''/s''], noread = [], nowrite = []\<rparr>"

definition d2_loads :: "string \<Rightarrow> json option" where
  "d2_loads s = (if s = cursor_text ''d2'' ''T2'' then Some (JObj [(''last_step'', JStr ''d2''), (''at'', JStr ''T2'')]) else None)"

theorem resume_finds_last_checkpoint_witness:
  "\<exists>g. two_steps = Some g
    \<and> resume d2_loads (path_of ''/s'') g = Cursor (JObj [(''last_step'', JStr ''d2''), (''at'', JStr ''T2'')])"
proof -
  let ?f = "\<lparr>files = [], dirs = [path_of ''/'', path_of ''/s''], noread = [], nowrite = []\<rparr>"
  have "two_steps \<noteq> None" by code_simp
  then obtain g where g: "two_steps = Some g" by blast
  have "kept_lines (path_of ''/s'') ?f = Some NEW_LOG" by code_simp
  moreover have "plain_log NEW_LOG" unfolding plain_log_def by code_simp
  moreover have "d2_loads (cursor_text ''d2'' ''T2'') = Some (JObj [(''last_step'', JStr ''d2''), (''at'', JStr ''T2'')])"
    by (simp add: d2_loads_def)
  ultimately have "resume d2_loads (path_of ''/s'') g = Cursor (JObj [(''last_step'', JStr ''d2''), (''at'', JStr ''T2'')])"
    using g by (intro resume_finds_last_checkpoint [of "path_of ''/s''" ?f NEW_LOG "[(''d1'', ''complete'', ''T1'')]"
      "''d2''" "''complete''" "''T2''" 5 g d2_loads]) (auto simp: two_steps_def plain_text_def)
  with g show ?thesis by blast
qed

end
