(* ===== verification/OrphanChains.thy ===== *)
theory OrphanChains
  imports BuildCompletion BuildRouting
begin

text \<open>
  \<open>src/tools/park_orphan_chain_directives.py\<close>, which the runner calls in every cycle to park the
  queued directives whose requirements nothing will produce, and the decision of
  \<open>src/tools/quarantine_topup.py\<close> to refill a thin queue. Log lines and reasons that are only
  logged are left out.
\<close>

subsection \<open>The plan\<close>

definition requires_of :: "jobj \<Rightarrow> string list" where
  "requires_of d = (case py_or (jget d ''requires'') (JList []) of JList xs \<Rightarrow> map py_str xs | _ \<Rightarrow> [])"

definition output_of :: "jobj \<Rightarrow> string option" where
  "output_of d = (let v = jget d ''output_file'' in if truthy v then Some (py_str v) else None)"

definition load_directive :: "fs \<Rightarrow> path \<Rightarrow> jobj option" where
  "load_directive f p = (case read_json f p of Some (JObj d) \<Rightarrow> Some d | _ \<Rightarrow> None)"

definition repo_has :: "fs \<Rightarrow> path \<Rightarrow> string \<Rightarrow> bool" where
  "repo_has f repo rel = fs_exists f (path_join repo (path_of rel))"

text \<open>\<open>sorted(d.glob("*.json"))\<close>: files and directories; a directory that cannot be listed is empty.\<close>

definition glob_json :: "fs \<Rightarrow> path \<Rightarrow> path list" where
  "glob_json f d = (if d \<in> set (noread f) then [] else
     sort (filter (\<lambda>p. path_parts p \<noteq> [] \<and> path_parent p = d \<and> endswith (path_name p) ''.json'')
       (keys (files f) @ dirs f)))"

definition backup_name :: "string \<Rightarrow> bool" where
  "backup_name n = (startswith n ''.bak'' \<or> startswith n ''.duplicate'')"

text \<open>The live directives of the queue, by file name.\<close>

definition live_pending :: "fs \<Rightarrow> path \<Rightarrow> (string, jobj) dict" where
  "live_pending f pend = List.map_filter
     (\<lambda>p. if backup_name (path_name p) then None
          else map_option (\<lambda>d. (path_name p, d)) (load_directive f p))
     (glob_json f pend)"

definition producers :: "(string, jobj) dict \<Rightarrow> string list" where
  "producers pd = List.map_filter (\<lambda>nd. output_of (snd nd)) pd"

definition unsatisfied :: "fs \<Rightarrow> path \<Rightarrow> string list \<Rightarrow> jobj \<Rightarrow> string list" where
  "unsatisfied f repo ps d = filter (\<lambda>r. \<not> repo_has f repo r \<and> r \<notin> set ps) (requires_of d)"

definition orphan_reason :: "string list \<Rightarrow> string" where
  "orphan_reason unsat = ''unsatisfiable requires (no producer): '' @ py_repr (JList (map JStr unsat))"

record orphan_plan =
  op_park :: "(string \<times> string) list"
  op_revive :: "(string \<times> string) list"

definition plan_orphans :: "fs \<Rightarrow> path \<Rightarrow> path \<Rightarrow> path \<Rightarrow> orphan_plan" where
  "plan_orphans f repo pend parked =
     (let pd = live_pending f pend; ps = producers pd in
      \<lparr>op_park = List.map_filter (\<lambda>(n, d). let u = unsatisfied f repo ps d in
           if u \<noteq> [] then Some (n, orphan_reason u) else None) pd,
       op_revive = (if \<not> fs_exists f parked then []
         else List.map_filter (\<lambda>p. case load_directive f p of None \<Rightarrow> None
           | Some d \<Rightarrow> if unsatisfied f repo ps d = []
               then Some (path_name p, ''requires now satisfied/producible'') else None) (glob_json f parked))\<rparr>)"

subsection \<open>Applying it\<close>

text \<open>
  \<open>shutil.move(src, dst)\<close> of a file: into a directory, else a rename, which overwrites a file
  there; when the rename is refused, a copy and then the removal of the source. The flag is false
  when it raises.
\<close>

definition shutil_move :: "path \<Rightarrow> path \<Rightarrow> fs \<Rightarrow> bool \<times> fs" where
  "shutil_move p q f =
     (let q' = (if is_dir f q then path_child q (path_name p) else q) in
      if is_dir f q \<and> fs_exists f q' then (False, f)
      else (case fs_replace p q' f of Some g \<Rightarrow> (True, g)
        | None \<Rightarrow>
          (case (if p \<in> set (noread f) then None else fs_get f p) of None \<Rightarrow> (False, f)
           | Some x \<Rightarrow> (case fs_put q' x f of None \<Rightarrow> (False, f)
              | Some g \<Rightarrow> (case unlink p g of None \<Rightarrow> (False, g) | Some h \<Rightarrow> (True, h))))))"

fun move_all :: "path \<Rightarrow> path \<Rightarrow> string list \<Rightarrow> fs \<Rightarrow> bool \<times> fs" where
  "move_all src dst [] f = (True, f)"
| "move_all src dst (n # ns) f =
     (if \<not> fs_exists f (path_child src n) then move_all src dst ns f
      else (case shutil_move (path_child src n) (path_child dst n) f of
              (False, g) \<Rightarrow> (False, g) | (True, g) \<Rightarrow> move_all src dst ns g))"

definition apply_orphans :: "path \<Rightarrow> path \<Rightarrow> orphan_plan \<Rightarrow> fs \<Rightarrow> bool \<times> fs" where
  "apply_orphans pend parked pl f =
     (case mkdirs parked f of None \<Rightarrow> (False, f)
      | Some f1 \<Rightarrow>
        (case move_all pend parked (map fst (op_park pl)) f1 of
           (False, g) \<Rightarrow> (False, g)
         | (True, g) \<Rightarrow> move_all parked pend (map fst (op_revive pl)) g))"

text \<open>The runner's call: switched off by the environment, and an exception ends it there.\<close>

definition orphan_off :: "environ \<Rightarrow> bool" where
  "orphan_off env = ((case env ''ZO_ORPHAN_PARK'' of None \<Rightarrow> ''1'' | Some s \<Rightarrow> s)
     \<in> {''0'', ''false'', ''False'', ''no'', ''NO''})"

definition park_orphan_chains :: "environ \<Rightarrow> path \<Rightarrow> path \<Rightarrow> path \<Rightarrow> fs \<Rightarrow> fs" where
  "park_orphan_chains env repo pend parked f =
     (if orphan_off env then f
      else snd (apply_orphans pend parked (plan_orphans f repo pend parked) f))"

subsection \<open>Refilling a thin queue\<close>

definition QUEUE_FLOOR :: nat where
  "QUEUE_FLOOR = 4"

definition MIN_INTERVAL_S :: rat where
  "MIN_INTERVAL_S = 3600"

definition topup_enabled :: "environ \<Rightarrow> bool" where
  "topup_enabled env = (lower (strip (case env ''ZO_QUARANTINE_TOPUP'' of None \<Rightarrow> ''1'' | Some s \<Rightarrow> s))
     \<notin> {''0'', ''false'', ''no'', ''off''})"

definition pending_count :: "fs \<Rightarrow> path \<Rightarrow> nat" where
  "pending_count f pend = length (filter (\<lambda>p. \<not> backup_name (path_name p)) (glob_json f pend))"

definition stamp_file :: "path \<Rightarrow> path" where
  "stamp_file pend = path_child (path_parent pend) ''.quarantine_topup.stamp''"

text \<open>Seconds since the last spawn; \<open>None\<close> is the infinite age of a missing or unreadable stamp.\<close>

definition stamp_age :: "fs \<Rightarrow> path \<Rightarrow> rat \<Rightarrow> rat option" where
  "stamp_age f stamp now = map_option (\<lambda>t. now - t)
     (Option.bind (read_text f stamp) (\<lambda>c. float_of_str (strip (content_text c))))"

definition should_topup :: "environ \<Rightarrow> path \<Rightarrow> path \<Rightarrow> rat \<Rightarrow> fs \<Rightarrow> bool" where
  "should_topup env tool pend now f =
     (topup_enabled env \<and> fs_exists f tool \<and> pending_count f pend < QUEUE_FLOOR
      \<and> (case stamp_age f (stamp_file pend) now of None \<Rightarrow> True | Some a \<Rightarrow> a \<ge> MIN_INTERVAL_S))"

text \<open>
  \<open>topup\<close>: the stamp is written before the spawn (a refused write is ignored). The result tells
  whether the tool was started; \<open>spawns\<close> tells whether starting it works.
\<close>

definition topup :: "environ \<Rightarrow> path \<Rightarrow> path \<Rightarrow> rat \<Rightarrow> string \<Rightarrow> int \<Rightarrow> bool \<Rightarrow> fs \<Rightarrow> bool \<times> fs" where
  "topup env tool pend now now_text secs spawns f =
     (if \<not> should_topup env tool pend now f then (False, f)
      else (spawns, (case write_text secs (stamp_file pend) (Text now_text) f of None \<Rightarrow> f | Some g \<Rightarrow> g)))"

subsection \<open>What a pass touches\<close>

lemma load_directive_cong:
  "fs_get g p = fs_get f p \<Longrightarrow> noread g = noread f \<Longrightarrow> load_directive g p = load_directive f p"
  by (simp add: load_directive_def read_json_def read_text_def)

lemma shutil_move_frame:
  assumes "shutil_move p q f = (b, g)" and "\<not> is_dir f q"
  shows "dirs g = dirs f \<and> noread g = noread f \<and> (\<forall>r. r \<noteq> p \<longrightarrow> r \<noteq> q \<longrightarrow> fs_get g r = fs_get f r)"
  using assms fs_replace_frame [of p q f] fs_put_frame [of q _ f] unlink_frame [of p]
  by (auto simp: shutil_move_def fs_replace_get fs_put_get unlink_get split: option.splits if_splits)

definition plain_dir :: "fs \<Rightarrow> path \<Rightarrow> bool" where
  "plain_dir f d \<longleftrightarrow> list_all (\<lambda>q. path_parts q = [] \<or> path_parent q \<noteq> d) (dirs f)"

lemma plain_dirD: "plain_dir f d \<Longrightarrow> \<not> is_dir f (path_child d n)"
  by (force simp: plain_dir_def list_all_iff is_dir_def path_child_def path_parent_def)

lemma move_all_frame:
  assumes "move_all src dst ns f = (b, g)" and "plain_dir f dst"
  shows "dirs g = dirs f \<and> noread g = noread f
    \<and> (\<forall>r. (\<forall>n \<in> set ns. r \<noteq> path_child src n \<and> r \<noteq> path_child dst n) \<longrightarrow> fs_get g r = fs_get f r)"
  using assms
proof (induction ns arbitrary: f)
  case (Cons n ns)
  show ?case
  proof (cases "fs_exists f (path_child src n)")
    case False
    with Cons show ?thesis by simp
  next
    case True
    obtain c h where m: "shutil_move (path_child src n) (path_child dst n) f = (c, h)" by fastforce
    note fr = shutil_move_frame [OF m plain_dirD [OF Cons.prems(2)]]
    then have "plain_dir h dst" using Cons.prems(2) by (simp add: plain_dir_def)
    with Cons.IH [of h] Cons.prems(1) True m fr show ?thesis by (cases c) auto
  qed
qed simp

subsection \<open>Chains that support themselves\<close>

text \<open>
  A set of queued names is supported when each is a live directive and each of its requirements is
  a path outside the queues that exists or the output of a directive of the set.
\<close>

definition on_disk :: "fs \<Rightarrow> path \<Rightarrow> path \<Rightarrow> path \<Rightarrow> string \<Rightarrow> bool" where
  "on_disk f repo pend parked r \<longleftrightarrow> repo_has f repo r
     \<and> path_parent (path_join repo (path_of r)) \<notin> {pend, parked}"

definition supported :: "path \<Rightarrow> path \<Rightarrow> path \<Rightarrow> string set \<Rightarrow> fs \<Rightarrow> bool" where
  "supported repo pend parked N f \<longleftrightarrow>
     (\<forall>n \<in> N. endswith n ''.json'' \<and> \<not> backup_name n \<and> \<not> fs_exists f (path_child parked n)
       \<and> (\<exists>d. load_directive f (path_child pend n) = Some d
         \<and> (\<forall>r \<in> set (requires_of d). on_disk f repo pend parked r
             \<or> (\<exists>m \<in> N. \<exists>e. load_directive f (path_child pend m) = Some e \<and> output_of e = Some r))))"

text \<open>The two queues are directories of files, the parking place not below the queue.\<close>

definition queues_ok :: "path \<Rightarrow> path \<Rightarrow> path \<Rightarrow> string set \<Rightarrow> fs \<Rightarrow> bool" where
  "queues_ok repo pend parked N f \<longleftrightarrow> pend \<noteq> parked \<and> pend \<notin> set (path_ancestors parked)
     \<and> pend \<notin> set (noread f) \<and> plain_dir f pend \<and> plain_dir f parked \<and> supported repo pend parked N f"

lemma map_filter_mem: "y \<in> set (List.map_filter g xs) \<longleftrightarrow> (\<exists>x \<in> set xs. g x = Some y)"
  by (induction xs) (auto simp: List.map_filter_simps split: option.splits)

lemma loaded_is_file: "load_directive f p = Some d \<Longrightarrow> is_file f p"
  using read_missing [of f p] by (auto simp: load_directive_def split: option.splits)

lemma live_pending_mem:
  "(n, d) \<in> set (live_pending f pend) \<Longrightarrow> load_directive f (path_child pend n) = Some d"
  by (auto simp: live_pending_def map_filter_mem glob_json_def path_child_name split: if_splits)

lemma live_pending_intro:
  assumes "load_directive f (path_child pend n) = Some d" and "endswith n ''.json''" and "\<not> backup_name n"
    and "pend \<notin> set (noread f)"
  shows "(n, d) \<in> set (live_pending f pend)"
proof -
  have "path_child pend n \<in> set (keys (files f))"
    using loaded_is_file [OF assms(1)] dhas_keys [of "files f" "path_child pend n"] by (auto simp: is_file_def fs_get_def dhas_def)
  then have "path_child pend n \<in> set (glob_json f pend)"
    using assms by (simp add: glob_json_def) (simp add: path_child_def)
  with assms show ?thesis
    unfolding live_pending_def map_filter_mem by (intro bexI [of _ "path_child pend n"]) auto
qed

text \<open>No supported directive is in the plan.\<close>

lemma supported_not_planned:
  assumes "queues_ok repo pend parked N f" and "n \<in> N"
  shows "n \<notin> fst ` set (op_park (plan_orphans f repo pend parked))"
    and "n \<notin> fst ` set (op_revive (plan_orphans f repo pend parked))"
proof -
  let ?ps = "producers (live_pending f pend)"
  have sup: "supported repo pend parked N f" and nr: "pend \<notin> set (noread f)"
    using assms(1) by (auto simp: queues_ok_def)
  obtain d where d: "load_directive f (path_child pend n) = Some d"
      "\<forall>r \<in> set (requires_of d). on_disk f repo pend parked r
         \<or> (\<exists>m \<in> N. \<exists>e. load_directive f (path_child pend m) = Some e \<and> output_of e = Some r)"
    and free: "\<not> fs_exists f (path_child parked n)"
    using sup assms(2) unfolding supported_def by blast
  have prod: "r \<in> set ?ps" if "m \<in> N" "load_directive f (path_child pend m) = Some e" "output_of e = Some r" for m e r
  proof -
    have "(m, e) \<in> set (live_pending f pend)"
      using live_pending_intro [OF that(2)] sup that(1) nr by (auto simp: supported_def)
    then show ?thesis using that(3) by (force simp: producers_def map_filter_mem)
  qed
  have "unsatisfied f repo ?ps d = []"
    using d(2) prod by (fastforce simp: unsatisfied_def filter_empty_conv on_disk_def)
  then show "n \<notin> fst ` set (op_park (plan_orphans f repo pend parked))"
    using d(1) live_pending_mem [of n _ f pend]
    by (fastforce simp: plan_orphans_def Let_def map_filter_mem split: if_splits)
  show "n \<notin> fst ` set (op_revive (plan_orphans f repo pend parked))"
  proof
    assume "n \<in> fst ` set (op_revive (plan_orphans f repo pend parked))"
    then obtain p e where p: "p \<in> set (glob_json f parked)" "load_directive f p = Some e" "path_name p = n"
      by (fastforce simp: plan_orphans_def Let_def map_filter_mem split: if_splits option.splits)
    then have "p = path_child parked n" by (auto simp: glob_json_def path_child_name split: if_splits)
    with free loaded_is_file [OF p(2)] show False by (simp add: fs_exists_def)
  qed
qed

lemma on_disk_mono:
  assumes "on_disk f repo pend parked r" and "\<And>q. is_dir f q \<Longrightarrow> is_dir g q"
    and "\<And>q. path_parent q \<notin> {pend, parked} \<Longrightarrow> fs_get g q = fs_get f q"
  shows "on_disk g repo pend parked r"
  using assms by (auto simp: on_disk_def repo_has_def fs_exists_def is_file_def)

lemma plain_dir_mkdirs:
  assumes "mkdirs q f = Some g" and "plain_dir f d" and "d \<notin> set (path_ancestors q) \<or> d = q"
  shows "plain_dir g d"
proof -
  have "path_parts p = [] \<or> path_parent p \<noteq> d" if p: "p \<in> set (path_ancestors q)" for p
  proof (rule disjCI)
    assume par: "\<not> path_parent p \<noteq> d"
    obtain k where k: "p = Path (path_abs q) (take k (path_parts q))" "k \<le> length (path_parts q)"
    proof -
      obtain k where "k \<in> set [0..<Suc (length (path_parts q))]" "p = Path (path_abs q) (take k (path_parts q))"
        using p unfolding path_ancestors_def set_map by blast
      then show thesis by (intro that [of k]) auto
    qed
    show "path_parts p = []"
    proof (rule ccontr)
      assume ne: "path_parts p \<noteq> []"
      then have d: "d = Path (path_abs q) (take (k - 1) (path_parts q))" and "0 < k"
        using par k by (auto simp: path_parent_def butlast_take)
      have "k - 1 \<in> set [0..<Suc (length (path_parts q))]" using k(2) unfolding set_upt by simp
      then have "d \<in> set (path_ancestors q)"
        unfolding path_ancestors_def set_map d by (rule imageI)
      moreover have "length (path_parts d) < length (path_parts q)"
        using k(2) \<open>0 < k\<close> d by simp
      then have "d \<noteq> q" by auto
      ultimately
      show False using assms(3) by blast
    qed
  qed
  moreover have "set (dirs g) = set (path_ancestors q) \<union> set (dirs f)"
    using assms(1) by (auto simp: mkdirs_def split: if_splits)
  ultimately show ?thesis
    using assms(2) unfolding plain_dir_def list_all_iff by blast
qed

text \<open>What an application leaves: everything but the planned names in the two queues.\<close>

lemma apply_orphans_frame:
  assumes "apply_orphans pend parked pl f = (b, g)" and "plain_dir f pend" and "plain_dir f parked"
    and "pend \<notin> set (path_ancestors parked)"
  defines "A \<equiv> fst ` set (op_park pl) \<union> fst ` set (op_revive pl)"
  shows "plain_dir g pend \<and> plain_dir g parked \<and> noread g = noread f \<and> (\<forall>q. is_dir f q \<longrightarrow> is_dir g q)
    \<and> (\<forall>r. (\<forall>n \<in> A. r \<noteq> path_child pend n \<and> r \<noteq> path_child parked n) \<longrightarrow> fs_get g r = fs_get f r)"
proof (cases "mkdirs parked f")
  case None
  with assms(1-3) show ?thesis by (simp add: apply_orphans_def)
next
  case (Some f1)
  note f1 = this
  have p1: "plain_dir f1 pend" "plain_dir f1 parked"
    using plain_dir_mkdirs [OF f1] assms(2-4) by blast+
  obtain c h where m1: "move_all pend parked (map fst (op_park pl)) f1 = (c, h)" by fastforce
  note fr1 = move_all_frame [OF m1 p1(2)]
  have p2: "plain_dir h pend" "plain_dir h parked" using fr1 p1 by (simp_all add: plain_dir_def)
  have base: "plain_dir h pend \<and> plain_dir h parked \<and> noread h = noread f \<and> (\<forall>q. is_dir f q \<longrightarrow> is_dir h q)
    \<and> (\<forall>r. (\<forall>n \<in> A. r \<noteq> path_child pend n \<and> r \<noteq> path_child parked n) \<longrightarrow> fs_get h r = fs_get f r)"
    using p2 fr1 mkdirs_frame [OF f1] mkdirs_dir(2) [OF f1] mkdirs_get [OF f1]
    by (auto simp: A_def is_dir_def)
  show ?thesis
  proof (cases c)
    case False
    with assms(1) m1 f1 base show ?thesis by (simp add: apply_orphans_def)
  next
    case True
    obtain c2 k where m2: "move_all parked pend (map fst (op_revive pl)) h = (c2, k)" by fastforce
    note fr2 = move_all_frame [OF m2 p2(1)]
    have "g = k" using assms(1) m1 m2 f1 True by (simp add: apply_orphans_def)
    with fr2 base show ?thesis by (auto simp: A_def is_dir_def plain_dir_def)
  qed
qed

text \<open>A pass keeps a supported set where it is, and supported.\<close>

lemma pass_keeps_supported:
  fixes env :: environ
  assumes "queues_ok repo pend parked N f"
  defines "g \<equiv> park_orphan_chains env repo pend parked f"
  shows "queues_ok repo pend parked N g \<and> (\<forall>n \<in> N. fs_get g (path_child pend n) = fs_get f (path_child pend n))"
proof (cases "orphan_off env")
  case True
  with assms show ?thesis by (simp add: park_orphan_chains_def)
next
  case False
  let ?pl = "plan_orphans f repo pend parked"
  obtain b where ap: "apply_orphans pend parked ?pl f = (b, g)"
    using False by (cases "apply_orphans pend parked ?pl f") (simp add: g_def park_orphan_chains_def)
  have ok: "plain_dir f pend" "plain_dir f parked" "pend \<notin> set (path_ancestors parked)" "pend \<noteq> parked"
      "pend \<notin> set (noread f)" and sup: "supported repo pend parked N f"
    using assms(1) by (auto simp: queues_ok_def)
  note fr = apply_orphans_frame [OF ap ok(1-3)]
  have keep: "fs_get g (path_child pend n) = fs_get f (path_child pend n)"
      "fs_get g (path_child parked n) = fs_get f (path_child parked n)" if "n \<in> N" for n
  proof -
    have "\<forall>r. (\<forall>m \<in> fst ` set (op_park ?pl) \<union> fst ` set (op_revive ?pl).
        r \<noteq> path_child pend m \<and> r \<noteq> path_child parked m) \<longrightarrow> fs_get g r = fs_get f r"
      using fr by blast
    moreover have "n \<notin> fst ` set (op_park ?pl) \<union> fst ` set (op_revive ?pl)"
      using supported_not_planned [OF assms(1) that] by blast
    ultimately show "fs_get g (path_child pend n) = fs_get f (path_child pend n)"
      "fs_get g (path_child parked n) = fs_get f (path_child parked n)"
      using ok(4) by (metis path_child_inj)+
  qed
  have out: "fs_get g q = fs_get f q" if "path_parent q \<notin> {pend, parked}" for q
  proof -
    have "\<forall>m. q \<noteq> path_child pend m \<and> q \<noteq> path_child parked m" using that by auto
    with fr show ?thesis by blast
  qed
  have "\<not> fs_exists g (path_child parked n)" if "n \<in> N" for n
    using keep(2) [OF that] sup that plain_dirD [of g parked n] fr
    by (auto simp: supported_def fs_exists_def is_file_def)
  moreover have "load_directive g (path_child pend n) = load_directive f (path_child pend n)" if "n \<in> N" for n
    using keep(1) [OF that] fr by (intro load_directive_cong) auto
  moreover have "on_disk f repo pend parked r \<Longrightarrow> on_disk g repo pend parked r" for r
    using fr out by (auto intro: on_disk_mono)
  ultimately have "supported repo pend parked N g"
    using sup unfolding supported_def by (metis (no_types, lifting))
  with fr ok keep(1) show ?thesis by (auto simp: queues_ok_def)
qed

interpretation chains: stable_system "\<lambda>env. park_orphan_chains env repo pend parked" "queues_ok repo pend parked N"
    "\<lambda>env. False" "\<lambda>f. \<forall>n \<in> N. fs_get f (path_child pend n) = X n"
  for repo pend parked :: path and N :: "string set" and X :: "string \<Rightarrow> fentry option"
  by unfold_locales (simp_all add: pass_keeps_supported)

subsection \<open>Properties\<close>

text \<open>A list of queued directives in an order in which they can be built: what each requires lies outside the queues
  or is the output of a directive before it, hence of another one.\<close>

definition buildable :: "path \<Rightarrow> path \<Rightarrow> path \<Rightarrow> string list \<Rightarrow> fs \<Rightarrow> bool" where
  "buildable repo pend parked ns f \<longleftrightarrow>
     (\<forall>i < length ns. endswith (ns ! i) ''.json'' \<and> \<not> backup_name (ns ! i) \<and> \<not> fs_exists f (path_child parked (ns ! i))
       \<and> (\<exists>d. load_directive f (path_child pend (ns ! i)) = Some d
         \<and> (\<forall>r \<in> set (requires_of d). on_disk f repo pend parked r
             \<or> (\<exists>k < i. \<exists>e. load_directive f (path_child pend (ns ! k)) = Some e \<and> output_of e = Some r))))"

lemma buildable_supported:
  assumes "buildable repo pend parked ns f"
  shows "supported repo pend parked (set ns) f"
  unfolding supported_def
proof (rule ballI)
  fix n assume "n \<in> set ns"
  then obtain i where i: "i < length ns" "n = ns ! i" by (auto simp: in_set_conv_nth)
  with assms obtain d where d: "endswith n ''.json''" "\<not> backup_name n" "\<not> fs_exists f (path_child parked n)"
    "load_directive f (path_child pend n) = Some d"
    "\<forall>r \<in> set (requires_of d). on_disk f repo pend parked r
       \<or> (\<exists>k < i. \<exists>e. load_directive f (path_child pend (ns ! k)) = Some e \<and> output_of e = Some r)"
    unfolding buildable_def by blast
  have "ns ! k \<in> set ns" if "k < i" for k using that i(1) by simp
  with d show "endswith n ''.json'' \<and> \<not> backup_name n \<and> \<not> fs_exists f (path_child parked n)
       \<and> (\<exists>d. load_directive f (path_child pend n) = Some d
         \<and> (\<forall>r \<in> set (requires_of d). on_disk f repo pend parked r
             \<or> (\<exists>m \<in> set ns. \<exists>e. load_directive f (path_child pend m) = Some e \<and> output_of e = Some r)))" by blast
qed

text \<open>C37: a chain that can be built is never parked. When queued directives can be put in an order in which each requires
  only what exists outside the queues or what a directive before it produces, then any number of passes, under any
  settings, leaves each of their files in the queue as it is. (The queue can be read, the parking place does not lie
  below it and holds none of the names, and both are plain directories.)\<close>

theorem buildable_chain_stays:
  assumes "pend \<noteq> parked" and "pend \<notin> set (path_ancestors parked)" and "pend \<notin> set (noread f)"
    and "plain_dir f pend" and "plain_dir f parked" and "buildable repo pend parked ns f"
  shows "\<forall>n \<in> set ns. fs_get (fold (\<lambda>env. park_orphan_chains env repo pend parked) envs f) (path_child pend n)
      = fs_get f (path_child pend n)"
proof -
  have "queues_ok repo pend parked (set ns) f"
    using assms(1-5) buildable_supported [OF assms(6)] by (simp add: queues_ok_def)
  from chains.run_fact [OF this, of "\<lambda>n. fs_get f (path_child pend n)" envs] show ?thesis by (simp add: list_all_iff)
qed

definition chain_fs :: fs where
  "chain_fs = \<lparr>files =
      [(path_of ''/q/p/a.json'', \<lparr>body = Doc (JObj [(''output_file'', JStr ''s/logic.py'')]), mtime = 1\<rparr>),
       (path_of ''/q/p/b.json'', \<lparr>body = Doc (JObj [(''output_file'', JStr ''s/router.py''),
          (''requires'', JList [JStr ''s/logic.py''])]), mtime = 1\<rparr>),
       (path_of ''/q/p/c.json'', \<lparr>body = Doc (JObj [(''requires'', JList [JStr ''gone.py''])]), mtime = 1\<rparr>)],
     dirs = [path_of ''/'', path_of ''/q'', path_of ''/q/p''], noread = [], nowrite = []\<rparr>"

theorem buildable_chain_stays_witness:
  "fs_get (fold (\<lambda>env. park_orphan_chains env (path_of ''/r'') (path_of ''/q/p'') (path_of ''/q/k''))
      [\<lambda>_. None, \<lambda>_. None] chain_fs) (path_child (path_of ''/q/p'') ''b.json'')
    = fs_get chain_fs (path_child (path_of ''/q/p'') ''b.json'')"
proof -
  have d: "load_directive chain_fs (path_child (path_of ''/q/p'') ''a.json'') = Some [(''output_file'', JStr ''s/logic.py'')]"
    "load_directive chain_fs (path_child (path_of ''/q/p'') ''b.json'')
      = Some [(''output_file'', JStr ''s/router.py''), (''requires'', JList [JStr ''s/logic.py''])]"
    by code_simp+
  have r: "requires_of [(''output_file'', JStr ''s/logic.py'')] = []"
    "requires_of [(''output_file'', JStr ''s/router.py''), (''requires'', JList [JStr ''s/logic.py''])] = [''s/logic.py'']"
    "output_of [(''output_file'', JStr ''s/logic.py'')] = Some ''s/logic.py''"
    by code_simp+
  have n: "endswith ''a.json'' ''.json''" "endswith ''b.json'' ''.json''" "\<not> backup_name ''a.json''" "\<not> backup_name ''b.json''"
    "\<not> fs_exists chain_fs (path_child (path_of ''/q/k'') ''a.json'')" "\<not> fs_exists chain_fs (path_child (path_of ''/q/k'') ''b.json'')"
    by code_simp+
  have q: "path_of ''/q/p'' \<noteq> path_of ''/q/k''" "path_of ''/q/p'' \<notin> set (path_ancestors (path_of ''/q/k''))"
    "path_of ''/q/p'' \<notin> set (noread chain_fs)" "plain_dir chain_fs (path_of ''/q/p'')" "plain_dir chain_fs (path_of ''/q/k'')"
    by code_simp+
  have "buildable (path_of ''/r'') (path_of ''/q/p'') (path_of ''/q/k'') [''a.json'', ''b.json''] chain_fs"
    unfolding buildable_def
  proof (intro allI impI)
    fix i :: nat assume "i < length [''a.json'', ''b.json'']"
    then consider "i = 0" | "i = 1" by fastforce
    then show "endswith ([''a.json'', ''b.json''] ! i) ''.json'' \<and> \<not> backup_name ([''a.json'', ''b.json''] ! i)
       \<and> \<not> fs_exists chain_fs (path_child (path_of ''/q/k'') ([''a.json'', ''b.json''] ! i))
       \<and> (\<exists>d. load_directive chain_fs (path_child (path_of ''/q/p'') ([''a.json'', ''b.json''] ! i)) = Some d
         \<and> (\<forall>r \<in> set (requires_of d). on_disk chain_fs (path_of ''/r'') (path_of ''/q/p'') (path_of ''/q/k'') r
             \<or> (\<exists>k < i. \<exists>e. load_directive chain_fs (path_child (path_of ''/q/p'') ([''a.json'', ''b.json''] ! k)) = Some e
                  \<and> output_of e = Some r)))"
    proof cases
      case 1
      then show ?thesis using d(1) r(1) n(1,3,5) by simp
    next
      case 2
      have "([''a.json'', ''b.json''] ! 0) = ''a.json''" "(0 :: nat) < 1" by simp_all
      then have "\<exists>k < (1 :: nat). \<exists>e. load_directive chain_fs (path_child (path_of ''/q/p'') ([''a.json'', ''b.json''] ! k)) = Some e
          \<and> output_of e = Some ''s/logic.py''" using d(1) r(3) by metis
      then show ?thesis using 2 d(2) r(2) n(2,4,6) by simp
    qed
  qed
  from buildable_chain_stays [OF q(1-5) this, of "[\<lambda>_. None, \<lambda>_. None]"] show ?thesis by simp
qed

text \<open>
  Not every pass comes to rest: two directives that each require the other's output, one queued and
  one parked, change places in every pass.
\<close>

definition swap_fs :: "bool \<Rightarrow> fs" where
  "swap_fs b = (let x = \<lparr>body = Doc (JObj [(''output_file'', JStr ''y.py''), (''requires'', JList [JStr ''x.py''])]), mtime = 1\<rparr>;
        y = \<lparr>body = Doc (JObj [(''output_file'', JStr ''x.py''), (''requires'', JList [JStr ''y.py''])]), mtime = 1\<rparr>
     in \<lparr>files = (if b then [(path_of ''/q/k/y.json'', y), (path_of ''/q/p/x.json'', x)]
          else [(path_of ''/q/k/x.json'', x), (path_of ''/q/p/y.json'', y)]),
        dirs = [path_of ''/'', path_of ''/q'', path_of ''/q/k'', path_of ''/q/p''], noread = [], nowrite = []\<rparr>)"

lemma orphans_swap_forever:
  "((park_orphan_chains (\<lambda>_. None) (path_of ''/r'') (path_of ''/q/p'') (path_of ''/q/k'')) ^^ k) (swap_fs True) = swap_fs (even k)"
proof (induction k)
  case (Suc k)
  have "park_orphan_chains (\<lambda>_. None) (path_of ''/r'') (path_of ''/q/p'') (path_of ''/q/k'') (swap_fs True) = swap_fs False"
    "park_orphan_chains (\<lambda>_. None) (path_of ''/r'') (path_of ''/q/p'') (path_of ''/q/k'') (swap_fs False) = swap_fs True"
    by code_simp+
  with Suc show ?case by (cases "even k") simp_all
qed simp

text \<open>A directive that requires its own output counts as its own producer and waits for ever.\<close>

lemma own_output_waits:
  assumes "(n, d) \<in> set (live_pending f pend)" and "output_of d = Some r" and "requires_of d = [r]"
  shows "unsatisfied f repo (producers (live_pending f pend)) d = []"
  using assms by (force simp: unsatisfied_def producers_def map_filter_mem)

end
