(* ===== verification/Builder.thy ===== *)
theory Builder
  imports BuildGates SpineRouter Publisher Progress OrphanChains
begin

text \<open>
  The parts of the runner of the builds, \<open>goose_runner_lib/core.py\<close> and \<open>completion.py\<close>: loading
  directives, deciding which may be built, and what completion, a ghost, giving up, a handoff or a bare
  completion leaves behind. The world
  holds the files, the state behind git, the rows that the write service has accepted, and the
  memory of the process. An exception that aborts the cycle is the flag \<open>False\<close>.
\<close>

subsection \<open>World and configuration\<close>

record 'g bworld =
  bw_pub :: "'g pworld"
  bw_rows :: "(string \<times> jobj) list"
  bw_posts :: nat
  bw_red :: red
  bw_calls :: calls

record 'g bcfg =
  bc_gate :: gatecfg
  bc_goose :: gcfg
  bc_engine :: ecfg
  bc_pub :: "'g pubcfg option"
  bc_write :: "nat \<Rightarrow> string \<Rightarrow> jobj \<Rightarrow> bool"
  bc_query :: "string \<Rightarrow> json"
  bc_shim :: "calls \<Rightarrow> string \<Rightarrow> string \<Rightarrow> string option"
  bc_bandit :: "path \<Rightarrow> fs \<Rightarrow> json option"
  bc_loads :: "string \<Rightarrow> json option"
  bc_matrix :: "jobj list"
  bc_spine :: "path option"
  bc_installed :: bool
  bc_durable :: path
  bc_pending :: path
  bc_done :: path
  bc_outputs :: path
  bc_coworker :: path
  bc_parked :: path
  bc_micros :: int

definition bfs :: "('g, 'x) bworld_scheme \<Rightarrow> fs" where
  "bfs w = pw_fs (bw_pub w)"

definition set_fs :: "fs \<Rightarrow> ('g, 'x) bworld_scheme \<Rightarrow> ('g, 'x) bworld_scheme" where
  "set_fs f w = w\<lparr>bw_pub := (bw_pub w)\<lparr>pw_fs := f\<rparr>\<rparr>"

abbreviation b_home :: "('g, 'y) bcfg_scheme \<Rightarrow> path" where
  "b_home c \<equiv> gt_home (bc_gate c)"

abbreviation b_droot :: "('g, 'y) bcfg_scheme \<Rightarrow> path" where
  "b_droot c \<equiv> gt_droot (bc_gate c)"

abbreviation b_env :: "('g, 'y) bcfg_scheme \<Rightarrow> environ" where
  "b_env c \<equiv> gt_env (bc_gate c)"

abbreviation b_now :: "('g, 'y) bcfg_scheme \<Rightarrow> int" where
  "b_now c \<equiv> gt_now (bc_gate c)"

abbreviation b_ts :: "('g, 'y) bcfg_scheme \<Rightarrow> string" where
  "b_ts c \<equiv> gt_ts (bc_gate c)"

text \<open>\<open>directive.get("directive_id") or directive.get("id", "unknown")\<close>, as the paths and rows show it.\<close>

definition did_of :: "jobj \<Rightarrow> string" where
  "did_of d = py_str (did_or ''unknown'' d)"

definition jid_of :: "jobj \<Rightarrow> json" where
  "jid_of d = did_or ''unknown'' d"

definition ws_write :: "('g, 'y) bcfg_scheme \<Rightarrow> string \<Rightarrow> jobj \<Rightarrow> ('g, 'x) bworld_scheme \<Rightarrow> bool \<times> ('g, 'x) bworld_scheme" where
  "ws_write c table row w =
     (let ok = bc_write c (bw_posts w) table row in
      (ok, w\<lparr>bw_posts := bw_posts w + 1, bw_rows := (if ok then (table, row) # bw_rows w else bw_rows w)\<rparr>))"

definition post :: "('g, 'y) bcfg_scheme \<Rightarrow> string \<Rightarrow> jobj \<Rightarrow> ('g, 'x) bworld_scheme \<Rightarrow> ('g, 'x) bworld_scheme" where
  "post c table row w = snd (ws_write c table row w)"

definition event_row :: "string \<Rightarrow> jobj \<Rightarrow> string \<Rightarrow> string \<Rightarrow> jobj" where
  "event_row kind payload severity ts =
     [(''agent_id'', JStr ''goose_tier1''), (''event_type'', JStr kind), (''payload'', JStr (json_dumps (JObj payload))),
      (''severity'', JStr severity), (''created_at'', JStr ts)]"

subsection \<open>Loading\<close>

definition HOISTED :: "string list" where
  "HOISTED = [''complexity'', ''description'', ''spec'', ''title'', ''key'', ''task'']"

text \<open>\<open>len(v)\<close>; \<open>None\<close> is the TypeError.\<close>

definition value_len :: "json \<Rightarrow> nat option" where
  "value_len v = (case v of JStr s \<Rightarrow> Some (length s) | JList xs \<Rightarrow> Some (length xs) | JObj d \<Rightarrow> Some (length d) | _ \<Rightarrow> None)"

definition hoist :: "jobj \<Rightarrow> string \<Rightarrow> jobj \<Rightarrow> jobj" where
  "hoist inner k d = (if dhas d k then d else case dget inner k of None \<Rightarrow> d | Some v \<Rightarrow> dput k v d)"

definition hoist_inner :: "jobj \<Rightarrow> jobj \<Rightarrow> jobj" where
  "hoist_inner inner d =
     (let d1 = fold (hoist inner) HOISTED d in
      case Option.bind (dget inner ''spec'') value_len of None \<Rightarrow> d1
      | Some n \<Rightarrow> (case value_len (jget_or d1 ''content'' (JStr [])) of None \<Rightarrow> d1
          | Some m \<Rightarrow> if n > m then dput ''content'' (jget inner ''spec'') d1 else d1))"

definition parse_directive :: "(string \<Rightarrow> json option) \<Rightarrow> jobj \<Rightarrow> jobj" where
  "parse_directive rd d =
     (let d1 = (case dget d ''content'' of
          Some (JStr s) \<Rightarrow> (case rd s of Some (JObj inner) \<Rightarrow> hoist_inner inner d | _ \<Rightarrow> d)
        | _ \<Rightarrow> d)
      in if truthy (jget d1 ''directive_id'') then d1 else dput ''directive_id'' (builder_id d1) d1)"

definition is_copy :: "path \<Rightarrow> bool" where
  "is_copy p = (startswith (path_name p) ''.bak'' \<or> startswith (path_name p) ''.duplicate'')"

definition json_files :: "fs \<Rightarrow> path \<Rightarrow> path list" where
  "json_files f d = filter (\<lambda>p. endswith (path_name p) ''.json'') (iterdir_files f d)"

definition prune_one :: "('g, 'y) bcfg_scheme \<Rightarrow> path \<Rightarrow> fs \<Rightarrow> fs" where
  "prune_one c p f =
     (if endswith (path_name p) ''.done.json'' \<or> endswith (path_name p) ''.failed.json'' \<or> is_copy p then f
      else (case read_json f p of
          Some (JObj d) \<Rightarrow>
            (let did = py_str (builder_id d) in
             if did \<noteq> ''unknown'' \<and> fs_exists f (done_path (b_droot c) did)
             then (case mkdirs (bc_done c) f of None \<Rightarrow> f
               | Some g \<Rightarrow> (case fs_replace p (path_child (bc_done c) (path_name p)) g of None \<Rightarrow> g | Some h \<Rightarrow> h))
             else f)
        | _ \<Rightarrow> f))"

definition prune_done_pending :: "('g, 'y) bcfg_scheme \<Rightarrow> fs \<Rightarrow> fs" where
  "prune_done_pending c f = (if fs_exists f (bc_pending c) then fold (prune_one c) (json_files f (bc_pending c)) f else f)"

text \<open>A queued file as a directive with an identity; blank, unreadable and empty ones are passed over.\<close>

definition load_file :: "('g, 'y) bcfg_scheme \<Rightarrow> fs \<Rightarrow> path \<Rightarrow> jobj option" where
  "load_file c f p =
     (case read_json f p of
        Some (JObj d) \<Rightarrow>
          (case directive_content d of None \<Rightarrow> None
           | Some content \<Rightarrow>
             (let d1 = parse_directive (bc_loads c) (dput ''content'' content d) in
              Some (if jget d1 ''directive_id'' \<in> {JNull, JStr [], JStr ''unknown''}
                then dput ''directive_id'' (JStr (path_stem p)) d1 else d1)))
      | _ \<Rightarrow> None)"

fun merge_new :: "string list \<Rightarrow> jobj list \<Rightarrow> jobj list" where
  "merge_new seen [] = []"
| "merge_new seen (d # ds) =
     (let did = py_str (jget_or d ''directive_id'' (jget_or d ''id'' (JStr []))) in
      if did \<in> set seen then merge_new seen ds else d # merge_new (did # seen) ds)"

text \<open>The rows of the mesh first, then the queue in the order of its names.\<close>

definition load_directives :: "('g, 'y) bcfg_scheme \<Rightarrow> jobj list \<Rightarrow> fs \<Rightarrow> jobj list" where
  "load_directives c rows f =
     merge_new [] (map (parse_directive (bc_loads c)) rows
       @ (if fs_exists f (bc_pending c)
          then List.map_filter (load_file c f) (filter (\<lambda>p. \<not> is_copy p) (sort (json_files f (bc_pending c)))) else []))"

subsection \<open>Which directives may be built\<close>

text \<open>The policy layer first; the inline reading only if that raises.\<close>

definition dedup_on :: "('g, 'y) bcfg_scheme \<Rightarrow> fs \<Rightarrow> bool" where
  "dedup_on c f =
     (case flag (b_env c) (gt_toml (bc_gate c)) (Some (b_droot c)) f ''queue.dedup_rebuild'' of
        Some b \<Rightarrow> b
      | None \<Rightarrow>
        ((case b_env c ''ZO_DEDUP_REBUILD'' of None \<Rightarrow> False | Some s \<Rightarrow> s \<noteq> [])
         \<or> (let sf = path_child (b_droot c) ''.dedup_rebuild_on'' in
             is_file f sf \<and> (case read_text f sf of None \<Rightarrow> False
               | Some t \<Rightarrow> strip (content_text t) \<notin> set off_values))))"

definition redundant :: "('g, 'y) bcfg_scheme \<Rightarrow> jobj \<Rightarrow> fs \<Rightarrow> bool" where
  "redundant c d f =
     (dedup_on c f \<and> (case declared_output d (b_home c) of None \<Rightarrow> False
        | Some p \<Rightarrow> is_file f p \<and> open_lessons_for f (gt_lessons (bc_gate c)) (path_name p) = []))"

definition not_failed :: "('g, 'y) bcfg_scheme \<Rightarrow> jobj \<Rightarrow> fs \<Rightarrow> bool \<times> fs" where
  "not_failed c d f =
     (\<not> failed_quarantined f (did_of d) [Some (b_droot c), Some (bc_durable c)] \<and> \<not> redundant c d f, f)"

definition is_goose_eligible :: "('g, 'y) bcfg_scheme \<Rightarrow> jobj \<Rightarrow> fs \<Rightarrow> bool \<times> fs" where
  "is_goose_eligible c d f =
     (let done = done_path (b_droot c) (did_of d) in
      if \<not> fs_exists f done then not_failed c d f
      else if output_confirmed f d (b_home c) MIN_OUTPUT_BYTES then (False, f)
      else (case unlink done f of None \<Rightarrow> (False, f) | Some g \<Rightarrow> not_failed c d g))"


subsection \<open>What a build leaves\<close>

text \<open>\<open>None\<close> when the directory or the file cannot be written.\<close>

definition write_result :: "('g, 'y) bcfg_scheme \<Rightarrow> json \<Rightarrow> bool \<Rightarrow> string \<Rightarrow> string \<Rightarrow> bool \<Rightarrow> fs \<Rightarrow> bool \<times> fs" where
  "write_result c jid success result_text err fallback f =
     (case mkdirs (bc_outputs c) f of None \<Rightarrow> (False, f)
      | Some f1 \<Rightarrow>
        (case write_text (b_now c) (dir_file (bc_outputs c) (py_str jid @ ''.result''))
           (Doc (JObj [(''directive_id'', jid), (''success'', JBool success), (''timestamp'', JStr (b_ts c)),
              (''result'', JStr result_text), (''error'', JStr err), (''fallback_used'', JBool fallback),
              (''source'', JStr (if fallback then ''minimax_fallback'' else ''goose_tier1''))])) f1 of
           None \<Rightarrow> (False, f1) | Some f2 \<Rightarrow> (True, f2)))"

definition pending_file :: "('g, 'y) bcfg_scheme \<Rightarrow> string \<Rightarrow> path" where
  "pending_file c did = dir_file (bc_pending c) (did @ ''.json'')"

definition finished_doc :: "('g, 'y) bcfg_scheme \<Rightarrow> jobj \<Rightarrow> jobj" where
  "finished_doc c d = dput ''completed_by'' (JStr ''goose_tier1'') (dput ''completed_at'' (JStr (b_ts c))
     (dput ''status'' (JStr ''completed'') d))"

definition move_to_done :: "('g, 'y) bcfg_scheme \<Rightarrow> string \<Rightarrow> fs \<Rightarrow> fs" where
  "move_to_done c did f =
     (case read_json f (pending_file c did) of
        Some (JObj d) \<Rightarrow>
          (case write_text (b_now c) (dir_file (bc_done c) (did @ ''.json'')) (Doc (JObj (finished_doc c d))) f of
             None \<Rightarrow> f
           | Some g \<Rightarrow> (case unlink (pending_file c did) g of None \<Rightarrow> g | Some h \<Rightarrow> h))
      | _ \<Rightarrow> f)"

definition completed_row :: "('g, 'y) bcfg_scheme \<Rightarrow> json \<Rightarrow> jobj" where
  "completed_row c jid = event_row ''DIRECTIVE_COMPLETE''
     [(''directive_id'', jid), (''status'', JStr ''completed''), (''completed_at'', JStr (b_ts c))] ''INFO'' (b_ts c)"

definition mark_directive_completed :: "('g, 'y) bcfg_scheme \<Rightarrow> jobj \<Rightarrow> ('g, 'x) bworld_scheme \<Rightarrow> ('g, 'x) bworld_scheme" where
  "mark_directive_completed c d w =
     (let did = did_of d; w1 = post c ''mesh_events'' (completed_row c (jid_of d)) w;
          f1 = (case write_text (b_now c) (done_path (b_droot c) did)
                   (Doc (JObj [(''directive_id'', jid_of d), (''completed_at'', JStr (b_ts c))])) (bfs w1) of
                  None \<Rightarrow> bfs w1 | Some g \<Rightarrow> g)
      in set_fs (move_to_done c did f1) w1)"

text \<open>The output as the rows name it; \<open>None\<close> when the home is a prefix of the text but not of the path.\<close>

definition row_name :: "('g, 'y) bcfg_scheme \<Rightarrow> path \<Rightarrow> string option" where
  "row_name c p = (if startswith (path_str p) (path_str (b_home c)) then relative_to (b_home c) p else Some (path_name p))"

definition ambient_model :: "('g, 'y) bcfg_scheme \<Rightarrow> string" where
  "ambient_model c = (case b_env c ''GOOSE_MODEL'' of None \<Rightarrow> [] | Some s \<Rightarrow> s)"

definition emit_build_artifact_for :: "('g, 'y) bcfg_scheme \<Rightarrow> jobj \<Rightarrow> ('g, 'x) bworld_scheme \<Rightarrow> ('g, 'x) bworld_scheme" where
  "emit_build_artifact_for c d w =
     (case Option.bind (declared_output d (b_home c)) (\<lambda>p. map_option (\<lambda>x. (p, x)) (fs_get (bfs w) p)) of None \<Rightarrow> w
      | Some (p, x) \<Rightarrow>
        (case (row_name c p, tier_for_complexity (jget d ''complexity'')) of
           (Some rel, Some tier) \<Rightarrow>
             (let row = build_artifact_row (bc_micros c) rel (int (content_size (body x))) (directive_type_of d) tier
                    (ambient_model c) ''goose_developer'' (py_str (jget_or d ''phase'' (JStr []))) (py_str (builder_id d)) (b_ts c)
                    @ [(''created_at'', JStr (b_ts c))];
                  (ok, w1) = ws_write c ''mesh_memory'' row w
              in if ok then w1 else post c ''mesh_memory'' row w1)
         | _ \<Rightarrow> w))"

definition commit_build_for :: "('g, 'y) bcfg_scheme \<Rightarrow> jobj \<Rightarrow> ('g, 'x) bworld_scheme \<Rightarrow> ('g, 'x) bworld_scheme" where
  "commit_build_for c d w =
     (case declared_output d (b_home c) of None \<Rightarrow> w
      | Some p \<Rightarrow>
        (if \<not> is_file (bfs w) p \<or> \<not> startswith (path_str p) (path_str (b_home c) @ ''/'') then w
         else (case (bc_pub c, relative_to (b_home c) p, tier_for_complexity (jget d ''complexity'')) of
             (Some pc, Some rel, Some tier) \<Rightarrow>
               w\<lparr>bw_pub := snd (commit pc rel \<lparr>bi_task = py_str (builder_id d), bi_phase = py_str (jget_or d ''phase'' (JStr [])),
                   bi_interface = py_str (py_or (jget d ''interface'') (py_or (jget d ''context_type'') (JStr []))),
                   bi_built_at = b_ts c, bi_tier = tier, bi_source = ''producer''\<rparr> (bw_pub w))\<rparr>
           | _ \<Rightarrow> w)))"

definition record_build_provenance :: "('g, 'y) bcfg_scheme \<Rightarrow> jobj \<Rightarrow> bool \<Rightarrow> string \<Rightarrow> int \<Rightarrow> int \<Rightarrow> string \<Rightarrow> string \<Rightarrow>
    ('g, 'x) bworld_scheme \<Rightarrow> ('g, 'x) bworld_scheme" where
  "record_build_provenance c d success smoke att rescues model err w =
     (let out = (case declared_output d (b_home c) of None \<Rightarrow> Some ([], 0)
            | Some p \<Rightarrow> (case fs_get (bfs w) p of None \<Rightarrow> Some ([], 0)
                | Some x \<Rightarrow> map_option (\<lambda>rel. (rel, int (content_size (body x)))) (row_name c p)));
          m = (if model \<noteq> [] then Some model else if ambient_model c \<noteq> [] then Some (ambient_model c)
             else tier_for_complexity (jget d ''complexity''))
      in case (out, m) of
           (Some (opath, bytes), Some m) \<Rightarrow>
             post c ''build_provenance'' (build_provenance_row (py_str (builder_id d)) (directive_type_of d)
               (py_str (py_or (jget d ''complexity'') (JStr ''unknown''))) m success smoke att rescues opath bytes err
               ''goose'' ''goose_developer'' (b_ts c)) w
         | _ \<Rightarrow> w)"

definition finding_line :: "json \<Rightarrow> string option" where
  "finding_line v = (case v of JObj r \<Rightarrow> Some (py_str (jget_or r ''test_id'' (JStr [])) @ '' '' @
        py_str (jget_or r ''issue_severity'' (JStr [])) @ '': '' @ take 110 (py_str (jget_or r ''issue_text'' (JStr []))) @
        '' (line '' @ py_str (jget_or r ''line_number'' (JStr ''?'')) @ '')'')
     | _ \<Rightarrow> None)"

definition advisory_text :: "nat \<Rightarrow> string list \<Rightarrow> string" where
  "advisory_text n tops = ''Bandit flagged '' @ nat_str n @ '' MEDIUM+ security issue(s); when it does NOT compromise the working feature, prefer the safe form: '' @ join_with '' | '' tops"

definition security_advisory :: "('g, 'y) bcfg_scheme \<Rightarrow> jobj \<Rightarrow> string \<Rightarrow> fs \<Rightarrow> fs" where
  "security_advisory c d did f =
     (case declared_output d (b_home c) of None \<Rightarrow> f
      | Some p \<Rightarrow>
        (if lower (path_suffix p) \<noteq> ''.py'' \<or> \<not> is_file f p then f
         else (let subject = path_name p @ ''::security'' in
           case bc_bandit c p f of
             Some (JObj data) \<Rightarrow>
               (case jget_or data ''results'' (JList []) of
                  JList (r # rs') \<Rightarrow>
                  (let rs = r # rs'; tops = map finding_line (take 4 rs) in
                   if None \<in> set tops then f
                   else note_lesson (bc_gate c) subject did ''security_advisory''
                     (advisory_text (length rs) (map the tops)) 1 f)
                | v \<Rightarrow> (if truthy v then f
                    else snd (resolve_lessons (b_now c) (gt_lessons (bc_gate c)) subject (b_ts c) f)))
           | _ \<Rightarrow> f)))"

definition lesson_target :: "('g, 'y) bcfg_scheme \<Rightarrow> jobj \<Rightarrow> string \<Rightarrow> string" where
  "lesson_target c d did = (case declared_output d (b_home c) of None \<Rightarrow> did | Some p \<Rightarrow> path_name p)"

definition passed_text :: "('g, 'y) bcfg_scheme \<Rightarrow> jobj \<Rightarrow> string" where
  "passed_text c d = ''output_confirmed + Tier-0 gate: '' @
     (case declared_output d (b_home c) of None \<Rightarrow> ''None'' | Some p \<Rightarrow> path_str p)"

definition prove_pass :: "('g, 'y) bcfg_scheme \<Rightarrow> jobj \<Rightarrow> string \<Rightarrow> fs \<Rightarrow> fs" where
  "prove_pass c d did f =
     (case record_pass (b_now c) (b_ts c) (gt_state (bc_gate c)) did (passed_text c d) f of None \<Rightarrow> f
      | Some g \<Rightarrow> or_same g (checkpoint (b_now c) (b_ts c) (gt_state (bc_gate c)) did ''complete'' g))"

text \<open>Publishing comes last: it may move the output aside.\<close>

definition complete_build :: "('g, 'y) bcfg_scheme \<Rightarrow> jobj \<Rightarrow> string \<Rightarrow> string \<Rightarrow> bool \<Rightarrow> string \<Rightarrow>
    ('g, 'x) bworld_scheme \<Rightarrow> bool \<times> ('g, 'x) bworld_scheme" where
  "complete_build c d did result_text fallback model w =
     (case write_result c (jid_of d) True result_text [] fallback (bfs w) of
        (False, f) \<Rightarrow> (False, set_fs f w)
      | (True, f) \<Rightarrow>
        (let w1 = mark_directive_completed c d (emit_build_artifact_for c d (set_fs f w));
             w2 = set_fs (snd (resolve_lessons (b_now c) (gt_lessons (bc_gate c)) (lesson_target c d did) (b_ts c) (bfs w1))) w1;
             w3 = set_fs (security_advisory c d did (bfs w2)) w2
         in case ghost_attempts (bfs w3) (b_droot c) did of None \<Rightarrow> (False, w3)
            | Some n \<Rightarrow>
              (let w4 = record_build_provenance c d True ''pass'' (n + 1) n model [] w3;
                   w5 = set_fs (prove_pass c d did (clear_ghost (b_droot c) did (bfs w4))) w4
               in (True, commit_build_for c d w5))))"

subsection \<open>Ghosts and giving up\<close>

definition failure_kind :: "('g, 'y) bcfg_scheme \<Rightarrow> jobj \<Rightarrow> string" where
  "failure_kind c d = (case declared_output d (b_home c) of None \<Rightarrow> ''ghost_no_output''
     | Some p \<Rightarrow> if doubled_prefix (path_stem p) then ''doubled_path'' else ''ghost_no_output'')"

definition lesson_row :: "('g, 'y) bcfg_scheme \<Rightarrow> jobj \<Rightarrow> string \<Rightarrow> string \<Rightarrow> jobj" where
  "lesson_row c d did reason =
     [(''agent_id'', JStr ''goose_tier1''), (''memory_type'', JStr ''lesson_learned''),
      (''content'', JStr (json_dumps (JObj [(''subject_ref'', JStr (lesson_target c d did)), (''directive_id'', jid_of d),
         (''task_type'', JStr (failure_kind c d)), (''observation'', JStr reason), (''severity'', JInt 3), (''status'', JStr ''open'')]))),
      (''importance'', JFloat (1 / 2) ''0.5''), (''created_at'', JStr (b_ts c))]"

definition unlink_quiet :: "path \<Rightarrow> fs \<Rightarrow> fs" where
  "unlink_quiet p f = (case unlink p f of None \<Rightarrow> f | Some g \<Rightarrow> g)"

definition mark_directive_failed :: "('g, 'y) bcfg_scheme \<Rightarrow> jobj \<Rightarrow> string \<Rightarrow> string \<Rightarrow> ('g, 'x) bworld_scheme \<Rightarrow> ('g, 'x) bworld_scheme" where
  "mark_directive_failed c d did reason w =
     (let w1 = set_fs (note_lesson (bc_gate c) (lesson_target c d did) did (failure_kind c d) reason 3 (bfs w)) w;
          w2 = post c ''mesh_memory'' (lesson_row c d did reason) w1;
          w3 = set_fs (snd (park_directive (b_now c) did reason (b_ts c) (b_droot c) (Some (bc_durable c)) (bfs w2))) w2;
          w4 = post c ''mesh_events'' (event_row ''DIRECTIVE_GHOST_FAILED''
                 [(''directive_id'', jid_of d), (''reason'', JStr reason)] ''WARNING'' (b_ts c)) w3
      in set_fs (unlink_quiet (pending_file c did) (clear_ghost (b_droot c) did (bfs w4))) w4)"

definition fail_text :: "string option \<Rightarrow> int \<Rightarrow> string" where
  "fail_text gate n = ''ghost/gate fail ('' @ (case gate of None \<Rightarrow> DEFAULT_GATE | Some g \<Rightarrow> if g = [] then DEFAULT_GATE else g) @
     ''), attempt '' @ int_str n"

definition ghost_or_fail :: "('g, 'y) bcfg_scheme \<Rightarrow> jobj \<Rightarrow> string \<Rightarrow> string \<Rightarrow> string option \<Rightarrow>
    ('g, 'x) bworld_scheme \<Rightarrow> bool \<times> ('g, 'x) bworld_scheme" where
  "ghost_or_fail c d did model gate w =
     (case bump_ghost (b_now c) (b_droot c) did (b_ts c) (bfs w) of None \<Rightarrow> (False, w)
      | Some (n, f) \<Rightarrow>
        (let err = gate_error_text gate;
             w1 = set_fs (or_same f (record_fail (b_now c) (b_ts c) (gt_state (bc_gate c)) did (fail_text gate n) f)) w;
             w2 = record_build_provenance c d False ''ghost'' n n model err w1
         in if n \<ge> MAX_GHOST_ATTEMPTS then (True, mark_directive_failed c d did err w2)
            else (case write_result c (jid_of d) False [] err False (bfs w2) of
                (False, g) \<Rightarrow> (False, set_fs g w2)
              | (True, g) \<Rightarrow> (True, post c ''mesh_events'' (event_row ''DIRECTIVE_GHOST_RETRY''
                    [(''directive_id'', jid_of d), (''retry_count'', JInt n)] ''WARNING'' (b_ts c)) (set_fs g w2)))))"


subsection \<open>Producing\<close>

definition write_raw_directive :: "('g, 'y) bcfg_scheme \<Rightarrow> jobj \<Rightarrow> fs \<Rightarrow> bool \<times> fs" where
  "write_raw_directive c d f =
     (case (jget d ''content'', declared_output d (b_home c)) of
        (JStr content, Some p) \<Rightarrow>
          (if content = [] then (False, f)
           else (case mkdirs (path_parent p) f of None \<Rightarrow> (False, f)
             | Some f1 \<Rightarrow> (case write_text (b_now c) p (Text content) f1 of None \<Rightarrow> (False, f1) | Some f2 \<Rightarrow> (True, f2))))
      | _ \<Rightarrow> (False, f))"

text \<open>One completion without context; its code is written where the directive declares it.\<close>

definition call_minimax_fallback :: "('g, 'y) bcfg_scheme \<Rightarrow> jobj \<Rightarrow> ('g, 'x) bworld_scheme \<Rightarrow> (bool \<times> string) \<times> ('g, 'x) bworld_scheme" where
  "call_minimax_fallback c d w =
     (let did = did_of d;
          model = (if truthy (did_or ''unknown'' d) then ''zo-ladder-nvidia#'' @ did else ''zo-ladder-nvidia'');
          prompt = ''Complete this task: '' @ py_str (jget_or d ''content'' (jget_or d ''description'' (JStr [])));
          w1 = w\<lparr>bw_calls := (model, prompt) # bw_calls w\<rparr>
      in case bc_shim c (bw_calls w) model prompt of None \<Rightarrow> ((False, []), w1)
         | Some ans \<Rightarrow>
           (let code = strip_code_fences ans in
            ((ans \<noteq> [], ans),
             case declared_output d (b_home c) of None \<Rightarrow> w1
             | Some p \<Rightarrow>
               (if ans = [] \<or> strip code = [] then w1
                else (case mkdirs (path_parent p) (bfs w1) of None \<Rightarrow> w1
                  | Some f1 \<Rightarrow> (case write_text (b_now c) p (Text code) f1 of
                      None \<Rightarrow> set_fs f1 w1 | Some f2 \<Rightarrow> set_fs f2 w1))))))"

definition handoff_text :: "string \<Rightarrow> string" where
  "handoff_text did = ''High-complexity directive requiring Claude Code via Coworker.'' @ [newline] @
     ''Codebase root: /home/workspace/zo_sentinel/'' @ [newline] @
     ''Write outputs to: /home/workspace/zo_sentinel/ (in-place)'' @ [newline] @
     ''Log results to: /home/workspace/logs/'' @ did @ ''_coworker.log'' @ [newline] @
     ''Mark done by writing: /home/workspace/zo_sentinel/directives/done/'' @ did @ ''.json''"

definition route_to_coworker :: "('g, 'y) bcfg_scheme \<Rightarrow> jobj \<Rightarrow> fs \<Rightarrow> bool \<times> fs" where
  "route_to_coworker c d f =
     (case mkdirs (bc_coworker c) f of None \<Rightarrow> (False, f)
      | Some f1 \<Rightarrow>
        (case write_text (b_now c) (dir_file (bc_coworker c) (did_of d @ ''.json''))
           (Doc (JObj [(''directive_id'', did_or ''unknown'' d), (''complexity'', jget_or d ''complexity'' (JStr ''high'')),
              (''description'', jget_or d ''description'' (JStr [])), (''content'', jget_or d ''content'' (JStr [])),
              (''source'', jget_or d ''source'' (JStr [])), (''handoff_at'', JStr (b_ts c)),
              (''status'', JStr ''pending_coworker''), (''instructions'', JStr (handoff_text (did_of d)))])) f1 of
           None \<Rightarrow> (False, f1) | Some f2 \<Rightarrow> (True, f2)))"

definition log_directive_routed :: "('g, 'y) bcfg_scheme \<Rightarrow> jobj \<Rightarrow> ('g, 'x) bworld_scheme \<Rightarrow> ('g, 'x) bworld_scheme" where
  "log_directive_routed c d w = post c ''audit_log''
     [(''event_type'', JStr ''goose_route''), (''actor'', JStr ''goose_runner''), (''target_server_id'', did_or ''unknown'' d),
      (''detail'', JStr (json_dumps (JObj [(''complexity'', jget_or d ''complexity'' (JStr ''unknown'')),
         (''source'', jget_or d ''source'' (JStr ''unknown'')), (''method'', JStr ''goose_tier1'')]))),
      (''created_at'', JStr (b_ts c))] w"

subsection \<open>Loading gives each identity once\<close>

definition loaded_id :: "jobj \<Rightarrow> string" where
  "loaded_id d = py_str (jget_or d ''directive_id'' (jget_or d ''id'' (JStr [])))"

lemma merge_new_ids:
  "distinct (map loaded_id (merge_new seen ds)) \<and> set (map loaded_id (merge_new seen ds)) = loaded_id ` set ds - set seen"
  by (induction seen ds rule: merge_new.induct) (auto simp: Let_def loaded_id_def [symmetric])

definition candidates :: "('g, 'y) bcfg_scheme \<Rightarrow> jobj list \<Rightarrow> fs \<Rightarrow> jobj list" where
  "candidates c rows f = map (parse_directive (bc_loads c)) rows
     @ (if fs_exists f (bc_pending c)
        then List.map_filter (load_file c f) (filter (\<lambda>p. \<not> is_copy p) (sort (json_files f (bc_pending c)))) else [])"

lemma load_is_merge: "load_directives c rows f = merge_new [] (candidates c rows f)"
  by (simp add: load_directives_def candidates_def)

definition firsts :: "string set \<Rightarrow> jobj list \<Rightarrow> jobj set" where
  "firsts seen ds = {d. \<exists>pre post. ds = pre @ d # post \<and> loaded_id d \<notin> seen \<union> loaded_id ` set pre}"

lemma ex_list: "(\<exists>xs. Q xs) \<longleftrightarrow> Q [] \<or> (\<exists>y ys. Q (y # ys))"
  by (metis list.exhaust)

lemma firsts_Cons: "firsts seen (d # ds) = (if loaded_id d \<in> seen then {} else {d}) \<union> firsts (insert (loaded_id d) seen) ds"
proof (rule set_eqI)
  fix x
  have "x \<in> firsts seen (d # ds) \<longleftrightarrow> (x = d \<and> loaded_id d \<notin> seen) \<or>
      (\<exists>pre post. ds = pre @ x # post \<and> loaded_id x \<notin> seen \<union> loaded_id ` set (d # pre))"
    unfolding firsts_def mem_Collect_eq ex_list [of "\<lambda>pre. \<exists>post. d # ds = pre @ x # post \<and> _ pre"] by auto
  then show "x \<in> firsts seen (d # ds) \<longleftrightarrow>
      x \<in> (if loaded_id d \<in> seen then {} else {d}) \<union> firsts (insert (loaded_id d) seen) ds"
    by (auto simp: firsts_def)
qed

lemma merge_new_firsts: "set (merge_new seen ds) = firsts (set seen) ds"
proof (induction seen ds rule: merge_new.induct)
  case (1 seen)
  show ?case by (simp add: firsts_def)
next
  case (2 seen d ds)
  then show ?case by (auto simp: firsts_Cons Let_def loaded_id_def [symmetric] insert_absorb)
qed

text \<open>The loader returns every identity once, and of the candidates, which are the rows of the mesh and then
  the queued files in the order of their names, exactly those whose identity no earlier candidate has: a
  row of the mesh shadows a queued file with its identity, and no directive is run twice in a cycle.\<close>

theorem loader_keeps_first_of_each_identity:
  "distinct (map loaded_id (load_directives c rows f))
    \<and> set (load_directives c rows f) = {d. \<exists>pre post. candidates c rows f = pre @ d # post \<and> loaded_id d \<notin> loaded_id ` set pre}"
  using merge_new_ids [of "[]"] merge_new_firsts [of "[]"] by (simp add: load_is_merge firsts_def)

end
