(* ===== verification/BuildLoop.thy ===== *)
theory BuildLoop
  imports Builder
begin

text \<open>
  One directive and one cycle of the runner, the body of the loop in \<open>goose_runner_lib/runner.py\<close>: the attempts
  to produce the output in their order, the gates behind each, and what ends the cycle. The lemmas show that a
  completion row is only written for what the gates let through, that an outage is counted, and that one
  directive with unusable content stops every cycle.
\<close>

subsection \<open>One directive\<close>

definition SPINE_APP_RECIPES :: "string list" where
  "SPINE_APP_RECIPES = [''webapp_backend_fastapi'', ''webapp_frontend_react'', ''webapp_fullstack'', ''service_dir_from_exemplar'']"

definition goal_text :: "jobj \<Rightarrow> string" where
  "goal_text d = join_with '' '' (map (\<lambda>k. py_str (jget_or d k (JStr []))) [''title'', ''description'', ''content'', ''task''])"

definition spine_parks :: "('g, 'y) bcfg_scheme \<Rightarrow> jobj \<Rightarrow> string \<Rightarrow> fs \<Rightarrow> bool" where
  "spine_parks c d did f =
     (case (bc_spine c, jget d ''recipe'') of
        (Some spine, JStr r) \<Rightarrow> r \<in> set SPINE_APP_RECIPES
          \<and> classify_directive (goal_text d) did (discover_mounts f spine) = Orphan
          \<and> b_env c ''ZO_SPINE_GATE_ENFORCE'' = Some ''1''
      | _ \<Rightarrow> False)"

definition spine_reason :: string where
  "spine_reason = ''spine: REJECT_UNSPINED (orphan / no mounted route, not a service build)''"

text \<open>The task with its contexts: a value that is no text stays what it is without any.\<close>

definition add_context :: "json \<Rightarrow> string \<Rightarrow> json" where
  "add_context task ctx = (if ctx = [] then task else JStr (py_str task @ [newline, newline] @ ctx))"

definition build_task :: "('g, 'y) bcfg_scheme \<Rightarrow> jobj \<Rightarrow> fs \<Rightarrow> json" where
  "build_task c d f = foldl add_context (jget_or d ''content'' (JStr []))
     [graph_context (bc_goose c) (bc_query c) d, lessons_context (bc_goose c) d f, g_data_access (bc_goose c)]"

text \<open>What the attempts to produce the output carry along.\<close>

record job =
  jb_dir :: jobj
  jb_did :: string
  jb_task :: json
  jb_env :: "(string, string) dict"
  jb_attempt :: int
  jb_pre :: "(string \<times> bool) option"

definition run_gates_on :: "('g, 'y) bcfg_scheme \<Rightarrow> job \<Rightarrow> bool \<Rightarrow> ('g, 'x) bworld_scheme \<Rightarrow> string option \<times> ('g, 'x) bworld_scheme" where
  "run_gates_on c j ok w =
     (case gate_chain (bc_gate c) (jb_dir j) (jb_did j) (jb_pre j) ok (bfs w, bw_red w) of
        (g, f, r) \<Rightarrow> (g, (set_fs f w)\<lparr>bw_red := r\<rparr>))"

text \<open>The engine when it is on, else the bare completion: success, result and the model's label.\<close>

definition call_engine :: "('g, 'y) bcfg_scheme \<Rightarrow> job \<Rightarrow> string \<Rightarrow> string \<Rightarrow> string \<Rightarrow> ('g, 'x) bworld_scheme \<Rightarrow>
    (bool \<times> string \<times> string) \<times> ('g, 'x) bworld_scheme" where
  "call_engine c j extra suffix label w =
     (case (engine_enabled (b_env c) (gt_toml (bc_gate c)) (b_droot c) (bfs w), jb_task j) of
        (True, JStr task) \<Rightarrow>
          (case build_with_engine (bc_engine c) (jb_dir j) (engine_task (bc_goose c) (bfs w) task (jb_dir j) @ extra)
             (jb_attempt j) (bfs w, bw_calls w) of
             (r, f, cs) \<Rightarrow> ((er_success r, er_result r, if er_model r = [] then label else ''engine:'' @ er_model r @ suffix),
               (set_fs f w)\<lparr>bw_calls := cs\<rparr>))
      | _ \<Rightarrow> (case call_minimax_fallback c (jb_dir j) w of ((ok, res), w1) \<Rightarrow> ((ok, res, label), w1)))"

text \<open>Where the job stands: done, aborted by an exception, or rejected by a gate with a model's label.\<close>

datatype tried = Produced | Aborted | NotBuilt "string option" string

text \<open>The last row of an attempt that a gate chain let through.\<close>

definition finish_with :: "('g, 'y) bcfg_scheme \<Rightarrow> job \<Rightarrow> bool \<Rightarrow> string \<Rightarrow> bool \<Rightarrow> string \<Rightarrow> ('g, 'x) bworld_scheme \<Rightarrow>
    tried \<times> ('g, 'x) bworld_scheme" where
  "finish_with c j ok res fallback label w =
     (case run_gates_on c j ok w of
        (None, w1) \<Rightarrow> (case complete_build c (jb_dir j) (jb_did j) res fallback label w1 of
            (fine, w2) \<Rightarrow> (if fine then Produced else Aborted, w2))
      | (Some g, w1) \<Rightarrow> (NotBuilt (Some g) label, w1))"

text \<open>The bytes that the directive carries; a rejection is counted at once.\<close>

definition try_raw :: "('g, 'y) bcfg_scheme \<Rightarrow> job \<Rightarrow> string \<Rightarrow> ('g, 'x) bworld_scheme \<Rightarrow> tried \<times> ('g, 'x) bworld_scheme" where
  "try_raw c j label w =
     (case finish_with c j True ''write_raw: content written verbatim'' False ''write_raw'' w of
        (NotBuilt g _, w1) \<Rightarrow>
          (case ghost_or_fail c (jb_dir j) (jb_did j) ''write_raw'' g w1 of
             (fine, w2) \<Rightarrow> (if fine then NotBuilt g label else Aborted, w2))
      | r \<Rightarrow> r)"

definition try_agent :: "('g, 'y) bcfg_scheme \<Rightarrow> job \<Rightarrow> string \<Rightarrow> ('g, 'x) bworld_scheme \<Rightarrow> tried \<times> ('g, 'x) bworld_scheme" where
  "try_agent c j label w =
     (case run_goose_task (bc_goose c) (jb_did j) (jb_task j) (jb_env j) (select_recipe (b_home c) (jb_dir j)) (jb_dir j) (bfs w) of
        (out, f) \<Rightarrow> finish_with c j (out \<noteq> None) (case out of None \<Rightarrow> [] | Some s \<Rightarrow> s) False label (set_fs f w))"

definition first_try :: "('g, 'y) bcfg_scheme \<Rightarrow> job \<Rightarrow> string \<Rightarrow> ('g, 'x) bworld_scheme \<Rightarrow> tried \<times> ('g, 'x) bworld_scheme" where
  "first_try c j label w =
     (let agent = (\<lambda>v. if bc_installed c then try_agent c j label v else (NotBuilt None label, v)) in
      if jget (jb_dir j) ''handler'' = JStr ''write_raw''
      then (case write_raw_directive c (jb_dir j) (bfs w) of
          (True, f) \<Rightarrow> try_raw c j label (set_fs f w)
        | (False, f) \<Rightarrow> agent (set_fs f w))
      else agent w)"

definition try_engine :: "('g, 'y) bcfg_scheme \<Rightarrow> job \<Rightarrow> string \<Rightarrow> ('g, 'x) bworld_scheme \<Rightarrow> tried \<times> ('g, 'x) bworld_scheme" where
  "try_engine c j label w =
     (case call_engine c j [] [] label w of ((ok, res, lab), w1) \<Rightarrow> finish_with c j ok res True lab w1)"

text \<open>One informed re-run after a red self test; inside it an exception is a rejection.\<close>

definition repair_with :: "('g, 'y) bcfg_scheme \<Rightarrow> job \<Rightarrow> string \<Rightarrow> string \<Rightarrow> ('g, 'x) bworld_scheme \<Rightarrow> tried \<times> ('g, 'x) bworld_scheme" where
  "repair_with c j extra label w =
     (case call_engine c j extra '':repair'' label w of
        ((ok, res, lab), w1) \<Rightarrow>
          (case finish_with c j ok res True lab w1 of (Aborted, w2) \<Rightarrow> (NotBuilt None lab, w2) | r \<Rightarrow> r))"

definition try_repair :: "('g, 'y) bcfg_scheme \<Rightarrow> job \<Rightarrow> string \<Rightarrow> ('g, 'x) bworld_scheme \<Rightarrow> tried \<times> ('g, 'x) bworld_scheme" where
  "try_repair c j label w =
     (let f = bfs w; p = declared_output (jb_dir j) (b_home c);
          code = (case p of None \<Rightarrow> Some [] | Some q \<Rightarrow> if fs_exists f q then map_option content_text (read_text f q) else Some []);
          err = (case dget (bw_red w) (jb_did j) of None \<Rightarrow> [] | Some e \<Rightarrow> e)
      in case (code, jb_task j) of
           (Some src, JStr _) \<Rightarrow> repair_with c j (selftest_feedback err src) label w
         | _ \<Rightarrow> (NotBuilt (Some ''selftest'') label, w))"

definition repair_on :: "('g, 'y) bcfg_scheme \<Rightarrow> bool" where
  "repair_on c = (b_env c ''ZO_SELFTEST_REPAIR'' \<noteq> Some ''0'')"

text \<open>The attempts in their order; what none of them produced is a ghost.\<close>

definition build_job :: "('g, 'y) bcfg_scheme \<Rightarrow> job \<Rightarrow> string \<Rightarrow> ('g, 'x) bworld_scheme \<Rightarrow> bool \<times> ('g, 'x) bworld_scheme" where
  "build_job c j label w =
     (case first_try c j label w of
        (Produced, w1) \<Rightarrow> (True, w1)
      | (Aborted, w1) \<Rightarrow> (False, w1)
      | (NotBuilt g0 l0, w1) \<Rightarrow>
        (case try_engine c j l0 w1 of
           (Produced, w2) \<Rightarrow> (True, w2)
         | (Aborted, w2) \<Rightarrow> (False, w2)
         | (NotBuilt g1 l1, w2) \<Rightarrow>
           (case (if g1 = Some ''selftest'' \<and> repair_on c then try_repair c j l1 w2 else (NotBuilt g1 l1, w2)) of
              (Produced, w3) \<Rightarrow> (True, w3)
            | (Aborted, w3) \<Rightarrow> (False, w3)
            | (NotBuilt g2 l2, w3) \<Rightarrow> ghost_or_fail c (jb_dir j) (jb_did j) l2 g2 w3)))"

text \<open>Routing and the task of an eligible directive, up to the first attempt.\<close>

definition prepare_job :: "('g, 'y) bcfg_scheme \<Rightarrow> jobj \<Rightarrow> ('g, 'x) bworld_scheme \<Rightarrow> (job \<times> string) option \<times> ('g, 'x) bworld_scheme" where
  "prepare_job c d w0 =
     (let did = did_of d; w = log_directive_routed c d w0 in
      case write_task_spec (bc_goose c) d (bfs w) of None \<Rightarrow> (None, w)
      | Some f1 \<Rightarrow>
        (case init_manifest (b_now c) (b_ts c) (gt_state (bc_gate c)) [did] f1 of None \<Rightarrow> (None, set_fs f1 w)
         | Some f2 \<Rightarrow>
           (case ghost_attempts f2 (b_droot c) did of None \<Rightarrow> (None, set_fs f2 w)
            | Some n \<Rightarrow>
              (let d1 = dput ''recipe'' (case select_recipe (b_home c) d of Some r \<Rightarrow> JStr r
                     | None \<Rightarrow> jget_or d ''recipe'' (JStr [])) d
               in case build_env_for (b_env c) d1 (nat n) (bc_matrix c) of None \<Rightarrow> (None, set_fs f2 w)
                  | Some e \<Rightarrow>
                    (Some (\<lparr>jb_dir = d1, jb_did = did, jb_task = build_task c d1 f2, jb_env = e, jb_attempt = n,
                        jb_pre = gate_diff_state (bc_gate c) f2\<rparr>,
                      case dget e ''GOOSE_MODEL'' of None \<Rightarrow> [] | Some m \<Rightarrow> m), set_fs f2 w)))))"

definition process_directive :: "('g, 'y) bcfg_scheme \<Rightarrow> jobj \<Rightarrow> ('g, 'x) bworld_scheme \<Rightarrow> bool \<times> ('g, 'x) bworld_scheme" where
  "process_directive c d w =
     (case is_goose_eligible c d (bfs w) of
        (False, f) \<Rightarrow> (True, set_fs f w)
      | (True, f) \<Rightarrow>
        (if jget_or d ''complexity'' (JStr ''unknown'') = JStr ''high''
         then (case route_to_coworker c d f of
             (False, g) \<Rightarrow> (False, set_fs g w)
           | (True, g) \<Rightarrow> (True, mark_directive_completed c d (set_fs g w)))
         else if unmet_requires f d (b_home c) \<noteq> [] then (True, set_fs f w)
         else (case prepare_job c d (set_fs f w) of
             (None, w1) \<Rightarrow> (False, w1)
           | (Some (j, label), w1) \<Rightarrow>
             (if spine_parks c (jb_dir j) (jb_did j) (bfs w1)
              then (True, set_fs (snd (park_directive (b_now c) (jb_did j) spine_reason (b_ts c) (b_droot c)
                     (Some (bc_durable c)) (bfs w1))) w1)
              else build_job c j label w1))))"

text \<open>A cycle: an exception ends it.\<close>

fun process_all :: "('g, 'y) bcfg_scheme \<Rightarrow> jobj list \<Rightarrow> ('g, 'x) bworld_scheme \<Rightarrow> bool \<times> ('g, 'x) bworld_scheme" where
  "process_all c [] w = (True, w)"
| "process_all c (d # ds) w =
     (case process_directive c d w of (True, w1) \<Rightarrow> process_all c ds w1 | (False, w1) \<Rightarrow> (False, w1))"

text \<open>The queue is pruned and its orphans are parked before it is read.\<close>

definition builder_cycle :: "('g, 'y) bcfg_scheme \<Rightarrow> jobj list \<Rightarrow> ('g, 'x) bworld_scheme \<Rightarrow> bool \<times> ('g, 'x) bworld_scheme" where
  "builder_cycle c rows w =
     (let f = park_orphan_chains (b_env c) (b_home c) (bc_pending c) (bc_parked c) (prune_done_pending c (bfs w))
      in process_all c (load_directives c rows f) (set_fs f w))"

subsection \<open>Completion rows\<close>

definition completed_rows :: "('g, 'x) bworld_scheme \<Rightarrow> (string \<times> jobj) list" where
  "completed_rows w = filter (\<lambda>(t, r). t = ''mesh_events'' \<and> jget r ''event_type'' = JStr ''DIRECTIVE_COMPLETE'') (bw_rows w)"

lemma set_fs_frame [simp]:
  "bw_rows (set_fs f w) = bw_rows w" "completed_rows (set_fs f w) = completed_rows w" "bfs (set_fs f w) = f"
  "completed_rows (w\<lparr>bw_red := r\<rparr>) = completed_rows w" "completed_rows (w\<lparr>bw_calls := k\<rparr>) = completed_rows w"
  "completed_rows (w\<lparr>bw_pub := b\<rparr>) = completed_rows w"
  by (simp_all add: set_fs_def completed_rows_def bfs_def)

lemma set_fs_same: "set_fs (bfs w) w = w"
  by (simp add: set_fs_def bfs_def)

lemma completed_post:
  "\<not> (t = ''mesh_events'' \<and> jget r ''event_type'' = JStr ''DIRECTIVE_COMPLETE'') \<Longrightarrow> completed_rows (post c t r w) = completed_rows w"
  by (auto simp: post_def ws_write_def Let_def completed_rows_def)

lemma completed_other [simp]: "t \<noteq> ''mesh_events'' \<Longrightarrow> completed_rows (post c t r w) = completed_rows w"
  by (rule completed_post) simp

lemma completed_event [simp]:
  "k \<noteq> ''DIRECTIVE_COMPLETE'' \<Longrightarrow> completed_rows (post c ''mesh_events'' (event_row k b s ts) w) = completed_rows w"
  by (rule completed_post) (simp add: event_row_def jget_def)

lemma provenance_completed [simp]:
  "completed_rows (record_build_provenance c d ok smoke n r model err w) = completed_rows w"
  by (auto simp: record_build_provenance_def Let_def split: option.split)

lemma failed_completed [simp]: "completed_rows (mark_directive_failed c d did reason w) = completed_rows w"
  by (simp add: mark_directive_failed_def Let_def)

lemma ghost_completed [simp]: "completed_rows (snd (ghost_or_fail c d did model g w)) = completed_rows w"
  by (auto simp: ghost_or_fail_def Let_def split: option.split prod.split bool.split)

lemma fallback_completed [simp]: "completed_rows (snd (call_minimax_fallback c d w)) = completed_rows w"
  by (auto simp: call_minimax_fallback_def Let_def split: option.split)

lemma engine_completed [simp]: "completed_rows (snd (call_engine c j extra suffix label w)) = completed_rows w"
  using fallback_completed [of c "jb_dir j" w]
  by (auto simp: call_engine_def split: bool.split json.split prod.split simp del: fallback_completed)

lemma gates_completed [simp]: "completed_rows (snd (run_gates_on c j ok w)) = completed_rows w"
  by (auto simp: run_gates_on_def split: prod.split)

text \<open>A world that is what completion leaves of one the gate chain has let through.\<close>

definition certified :: "('g, 'y) bcfg_scheme \<Rightarrow> job \<Rightarrow> ('g, 'x) bworld_scheme \<Rightarrow> bool" where
  "certified c j w' \<longleftrightarrow> (\<exists>v v1 res fb lab. run_gates_on c j True v = (None, v1)
     \<and> w' = snd (complete_build c (jb_dir j) (jb_did j) res fb lab v1))"

lemma gates_need_engine: "run_gates_on c j ok w = (None, w1) \<Longrightarrow> ok"
  by (auto simp: run_gates_on_def gate_chain_def split: if_splits)

lemma aborted_completion:
  assumes "complete_build c d did res fb lab w = (False, w')"
  shows "completed_rows w' = completed_rows w \<or> ghost_attempts (bfs w') (b_droot c) did = None"
  using assms by (auto simp: complete_build_def Let_def split: prod.splits bool.splits option.splits)

definition fine_end :: "('g, 'y) bcfg_scheme \<Rightarrow> job \<Rightarrow> ('g, 'x) bworld_scheme \<Rightarrow> tried \<times> ('g, 'x) bworld_scheme \<Rightarrow> bool" where
  "fine_end c j w r \<longleftrightarrow> (case r of
     (NotBuilt _ _, w') \<Rightarrow> completed_rows w' = completed_rows w
   | (Aborted, w') \<Rightarrow> completed_rows w' = completed_rows w \<or> certified c j w' \<and> ghost_attempts (bfs w') (b_droot c) (jb_did j) = None
   | (Produced, w') \<Rightarrow> certified c j w')"

lemma fine_endI:
  "completed_rows w = completed_rows w0 \<Longrightarrow> fine_end c j w r \<Longrightarrow> fine_end c j w0 r"
  by (auto simp: fine_end_def split: prod.splits tried.splits)

lemma finish_fine: "fine_end c j w (finish_with c j ok res fb lab w)"
proof -
  obtain g w1 where g: "run_gates_on c j ok w = (g, w1)" by (metis surj_pair)
  have k: "completed_rows w1 = completed_rows w" using gates_completed [of c j ok w] g by simp
  obtain b w2 where b: "complete_build c (jb_dir j) (jb_did j) res fb lab w1 = (b, w2)" by (metis surj_pair)
  show ?thesis
  proof (cases g)
    case (Some x)
    with g k show ?thesis by (simp add: finish_with_def fine_end_def)
  next
    case None
    then have "run_gates_on c j True w = (None, w1)" using g gates_need_engine [of c j ok w w1] by (cases ok) auto
    then have "certified c j w2" unfolding certified_def using b by (metis snd_conv)
    with g k b None aborted_completion [of c "jb_dir j" "jb_did j" res fb lab w1 w2] show ?thesis
      by (cases b) (auto simp: finish_with_def fine_end_def)
  qed
qed

lemma agent_fine: "fine_end c j w (try_agent c j label w)"
proof -
  obtain r f where r: "run_goose_task (bc_goose c) (jb_did j) (jb_task j) (jb_env j) (select_recipe (b_home c) (jb_dir j))
      (jb_dir j) (bfs w) = (r, f)" by (metis surj_pair)
  show ?thesis unfolding try_agent_def r prod.case by (rule fine_endI [OF _ finish_fine]) simp
qed

lemma raw_fine: "fine_end c j w (try_raw c j label w)"
proof -
  obtain x w1 where x: "finish_with c j True ''write_raw: content written verbatim'' False ''write_raw'' w = (x, w1)"
    by (metis surj_pair)
  have e: "fine_end c j w (x, w1)" using finish_fine [of c j w True "''write_raw: content written verbatim''" False "''write_raw''"] x by simp
  show ?thesis
  proof (cases x)
    case (NotBuilt g l)
    obtain b w2 where b: "ghost_or_fail c (jb_dir j) (jb_did j) ''write_raw'' g w1 = (b, w2)" by (metis surj_pair)
    then have "completed_rows w2 = completed_rows w"
      using e NotBuilt ghost_completed [of c "jb_dir j" "jb_did j" "''write_raw''" g w1] by (simp add: fine_end_def)
    then show ?thesis using x b NotBuilt by (simp add: try_raw_def fine_end_def)
  qed (use x e in \<open>simp_all add: try_raw_def\<close>)
qed

lemma first_fine: "fine_end c j w (first_try c j label w)"
proof -
  have a: "completed_rows v = completed_rows w \<Longrightarrow>
      fine_end c j w (if bc_installed c then try_agent c j label v else (NotBuilt None label, v))" for v
  proof (cases "bc_installed c")
    case True
    assume "completed_rows v = completed_rows w"
    with True show ?thesis using fine_endI [OF _ agent_fine, of v w c j label] by simp
  qed (simp add: fine_end_def)
  obtain b f where "write_raw_directive c (jb_dir j) (bfs w) = (b, f)" by (metis surj_pair)
  with a [of w] a [of "set_fs f w"] fine_endI [OF _ raw_fine, of "set_fs f w" w c j label] show ?thesis
    by (cases b) (simp_all add: first_try_def)
qed

lemma engine_fine: "fine_end c j w (try_engine c j label w)"
proof -
  obtain ok res lab w1 where e: "call_engine c j [] [] label w = ((ok, res, lab), w1)" by (metis surj_pair)
  then have "completed_rows w1 = completed_rows w" using engine_completed [of c j "[]" "[]" label w] by simp
  then show ?thesis unfolding try_engine_def e prod.case by (rule fine_endI [OF _ finish_fine])
qed

text \<open>A repair that aborts counts as rejected; the ghost counter then cannot be read.\<close>

lemma repair_with_fine:
  assumes "repair_with c j extra label w = (x, w')"
  shows "(x = Produced \<and> certified c j w') \<or> (\<exists>g l. x = NotBuilt g l \<and> (completed_rows w' = completed_rows w
    \<or> certified c j w' \<and> ghost_attempts (bfs w') (b_droot c) (jb_did j) = None))"
proof -
  obtain ok res lab w1 where e: "call_engine c j extra '':repair'' label w = ((ok, res, lab), w1)" by (metis surj_pair)
  then have k: "completed_rows w1 = completed_rows w" using engine_completed [of c j extra "'':repair''" label w] by simp
  obtain y w2 where y: "finish_with c j ok res True lab w1 = (y, w2)" by (metis surj_pair)
  have "fine_end c j w1 (y, w2)" using finish_fine [of c j w1 ok res True lab] y by simp
  with assms e y k show ?thesis by (cases y) (auto simp: fine_end_def repair_with_def)
qed

lemma repair_fine:
  assumes "try_repair c j label w = (x, w')"
  shows "(x = Produced \<and> certified c j w') \<or> (\<exists>g l. x = NotBuilt g l \<and> (completed_rows w' = completed_rows w
    \<or> certified c j w' \<and> ghost_attempts (bfs w') (b_droot c) (jb_did j) = None))"
proof -
  have "(\<exists>extra. repair_with c j extra label w = (x, w')) \<or> (\<exists>g. (x, w') = (NotBuilt g label, w))"
    using assms unfolding try_repair_def Let_def by (auto simp: case_prod_unfold split: option.splits json.splits)
  then show ?thesis using repair_with_fine [of c j _ label w x w'] by blast
qed

text \<open>A job ends in a completion of what the gates let through, or it reports no completion.\<close>

lemma ghost_of_unreadable:
  "ghost_attempts (bfs w) (b_droot c) did = None \<Longrightarrow> ghost_or_fail c d did model g w = (False, w)"
  by (simp add: ghost_or_fail_def bump_ghost_def)

lemma job_certified:
  assumes "build_job c j label w = (b, w')" and "completed_rows w' \<noteq> completed_rows w"
  shows "certified c j w'"
proof -
  obtain x w1 where x: "first_try c j label w = (x, w1)" by (metis surj_pair)
  have fx: "fine_end c j w (x, w1)" using first_fine [of c j w label] x by simp
  show ?thesis
  proof (cases x)
    case (NotBuilt g0 l0)
    then have k1: "completed_rows w1 = completed_rows w" using fx by (simp add: fine_end_def)
    obtain y w2 where y: "try_engine c j l0 w1 = (y, w2)" by (metis surj_pair)
    have fy: "fine_end c j w (y, w2)" using fine_endI [OF k1 engine_fine] y by metis
    show ?thesis
    proof (cases y)
      case y': (NotBuilt g1 l1)
      then have k2: "completed_rows w2 = completed_rows w" using fy by (simp add: fine_end_def)
      obtain z w3 where z: "(if g1 = Some ''selftest'' \<and> repair_on c then try_repair c j l1 w2 else (NotBuilt g1 l1, w2)) = (z, w3)"
        by (metis surj_pair)
      then have fz: "(z = Produced \<and> certified c j w3) \<or> (\<exists>g l. z = NotBuilt g l \<and> (completed_rows w3 = completed_rows w
          \<or> certified c j w3 \<and> ghost_attempts (bfs w3) (b_droot c) (jb_did j) = None))"
        using repair_fine [of c j l1 w2 z w3] k2 by (auto split: if_splits)
      have r: "build_job c j label w = (case z of Produced \<Rightarrow> (True, w3) | Aborted \<Rightarrow> (False, w3)
          | NotBuilt g2 l2 \<Rightarrow> ghost_or_fail c (jb_dir j) (jb_did j) l2 g2 w3)"
        unfolding build_job_def x y NotBuilt y' prod.case tried.case z by (cases z) simp_all
      from fz show ?thesis
      proof (elim disjE exE conjE)
        fix g l assume zz: "z = NotBuilt g l" and "completed_rows w3 = completed_rows w"
        then have "completed_rows w' = completed_rows w"
          using assms(1) r ghost_completed [of c "jb_dir j" "jb_did j" l g w3] by simp
        with assms(2) show ?thesis ..
      next
        fix g l assume zz: "z = NotBuilt g l" and u: "certified c j w3" "ghost_attempts (bfs w3) (b_droot c) (jb_did j) = None"
        from assms(1) r zz ghost_of_unreadable [OF u(2), of "jb_dir j" l g] u(1) show ?thesis by simp
      qed (use assms(1) r in auto)
    qed (use assms x y fy NotBuilt in \<open>auto simp: build_job_def fine_end_def\<close>)
  qed (use assms x fx in \<open>auto simp: build_job_def fine_end_def\<close>)
qed

text \<open>A run in which the bytes that the directive carries pass the gates, evaluated up to completion.\<close>

definition raw_goes_through :: "('g, 'y) bcfg_scheme \<Rightarrow> jobj \<Rightarrow> ('g, 'x) bworld_scheme \<Rightarrow> bool" where
  "raw_goes_through c d w =
     (case is_goose_eligible c d (bfs w) of (ok, f) \<Rightarrow>
        ok \<and> jget_or d ''complexity'' (JStr ''unknown'') \<noteq> JStr ''high'' \<and> unmet_requires f d (b_home c) = [] \<and>
        (case prepare_job c d (set_fs f w) of
           (Some (j, label), w1) \<Rightarrow>
             \<not> spine_parks c (jb_dir j) (jb_did j) (bfs w1) \<and> jget (jb_dir j) ''handler'' = JStr ''write_raw'' \<and>
             (case write_raw_directive c (jb_dir j) (bfs w1) of (written, g) \<Rightarrow> written \<and>
                (case run_gates_on c j True (set_fs g w1) of
                   (None, w2) \<Rightarrow> fst (write_result c (jid_of (jb_dir j)) True ''write_raw: content written verbatim'' [] False (bfs w2))
                 | _ \<Rightarrow> False))
         | _ \<Rightarrow> False))"

lemma prepared_completed: "completed_rows (snd (prepare_job c d w)) = completed_rows w"
  by (auto simp: prepare_job_def log_directive_routed_def Let_def split: option.split)

lemma artifact_completed [simp]: "completed_rows (emit_build_artifact_for c d w) = completed_rows w"
  by (auto simp: emit_build_artifact_for_def ws_write_def completed_rows_def post_def Let_def split: option.split prod.split)

lemma commit_completed [simp]: "completed_rows (commit_build_for c d w) = completed_rows w"
  by (auto simp: commit_build_for_def split: option.split)

lemma marked_completed:
  "bc_write c = (\<lambda>n t r. True) \<Longrightarrow> length (completed_rows (mark_directive_completed c d w)) = Suc (length (completed_rows w))"
  by (simp add: mark_directive_completed_def completed_row_def event_row_def post_def ws_write_def completed_rows_def Let_def
      set_fs_def jget_def)

lemma completion_adds_row:
  assumes "bc_write c = (\<lambda>n t r. True)" and "fst (write_result c (jid_of d) True res [] fb (bfs w))"
  shows "length (completed_rows (snd (complete_build c d did res fb model w))) = Suc (length (completed_rows w))"
proof -
  obtain f where f: "write_result c (jid_of d) True res [] fb (bfs w) = (True, f)" using assms(2) by (metis prod.collapse)
  show ?thesis unfolding complete_build_def f by (auto simp: Let_def marked_completed [OF assms(1)] split: option.split)
qed

lemma raw_run_completes:
  assumes "raw_goes_through c d w" and "bc_write c = (\<lambda>n t r. True)"
  shows "length (completed_rows (snd (process_directive c d w))) = Suc (length (completed_rows w))"
proof -
  obtain f where f: "is_goose_eligible c d (bfs w) = (True, f)" "jget_or d ''complexity'' (JStr ''unknown'') \<noteq> JStr ''high''"
      "unmet_requires f d (b_home c) = []"
    using assms(1) by (auto simp: raw_goes_through_def split: prod.splits)
  obtain q w1 where q: "prepare_job c d (set_fs f w) = (q, w1)" by (metis surj_pair)
  then obtain j label where p: "prepare_job c d (set_fs f w) = (Some (j, label), w1)"
    using assms(1) f(1) by (cases q) (auto simp: raw_goes_through_def)
  have r: "\<not> spine_parks c (jb_dir j) (jb_did j) (bfs w1)" "jget (jb_dir j) ''handler'' = JStr ''write_raw''"
      "case write_raw_directive c (jb_dir j) (bfs w1) of (written, g) \<Rightarrow> written \<and>
         (case run_gates_on c j True (set_fs g w1) of
            (None, w2) \<Rightarrow> fst (write_result c (jid_of (jb_dir j)) True ''write_raw: content written verbatim'' [] False (bfs w2))
          | _ \<Rightarrow> False)"
    using assms(1) f(1) p by (simp_all add: raw_goes_through_def)
  then obtain g where g: "write_raw_directive c (jb_dir j) (bfs w1) = (True, g)" by (auto split: prod.splits)
  with r(3) obtain w2 where w2: "run_gates_on c j True (set_fs g w1) = (None, w2)"
      "fst (write_result c (jid_of (jb_dir j)) True ''write_raw: content written verbatim'' [] False (bfs w2))"
    by (auto split: prod.splits option.splits)
  obtain b w3 where b: "complete_build c (jb_dir j) (jb_did j) ''write_raw: content written verbatim'' False ''write_raw'' w2 = (b, w3)"
    by (metis surj_pair)
  have "completed_rows w2 = completed_rows w"
    using gates_completed [of c j True "set_fs g w1"] w2(1) prepared_completed [of c d "set_fs f w"] p by simp
  then have "length (completed_rows w3) = Suc (length (completed_rows w))"
    using completion_adds_row [OF assms(2) w2(2), of "jb_did j" "''write_raw''"] b by simp
  then show ?thesis
    using f p r(1,2) g w2(1) b
    by (cases b) (simp_all add: process_directive_def build_job_def first_try_def try_raw_def finish_with_def)
qed

definition raw_cfg :: "unit bcfg" where
  "raw_cfg = \<lparr>bc_gate = ok_cfg, bc_goose = spent_cfg, bc_engine = test_engine, bc_pub = None, bc_write = (\<lambda>n t r. True),
     bc_query = (\<lambda>q. JNull), bc_shim = (\<lambda>cs m p. None), bc_bandit = (\<lambda>p f. None), bc_loads = (\<lambda>s. None), bc_matrix = [],
     bc_spine = None, bc_installed = False, bc_durable = path_of ''/q'', bc_pending = path_of ''/h/d/pending'',
     bc_done = path_of ''/h/d/done'', bc_outputs = path_of ''/o'', bc_coworker = path_of ''/o/c'', bc_parked = path_of ''/h/d/p'',
     bc_micros = 5\<rparr>"

definition raw_world :: "unit bworld" where
  "raw_world = \<lparr>bw_pub = \<lparr>pw_fs = \<lparr>files = [], dirs = [path_of ''/'', path_of ''/h'', path_of ''/h/d'', path_of ''/s''], noread = [], nowrite = []\<rparr>,
      pw_git = ()\<rparr>, bw_rows = [], bw_posts = 0, bw_red = [], bw_calls = []\<rparr>"

definition raw_directive :: jobj where
  "raw_directive = [(''directive_id'', JStr ''d1''), (''handler'', JStr ''write_raw''), (''output_file'', JStr ''a.sql''),
     (''content'', JStr ''CREATE TABLE orgs (id INTEGER PRIMARY KEY, name TEXT);'')]"

subsection \<open>An outage of the engines\<close>

lemma gates_without_build: "run_gates_on c j False w = (Some ''engine_failed'', w)"
  by (cases w) (simp add: run_gates_on_def gate_chain_def set_fs_def bfs_def)

lemma outage_fallback:
  assumes "\<forall>cs m p. bc_shim c cs m p = None"
  shows "\<exists>w1. call_minimax_fallback c d w = ((False, []), w1) \<and> bfs w1 = bfs w \<and> completed_rows w1 = completed_rows w"
  using assms by (simp add: call_minimax_fallback_def Let_def bfs_def completed_rows_def)

lemma outage_job:
  assumes "\<not> bc_installed c" and "\<forall>cs m p. bc_shim c cs m p = None"
    and "\<not> engine_enabled (b_env c) (gt_toml (bc_gate c)) (b_droot c) (bfs w)"
    and "jget (jb_dir j) ''handler'' \<noteq> JStr ''write_raw''"
  shows "\<exists>w1. build_job c j label w = ghost_or_fail c (jb_dir j) (jb_did j) label (Some ''engine_failed'') w1
    \<and> bfs w1 = bfs w \<and> completed_rows w1 = completed_rows w"
proof -
  obtain w1 where w1: "call_minimax_fallback c (jb_dir j) w = ((False, []), w1)" "bfs w1 = bfs w" "completed_rows w1 = completed_rows w"
    using outage_fallback [OF assms(2)] by blast
  have "try_engine c j label w = (NotBuilt (Some ''engine_failed'') label, w1)"
    using assms(3) w1(1) by (simp add: try_engine_def call_engine_def finish_with_def gates_without_build)
  with assms(1,4) w1(2,3) show ?thesis by (auto simp: build_job_def first_try_def)
qed

lemma ghost_file_frame:
  assumes "record_fail (b_now c) (b_ts c) (gt_state (bc_gate c)) did t f = Some g" and "q \<notin> manifest_files (bc_gate c)"
  shows "fs_get g q = fs_get f q \<and> noread g = noread f"
  using assms put_steps_frame by (fastforce simp: record_fail_def manifest_files_def split: option.splits)

lemma result_frame:
  assumes "write_result c jid ok r e fb f = (b, g)" and "q \<noteq> dir_file (bc_outputs c) (py_str jid @ ''.result'')"
  shows "fs_get g q = fs_get f q \<and> noread g = noread f"
  using assms write_text_get [of "b_now c" "dir_file (bc_outputs c) (py_str jid @ ''.result'')"]
  by (auto simp: write_result_def write_text_def dest!: mkdirs_frame fs_put_frame split: option.splits)

lemma provenance_files [simp]: "bfs (record_build_provenance c d ok smoke n r model err w) = bfs w"
  by (auto simp: record_build_provenance_def post_def ws_write_def bfs_def Let_def split: option.split)

lemma post_files [simp]: "bfs (post c t r w) = bfs w"
  by (simp add: post_def ws_write_def bfs_def Let_def)

lemma ghost_attempts_cong:
  "fs_get g (ghost_path d did) = fs_get f (ghost_path d did) \<Longrightarrow> noread g = noread f \<Longrightarrow>
    ghost_attempts g d did = ghost_attempts f d did"
  by (simp add: ghost_attempts_def read_json_def read_text_def)

lemma bumped:
  assumes "ghost_attempts f d did = Some m" and "\<forall>t. write_text now (ghost_path d did) t f \<noteq> None"
    and "ghost_path d did \<notin> set (noread f)"
  shows "\<exists>g. bump_ghost now d did whn f = Some (m + 1, g) \<and> ghost_attempts g d did = Some (m + 1)"
proof -
  let ?t = "Doc (JObj [(''attempts'', JInt (m + 1)), (''last'', JStr whn)])"
  obtain g where g: "write_text now (ghost_path d did) ?t f = Some g" using assms(2) by blast
  have "fs_get g (ghost_path d did) = Some \<lparr>body = ?t, mtime = now\<rparr>" "noread g = noread f"
    using write_text_get [OF g] fs_put_frame [OF g [unfolded write_text_def]] by auto
  then have "ghost_attempts g d did = Some (m + 1)"
    using assms(3) by (simp add: ghost_attempts_def read_json_def read_text_def)
  with g assms(1) show ?thesis by (simp add: bump_ghost_def Let_def)
qed

text \<open>C32: an outage is not a loop: when no agent is installed, the engine is off and the model server does not answer,
  building a directive whose handler is not \<open>write_raw\<close> reports no completion and counts exactly one ghost attempt
  more, provided its ghost file can be written and read and is none of the manifest's or the results' files; once that
  count reaches the cap the directive is given up, with the parking of \<open>mark_directive_failed\<close> as the last step.\<close>

theorem outage_costs_one_ghost:
  assumes "\<not> bc_installed c" and "\<forall>cs m p. bc_shim c cs m p = None"
    and "\<not> engine_enabled (b_env c) (gt_toml (bc_gate c)) (b_droot c) (bfs w)"
    and "jget (jb_dir j) ''handler'' \<noteq> JStr ''write_raw''"
    and "ghost_attempts (bfs w) (b_droot c) (jb_did j) = Some m"
    and "\<forall>t. write_text (b_now c) (ghost_path (b_droot c) (jb_did j)) t (bfs w) \<noteq> None"
    and "ghost_path (b_droot c) (jb_did j) \<notin> set (noread (bfs w))"
    and "ghost_path (b_droot c) (jb_did j) \<notin> manifest_files (bc_gate c)"
    and "ghost_path (b_droot c) (jb_did j) \<noteq> dir_file (bc_outputs c) (py_str (jid_of (jb_dir j)) @ ''.result'')"
  shows "\<exists>b w' v. build_job c j label w = (b, w') \<and> completed_rows w' = completed_rows w
    \<and> ghost_attempts (bfs v) (b_droot c) (jb_did j) = Some (m + 1)
    \<and> (if m + 1 < MAX_GHOST_ATTEMPTS then w' = v
       else b \<and> w' = mark_directive_failed c (jb_dir j) (jb_did j) (gate_error_text (Some ''engine_failed'')) v)"
proof -
  let ?p = "ghost_path (b_droot c) (jb_did j)"
  obtain w1 where w1: "build_job c j label w = ghost_or_fail c (jb_dir j) (jb_did j) label (Some ''engine_failed'') w1"
      "bfs w1 = bfs w" "completed_rows w1 = completed_rows w" using outage_job [OF assms(1-4)] by blast
  obtain f where f: "bump_ghost (b_now c) (b_droot c) (jb_did j) (b_ts c) (bfs w) = Some (m + 1, f)"
      "ghost_attempts f (b_droot c) (jb_did j) = Some (m + 1)" using bumped [OF assms(5-7)] by blast
  define f1 where "f1 = or_same f (record_fail (b_now c) (b_ts c) (gt_state (bc_gate c)) (jb_did j)
      (fail_text (Some ''engine_failed'') (m + 1)) f)"
  have f1: "fs_get f1 ?p = fs_get f ?p" "noread f1 = noread f"
    using ghost_file_frame [OF _ assms(8)] by (auto simp: f1_def or_same_def split: option.split)
  have a1: "ghost_attempts f1 (b_droot c) (jb_did j) = Some (m + 1)"
    using f1 f(2) ghost_attempts_cong [of f1 "b_droot c" "jb_did j" f] by simp
  have cr: "completed_rows (snd (build_job c j label w)) = completed_rows w"
    using w1 ghost_completed [of c "jb_dir j" "jb_did j" label "Some ''engine_failed''" w1] by simp
  show ?thesis
  proof (cases "m + 1 < MAX_GHOST_ATTEMPTS")
    case True
    obtain ok g where g: "write_result c (jid_of (jb_dir j)) False [] (gate_error_text (Some ''engine_failed'')) False f1 = (ok, g)"
      by (metis surj_pair)
    have "ghost_attempts g (b_droot c) (jb_did j) = Some (m + 1)"
      using result_frame [OF g assms(9)] a1 ghost_attempts_cong [of g "b_droot c" "jb_did j" f1] by simp
    moreover have "bfs (snd (build_job c j label w)) = g"
      using f(1) True g w1(1,2) by (cases ok) (simp_all add: ghost_or_fail_def f1_def [symmetric] Let_def)
    ultimately show ?thesis using cr True by (metis surj_pair snd_conv)
  next
    case False
    define v where "v = record_build_provenance c (jb_dir j) False ''ghost'' (m + 1) (m + 1) label
        (gate_error_text (Some ''engine_failed'')) (set_fs f1 w1)"
    have "build_job c j label w = (True, mark_directive_failed c (jb_dir j) (jb_did j) (gate_error_text (Some ''engine_failed'')) v)"
      using f(1) False w1(1,2) by (simp add: ghost_or_fail_def f1_def [symmetric] v_def Let_def)
    moreover have "bfs v = f1" unfolding v_def provenance_files by (simp add: set_fs_def bfs_def)
    ultimately show ?thesis using a1 cr False by (metis snd_conv)
  qed
qed

text \<open>C31: a directive whose content cannot be sliced, a number or an object, ends the cycle: nothing
  behind it is run, and since it only leaves an audit row, with no ghost counted and nothing parked, it does the
  same in the next cycle.\<close>

theorem poison_content_ends_every_cycle:
  fixes w :: "('g, 'x) bworld_scheme"
  assumes "is_goose_eligible c d (bfs w) = (True, bfs w)" and "jget_or d ''complexity'' (JStr ''unknown'') \<noteq> JStr ''high''"
    and "unmet_requires (bfs w) d (b_home c) = []" and "slice200 (jget_or d ''content'' (jget_or d ''description'' (JStr []))) = None"
  shows "process_all c (d # ds) w = (False, log_directive_routed c d w)
    \<and> bfs (snd (process_all c (d # ds) w)) = bfs w
    \<and> fst (process_all c (d # ds) (snd (process_all c (d # ds) w))) = False"
proof -
  have p: "process_all c (d # ds) v = (False, log_directive_routed c d v)" if "bfs v = bfs w" for v :: "('g, 'x) bworld_scheme"
    using assms set_fs_same [of v] that by (simp add: process_directive_def prepare_job_def write_task_spec_def Let_def)
  have "bfs (log_directive_routed c d w) = bfs w" by (simp add: log_directive_routed_def)
  with p show ?thesis by simp
qed

text \<open>C2: no completion without the gates: when running a directive that is not of high complexity adds a
  completion row, the run ends in the very state that completing leaves of a state that the gate chain has let
  through, for the job of this directive.\<close>

theorem completion_row_needs_gates:
  assumes "process_directive c d w = (b, w')" and "jget d ''complexity'' \<noteq> JStr ''high''"
    and "completed_rows w' \<noteq> completed_rows w"
  shows "\<exists>j v v1 res fb lab. jb_did j = did_of d \<and> run_gates_on c j True v = (None, v1)
    \<and> w' = snd (complete_build c (jb_dir j) (jb_did j) res fb lab v1)"
proof -
  obtain e f where e: "is_goose_eligible c d (bfs w) = (e, f)" by (metis surj_pair)
  obtain p w1 where p: "prepare_job c d (set_fs f w) = (p, w1)" by (metis surj_pair)
  have h: "jget_or d ''complexity'' (JStr ''unknown'') \<noteq> JStr ''high''"
    using assms(2) by (auto simp: jget_or_def jget_def split: option.splits)
  have k: "completed_rows w1 = completed_rows w" and d: "\<And>j label. p = Some (j, label) \<Longrightarrow> jb_did j = did_of d"
    using p by (auto simp: prepare_job_def log_directive_routed_def Let_def split: option.splits)
  have "\<exists>j label. p = Some (j, label) \<and> build_job c j label w1 = (b, w')"
    using assms(1,3) e p h k by (auto simp: process_directive_def split: if_splits bool.splits option.splits)
  then obtain j label where j: "p = Some (j, label)" "build_job c j label w1 = (b, w')" by blast
  from job_certified [OF j(2)] assms(3) k have "certified c j w'" by simp
  then show ?thesis unfolding certified_def using d [OF j(1)] by blast
qed

theorem completion_row_needs_gates_witness:
  "completed_rows (snd (process_directive raw_cfg raw_directive raw_world)) \<noteq> completed_rows raw_world
   \<and> (\<exists>j v v1 res fb lab. jb_did j = ''d1'' \<and> run_gates_on raw_cfg j True v = (None, v1)
      \<and> snd (process_directive raw_cfg raw_directive raw_world) = snd (complete_build raw_cfg (jb_dir j) (jb_did j) res fb lab v1))"
proof -
  have "raw_goes_through raw_cfg raw_directive raw_world" by code_simp
  moreover have "bc_write raw_cfg = (\<lambda>n t r. True)" by (simp add: raw_cfg_def)
  ultimately have n: "completed_rows (snd (process_directive raw_cfg raw_directive raw_world)) \<noteq> completed_rows raw_world"
    using raw_run_completes [of raw_cfg raw_directive raw_world] by auto
  have i: "jget raw_directive ''complexity'' \<noteq> JStr ''high''" "did_of raw_directive = ''d1''" by code_simp+
  show ?thesis
    using n completion_row_needs_gates [OF prod.collapse [symmetric] i(1) n] unfolding i(2) by blast
qed


definition poison :: jobj where
  "poison = [(''directive_id'', JStr ''d2''), (''content'', JInt 5)]"

theorem poison_content_ends_every_cycle_witness:
  "process_all raw_cfg [poison, raw_directive] raw_world = (False, log_directive_routed raw_cfg poison raw_world)
    \<and> bfs (snd (process_all raw_cfg [poison, raw_directive] raw_world)) = bfs raw_world
    \<and> fst (process_all raw_cfg [poison, raw_directive] (snd (process_all raw_cfg [poison, raw_directive] raw_world))) = False"
  by (rule poison_content_ends_every_cycle) code_simp+

definition plain_job :: job where
  "plain_job = \<lparr>jb_dir = [(''directive_id'', JStr ''d1''), (''output_file'', JStr ''a.py'')], jb_did = ''d1'', jb_task = JStr ''x'',
     jb_env = [], jb_attempt = 0, jb_pre = None\<rparr>"

theorem outage_costs_one_ghost_witness:
  "\<exists>b w'. build_job raw_cfg plain_job ''m'' raw_world = (b, w')
    \<and> ghost_attempts (bfs w') (b_droot raw_cfg) (jb_did plain_job) = Some (0 + 1)
    \<and> completed_rows w' = completed_rows raw_world"
proof -
  have "work_dir (bfs raw_world) (path_of ''/h/d'')" "ghost_path (b_droot raw_cfg) (jb_did plain_job) = path_child (path_of ''/h/d'') ''d1.ghost.json''"
    by code_simp+
  then have w: "\<forall>t. write_text (b_now raw_cfg) (ghost_path (b_droot raw_cfg) (jb_did plain_job)) t (bfs raw_world) \<noteq> None"
    using work_dir_write by fastforce
  have sh: "\<forall>cs m p. bc_shim raw_cfg cs m p = None" by (simp add: raw_cfg_def)
  have h: "\<not> bc_installed raw_cfg" "\<not> engine_enabled (b_env raw_cfg) (gt_toml (bc_gate raw_cfg)) (b_droot raw_cfg) (bfs raw_world)"
    "jget (jb_dir plain_job) ''handler'' \<noteq> JStr ''write_raw''"
    "ghost_attempts (bfs raw_world) (b_droot raw_cfg) (jb_did plain_job) = Some 0"
    "ghost_path (b_droot raw_cfg) (jb_did plain_job) \<notin> set (noread (bfs raw_world))"
    "ghost_path (b_droot raw_cfg) (jb_did plain_job) \<notin> manifest_files (bc_gate raw_cfg)"
    "ghost_path (b_droot raw_cfg) (jb_did plain_job) \<noteq> dir_file (bc_outputs raw_cfg) (py_str (jid_of (jb_dir plain_job)) @ ''.result'')"
    unfolding manifest_files_def by code_simp+
  have "(0 :: int) + 1 < MAX_GHOST_ATTEMPTS" by code_simp
  then show ?thesis
    using outage_costs_one_ghost [OF h(1) sh h(2-4) w h(5-7), of "''m''"] by auto
qed

text \<open>Two ghosts in one pass: bytes that are too few are counted when they are rejected and again when the
  engine behind them fails.\<close>

definition short_job :: job where
  "short_job = plain_job\<lparr>jb_dir := [(''directive_id'', JStr ''d1''), (''handler'', JStr ''write_raw''), (''output_file'', JStr ''a.sql''),
     (''content'', JStr ''-- stub'')]\<rparr>"

lemma raw_rejection_counts_twice:
  "ghost_attempts (bfs raw_world) (b_droot raw_cfg) ''d1'' = Some 0
   \<and> ghost_attempts (bfs (snd (build_job raw_cfg short_job [] raw_world))) (b_droot raw_cfg) ''d1'' = Some 2"
  by code_simp

end
