(* ===== verification/RungQuota.thy ===== *)
theory RungQuota
  imports BuildRouting PyFs PyRegex
begin

text \<open>
  The quota file of the inference ladder, \<open>src/rung_quota.py\<close>: per model the gauge that a provider's headers
  gave and the time until which the model is parked. Times are seconds since the epoch; the text of a float
  in the file is an argument (\<open>qc_repr\<close>).
\<close>

record qcfg =
  qc_file :: path
  qc_min :: rat
  qc_park :: rat
  qc_repr :: "rat \<Rightarrow> string"

definition REMAIN :: "string list" where
  "REMAIN = [''x-ratelimit-remaining-requests-day'', ''x-ratelimit-remaining-requests'',
     ''x-ratelimit-remaining-req-minute'', ''anthropic-ratelimit-requests-remaining'']"

definition LIMIT :: "string list" where
  "LIMIT = [''x-ratelimit-limit-requests-day'', ''x-ratelimit-limit-requests'',
     ''x-ratelimit-limit-req-minute'', ''anthropic-ratelimit-requests-limit'']"

subsection \<open>The file\<close>

definition quota_load :: "qcfg \<Rightarrow> fs \<Rightarrow> json" where
  "quota_load c f = (case read_json f (qc_file c) of None \<Rightarrow> JObj [] | Some v \<Rightarrow> v)"

definition with_tmp :: "path \<Rightarrow> path" where
  "with_tmp p = with_name p (path_stem p @ ''.tmp'')"

text \<open>Best effort: the steps that succeeded stay.\<close>

definition quota_save :: "qcfg \<Rightarrow> int \<Rightarrow> jobj \<Rightarrow> fs \<Rightarrow> fs" where
  "quota_save c now d f =
     (case mkdirs (path_parent (qc_file c)) f of None \<Rightarrow> f
      | Some f1 \<Rightarrow>
        (case write_text now (with_tmp (qc_file c)) (Doc (JObj d)) f1 of None \<Rightarrow> f1
         | Some f2 \<Rightarrow> (case fs_replace (with_tmp (qc_file c)) (qc_file c) f2 of None \<Rightarrow> f2 | Some f3 \<Rightarrow> f3)))"

subsection \<open>Headers\<close>

text \<open>Of headers that agree up to case the last one counts.\<close>

fun hget :: "(string, string) dict \<Rightarrow> string list \<Rightarrow> string option" where
  "hget hs [] = None"
| "hget hs (n # ns) = (case dget (rev (map (\<lambda>(k, v). (lower k, v)) hs)) n of Some v \<Rightarrow> Some v | None \<Rightarrow> hget hs ns)"

text \<open>\<open>round(x, n)\<close>, to the even neighbour when \<open>x\<close> is half-way.\<close>

definition round_even :: "rat \<Rightarrow> int" where
  "round_even x = (let k = \<lfloor>x\<rfloor>; d = x - of_int k in
     if d < 1 / 2 then k else if 1 / 2 < d then k + 1 else if even k then k else k + 1)"

definition round_to :: "nat \<Rightarrow> rat \<Rightarrow> rat" where
  "round_to n x = of_int (round_even (x * 10 ^ n)) / 10 ^ n"

definition header_int :: "string option \<Rightarrow> int option" where
  "header_int v = map_option trunc_rat (Option.bind v float_of_str)"

text \<open>Remaining, limit and fraction, when there is a usable gauge.\<close>

definition parse_headers :: "(string, string) dict \<Rightarrow> (int \<times> int \<times> rat) option" where
  "parse_headers hs =
     (case (header_int (hget hs REMAIN), header_int (hget hs LIMIT)) of
        (Some remaining, Some lmt) \<Rightarrow>
          if lmt > 0 then Some (remaining, lmt, round_to 4 (of_int remaining / of_int lmt)) else None
      | _ \<Rightarrow> None)"

definition gauge_char :: "char \<Rightarrow> bool" where
  "gauge_char c = (is_digit c \<or> c = CHR ''.'')"

definition RETRY_FORM :: re where
  "RETRY_FORM = rseqs [RGroup 1 (rplus (RChr gauge_char)), RStar (RChr is_space),
     ropt (RGroup 2 (ralts [rlit ''ms'', rlit ''s'', rlit ''m'']))]"

text \<open>The outer \<open>None\<close> is the ValueError of a number with two points, the inner one a text of another form.\<close>

definition parse_retry :: "string option \<Rightarrow> rat option option" where
  "parse_retry v =
     (case v of None \<Rightarrow> Some None
      | Some s \<Rightarrow>
        (case float_of_str s of Some r \<Rightarrow> Some (Some r)
         | None \<Rightarrow>
           (case re_match RETRY_FORM (strip s) of None \<Rightarrow> Some None
            | Some m \<Rightarrow>
              (case Option.bind (mgroup m 1) float_of_str of None \<Rightarrow> None
               | Some n \<Rightarrow> Some (Some (if mgroup m 2 = Some ''ms'' then n / 1000
                   else if mgroup m 2 = Some ''m'' then n * 60 else n))))))"

subsection \<open>Availability\<close>

text \<open>A number as a comparison reads it; \<open>None\<close> is the TypeError.\<close>

fun json_num :: "json \<Rightarrow> rat option" where
  "json_num (JInt i) = Some (of_int i)"
| "json_num (JFloat r s) = Some r"
| "json_num (JBool b) = Some (if b then 1 else 0)"
| "json_num _ = None"

definition entry_available :: "json \<Rightarrow> rat \<Rightarrow> rat \<Rightarrow> (bool \<times> string) option" where
  "entry_available e now mn =
     (if \<not> truthy e then Some (True, [])
      else (case e of
          JObj d \<Rightarrow>
            (case json_num (jget_or d ''park_until'' (JInt 0)) of None \<Rightarrow> None
             | Some u \<Rightarrow>
               if u > now then Some (False, ''parked '' @ int_str (trunc_rat (u - now)) @ ''s'')
               else if \<not> dhas d ''fraction'' then Some (True, [])
               else (case json_num (jget d ''fraction'') of None \<Rightarrow> None
                 | Some x \<Rightarrow> Some (if x < mn then (False, ''low '' @ int_str (round_even (100 * x)) @ ''%'') else (True, []))))
        | _ \<Rightarrow> None))"

text \<open>Whatever raises leaves the rung available.\<close>

definition quota_available :: "qcfg \<Rightarrow> string \<Rightarrow> rat \<Rightarrow> fs \<Rightarrow> bool \<times> string" where
  "quota_available c rung now f =
     (case quota_load c f of
        JObj d \<Rightarrow> (case entry_available (jget d rung) now (qc_min c) of None \<Rightarrow> (True, []) | Some r \<Rightarrow> r)
      | _ \<Rightarrow> (True, []))"

subsection \<open>Recording and parking\<close>

definition qfloat :: "qcfg \<Rightarrow> rat \<Rightarrow> json" where
  "qfloat c r = JFloat r (qc_repr c r)"

definition file_time :: "rat \<Rightarrow> int" where
  "file_time now = \<lfloor>now\<rfloor>"

text \<open>\<open>d.get(rung_id, {})\<close>, which must be an object to be updated.\<close>

definition quota_entry :: "qcfg \<Rightarrow> string \<Rightarrow> fs \<Rightarrow> (jobj \<times> jobj) option" where
  "quota_entry c rung f =
     (case quota_load c f of
        JObj d \<Rightarrow> (case jget_or d rung (JObj []) of JObj e \<Rightarrow> Some (d, e) | _ \<Rightarrow> None)
      | _ \<Rightarrow> None)"

definition with_gauge :: "qcfg \<Rightarrow> (string, string) dict \<Rightarrow> jobj \<Rightarrow> jobj" where
  "with_gauge c hs e =
     (case parse_headers hs of None \<Rightarrow> e
      | Some (remaining, lmt, x) \<Rightarrow> dput ''fraction'' (qfloat c x) (dput ''limit'' (JInt lmt) (dput ''remaining'' (JInt remaining) e)))"

definition quota_record :: "qcfg \<Rightarrow> string \<Rightarrow> (string, string) dict \<Rightarrow> int \<Rightarrow> string option \<Rightarrow> rat \<Rightarrow> fs \<Rightarrow> fs" where
  "quota_record c rung hs status retry now f =
     (case quota_entry c rung f of None \<Rightarrow> f
      | Some (d, e0) \<Rightarrow>
        (let e = dput ''ts'' (qfloat c now) (with_gauge c hs e0) in
         if status \<noteq> 429 then quota_save c (file_time now) (dput rung (JObj e) d) f
         else (case parse_retry retry of None \<Rightarrow> f
           | Some r \<Rightarrow>
             (let secs = (case r of None \<Rightarrow> qc_park c | Some x \<Rightarrow> if x = 0 then qc_park c else x) in
              quota_save c (file_time now) (dput rung (JObj (dput ''park_until'' (qfloat c (now + secs)) e)) d) f))))"

definition quota_park :: "qcfg \<Rightarrow> string \<Rightarrow> rat option \<Rightarrow> rat \<Rightarrow> fs \<Rightarrow> fs" where
  "quota_park c rung seconds now f =
     (case quota_entry c rung f of None \<Rightarrow> f
      | Some (d, e) \<Rightarrow>
        quota_save c (file_time now) (dput rung (JObj (dput ''ts'' (qfloat c now)
          (dput ''park_until'' (qfloat c (now + (case seconds of None \<Rightarrow> qc_park c | Some s \<Rightarrow> s))) e))) d) f)"

text \<open>\<open>None\<close> when an entry is no object or its time no number.\<close>

fun snap_entries :: "rat \<Rightarrow> jobj \<Rightarrow> jobj option" where
  "snap_entries now [] = Some []"
| "snap_entries now ((k, v) # d) =
     (case v of
        JObj e \<Rightarrow>
          (case json_num (jget_or e ''park_until'' (JInt 0)) of None \<Rightarrow> None
           | Some u \<Rightarrow> map_option (\<lambda>r. (k, JObj (dput ''parked_now'' (JBool (u > now)) e)) # r) (snap_entries now d))
      | _ \<Rightarrow> None)"

definition quota_snapshot :: "qcfg \<Rightarrow> rat \<Rightarrow> fs \<Rightarrow> jobj option" where
  "quota_snapshot c now f = (case quota_load c f of JObj d \<Rightarrow> snap_entries now d | _ \<Rightarrow> None)"

subsection \<open>What parking does\<close>

lemma dput_not_Nil [simp]: "dput k v d \<noteq> []"
  by (cases d) (auto simp: dput_def split: prod.splits)

text \<open>In its directory the file can be replaced, and then holds what was saved.\<close>

lemma quota_save_works:
  assumes "work_dir f d" and "qc_file c = path_child d n" and "path_stem (qc_file c) @ ''.tmp'' \<noteq> n"
  shows "quota_load c (quota_save c t x f) = JObj x \<and> work_dir (quota_save c t x f) d"
proof -
  define m where "m = path_stem (qc_file c) @ ''.tmp''"
  have tmp: "with_tmp (path_child d n) = path_child d m" by (simp add: with_tmp_def with_name_def m_def assms(2))
  obtain f1 where f1: "mkdirs d f = Some f1" "work_dir f1 d" using work_dir_mkdirs [OF assms(1)] by blast
  obtain f2 where f2: "write_text t (path_child d m) (Doc (JObj x)) f1 = Some f2" "work_dir f2 d"
    using work_dir_write [OF f1(2)] by blast
  have g2: "fs_get f2 (path_child d m) = Some \<lparr>body = Doc (JObj x), mtime = t\<rparr>" using write_text_get [OF f2(1)] by simp
  then obtain f3 where f3: "fs_replace (path_child d m) (path_child d n) f2 = Some f3"
    using work_dirD [OF f2(2)] by (auto simp: fs_replace_def)
  have "fs_get f3 (path_child d n) = Some \<lparr>body = Doc (JObj x), mtime = t\<rparr>" using fs_replace_get [OF f3] g2 by simp
  moreover have "noread f3 = []" using fs_replace_frame [OF f3] work_dirD(2) [OF f2(2)] by simp
  ultimately have "read_json f3 (qc_file c) = Some (JObj x)" by (simp add: read_json_get assms(2))
  moreover have "work_dir f3 d"
    by (rule work_dir_same_dirs [OF f2(2) fs_replace_frame [OF f3]])
      (use child_not_ancestor [of d] fs_replace_get [OF f3] in auto)
  moreover have "quota_save c t x f = f3" by (simp add: quota_save_def tmp assms(2) f1(1) f2(1) f3)
  ultimately show ?thesis by (simp add: quota_load_def)
qed

text \<open>What the gauge of an entry allows.\<close>

definition gauge_ok :: "qcfg \<Rightarrow> jobj \<Rightarrow> bool" where
  "gauge_ok c e = (dhas e ''fraction'' \<longrightarrow> (case json_num (jget e ''fraction'') of None \<Rightarrow> True | Some x \<Rightarrow> \<not> x < qc_min c))"

lemma park_effect:
  assumes "work_dir f d" and "qc_file c = path_child d n" and "path_stem (qc_file c) @ ''.tmp'' \<noteq> n"
    and "quota_entry c rung f = Some (x, e)"
  shows "(\<forall>t. fst (quota_available c rung t (quota_park c rung (Some secs) now f)) = (now + secs \<le> t \<and> gauge_ok c e))
    \<and> (\<forall>r t. r \<noteq> rung \<longrightarrow> quota_available c r t (quota_park c rung (Some secs) now f) = quota_available c r t f)"
proof -
  let ?e = "dput ''ts'' (qfloat c now) (dput ''park_until'' (qfloat c (now + secs)) e)"
  have l: "quota_load c (quota_park c rung (Some secs) now f) = JObj (dput rung (JObj ?e) x)"
    using assms(4) quota_save_works [OF assms(1-3)] by (simp add: quota_park_def)
  have x: "quota_load c f = JObj x" using assms(4) by (auto simp: quota_entry_def split: json.splits)
  have e: "dhas ?e ''fraction'' = dhas e ''fraction''" "jget ?e ''fraction'' = jget e ''fraction''"
    by (simp_all add: dhas_def jget_def)
  have p: "jget_or ?e ''park_until'' (JInt 0) = qfloat c (now + secs)" by (simp add: jget_or_def)
  have "fst (quota_available c rung t (quota_park c rung (Some secs) now f)) = (now + secs \<le> t \<and> gauge_ok c e)" for t
    using e by (auto simp: quota_available_def l entry_available_def p [unfolded qfloat_def] qfloat_def gauge_ok_def split: option.split)
  moreover have "quota_available c r t (quota_park c rung (Some secs) now f) = quota_available c r t f" if "r \<noteq> rung" for r t
    using that by (simp add: quota_available_def l x)
  ultimately show ?thesis by blast
qed

text \<open>Parking without a pause takes the default one; recording a 429 keeps the file writable and the entry an object.\<close>

lemma park_default: "quota_park c rung None now f = quota_park c rung (Some (qc_park c)) now f"
  by (cases "quota_entry c rung f") (auto simp: quota_park_def)

lemma gauge_ok_dput: "k \<noteq> ''fraction'' \<Longrightarrow> gauge_ok c (dput k v e) = gauge_ok c e"
  by (simp add: gauge_ok_def dhas_def jget_def)

lemma record_then_entry:
  assumes "work_dir f d" and "qc_file c = path_child d n" and "path_stem (qc_file c) @ ''.tmp'' \<noteq> n"
    and "quota_entry c rung f = Some (x, e)"
  obtains x' e' where "work_dir (quota_record c rung hs status retry now f) d"
    "quota_entry c rung (quota_record c rung hs status retry now f) = Some (x', e')"
    "gauge_ok c e' = gauge_ok c (with_gauge c hs e) \<or> e' = e"
proof -
  let ?r = "quota_record c rung hs status retry now f"
  define e1 where "e1 = dput ''ts'' (qfloat c now) (with_gauge c hs e)"
  have g1: "gauge_ok c e1 = gauge_ok c (with_gauge c hs e)" by (simp add: e1_def gauge_ok_dput)
  then have g2: "gauge_ok c (dput ''park_until'' v e1) = gauge_ok c (with_gauge c hs e)" for v by (simp add: gauge_ok_dput)
  have r: "?r = (if status \<noteq> 429 then quota_save c (file_time now) (dput rung (JObj e1) x) f
    else (case parse_retry retry of None \<Rightarrow> f
      | Some r \<Rightarrow> quota_save c (file_time now) (dput rung (JObj (dput ''park_until''
          (qfloat c (now + (case r of None \<Rightarrow> qc_park c | Some y \<Rightarrow> if y = 0 then qc_park c else y))) e1)) x) f))"
    by (cases "parse_retry retry") (simp_all add: quota_record_def assms(4) e1_def)
  consider (kept) "?r = f" | (saved) g where "?r = quota_save c (file_time now) (dput rung (JObj g) x) f"
      "gauge_ok c g = gauge_ok c (with_gauge c hs e)"
  proof (cases "status \<noteq> 429")
    case True
    then show ?thesis using r g1 saved [of e1] by simp
  next
    case False
    then show ?thesis using r g2 kept saved by (cases "parse_retry retry") simp_all
  qed
  then show thesis
  proof cases
    case kept
    then show ?thesis using that [of x e] assms by simp
  next
    case (saved g)
    have "quota_load c ?r = JObj (dput rung (JObj g) x)" "work_dir ?r d"
      using quota_save_works [OF assms(1-3)] by (simp_all add: saved)
    then show ?thesis using that [of "dput rung (JObj g) x" g] saved(2) by (simp add: quota_entry_def jget_or_def)
  qed
qed

text \<open>C28: parking a rung that rate-limited cools down this rung and only this one: where the quota file can
  be written, every other rung is as available as before, and the parked one is available again exactly from the
  end of its pause on, if its gauge allows it.\<close>

theorem parked_until_its_time:
  assumes "work_dir f d" and "qc_file c = path_child d n" and "path_stem (qc_file c) @ ''.tmp'' \<noteq> n"
    and "quota_entry c rung f = Some (x, e)"
  shows "(\<forall>t. fst (quota_available c rung t (quota_park c rung (Some secs) now f)) = (now + secs \<le> t \<and> gauge_ok c e))
    \<and> (\<forall>r t. r \<noteq> rung \<longrightarrow> quota_available c r t (quota_park c rung (Some secs) now f) = quota_available c r t f)"
  by (rule park_effect [OF assms])

definition test_quota :: qcfg where
  "test_quota = \<lparr>qc_file = path_of ''/s/q.json'', qc_min = 8 / 100, qc_park = 300, qc_repr = (\<lambda>r. ''f'')\<rparr>"

definition quota_fs :: fs where
  "quota_fs = \<lparr>files = [(path_of ''/s/q.json'', \<lparr>body = Doc (JObj [(''m1'', JObj [(''fraction'', JFloat (1 / 2) ''0.5'')])]), mtime = 1\<rparr>)],
     dirs = [path_of ''/'', path_of ''/s''], noread = [], nowrite = []\<rparr>"

theorem parked_until_its_time_witness:
  "\<not> fst (quota_available test_quota ''m1'' 100 (quota_park test_quota ''m1'' (Some 60) 50 quota_fs))
   \<and> fst (quota_available test_quota ''m1'' 110 (quota_park test_quota ''m1'' (Some 60) 50 quota_fs))"
proof -
  have h: "work_dir quota_fs (path_of ''/s'')" "qc_file test_quota = path_child (path_of ''/s'') ''q.json''"
    "path_stem (qc_file test_quota) @ ''.tmp'' \<noteq> ''q.json''"
    "quota_entry test_quota ''m1'' quota_fs = Some ([(''m1'', JObj [(''fraction'', JFloat (1 / 2) ''0.5'')])], [(''fraction'', JFloat (1 / 2) ''0.5'')])"
    "gauge_ok test_quota [(''fraction'', JFloat (1 / 2) ''0.5'')]"
    by code_simp+
  show ?thesis using parked_until_its_time [OF h(1-4), of 60 50] h(5) by simp
qed

end
