(* ===== verification/Ladder.thy ===== *)
theory Ladder
  imports RungQuota
begin

text \<open>
  The inference ladder, \<open>src/escalation.py\<close> and \<open>src/ladder_extensions.py\<close>: the rungs, the start tier of every kind of
  task and its rewriting from the environment, the rate limiter, the daily budget, and \<open>ask\<close>, which walks the
  rungs until one answers. The adapter that calls a rung is an argument here (\<open>LadderCalls\<close> models the four of them).
\<close>

subsection \<open>Rungs\<close>

record rung =
  ms_backend :: string
  ms_model :: string
  ms_context :: int
  ms_rpm :: int
  ms_cost :: rat
  ms_label :: string
  ms_base :: string
  ms_key_env :: string
  ms_extra :: jobj
  ms_enabled :: bool
  ms_tools :: bool
  ms_key_optional :: bool

definition model_spec :: "string \<Rightarrow> string \<Rightarrow> int \<Rightarrow> int \<Rightarrow> rat \<Rightarrow> string \<Rightarrow> rung" where
  "model_spec backend model ctx rpm cost label =
     \<lparr>ms_backend = backend, ms_model = model, ms_context = ctx, ms_rpm = rpm, ms_cost = cost, ms_label = label,
      ms_base = [], ms_key_env = [], ms_extra = [], ms_enabled = True, ms_tools = True, ms_key_optional = False\<rparr>"

definition env_or :: "environ \<Rightarrow> string \<Rightarrow> string \<Rightarrow> string" where
  "env_or env n v = (case env n of None \<Rightarrow> v | Some s \<Rightarrow> s)"

definition tower_floor_on :: "environ \<Rightarrow> bool" where
  "tower_floor_on env = (env_or env ''TOWER_OLLAMA_ENABLED'' [] \<notin> {[], ''0'', ''false'', ''False'', ''no'', ''NO''})"

definition tower_coder_on :: "environ \<Rightarrow> bool" where
  "tower_coder_on env = (env_or env ''TOWER_CODER_ENABLED'' [] \<notin> {[], ''0'', ''false'', ''False'', ''no'', ''NO''})"

text \<open>The timeout of the coder's rung is a float in the environment; a text that is none stops the import.\<close>

definition coder_timeout :: "environ \<Rightarrow> rat option" where
  "coder_timeout env = float_of_str (env_or env ''TOWER_CODER_TIMEOUT'' ''50'')"

definition LADDER :: "environ \<Rightarrow> json \<Rightarrow> rung list" where
  "LADDER env timeout =
     [(model_spec ''minimax_direct'' ''MiniMax-M2.7'' 205000 60 0
        ''MiniMax 2.7 (direct, flat $10/mo)'')
        \<lparr>ms_key_env := ''MINIMAX_API_KEY''\<rparr>,
      (model_spec ''minimax_direct'' ''MiniMax-M3'' 205000 200 0
        ''MiniMax M3 (direct, stronger coder, 200 RPM)'')
        \<lparr>ms_key_env := ''MINIMAX_API_KEY''\<rparr>,
      model_spec ''gemini_direct'' ''gemini-2.5-flash-lite'' 1000000 10 0
        ''Gemini 2.5 Flash Lite (free, ~10 RPM) -- CONFIRMED'',
      (model_spec ''gemini_direct'' ''gemini-2.0-flash-lite'' 1000000 30 0
        ''Gemini 2.0 Flash Lite (free, ~30 RPM)'')
        \<lparr>ms_enabled := False\<rparr>,
      model_spec ''gemini_direct'' ''gemini-2.5-flash'' 1000000 10 0
        ''Gemini 2.5 Flash (free, ~10 RPM)'',
      (model_spec ''gemini_direct'' ''gemini-2.0-flash'' 1000000 15 0
        ''Gemini 2.0 Flash (free, ~15 RPM)'')
        \<lparr>ms_enabled := False\<rparr>,
      model_spec ''gemini_direct'' ''gemini-3.1-flash-lite-preview'' 1000000 15 0
        ''Gemini 3.1 Flash Lite Preview (15 RPM if quota granted)'',
      model_spec ''gemini_direct'' ''gemini-3-flash-preview'' 1000000 5 0
        ''Gemini 3 Flash Preview (5 RPM if quota granted)'',
      (model_spec ''gemini_direct'' ''gemma-3-12b-it'' 128000 15 0
        ''Gemma 3 12B Instruct (free, 1.7s, 128K ctx)'')
        \<lparr>ms_tools := False, ms_enabled := False\<rparr>,
      (model_spec ''gemini_direct'' ''gemma-3-4b-it'' 128000 15 0
        ''Gemma 3 4B Instruct (free, 2.1s, 128K ctx)'')
        \<lparr>ms_tools := False, ms_enabled := False\<rparr>,
      (model_spec ''gemini_direct'' ''gemma-3-27b-it'' 128000 15 0
        ''Gemma 3 27B Instruct (free, 2.9s, 128K ctx)'')
        \<lparr>ms_tools := False, ms_enabled := False\<rparr>,
      (model_spec ''zo_routed'' ''zo:openai/gpt-5.4-mini'' 400000 60 0
        ''GPT-5.4 mini (Zo free, 400K ctx)'')
        \<lparr>ms_tools := False\<rparr>,
      (model_spec ''zo_routed'' ''zo:zai/glm-5'' 203000 60 0
        ''GLM-5 (Zo free)'')
        \<lparr>ms_tools := False\<rparr>,
      (model_spec ''zo_routed'' ''zo:google/gemini-3.1-pro-preview'' 1000000 60 1
        ''Gemini 3.1 Pro (Zo sub, 1.0x)'')
        \<lparr>ms_tools := False\<rparr>,
      (model_spec ''zo_routed'' ''zo:openai/gpt-5.4'' 1000000 60 (11 / 10)
        ''GPT-5.4 (Zo sub, 1.1x)'')
        \<lparr>ms_tools := False\<rparr>,
      (model_spec ''zo_routed'' ''zo:anthropic/claude-sonnet-4-5'' 1000000 60 (21 / 10)
        ''Sonnet 4.5 (Zo sub, 2.1x)'')
        \<lparr>ms_tools := False\<rparr>,
      (model_spec ''zo_routed'' ''zo:anthropic/claude-opus-4-7'' 1000000 60 3
        ''Opus 4.7 (Zo sub, 3.0x)'')
        \<lparr>ms_tools := False\<rparr>,
      (model_spec ''openai_compatible'' (env_or env ''NVIDIA_BUILD_MODEL'' ''mistralai/mistral-nemotron'') 131000 40 0
        ''NVIDIA NIM (free credits, OpenAI-compat, tool-calling)'')
        \<lparr>ms_base := ''https://integrate.api.nvidia.com/v1'',
          ms_key_env := ''NVIDIA_API_KEY''\<rparr>,
      (model_spec ''openai_compatible'' (env_or env ''CEREBRAS_BUILD_MODEL'' ''gpt-oss-120b'') 131072 30 0
        ''Cerebras gpt-oss-120b (free ~14.4k rpd, OpenAI-compat, tool-calling)'')
        \<lparr>ms_base := ''https://api.cerebras.ai/v1'',
          ms_key_env := ''CEREBRAS_API_KEY'',
          ms_extra := [(''reasoning_effort'', JStr ''medium'')]\<rparr>,
      (model_spec ''openai_compatible'' (env_or env ''MISTRAL_BUILD_MODEL'' ''codestral-latest'') 256000 30 0
        ''Mistral Codestral (free tier, OpenAI-compat, tool-calling)'')
        \<lparr>ms_base := ''https://api.mistral.ai/v1'',
          ms_key_env := ''MISTRAL_API_KEY''\<rparr>,
      (model_spec ''openai_compatible'' (env_or env ''GROQ_BUILD_MODEL'' ''openai/gpt-oss-120b'') 131000 30 0
        ''Groq gpt-oss-120b (free ~14.4k rpd, OpenAI-compat, tool-calling; llama-3.3-70b 404 2026-09-06)'')
        \<lparr>ms_base := ''https://api.groq.com/openai/v1'',
          ms_key_env := ''GROQ_API_KEY''\<rparr>,
      (model_spec ''openai_compatible'' ''hermes3:8b'' 8192 60 0
        ''Tower RTX 3060 Ollama hermes3:8b (FREE floor, local; flag-gated)'')
        \<lparr>ms_base := env_or env ''TOWER_OLLAMA_BASE_URL'' ''http://100.95.8.71:11434/v1'',
          ms_key_env := ''TOWER_OLLAMA_API_KEY'',
          ms_key_optional := True, ms_extra := [(''num_ctx'', JInt 8192),
          (''proxy'', JStr (env_or env ''TOWER_OLLAMA_PROXY'' ''socks5h://localhost:1055''))],
          ms_enabled := tower_floor_on env\<rparr>,
      (model_spec ''openai_compatible'' ''reflection/Beam-1.0-501B-A23B'' 256000 60 (5 / 2)
        ''BEAM/Reflection 501B-A23B (advanced ceiling, OpenRouter, capable synthesizer)'')
        \<lparr>ms_base := ''https://openrouter.ai/api/v1'',
          ms_key_env := ''OPENROUTER_API_KEY''\<rparr>,
      (model_spec ''openai_compatible'' ''qwen2.5-coder:14b'' 32768 60 0
        ''Tower RTX 3060 Ollama qwen2.5-coder:14b (LOCAL $0 coder, flag-gated)'')
        \<lparr>ms_base := env_or env ''TOWER_CODER_BASE_URL'' ''http://100.95.8.71:11434/v1'',
          ms_key_env := ''TOWER_CODER_API_KEY'',
          ms_key_optional := True, ms_extra := [(''num_ctx'', JInt 32768), (''code_only'', JBool True), (''timeout'', timeout),
          (''proxy'', JStr (env_or env ''TOWER_OLLAMA_PROXY'' ''socks5h://localhost:1055''))],
          ms_enabled := tower_coder_on env\<rparr>]"

definition EXTRA_RUNGS :: "rung list" where
  "EXTRA_RUNGS =
     [(model_spec ''gemini_direct'' ''gemma-4-31b-it'' 128000 15 0
         ''Gemma 4 31B (free via AI Studio, 15 RPM, UNLIMITED TPM)'')\<lparr>ms_tools := False\<rparr>,
      (model_spec ''gemini_direct'' ''gemma-4-26b-it'' 128000 15 0
         ''Gemma 4 26B (free via AI Studio, 15 RPM, UNLIMITED TPM)'')\<lparr>ms_tools := False\<rparr>]"

definition extend_ladder :: "rung list \<Rightarrow> rung list" where
  "extend_ladder rs = rs @ filter (\<lambda>r. ms_model r \<notin> set (map ms_model rs)) EXTRA_RUNGS"

definition TASK_MAX_ATTEMPTS :: "(string, int) dict" where
  "TASK_MAX_ATTEMPTS = [(''wisdom_synthesis'', 13), (''directive_gen'', 8), (''builder'', 8)]"

text \<open>The patched \<open>ask\<close>: the number of attempts when the caller gives none.\<close>

definition attempts_for :: "string \<Rightarrow> int option \<Rightarrow> int" where
  "attempts_for task n = (case n of Some k \<Rightarrow> k
     | None \<Rightarrow> (case dget TASK_MAX_ATTEMPTS task of None \<Rightarrow> 4 | Some k \<Rightarrow> k))"

subsection \<open>Start tiers\<close>

definition TASK_START_TIER :: "(string, int) dict" where
  "TASK_START_TIER =
     [(''directive_gen'', 0), (''builder'', 0), (''generate'', 0), (''signal_enrichment'', 0), (''classification'', 0),
      (''wisdom_synthesis'', 0), (''default'', 0), (''embedding'', -1), (''builder_low'', 0), (''builder_medium'', 1),
      (''builder_high'', 11), (''builder_critical'', 15), (''builder_nvidia'', 17), (''builder_cerebras'', 18),
      (''builder_mistral'', 19), (''builder_groq'', 20), (''code_local'', 0)]"

definition FLOOR_RUNG :: nat where "FLOOR_RUNG = 21"

definition CEILING_RUNG :: nat where "CEILING_RUNG = 22"

definition CODER_RUNG :: nat where "CODER_RUNG = 23"

definition FLOOR_TASKS :: "string list" where
  "FLOOR_TASKS = [''builder_low'', ''generate'', ''signal_enrichment'', ''classification'']"

definition CEILING_TASKS :: "string list" where
  "CEILING_TASKS = [''builder_high'', ''builder_critical'', ''wisdom_synthesis'']"

definition BASELINE_TASKS :: "string list" where
  "BASELINE_TASKS = [''builder_low'', ''generate'', ''signal_enrichment'', ''classification'', ''builder_high'',
     ''builder_critical'', ''wisdom_synthesis'', ''code_local'']"

definition BASELINE_START :: "(string, int) dict" where
  "BASELINE_START = map (\<lambda>t. (t, case dget TASK_START_TIER t of None \<Rightarrow> 0 | Some k \<Rightarrow> k)) BASELINE_TASKS"

definition paid_baseline :: "environ \<Rightarrow> string list" where
  "paid_baseline env = filter (\<lambda>t. t \<noteq> [])
     (map strip (split_on (CHR '','') (env_or env ''LADDER_PAID_OK_TASKS'' ''builder_critical'')))"

text \<open>The module's globals that routing rewrites: the rungs, the start tiers, and the tasks that may spend.\<close>

record routing =
  rt_rungs :: "rung list"
  rt_start :: "(string, int) dict"
  rt_paid :: "string list"

definition initial_routing :: "environ \<Rightarrow> json \<Rightarrow> routing" where
  "initial_routing env timeout =
     \<lparr>rt_rungs = LADDER env timeout, rt_start = TASK_START_TIER, rt_paid = paid_baseline env\<rparr>"

definition switch :: "nat \<Rightarrow> bool \<Rightarrow> rung list \<Rightarrow> rung list" where
  "switch i b rs = (if i < length rs then rs[i := (rs ! i)\<lparr>ms_enabled := b\<rparr>] else rs)"

definition set_all :: "(string \<times> int) list \<Rightarrow> (string, int) dict \<Rightarrow> (string, int) dict" where
  "set_all kvs d = fold (\<lambda>(k, v). dput k v) kvs d"

definition start_changes :: "environ \<Rightarrow> (string \<times> int) list" where
  "start_changes env =
     BASELINE_START
     @ (if tower_floor_on env then map (\<lambda>t. (t, int FLOOR_RUNG)) FLOOR_TASKS else [])
     @ (if env_or env ''OPENROUTER_API_KEY'' [] \<noteq> []
        then map (\<lambda>t. (t, int CEILING_RUNG)) CEILING_TASKS else [])
     @ (if tower_coder_on env then [(''code_local'', int CODER_RUNG)] else [])"

text \<open>The paid tasks are rebuilt from those of the import (\<open>base\<close>), the rest from the current environment.\<close>

definition apply_two_tier_routing :: "string list \<Rightarrow> environ \<Rightarrow> routing \<Rightarrow> routing" where
  "apply_two_tier_routing base env rt =
     \<lparr>rt_rungs = switch CODER_RUNG (tower_coder_on env) (switch FLOOR_RUNG (tower_floor_on env) (rt_rungs rt)),
      rt_start = set_all (start_changes env) (rt_start rt),
      rt_paid = base @ (if env_or env ''OPENROUTER_API_KEY'' [] \<noteq> [] then [''builder_high'', ''wisdom_synthesis''] else [])\<rparr>"

definition MODEL_TASK_MAP :: "(string, string) dict" where
  "MODEL_TASK_MAP =
     [(''zo-ladder-v1'', ''builder''), (''zo-ladder-low'', ''builder_low''), (''zo-ladder-medium'', ''builder_medium''),
      (''zo-ladder-high'', ''builder_high''), (''zo-ladder-critical'', ''builder_critical''),
      (''zo-ladder-nvidia'', ''builder_nvidia''), (''zo-ladder-cerebras'', ''builder_cerebras''),
      (''zo-ladder-mistral'', ''builder_mistral''), (''zo-ladder-groq'', ''builder_groq''),
      (''zo-ladder-code-local'', ''code_local'')]"

definition task_for_model :: "string option \<Rightarrow> string" where
  "task_for_model m = (case dget MODEL_TASK_MAP (strip (case m of None \<Rightarrow> [] | Some s \<Rightarrow> s)) of
     None \<Rightarrow> ''builder'' | Some t \<Rightarrow> t)"

subsection \<open>Rate limiter\<close>

type_synonym windows = "(string, rat list) dict"

definition prune_window :: "rat \<Rightarrow> rat list \<Rightarrow> rat list" where
  "prune_window now q = dropWhile (\<lambda>t. t < now - 60) q"

definition limiter_available :: "string \<Rightarrow> int \<Rightarrow> rat \<Rightarrow> windows \<Rightarrow> bool \<times> windows" where
  "limiter_available m rpm now ws =
     (case dget ws m of None \<Rightarrow> (True, ws)
      | Some q \<Rightarrow> (let q' = prune_window now q in (int (length q') < rpm, dput m q' ws)))"

definition limiter_record :: "string \<Rightarrow> rat \<Rightarrow> windows \<Rightarrow> windows" where
  "limiter_record m now ws = dput m (prune_window now (case dget ws m of None \<Rightarrow> [] | Some q \<Rightarrow> q) @ [now]) ws"

subsection \<open>Daily budget\<close>

record budget =
  bt_cap :: rat
  bt_day :: string
  bt_spent :: rat

definition DAILY_PRIORITY_BUDGET :: rat where
  "DAILY_PRIORITY_BUDGET = 5"

definition budget_refresh :: "string \<Rightarrow> budget \<Rightarrow> budget" where
  "budget_refresh today b = (if today \<noteq> bt_day b then b\<lparr>bt_day := today, bt_spent := 0\<rparr> else b)"

definition can_spend :: "rat \<Rightarrow> string \<Rightarrow> budget \<Rightarrow> bool \<times> budget" where
  "can_spend p today b = (let b' = budget_refresh today b in (bt_spent b' + p \<le> bt_cap b', b'))"

definition budget_record :: "rat \<Rightarrow> string \<Rightarrow> budget \<Rightarrow> budget" where
  "budget_record p today b = (let b' = budget_refresh today b in b'\<lparr>bt_spent := bt_spent b' + p\<rparr>)"

subsection \<open>Asking\<close>

record request =
  rq_prompt :: string
  rq_system :: "string option"
  rq_max_tokens :: int
  rq_temperature :: json
  rq_tools :: json

text \<open>What an adapter returns: text, error and tool calls; \<open>None\<close> is an exception out of the adapter.\<close>

type_synonym answer = "string option \<times> string option \<times> json"

type_synonym 'w adapter = "rung \<Rightarrow> request \<Rightarrow> fs \<times> 'w \<Rightarrow> answer option \<times> fs \<times> 'w"

text \<open>
  The surroundings: two clocks and the day they show, sleeping, and the row for the write service, whose outcome
  nobody reads. The state: files (the quota file is one), the outside, the windows of the limiter, the budget.
\<close>

record 'w lcfg =
  lc_env :: environ
  lc_quota :: qcfg
  lc_mono :: "'w \<Rightarrow> rat"
  lc_wall :: "'w \<Rightarrow> rat"
  lc_day :: "rat \<Rightarrow> string"
  lc_iso :: "rat \<Rightarrow> string"
  lc_sleep :: "rat \<Rightarrow> 'w \<Rightarrow> 'w"
  lc_log :: "jobj \<Rightarrow> 'w \<Rightarrow> 'w"

record 'w lstate =
  ls_fs :: fs
  ls_ext :: 'w
  ls_windows :: windows
  ls_budget :: budget

type_synonym attempts = "(string \<times> string \<times> string) list"

record escalation =
  es_text :: string
  es_backend :: string
  es_model :: string
  es_priority :: rat
  es_latency :: int
  es_attempts :: attempts
  es_success :: bool
  es_error :: "string option"
  es_tools :: json

definition exhausted :: "attempts \<Rightarrow> string \<Rightarrow> escalation" where
  "exhausted atts err = \<lparr>es_text = [], es_backend = [], es_model = [], es_priority = 0, es_latency = 0, es_attempts = atts,
     es_success = False, es_error = Some err, es_tools = JNull\<rparr>"

text \<open>Seconds to wait before the next rung; the outer \<open>None\<close> is a setting that is no number or a negative pause.\<close>

definition backoff_secs :: "environ \<Rightarrow> int \<Rightarrow> rat option option" where
  "backoff_secs env n =
     (if env_or env ''LADDER_BACKOFF'' ''1'' = ''0'' \<or> n \<le> 0 then Some None
      else (case (float_of_str (env_or env ''LADDER_BACKOFF_BASE'' ''0.4''), float_of_str (env_or env ''LADDER_BACKOFF_MAX'' ''5'')) of
          (Some b, Some cap) \<Rightarrow> (let s = min (b * 2 ^ nat (n - 1)) cap in if s < 0 then None else Some (Some s))
        | _ \<Rightarrow> None))"

definition is_rate_limit :: "string option \<Rightarrow> bool" where
  "is_rate_limit err =
     (let e = lower (case err of None \<Rightarrow> [] | Some s \<Rightarrow> s) in
      substr_in ''429'' e \<or> substr_in ''rate'' e \<or> substr_in ''limit'' e \<or> substr_in ''quota'' e)"

definition log_row :: "('w, 'y) lcfg_scheme \<Rightarrow> rung \<Rightarrow> string \<Rightarrow> nat \<Rightarrow> nat \<Rightarrow> int \<Rightarrow> bool \<Rightarrow> string option \<Rightarrow> 'w \<Rightarrow> jobj" where
  "log_row c r task plen rlen latency ok err w =
     [(''table'', JStr ''mesh_memory''),
      (''rows'', JList [JObj [(''agent_id'', JStr ''escalation.router''), (''memory_type'', JStr ''escalation_call''),
         (''content'', JStr (json_dumps (JObj [(''backend'', JStr (ms_backend r)), (''model'', JStr (ms_model r)),
            (''task_type'', JStr task), (''prompt_chars'', JInt (int plen)), (''response_chars'', JInt (int rlen)),
            (''priority'', JFloat (ms_cost r) (qc_repr (lc_quota c) (ms_cost r))), (''latency_ms'', JInt latency),
            (''success'', JBool ok), (''error'', JStr (take 500 (case err of None \<Rightarrow> [] | Some s \<Rightarrow> s))),
            (''ts'', JStr (lc_iso c (lc_wall c w)))]))),
         (''importance'', JFloat (3 / 10) ''0.3'')]])]"

definition log_call :: "('w, 'y) lcfg_scheme \<Rightarrow> rung \<Rightarrow> string \<Rightarrow> nat \<Rightarrow> nat \<Rightarrow> int \<Rightarrow> bool \<Rightarrow> string option \<Rightarrow>
    'w lstate \<Rightarrow> 'w lstate" where
  "log_call c r task plen rlen latency ok err st =
     st\<lparr>ls_ext := lc_log c (log_row c r task plen rlen latency ok err (ls_ext st)) (ls_ext st)\<rparr>"

text \<open>Why a rung is passed over, in the order of the tests.\<close>

definition skip_reason :: "('w, 'y) lcfg_scheme \<Rightarrow> routing \<Rightarrow> string \<Rightarrow> json \<Rightarrow> rung \<Rightarrow> 'w lstate \<Rightarrow>
    (string \<times> string) option \<times> 'w lstate" where
  "skip_reason c rt task tools r st =
     (if truthy tools \<and> \<not> ms_tools r then (Some (''not_tool_capable'', []), st)
      else (case limiter_available (ms_model r) (ms_rpm r) (lc_mono c (ls_ext st)) (ls_windows st) of
          (False, ws) \<Rightarrow> (Some (''rate_limited'', []), st\<lparr>ls_windows := ws\<rparr>)
        | (True, ws) \<Rightarrow>
          (let st1 = st\<lparr>ls_windows := ws\<rparr> in
           case quota_available (lc_quota c) (ms_model r) (lc_wall c (ls_ext st)) (ls_fs st) of
             (False, why) \<Rightarrow> (Some (''quota_skip'', why), st1)
           | (True, _) \<Rightarrow>
             (if ms_cost r > 0 \<and> task \<notin> set (rt_paid rt) then (Some (''cost_gated'', ''paid rung blocked for '' @ task), st1)
              else if ms_cost r > 0 then
                (case can_spend (ms_cost r) (lc_day c (lc_wall c (ls_ext st))) (ls_budget st) of
                   (ok, b) \<Rightarrow> (if ok then None else Some (''budget_exceeded'', ''cap='' @ qc_repr (lc_quota c) (bt_cap b)),
                     st1\<lparr>ls_budget := b\<rparr>))
              else (None, st1)))))"

text \<open>One call with its accounting: the outcome when the rung answered, else the error; \<open>None\<close> is the exception of the adapter.\<close>

definition call_rung :: "('w, 'y) lcfg_scheme \<Rightarrow> 'w adapter \<Rightarrow> string \<Rightarrow> request \<Rightarrow> rung \<Rightarrow> attempts \<Rightarrow> 'w lstate \<Rightarrow>
    (escalation + string option) option \<times> 'w lstate" where
  "call_rung c call task rq r atts st =
     (case call r rq (ls_fs st, ls_ext st) of
        (None, f, w) \<Rightarrow> (None, st\<lparr>ls_fs := f, ls_ext := w\<rparr>)
      | (Some (txt, err, tools), f, w) \<Rightarrow>
          (let latency = trunc_rat ((lc_mono c w - lc_mono c (ls_ext st)) * 1000);
               st1 = st\<lparr>ls_fs := f, ls_ext := w, ls_windows := limiter_record (ms_model r) (lc_mono c w) (ls_windows st)\<rparr>;
               text = (case txt of None \<Rightarrow> [] | Some s \<Rightarrow> s);
               plen = length (rq_prompt rq)
           in if text \<noteq> [] \<or> truthy tools
              then (let st2 = (if ms_cost r > 0
                         then st1\<lparr>ls_budget := budget_record (ms_cost r) (lc_day c (lc_wall c w)) (ls_budget st1)\<rparr> else st1)
                    in (Some (Inl \<lparr>es_text = text, es_backend = ms_backend r, es_model = ms_model r, es_priority = ms_cost r,
                          es_latency = latency, es_attempts = atts, es_success = True, es_error = None, es_tools = tools\<rparr>),
                        log_call c r task plen (length text) latency True None st2))
              else (let st2 = (if is_rate_limit err
                         then st1\<lparr>ls_fs := quota_park (lc_quota c) (ms_model r) None (lc_wall c w) (ls_fs st1)\<rparr> else st1)
                    in (Some (Inr err), log_call c r task plen 0 latency False err st2))))"

text \<open>The walk over the rungs; the outer \<open>None\<close> is an exception out of \<open>ask\<close>.\<close>

fun ask_loop :: "('w, 'y) lcfg_scheme \<Rightarrow> 'w adapter \<Rightarrow> routing \<Rightarrow> string \<Rightarrow> request \<Rightarrow> int \<Rightarrow> rung list \<Rightarrow> int \<Rightarrow> attempts \<Rightarrow>
    'w lstate \<Rightarrow> escalation option \<times> 'w lstate" where
  "ask_loop c call rt task rq hard [] made atts st =
     (Some (exhausted atts (''all '' @ nat_str (length atts) @ '' attempts exhausted'')), st)"
| "ask_loop c call rt task rq hard (r # rs) made atts st =
     (if made \<ge> hard then (Some (exhausted atts (''all '' @ nat_str (length atts) @ '' attempts exhausted'')), st)
      else (case skip_reason c rt task (rq_tools rq) r st of
          (Some (why, detail), st1) \<Rightarrow> ask_loop c call rt task rq hard rs made (atts @ [(ms_model r, why, detail)]) st1
        | (None, st1) \<Rightarrow>
          (case (if made > 0 then backoff_secs (lc_env c) made else Some None) of
             None \<Rightarrow> (None, st1)
           | Some pause \<Rightarrow>
             (let st2 = (case pause of None \<Rightarrow> st1 | Some s \<Rightarrow> st1\<lparr>ls_ext := lc_sleep c s (ls_ext st1)\<rparr>) in
              case call_rung c call task rq r atts st2 of
                (None, st3) \<Rightarrow> (None, st3)
              | (Some (Inl res), st3) \<Rightarrow> (Some res, st3)
              | (Some (Inr err), st3) \<Rightarrow> ask_loop c call rt task rq hard rs (made + 1)
                  (atts @ [(ms_model r, ''call_failed'', take 100 (case err of None \<Rightarrow> [] | Some e \<Rightarrow> e))]) st3))))"

text \<open>The task's own window first, then every other free rung, those with the fast adapter before the rest.\<close>

definition ask_window :: "rung list \<Rightarrow> nat \<Rightarrow> int \<Rightarrow> nat list" where
  "ask_window rs start n = filter (\<lambda>i. ms_enabled (rs ! i)) [start ..< nat (min (int start + n) (int (length rs)))]"

definition ask_tail :: "rung list \<Rightarrow> nat list \<Rightarrow> nat list" where
  "ask_tail rs win =
     (let free = filter (\<lambda>j. j \<notin> set win \<and> ms_cost (rs ! j) = 0 \<and> ms_enabled (rs ! j)) [0 ..< length rs]
      in filter (\<lambda>j. ms_backend (rs ! j) = ''openai_compatible'') free @ filter (\<lambda>j. ms_backend (rs ! j) \<noteq> ''openai_compatible'') free)"

definition ask_order :: "rung list \<Rightarrow> nat \<Rightarrow> int \<Rightarrow> rung list" where
  "ask_order rs start n = (let win = ask_window rs start n in map (\<lambda>i. rs ! i) (win @ ask_tail rs win))"

definition start_of :: "routing \<Rightarrow> string \<Rightarrow> int option" where
  "start_of rt task =
     (case dget (rt_start rt) ''default'' of None \<Rightarrow> None
      | Some d \<Rightarrow> Some (case dget (rt_start rt) task of Some k \<Rightarrow> k | None \<Rightarrow> d))"

definition ask :: "('w, 'y) lcfg_scheme \<Rightarrow> 'w adapter \<Rightarrow> routing \<Rightarrow> string \<Rightarrow> request \<Rightarrow> int \<Rightarrow> 'w lstate \<Rightarrow>
    escalation option \<times> 'w lstate" where
  "ask c call rt task rq max_attempts st =
     (case start_of rt task of None \<Rightarrow> (None, st)
      | Some start \<Rightarrow>
        (if start < 0 then (Some (exhausted [] (CHR 0x27 # task @ CHR 0x27 # '' has no escalation path'')), st)
         else (case int_of_str (env_or (lc_env c) ''LADDER_FAILOVER_EXTRA'' ''6'') of None \<Rightarrow> (None, st)
           | Some extra \<Rightarrow>
             ask_loop c call rt task rq (max_attempts + extra) (ask_order (rt_rungs rt) (nat start) max_attempts) 0 [] st)))"

subsection \<open>A ladder of three rungs\<close>

definition test_lcfg :: "rat lcfg" where
  "test_lcfg = \<lparr>lc_env = (\<lambda>_. None), lc_quota = test_quota, lc_mono = (\<lambda>w. w), lc_wall = (\<lambda>w. w), lc_day = (\<lambda>w. ''d1''),
     lc_iso = (\<lambda>w. ''t''), lc_sleep = (\<lambda>s w. w + s), lc_log = (\<lambda>row w. w)\<rparr>"

definition test_rungs :: "rung list" where
  "test_rungs = [model_spec ''zo_routed'' ''free1'' 1000 2 0 ''F1'', model_spec ''zo_routed'' ''paid1'' 1000 2 3 ''P1'',
     model_spec ''openai_compatible'' ''free2'' 1000 2 0 ''F2'']"

definition test_routing :: routing where
  "test_routing = \<lparr>rt_rungs = test_rungs, rt_start = [(''hard'', 1), (''default'', 0)], rt_paid = [''hard'']\<rparr>"

definition test_state :: "rat lstate" where
  "test_state = \<lparr>ls_fs = quota_fs, ls_ext = 1000, ls_windows = [], ls_budget = \<lparr>bt_cap = 5, bt_day = ''d1'', bt_spent = 1\<rparr>\<rparr>"

definition test_request :: request where
  "test_request = \<lparr>rq_prompt = ''p'', rq_system = None, rq_max_tokens = 16, rq_temperature = JNull, rq_tools = JNull\<rparr>"

definition paid_answers :: "rat adapter" where
  "paid_answers r rq st = (Some (if ms_cost r > 0 then (Some ''ok'', None, JNull) else (None, Some ''down'', JNull)), fst st, snd st + 1)"

definition all_fail :: "rat adapter" where
  "all_fail r rq st = (Some (None, Some ''down'', JNull), fst st, snd st + 1)"

subsection \<open>What a skipped rung changes\<close>

definition budget_ok :: "budget \<Rightarrow> bool" where
  "budget_ok b = (0 \<le> bt_spent b \<and> bt_spent b \<le> bt_cap b)"

lemma budget_refresh_ok: "budget_ok b \<Longrightarrow> budget_ok (budget_refresh d b) \<and> bt_cap (budget_refresh d b) = bt_cap b"
  by (auto simp: budget_ok_def budget_refresh_def)

lemma can_spend_ok: "can_spend p d b = (ok, b') \<Longrightarrow> budget_ok b \<Longrightarrow>
    budget_ok b' \<and> (ok \<longrightarrow> bt_spent b' + p \<le> bt_cap b')"
  by (auto simp: can_spend_def Let_def budget_refresh_ok)

lemma budget_record_ok:
  assumes "budget_ok b" and "bt_spent b + p \<le> bt_cap b" and "0 \<le> p"
  shows "budget_ok (budget_record p d b)"
  using assms by (auto simp: budget_ok_def budget_record_def budget_refresh_def)

lemma skip_reason_budget:
  assumes "skip_reason c rt task tools r st = (why, st1)" and "budget_ok (ls_budget st)"
  shows "budget_ok (ls_budget st1) \<and>
    (why = None \<and> ms_cost r > 0 \<longrightarrow> bt_spent (ls_budget st1) + ms_cost r \<le> bt_cap (ls_budget st1))"
proof -
  obtain ok b where s: "can_spend (ms_cost r) (lc_day c (lc_wall c (ls_ext st))) (ls_budget st) = (ok, b)"
    by (metis surj_pair)
  have "budget_ok b \<and> (ok \<longrightarrow> bt_spent b + ms_cost r \<le> bt_cap b)" using can_spend_ok [OF s assms(2)] .
  then show ?thesis using assms
    by (auto simp: skip_reason_def s Let_def split: if_splits prod.splits bool.splits)
qed

lemma call_rung_budget:
  assumes "call_rung c call task rq r atts st = (res, st1)" and "budget_ok (ls_budget st)"
    and "ms_cost r > 0 \<longrightarrow> bt_spent (ls_budget st) + ms_cost r \<le> bt_cap (ls_budget st)"
  shows "budget_ok (ls_budget st1)"
  using assms budget_record_ok [OF assms(2), of "ms_cost r"]
  by (auto simp: call_rung_def Let_def log_call_def split: prod.splits if_splits option.splits)

lemma ask_loop_budget:
  "budget_ok (ls_budget st) \<Longrightarrow> budget_ok (ls_budget (snd (ask_loop c call rt task rq hard rs made atts st)))"
proof (induction rs arbitrary: made atts st)
  case (Cons r rs)
  obtain why st1 where s: "skip_reason c rt task (rq_tools rq) r st = (why, st1)" by (metis surj_pair)
  have b: "budget_ok (ls_budget st1)"
    "why = None \<and> ms_cost r > 0 \<longrightarrow> bt_spent (ls_budget st1) + ms_cost r \<le> bt_cap (ls_budget st1)"
    using skip_reason_budget [OF s Cons.prems] by auto
  show ?case
  proof (cases why)
    case None
    have "budget_ok (ls_budget st3)" if "call_rung c call task rq r atts (st1\<lparr>ls_ext := w\<rparr>) = (res, st3)" for w res st3
      using call_rung_budget [OF that] b None by simp
    moreover have "budget_ok (ls_budget st3)" if "call_rung c call task rq r atts st1 = (res, st3)" for res st3
      using call_rung_budget [OF that] b None by simp
    ultimately show ?thesis using s b None Cons.prems Cons.IH
      by (auto simp: Let_def split: option.split prod.split sum.split)
  next
    case (Some w)
    then show ?thesis using s b Cons.IH Cons.prems by (auto split: prod.split)
  qed
qed simp

text \<open>The budget after any turns of the day: as it was, or emptied; as it was while the clock shows its day.\<close>

definition turned :: "('w, 'y) lcfg_scheme \<Rightarrow> budget \<Rightarrow> budget \<Rightarrow> bool" where
  "turned c b b' \<longleftrightarrow> bt_cap b' = bt_cap b \<and> (b' = b \<or> bt_spent b' = 0)
     \<and> ((\<forall>w. lc_day c (lc_wall c w) = bt_day b) \<longrightarrow> b' = b)"

lemma turned_same: "turned c b b"
  by (simp add: turned_def)

lemma turned_refresh: "turned c b (budget_refresh (lc_day c (lc_wall c w)) b)"
  by (simp add: turned_def budget_refresh_def)

lemma turned_trans: "turned c b b1 \<Longrightarrow> turned c b1 b2 \<Longrightarrow> turned c b b2"
  unfolding turned_def by metis

text \<open>What an outcome cost.\<close>

definition price :: "escalation option \<Rightarrow> rat" where
  "price res = (case res of None \<Rightarrow> 0 | Some e \<Rightarrow> if es_success e then max 0 (es_priority e) else 0)"

lemma price_nothing [simp]: "price None = 0" "price (Some (exhausted atts err)) = 0"
  by (simp_all add: price_def exhausted_def)

definition charged :: "('w, 'y) lcfg_scheme \<Rightarrow> budget \<Rightarrow> rat \<Rightarrow> budget \<Rightarrow> bool" where
  "charged c b p b' \<longleftrightarrow> (\<exists>b0. turned c b b0 \<and> bt_cap b' = bt_cap b0 \<and> bt_spent b' = bt_spent b0 + p)"

lemma charged_nothing: "turned c b b' \<Longrightarrow> charged c b 0 b'"
  unfolding charged_def by (intro exI [of _ b']) simp

lemma charged_later: "turned c b b1 \<Longrightarrow> charged c b1 p b2 \<Longrightarrow> charged c b p b2"
  unfolding charged_def using turned_trans by blast

lemma skip_reason_turns:
  assumes "skip_reason c rt task tools r st = (why, st1)"
  shows "turned c (ls_budget st) (ls_budget st1)"
  using assms turned_same turned_refresh [of c "ls_budget st" "ls_ext st"]
  by (auto simp: skip_reason_def can_spend_def Let_def split: if_splits prod.splits bool.splits)

lemma call_rung_charges:
  assumes "call_rung c call task rq r atts st = (res, st1)"
  shows "charged c (ls_budget st) (case res of Some (Inl e) \<Rightarrow> price (Some e) | _ \<Rightarrow> 0) (ls_budget st1)"
proof -
  have same: "charged c b 0 b" for b by (rule charged_nothing [OF turned_same])
  have paid: "charged c b p (budget_record p (lc_day c (lc_wall c w)) b)" for b p w
    unfolding charged_def by (intro exI conjI, rule turned_refresh [of _ _ w]) (simp_all add: budget_record_def Let_def)
  show ?thesis using assms same paid
    by (auto simp: call_rung_def Let_def log_call_def price_def max_def split: prod.splits if_splits option.splits)
qed

lemma ask_loop_charges:
  "charged c (ls_budget st) (price (fst (ask_loop c call rt task rq hard rs made atts st)))
     (ls_budget (snd (ask_loop c call rt task rq hard rs made atts st)))"
proof (induction rs arbitrary: made atts st)
  case Nil
  then show ?case by (simp add: price_def exhausted_def charged_nothing turned_same)
next
  case (Cons r rs)
  obtain why st1 where s: "skip_reason c rt task (rq_tools rq) r st = (why, st1)" by (metis surj_pair)
  note t = skip_reason_turns [OF s]
  show ?case
  proof (cases "hard \<le> made")
    case True
    then show ?thesis by (simp add: price_def exhausted_def charged_nothing turned_same)
  next
    case go: False
    show ?thesis
    proof (cases why)
      case (Some w)
      show ?thesis using charged_later [OF t Cons.IH] go s Some by (cases w) simp
    next
      case None
      show ?thesis
      proof (cases "if made > 0 then backoff_secs (lc_env c) made else Some None")
        case p: None
        have "price None = 0" by (simp add: price_def)
        then show ?thesis using charged_nothing [OF t] go s None by (simp add: p)
      next
        case p: (Some pause)
        define st2 where "st2 = (case pause of None \<Rightarrow> st1 | Some s \<Rightarrow> st1\<lparr>ls_ext := lc_sleep c s (ls_ext st1)\<rparr>)"
        have b2: "ls_budget st2 = ls_budget st1" by (simp add: st2_def split: option.split)
        obtain res st3 where o: "call_rung c call task rq r atts st2 = (res, st3)" by (metis surj_pair)
        have run: "ask_loop c call rt task rq hard (r # rs) made atts st
          = (case (res, st3) of (None, st3) \<Rightarrow> (None, st3) | (Some (Inl x), st3) \<Rightarrow> (Some x, st3)
             | (Some (Inr err), st3) \<Rightarrow> ask_loop c call rt task rq hard rs (made + 1)
                  (atts @ [(ms_model r, ''call_failed'', take 100 (case err of None \<Rightarrow> [] | Some e \<Rightarrow> e))]) st3)"
          using go s None p o by (simp add: st2_def Let_def)
        note ch = call_rung_charges [OF o, unfolded b2]
        show ?thesis
        proof (cases res)
          case None
          then show ?thesis unfolding run using charged_later [OF t ch] by (simp add: price_def)
        next
          case (Some x)
          show ?thesis
          proof (cases x)
            case (Inl e)
            then show ?thesis unfolding run using charged_later [OF t ch] Some by simp
          next
            case (Inr err)
            have "ls_budget st3 = ls_budget st2"
              using o Some Inr by (auto simp: call_rung_def Let_def log_call_def split: prod.splits if_splits option.splits)
            then have "turned c (ls_budget st) (ls_budget st3)" using t b2 by simp
            from charged_later [OF this Cons.IH] show ?thesis unfolding run using Some Inr by simp
          qed
        qed
      qed
    qed
  qed
qed

text \<open>C12: \<open>ask\<close> spends exactly what it reports and never more than the day allows: the priority spent afterwards is
  what had been spent before (or nothing, once the day has turned; never while the clock shows the budget's day) plus the
  priority of the rung that answered, a failed or free call costing nothing; and it stays between nothing and the cap.\<close>

theorem ask_never_overspends:
  assumes "budget_ok (ls_budget st)" and "ask c call rt task rq n st = (res, st')"
  shows "budget_ok (ls_budget st') \<and> bt_cap (ls_budget st') = bt_cap (ls_budget st)
    \<and> (bt_spent (ls_budget st') = bt_spent (ls_budget st) + price res \<or> bt_spent (ls_budget st') = price res)
    \<and> ((\<forall>w. lc_day c (lc_wall c w) = bt_day (ls_budget st)) \<longrightarrow>
         bt_spent (ls_budget st') = bt_spent (ls_budget st) + price res)"
proof -
  have "budget_ok (ls_budget (snd (ask c call rt task rq n st)))"
    using assms(1) by (auto simp: ask_def ask_loop_budget split: option.split)
  moreover have "charged c (ls_budget st) (price (fst (ask c call rt task rq n st))) (ls_budget (snd (ask c call rt task rq n st)))"
    using ask_loop_charges charged_nothing [OF turned_same]
    by (auto simp: ask_def split: option.split)
  ultimately show ?thesis unfolding assms(2) charged_def turned_def by auto
qed

theorem ask_never_overspends_witness:
  "bt_spent (ls_budget (snd (ask test_lcfg paid_answers test_routing ''hard'' test_request 2 test_state))) = 4"
proof -
  have h: "budget_ok (ls_budget test_state)" by code_simp
  have p: "price (fst (ask test_lcfg paid_answers test_routing ''hard'' test_request 2 test_state)) = 3" by code_simp
  have d: "\<forall>w. lc_day test_lcfg (lc_wall test_lcfg w) = bt_day (ls_budget test_state)"
    by (simp add: test_lcfg_def test_state_def)
  define st' where "st' = snd (ask test_lcfg paid_answers test_routing ''hard'' test_request 2 test_state)"
  define res where "res = fst (ask test_lcfg paid_answers test_routing ''hard'' test_request 2 test_state)"
  have "ask test_lcfg paid_answers test_routing ''hard'' test_request 2 test_state = (res, st')"
    by (simp add: res_def st'_def)
  from ask_never_overspends [OF h this] d have "bt_spent (ls_budget st') = bt_spent (ls_budget test_state) + price res" by blast
  also have "bt_spent (ls_budget test_state) = 1" by code_simp
  finally show ?thesis unfolding p [folded res_def] st'_def by simp
qed

subsection \<open>The cost gate\<close>

lemma skip_reason_gate:
  assumes "skip_reason c rt task tools r st = (None, st1)" and "task \<notin> set (rt_paid rt)"
  shows "\<not> ms_cost r > 0"
  using assms by (auto simp: skip_reason_def Let_def split: if_splits prod.splits bool.splits)

lemma ask_loop_gate:
  assumes "task \<notin> set (rt_paid rt)" and "\<forall>r. ms_cost r \<le> 0 \<longrightarrow> call r = call' r"
  shows "ask_loop c call rt task rq hard rs made atts st = ask_loop c call' rt task rq hard rs made atts st"
proof (induction rs arbitrary: made atts st)
  case (Cons r rs)
  obtain why st1 where s: "skip_reason c rt task (rq_tools rq) r st = (why, st1)" by (metis surj_pair)
  have "call_rung c call task rq r atts st2 = call_rung c call' task rq r atts st2" if "why = None" for st2
  proof -
    have "call r = call' r" using skip_reason_gate [OF _ assms(1)] s that assms(2) by (metis not_le)
    then show ?thesis by (simp add: call_rung_def)
  qed
  then show ?case using s Cons.IH by (auto simp: Let_def split: option.split prod.split sum.split)
qed simp

text \<open>C7: a task outside the paid ones never reaches a rung that costs: what the paid rungs would answer makes
  no difference to its \<open>ask\<close>, neither to the result nor to the state.\<close>

theorem unpaid_task_stays_free:
  assumes "task \<notin> set (rt_paid rt)" and "\<forall>r. ms_cost r \<le> 0 \<longrightarrow> call r = call' r"
  shows "ask c call rt task rq n st = ask c call' rt task rq n st"
  by (simp add: ask_def ask_loop_gate [OF assms] split: option.split)

theorem unpaid_task_stays_free_witness:
  "ask test_lcfg paid_answers test_routing ''easy'' test_request 2 test_state
   = ask test_lcfg all_fail test_routing ''easy'' test_request 2 test_state"
proof -
  have h: "''easy'' \<notin> set (rt_paid test_routing)" by code_simp
  have "\<forall>r. ms_cost r \<le> 0 \<longrightarrow> paid_answers r = all_fail r" by (simp add: fun_eq_iff paid_answers_def all_fail_def)
  then show ?thesis by (rule unpaid_task_stays_free [OF h])
qed

subsection \<open>How far the walk goes\<close>

definition calls_in :: "attempts \<Rightarrow> nat" where
  "calls_in atts = length (filter (\<lambda>(m, why, d). why = ''call_failed'') atts)"

lemma calls_in_append [simp]: "calls_in (a @ b) = calls_in a + calls_in b"
  by (simp add: calls_in_def)

lemma skip_reason_why:
  assumes "skip_reason c rt task tools r st = (Some (why, d), st1)"
  shows "why \<noteq> ''call_failed''"
  using assms by (auto simp: skip_reason_def Let_def split: if_splits prod.splits bool.splits)

lemma call_rung_result:
  assumes "call_rung c call task rq r atts st = (Some (Inl e), st1)"
  shows "es_success e \<and> es_attempts e = atts \<and> es_model e = ms_model r"
  using assms by (auto simp: call_rung_def Let_def split: prod.splits if_splits option.splits)

text \<open>The walk reports the rungs in their order, up to the one that answered or to the cap on calls.\<close>

definition ladder_walk :: "rung list \<Rightarrow> int \<Rightarrow> int \<Rightarrow> attempts \<Rightarrow> escalation \<Rightarrow> bool" where
  "ladder_walk rs hard made atts e =
     (\<exists>k rest. k \<le> length rs \<and> es_attempts e = atts @ rest \<and> map fst rest = map ms_model (take k rs)
        \<and> made + int (calls_in rest) \<le> max made hard
        \<and> (if es_success e then k < length rs \<and> es_model e = ms_model (rs ! k) \<and> made + int (calls_in rest) < hard
           else k = length rs \<or> hard \<le> made + int (calls_in rest)))"

lemma ladder_walk_step:
  assumes "ladder_walk rs hard made' (atts @ [(ms_model r, why, d)]) e"
    and "made' = made + int (calls_in [(ms_model r, why, d)])" and "made < hard"
  shows "ladder_walk (r # rs) hard made atts e"
proof -
  obtain k rest where k: "k \<le> length rs" "es_attempts e = (atts @ [(ms_model r, why, d)]) @ rest"
    "map fst rest = map ms_model (take k rs)" "made' + int (calls_in rest) \<le> max made' hard"
    "if es_success e then k < length rs \<and> es_model e = ms_model (rs ! k) \<and> made' + int (calls_in rest) < hard
     else k = length rs \<or> hard \<le> made' + int (calls_in rest)"
    using assms(1) by (auto simp: ladder_walk_def)
  have "calls_in [(ms_model r, why, d)] \<le> 1" by (simp add: calls_in_def)
  then have m: "made' \<le> hard" using assms(2,3) by linarith
  have c: "calls_in ((ms_model r, why, d) # rest) = calls_in [(ms_model r, why, d)] + calls_in rest"
    using calls_in_append [of "[(ms_model r, why, d)]" rest] by simp
  show ?thesis unfolding ladder_walk_def
    by (rule exI [of _ "Suc k"], rule exI [of _ "(ms_model r, why, d) # rest"])
       (use k m assms(2,3) in \<open>auto simp: c split: if_splits\<close>)
qed

lemma ladder_walk_stop: "hard \<le> made \<or> rs = [] \<Longrightarrow> ladder_walk rs hard made atts (exhausted atts err)"
  unfolding ladder_walk_def by (rule exI [of _ 0], rule exI [of _ "[]"]) (auto simp: exhausted_def calls_in_def)

lemma ask_loop_walks:
  "fst (ask_loop c call rt task rq hard rs made atts st) = Some e \<Longrightarrow> ladder_walk rs hard made atts e"
proof (induction rs arbitrary: made atts st)
  case Nil
  then show ?case by (auto intro: ladder_walk_stop)
next
  case (Cons r rs)
  show ?case
  proof (cases "hard \<le> made")
    case True
    then show ?thesis using Cons.prems by (auto intro: ladder_walk_stop)
  next
    case False
    obtain why st1 where s: "skip_reason c rt task (rq_tools rq) r st = (why, st1)" by (metis surj_pair)
    show ?thesis
    proof (cases why)
      case (Some wd)
      obtain w d where wd: "wd = (w, d)" by (metis surj_pair)
      have "ladder_walk rs hard made (atts @ [(ms_model r, w, d)]) e" using Cons.prems Cons.IH False s Some wd by simp
      then show ?thesis using ladder_walk_step [where made' = made and why = w] skip_reason_why [OF s [unfolded Some wd]] False
        by (simp add: calls_in_def)
    next
      case None
      obtain pause where p: "(if made > 0 then backoff_secs (lc_env c) made else Some None) = Some pause"
        using Cons.prems False s None by (auto split: option.splits)
      define st2 where "st2 = (case pause of None \<Rightarrow> st1 | Some s \<Rightarrow> st1\<lparr>ls_ext := lc_sleep c s (ls_ext st1)\<rparr>)"
      obtain out st3 where o: "call_rung c call task rq r atts st2 = (out, st3)" by (metis surj_pair)
      then obtain res where c: "call_rung c call task rq r atts st2 = (Some res, st3)"
        using Cons.prems False s None p by (cases out) (auto simp: st2_def Let_def)
      show ?thesis
      proof (cases res)
        case (Inl x)
        have "x = e" using Cons.prems False s None p c Inl by (simp add: st2_def Let_def)
        then show ?thesis using call_rung_result [OF c [unfolded Inl]] False unfolding ladder_walk_def
          by (intro exI [of _ 0] exI [of _ "[]"]) (auto simp: calls_in_def)
      next
        case (Inr err)
        let ?d = "take 100 (case err of None \<Rightarrow> [] | Some e \<Rightarrow> e)"
        have "ladder_walk rs hard (made + 1) (atts @ [(ms_model r, ''call_failed'', ?d)]) e"
          using Cons.prems False s None p c Inr by (intro Cons.IH [of _ _ st3]) (simp add: st2_def Let_def)
        then show ?thesis by (rule ladder_walk_step) (use False in \<open>auto simp: calls_in_def\<close>)
      qed
    qed
  qed
qed

lemma free_rung_ordered:
  assumes "r \<in> set rs" and "ms_enabled r" and "ms_cost r = 0"
  shows "r \<in> set (ask_order rs start n)"
proof -
  obtain j where j: "j < length rs" "rs ! j = r" using assms(1) by (meson in_set_conv_nth)
  have "j \<in> set (ask_window rs start n) \<or> j \<in> set (ask_tail rs (ask_window rs start n))"
    using j assms(2,3) by (auto simp: ask_tail_def Let_def)
  then have "j \<in> set (ask_window rs start n @ ask_tail rs (ask_window rs start n))" by simp
  then show ?thesis unfolding ask_order_def Let_def set_map using j(2) by blast
qed

lemma ask_walked:
  assumes "fst (ask c call rt task rq n st) = Some e" and "start_of rt task = Some start" and "start \<ge> 0"
    and "int_of_str (env_or (lc_env c) ''LADDER_FAILOVER_EXTRA'' ''6'') = Some extra"
  shows "ladder_walk (ask_order (rt_rungs rt) (nat start) n) (n + extra) 0 [] e"
  using assms by (intro ask_loop_walks) (simp add: ask_def)

text \<open>C3: a failed \<open>ask\<close> is never an early one. For a task whose start tier is not negative it made as many calls as
  the cap allows and no more, or every enabled free rung of the ladder is among its attempts; a task with a negative
  tier (such as \<open>embedding\<close>) is refused at once, with no attempt at all.\<close>

theorem failed_ask_went_through:
  assumes "fst (ask c call rt task rq n st) = Some e" and "\<not> es_success e"
    and "start_of rt task = Some start"
    and "int_of_str (env_or (lc_env c) ''LADDER_FAILOVER_EXTRA'' ''6'') = Some extra"
  shows "if start < 0 then es_attempts e = [] \<and> snd (ask c call rt task rq n st) = st
    else int (calls_in (es_attempts e)) \<le> max 0 (n + extra)
    \<and> (n + extra \<le> int (calls_in (es_attempts e))
       \<or> (\<forall>r \<in> set (rt_rungs rt). ms_enabled r \<and> ms_cost r = 0 \<longrightarrow> ms_model r \<in> fst ` set (es_attempts e)))"
proof (cases "start < 0")
  case True
  then show ?thesis using assms by (auto simp: ask_def exhausted_def)
next
  case False
  let ?rs = "ask_order (rt_rungs rt) (nat start) n"
  obtain k rest where k: "es_attempts e = rest" "map fst rest = map ms_model (take k ?rs)"
    "int (calls_in rest) \<le> max 0 (n + extra)" "k = length ?rs \<or> n + extra \<le> int (calls_in rest)"
    using ask_walked [OF assms(1,3) _ assms(4)] False assms(2) by (auto simp: ladder_walk_def)
  have "ms_model r \<in> fst ` set rest" if "k = length ?rs" "r \<in> set (rt_rungs rt)" "ms_enabled r" "ms_cost r = 0" for r
  proof -
    have "fst ` set rest = ms_model ` set ?rs" using k(2) that(1) by (metis list.set_map take_all order_refl)
    then show ?thesis using free_rung_ordered [OF that(2-4)] by auto
  qed
  then show ?thesis using k False by auto
qed

theorem failed_ask_went_through_witness:
  "case fst (ask test_lcfg all_fail test_routing ''easy'' test_request 2 test_state) of None \<Rightarrow> False
   | Some e \<Rightarrow> calls_in (es_attempts e) = 2 \<and> ''free2'' \<in> fst ` set (es_attempts e)"
proof -
  define e where "e = the (fst (ask test_lcfg all_fail test_routing ''easy'' test_request 2 test_state))"
  have n: "fst (ask test_lcfg all_fail test_routing ''easy'' test_request 2 test_state) \<noteq> None" by code_simp
  then have a: "fst (ask test_lcfg all_fail test_routing ''easy'' test_request 2 test_state) = Some e" by (simp add: e_def)
  have f: "\<not> es_success e" and k: "calls_in (es_attempts e) = 2" unfolding e_def by code_simp+
  have h: "start_of test_routing ''easy'' = Some 0"
    "int_of_str (env_or (lc_env test_lcfg) ''LADDER_FAILOVER_EXTRA'' ''6'') = Some 6" by code_simp+
  define r where "r = rt_rungs test_routing ! 2"
  have r: "r \<in> set (rt_rungs test_routing)" "ms_enabled r" "ms_cost r = 0" "ms_model r = ''free2''" unfolding r_def by code_simp+
  have "''free2'' \<in> fst ` set (es_attempts e)"
    using failed_ask_went_through [OF a f h] k r(1-3) unfolding r(4) [symmetric] by auto
  then show ?thesis using a k by simp
qed

subsection \<open>Rate limiter\<close>

definition window_of :: "string \<Rightarrow> windows \<Rightarrow> rat list" where
  "window_of m ws = (case dget ws m of None \<Rightarrow> [] | Some q \<Rightarrow> q)"

lemma length_prune [simp]: "length (prune_window now q) \<le> length q"
  by (simp add: prune_window_def length_dropWhile_le)

lemma limiter_available_window:
  assumes "limiter_available m rpm now ws = (ok, ws')"
  shows "length (window_of m' ws') \<le> length (window_of m' ws) \<and> (ok \<and> rpm > 0 \<longrightarrow> int (length (window_of m ws')) < rpm)"
  using assms length_prune [of now]
  by (cases "m' = m") (auto simp: limiter_available_def window_of_def Let_def split: option.splits)

lemma limiter_record_window:
  "window_of m' (limiter_record m now ws) = (if m' = m then prune_window now (window_of m ws) @ [now] else window_of m' ws)"
  by (simp add: limiter_record_def window_of_def)

text \<open>Every rung's window holds at most as many calls as its limit.\<close>

definition within_limits :: "rung list \<Rightarrow> windows \<Rightarrow> bool" where
  "within_limits rs ws = (\<forall>r \<in> set rs. int (length (window_of (ms_model r) ws)) \<le> ms_rpm r)"

definition one_limit :: "rung list \<Rightarrow> bool" where
  "one_limit rs = (\<forall>r \<in> set rs. ms_rpm r > 0 \<and> (\<forall>r' \<in> set rs. ms_model r' = ms_model r \<longrightarrow> ms_rpm r' = ms_rpm r))"

lemma within_limits_smaller:
  assumes "within_limits rs ws" and "\<And>m. length (window_of m ws') \<le> length (window_of m ws)"
  shows "within_limits rs ws'"
  unfolding within_limits_def
proof (rule ballI)
  fix r assume "r \<in> set rs"
  then have "int (length (window_of (ms_model r) ws)) \<le> ms_rpm r" using assms(1) by (simp add: within_limits_def)
  then show "int (length (window_of (ms_model r) ws')) \<le> ms_rpm r" using assms(2) [of "ms_model r"] by linarith
qed

lemma skip_reason_windows:
  assumes "skip_reason c rt task tools r st = (why, st1)"
  shows "length (window_of m (ls_windows st1)) \<le> length (window_of m (ls_windows st))
    \<and> (why = None \<and> ms_rpm r > 0 \<longrightarrow> int (length (window_of (ms_model r) (ls_windows st1))) < ms_rpm r)"
proof -
  obtain ok ws where l: "limiter_available (ms_model r) (ms_rpm r) (lc_mono c (ls_ext st)) (ls_windows st) = (ok, ws)"
    by (metis surj_pair)
  note w = limiter_available_window [OF l, of m] limiter_available_window [OF l, of "ms_model r"]
  show ?thesis using assms w
    by (auto simp: skip_reason_def l Let_def split: if_splits prod.splits bool.splits)
qed

lemma call_rung_windows:
  assumes "call_rung c call task rq r atts st = (res, st1)" and "one_limit rs" and "r \<in> set rs"
    and "within_limits rs (ls_windows st)" and "int (length (window_of (ms_model r) (ls_windows st))) < ms_rpm r"
  shows "within_limits rs (ls_windows st1)"
proof -
  consider (same) "ls_windows st1 = ls_windows st" | (call) now where "ls_windows st1 = limiter_record (ms_model r) now (ls_windows st)"
    using assms(1) by (auto simp: call_rung_def Let_def log_call_def split: prod.splits if_splits option.splits)
  then show ?thesis
  proof cases
    case same
    then show ?thesis using assms(4) by simp
  next
    case (call now)
    show ?thesis unfolding within_limits_def call limiter_record_window
    proof (rule ballI)
      fix r' assume r': "r' \<in> set rs"
      show "int (length (if ms_model r' = ms_model r
          then prune_window now (window_of (ms_model r) (ls_windows st)) @ [now] else window_of (ms_model r') (ls_windows st))) \<le> ms_rpm r'"
      proof (cases "ms_model r' = ms_model r")
        case True
        have "ms_rpm r' = ms_rpm r" using assms(2,3) r' True unfolding one_limit_def by blast
        moreover have "length (prune_window now (window_of (ms_model r) (ls_windows st))) \<le> length (window_of (ms_model r) (ls_windows st))"
          by (rule length_prune)
        ultimately show ?thesis using True assms(5) by (simp del: length_prune)
      next
        case False
        then show ?thesis using assms(4) r' by (simp add: within_limits_def)
      qed
    qed
  qed
qed

lemma ask_loop_windows:
  assumes "one_limit all"
  shows "set rs \<subseteq> set all \<Longrightarrow> within_limits all (ls_windows st) \<Longrightarrow>
    within_limits all (ls_windows (snd (ask_loop c call rt task rq hard rs made atts st)))"
proof (induction rs arbitrary: made atts st)
  case (Cons r rs)
  obtain why st1 where s: "skip_reason c rt task (rq_tools rq) r st = (why, st1)" by (metis surj_pair)
  have r: "r \<in> set all" "set rs \<subseteq> set all" using Cons.prems(1) by auto
  have w1: "within_limits all (ls_windows st1)"
    by (rule within_limits_smaller [OF Cons.prems(2)]) (use skip_reason_windows [OF s] in blast)
  have rpm: "ms_rpm r > 0" using assms r(1) unfolding one_limit_def by blast
  show ?case
  proof (cases why)
    case None
    have l: "int (length (window_of (ms_model r) (ls_windows st1))) < ms_rpm r"
      using skip_reason_windows [OF s] None rpm by blast
    have "within_limits all (ls_windows st3)" if "call_rung c call task rq r atts st2 = (res, st3)"
        "ls_windows st2 = ls_windows st1" for st2 res st3
      using call_rung_windows [OF that(1) assms r(1)] w1 l that(2) by simp
    then show ?thesis using s None Cons.prems w1 Cons.IH r
      by (auto simp: Let_def split: option.split prod.split sum.split)
  next
    case (Some x)
    then show ?thesis using s w1 Cons r by (auto split: prod.split)
  qed
qed simp

lemma ask_order_sub: "set (ask_order rs start n) \<subseteq> set rs"
  by (auto simp: ask_order_def ask_window_def ask_tail_def Let_def)

text \<open>The clock of the surroundings never runs backwards (\<open>time.monotonic\<close>).\<close>

definition clock_forward :: "('w, 'y) lcfg_scheme \<Rightarrow> 'w adapter \<Rightarrow> bool" where
  "clock_forward c call \<longleftrightarrow> (\<forall>r rq f w. lc_mono c w \<le> lc_mono c (snd (snd (call r rq (f, w)))))
     \<and> (\<forall>s w. 0 \<le> s \<longrightarrow> lc_mono c w \<le> lc_mono c (lc_sleep c s w)) \<and> (\<forall>row w. lc_mono c w \<le> lc_mono c (lc_log c row w))"

text \<open>
  What happens to a window in a period: the times of the calls are added at its end, and times are forgotten at its
  start, each over a minute before the period ends.
\<close>

definition slid :: "rat \<Rightarrow> rat \<Rightarrow> rat list \<Rightarrow> rat list \<Rightarrow> rat list \<Rightarrow> bool" where
  "slid t0 t1 q ts q' \<longleftrightarrow> t0 \<le> t1 \<and> (\<forall>t \<in> set ts. t0 \<le> t \<and> t \<le> t1)
     \<and> (\<exists>gone. q @ ts = gone @ q' \<and> (\<forall>t \<in> set gone. t < t1 - 60))"

lemma pause_not_negative: "backoff_secs env n = Some (Some s) \<Longrightarrow> 0 \<le> s"
  by (auto simp: backoff_secs_def Let_def split: option.splits if_splits)

lemma slid_same: "t0 \<le> t1 \<Longrightarrow> slid t0 t1 q [] q"
  by (simp add: slid_def)

lemma slid_prune: "t0 \<le> t1 \<Longrightarrow> slid t0 t1 q [] (prune_window t1 q)"
  unfolding slid_def prune_window_def
  by (auto intro!: exI [of _ "takeWhile (\<lambda>t. t < t1 - 60) q"] dest: set_takeWhileD)

lemma slid_record: "t0 \<le> t1 \<Longrightarrow> slid t0 t1 q [t1] (prune_window t1 q @ [t1])"
  unfolding slid_def prune_window_def
  by (auto intro!: exI [of _ "takeWhile (\<lambda>t. t < t1 - 60) q"] dest: set_takeWhileD)

lemma slid_trans:
  assumes "slid t0 t1 q ts q1" and "slid t1 t2 q1 us q2"
  shows "slid t0 t2 q (ts @ us) q2"
proof -
  from assms(1) obtain g where g: "q @ ts = g @ q1" "\<forall>t \<in> set g. t < t1 - 60" "t0 \<le> t1" "\<forall>t \<in> set ts. t0 \<le> t \<and> t \<le> t1"
    unfolding slid_def by blast
  from assms(2) obtain h where h: "q1 @ us = h @ q2" "\<forall>t \<in> set h. t < t2 - 60" "t1 \<le> t2" "\<forall>t \<in> set us. t1 \<le> t \<and> t \<le> t2"
    unfolding slid_def by blast
  have "q @ ts @ us = (g @ h) @ q2" using g(1) h(1) by (metis append_assoc)
  moreover have "\<forall>t \<in> set (g @ h). t < t2 - 60" using g(2) h(2,3) by fastforce
  moreover have "\<forall>t \<in> set (ts @ us). t0 \<le> t \<and> t \<le> t2" using g(3,4) h(3,4) by fastforce
  ultimately show ?thesis using g(3) h(3) unfolding slid_def by (metis order_trans)
qed

lemma skip_reason_slides:
  assumes "skip_reason c rt task tools r st = (why, st1)"
  shows "slid (lc_mono c (ls_ext st)) (lc_mono c (ls_ext st1)) (window_of m (ls_windows st)) [] (window_of m (ls_windows st1))"
proof -
  obtain ok ws where l: "limiter_available (ms_model r) (ms_rpm r) (lc_mono c (ls_ext st)) (ls_windows st) = (ok, ws)"
    by (metis surj_pair)
  have "slid (lc_mono c (ls_ext st)) (lc_mono c (ls_ext st)) (window_of m (ls_windows st)) [] (window_of m ws)"
    using l slid_same slid_prune by (cases "m = ms_model r") (auto simp: limiter_available_def window_of_def Let_def split: option.splits)
  then show ?thesis using assms slid_same
    by (auto simp: skip_reason_def l Let_def split: if_splits prod.splits bool.splits)
qed

lemma call_rung_slides:
  assumes "call_rung c call task rq r atts st = (Some res, st1)" and "clock_forward c call"
  shows "\<exists>ts. slid (lc_mono c (ls_ext st)) (lc_mono c (ls_ext st1)) (window_of m (ls_windows st)) ts (window_of m (ls_windows st1))
    \<and> length ts = (if m = ms_model r then 1 else 0)"
proof -
  obtain ans f w where cl: "call r rq (ls_fs st, ls_ext st) = (ans, f, w)" by (metis surj_pair)
  have w: "lc_mono c (ls_ext st) \<le> lc_mono c w" using assms(2) cl unfolding clock_forward_def by (metis snd_conv)
  have ws: "ls_windows st1 = limiter_record (ms_model r) (lc_mono c w) (ls_windows st)"
    using assms(1) by (auto simp: call_rung_def cl Let_def log_call_def split: prod.splits if_splits option.splits)
  have w1: "lc_mono c w \<le> lc_mono c (ls_ext st1)"
    using assms by (auto simp: call_rung_def cl Let_def log_call_def clock_forward_def split: prod.splits if_splits option.splits)
  show ?thesis
  proof (cases "m = ms_model r")
    case True
    then show ?thesis
      using slid_trans [OF slid_record [OF w] slid_same [OF w1], of "window_of m (ls_windows st)"]
      by (intro exI [of _ "[lc_mono c w]"]) (simp add: ws limiter_record_window)
  next
    case False
    then show ?thesis using slid_same [OF order_trans [OF w w1]]
      by (intro exI [of _ "[]"]) (simp add: ws limiter_record_window)
  qed
qed

text \<open>How often an outcome reports a call of the rung \<open>m\<close>.\<close>

definition failed_calls :: "string \<Rightarrow> attempts \<Rightarrow> nat" where
  "failed_calls m atts = length (filter (\<lambda>(k, why, d). k = m \<and> why = ''call_failed'') atts)"

definition calls_of :: "string \<Rightarrow> escalation \<Rightarrow> nat" where
  "calls_of m e = failed_calls m (es_attempts e) + (if es_success e \<and> es_model e = m then 1 else 0)"

lemma failed_calls_append: "failed_calls m (atts @ [(k, why, d)])
    = failed_calls m atts + (if k = m \<and> why = ''call_failed'' then 1 else 0)"
  by (simp add: failed_calls_def)

lemma calls_of_exhausted: "calls_of m (exhausted atts err) = failed_calls m atts"
  by (simp add: calls_of_def exhausted_def)

lemma ask_loop_slides:
  assumes "clock_forward c call"
  shows "ask_loop c call rt task rq hard rs made atts st = (Some e, st') \<Longrightarrow>
    \<exists>ts. slid (lc_mono c (ls_ext st)) (lc_mono c (ls_ext st')) (window_of m (ls_windows st)) ts (window_of m (ls_windows st'))
      \<and> failed_calls m atts + length ts = calls_of m e"
proof (induction rs arbitrary: made atts st)
  case Nil
  then show ?case using slid_same by (auto simp: calls_of_exhausted intro!: exI [of _ "[]"])
next
  case (Cons r rs)
  obtain why st1 where s: "skip_reason c rt task (rq_tools rq) r st = (why, st1)" by (metis surj_pair)
  note sl = skip_reason_slides [OF s, of m]
  show ?case
  proof (cases "hard \<le> made")
    case True
    then show ?thesis using Cons.prems slid_same by (auto simp: calls_of_exhausted intro!: exI [of _ "[]"])
  next
    case go: False
    show ?thesis
    proof (cases why)
      case (Some wd)
      obtain w d where wd: "wd = (w, d)" by (metis surj_pair)
      have "ask_loop c call rt task rq hard rs made (atts @ [(ms_model r, w, d)]) st1 = (Some e, st')"
        using Cons.prems go s Some wd by simp
      from Cons.IH [OF this] obtain ts where
        "slid (lc_mono c (ls_ext st1)) (lc_mono c (ls_ext st')) (window_of m (ls_windows st1)) ts (window_of m (ls_windows st'))"
        "failed_calls m (atts @ [(ms_model r, w, d)]) + length ts = calls_of m e" by blast
      then show ?thesis using slid_trans [OF sl] skip_reason_why [OF s [unfolded Some wd]]
        by (intro exI [of _ ts]) (auto simp: failed_calls_append)
    next
      case None
      obtain pause where p: "(if made > 0 then backoff_secs (lc_env c) made else Some None) = Some pause"
        using Cons.prems go s None by (auto split: option.splits)
      define st2 where "st2 = (case pause of None \<Rightarrow> st1 | Some s \<Rightarrow> st1\<lparr>ls_ext := lc_sleep c s (ls_ext st1)\<rparr>)"
      have "slid (lc_mono c (ls_ext st1)) (lc_mono c (ls_ext st2)) (window_of m (ls_windows st1)) [] (window_of m (ls_windows st2))"
        using slid_same assms pause_not_negative p by (auto simp: st2_def clock_forward_def split: option.split if_splits)
      note s2 = slid_trans [OF sl this, simplified]
      obtain out st3 where o: "call_rung c call task rq r atts st2 = (out, st3)" by (metis surj_pair)
      have run: "(case (out, st3) of (None, st3) \<Rightarrow> (None, st3) | (Some (Inl x), st3) \<Rightarrow> (Some x, st3)
             | (Some (Inr err), st3) \<Rightarrow> ask_loop c call rt task rq hard rs (made + 1)
                  (atts @ [(ms_model r, ''call_failed'', take 100 (case err of None \<Rightarrow> [] | Some e \<Rightarrow> e))]) st3) = (Some e, st')"
        using Cons.prems go s None p o by (simp add: st2_def Let_def)
      then obtain res where res: "out = Some res" by (cases out) simp_all
      from call_rung_slides [OF o [unfolded res] assms, of m] obtain us where us:
        "slid (lc_mono c (ls_ext st2)) (lc_mono c (ls_ext st3)) (window_of m (ls_windows st2)) us (window_of m (ls_windows st3))"
        "length us = (if m = ms_model r then 1 else 0)" by blast
      show ?thesis
      proof (cases res)
        case (Inl x)
        then have x: "x = e" "st' = st3" using run res by simp_all
        have "es_success e \<and> es_attempts e = atts \<and> es_model e = ms_model r"
          using call_rung_result [OF o [unfolded res Inl]] x by simp
        then show ?thesis using slid_trans [OF s2 us(1)] us(2) x(2)
          by (intro exI [of _ us]) (auto simp: calls_of_def)
      next
        case (Inr err)
        let ?d = "take 100 (case err of None \<Rightarrow> [] | Some e \<Rightarrow> e)"
        have "ask_loop c call rt task rq hard rs (made + 1) (atts @ [(ms_model r, ''call_failed'', ?d)]) st3 = (Some e, st')"
          using run res Inr by simp
        from Cons.IH [OF this] obtain ts where
          ts: "slid (lc_mono c (ls_ext st3)) (lc_mono c (ls_ext st')) (window_of m (ls_windows st3)) ts (window_of m (ls_windows st'))"
          "failed_calls m (atts @ [(ms_model r, ''call_failed'', ?d)]) + length ts = calls_of m e" by blast
        then show ?thesis using slid_trans [OF slid_trans [OF s2 us(1)] ts(1)] us(2)
          by (intro exI [of _ "us @ ts"]) (auto simp: failed_calls_append)
      qed
    qed
  qed
qed



subsection \<open>Routing\<close>

lemma set_all_other: "t \<notin> fst ` set kvs \<Longrightarrow> dget (set_all kvs d) t = dget d t"
  unfolding set_all_def by (induction kvs arbitrary: d) auto

lemma set_all_own: "t \<in> fst ` set kvs \<Longrightarrow> dget (set_all kvs d) t = dget (set_all kvs d') t"
proof (induction kvs arbitrary: d d')
  case (Cons x kvs)
  show ?case
  proof (cases "t \<in> fst ` set kvs")
    case True
    then show ?thesis using Cons.IH unfolding set_all_def by (simp split: prod.split)
  next
    case False
    then have "t = fst x" using Cons.prems by auto
    then show ?thesis using set_all_other [OF False] unfolding set_all_def by (simp split: prod.split)
  qed
qed simp

lemma set_all_append: "set_all (a @ b) d = set_all b (set_all a d)"
  by (simp add: set_all_def)

lemma start_changes_tasks: "fst ` set (start_changes env) = set BASELINE_TASKS"
proof -
  have "fst ` set BASELINE_START = set BASELINE_TASKS" by (simp add: BASELINE_START_def image_image)
  moreover have "set FLOOR_TASKS \<subseteq> set BASELINE_TASKS" "set CEILING_TASKS \<subseteq> set BASELINE_TASKS" "''code_local'' \<in> set BASELINE_TASKS"
    by code_simp+
  ultimately show ?thesis by (auto simp: start_changes_def image_Un image_image)
qed

lemma set_all_same: "t \<in> set ts \<Longrightarrow> dget (set_all (map (\<lambda>t. (t, k)) ts) d) t = Some k"
proof (induction ts arbitrary: d)
  case (Cons x ts)
  then show ?case
    using set_all_other [of t "map (\<lambda>t. (t, k)) ts" "dput x k d"]
    by (cases "t \<in> set ts") (auto simp: set_all_def image_image)
qed simp

lemma set_all_again: "dget (set_all (start_changes env) (set_all (start_changes env') d)) t = dget (set_all (start_changes env) d) t"
  by (cases "t \<in> set BASELINE_TASKS")
     (auto simp: set_all_other start_changes_tasks intro: set_all_own)

lemma switch_again: "i \<noteq> j \<Longrightarrow> switch i b (switch j c (switch i b' (switch j c' rs))) = switch i b (switch j c rs)"
  by (auto simp: switch_def list_update_swap [of i j] nth_list_update)

text \<open>C29: routing is idempotent and reversible: applying it under one environment after any other gives the
  rungs, the start tier of every task and the paid tasks of applying it alone, so clearing a flag or a key restores
  what was before.\<close>

theorem routing_reversible:
  "rt_rungs (apply_two_tier_routing base env (apply_two_tier_routing base' env' rt)) = rt_rungs (apply_two_tier_routing base env rt)
   \<and> rt_paid (apply_two_tier_routing base env (apply_two_tier_routing base' env' rt)) = rt_paid (apply_two_tier_routing base env rt)
   \<and> start_of (apply_two_tier_routing base env (apply_two_tier_routing base' env' rt)) task
       = start_of (apply_two_tier_routing base env rt) task"
  by (simp add: apply_two_tier_routing_def start_of_def set_all_again switch_again FLOOR_RUNG_def CODER_RUNG_def split: option.split)

subsection \<open>Where the code departs from its comments\<close>

lemma ask_order_paid:
  assumes "r \<in> set (ask_order rs start n)" and "ms_cost r \<noteq> 0"
  shows "\<exists>i \<ge> start. i < length rs \<and> r = rs ! i"
  using assms by (auto simp: ask_order_def ask_window_def ask_tail_def Let_def)

text \<open>With the ceiling on, the hard tasks start at its rung and no other paid rung is in their order: the failover
  does not cascade through the frontier rungs that the docstring of the routing still promises.\<close>

lemma length_LADDER: "length (LADDER env t) = 24"
  by (simp add: LADDER_def)

lemma LADDER_ceiling: "ms_label (LADDER env t ! 22) = ''BEAM/Reflection 501B-A23B (advanced ceiling, OpenRouter, capable synthesizer)''"
  by (simp add: LADDER_def model_spec_def)

lemma LADDER_coder: "ms_cost (LADDER env t ! 23) = 0"
  by (simp add: LADDER_def model_spec_def)

definition tiers_ok :: "(string, int) dict \<Rightarrow> bool" where
  "tiers_ok d = (dhas d ''default'' \<and> (\<forall>t k. dget d t = Some k \<and> t \<noteq> ''embedding'' \<longrightarrow> 0 \<le> k \<and> k < 24))"

lemma tiers_ok_put: "tiers_ok d \<Longrightarrow> 0 \<le> k \<Longrightarrow> k < 24 \<Longrightarrow> tiers_ok (dput t k d)"
  by (auto simp: tiers_ok_def dhas_def)

lemma tiers_ok_set_all: "list_all (\<lambda>(t, k). 0 \<le> k \<and> k < 24) kvs \<Longrightarrow> tiers_ok d \<Longrightarrow> tiers_ok (set_all kvs d)"
  unfolding set_all_def by (induction kvs arbitrary: d) (auto simp: tiers_ok_put)

lemma TASK_START_TIER_ok: "tiers_ok TASK_START_TIER"
proof -
  have "dhas TASK_START_TIER ''default''" "list_all (\<lambda>(t, k). t \<noteq> ''embedding'' \<longrightarrow> 0 \<le> k \<and> k < 24) TASK_START_TIER" by code_simp+
  then show ?thesis by (auto simp: tiers_ok_def list_all_iff dest: dget_in_set)
qed

lemma start_changes_ok: "list_all (\<lambda>(t, k). 0 \<le> k \<and> k < 24) (start_changes env)"
proof -
  have "list_all (\<lambda>(t, k). 0 \<le> k \<and> k < 24) BASELINE_START" by code_simp
  then show ?thesis by (auto simp: start_changes_def list_all_iff FLOOR_RUNG_def CEILING_RUNG_def CODER_RUNG_def)
qed

text \<open>Every model name that a caller sends starts somewhere: it resolves to a task whose start tier is an index of the ladder,
  in every environment and however often the routing was applied before.\<close>

theorem every_model_starts_somewhere:
  assumes "rt = apply_two_tier_routing base env (fold (\<lambda>e r. apply_two_tier_routing base e r) envs (initial_routing env0 t))"
  shows "\<exists>k. start_of rt (task_for_model m) = Some k \<and> 0 \<le> k \<and> k < int (length (rt_rungs rt))"
proof -
  have "tiers_ok (rt_start (fold (\<lambda>e r. apply_two_tier_routing base e r) es r)) \<and> length (rt_rungs (fold (\<lambda>e r. apply_two_tier_routing base e r) es r)) = 24"
    if "tiers_ok (rt_start r)" "length (rt_rungs r) = 24" for es r
    using that by (induction es arbitrary: r) (auto simp: apply_two_tier_routing_def tiers_ok_set_all [OF start_changes_ok] switch_def)
  from this [of "initial_routing env0 t" envs] have "tiers_ok (rt_start rt)" and l: "length (rt_rungs rt) = 24"
    by (simp_all add: initial_routing_def TASK_START_TIER_ok length_LADDER assms apply_two_tier_routing_def
        tiers_ok_set_all [OF start_changes_ok] switch_def)
  moreover have "task_for_model m \<noteq> ''embedding''"
  proof -
    have "list_all (\<lambda>(a, b). b \<noteq> ''embedding'') MODEL_TASK_MAP" by code_simp
    then show ?thesis by (auto simp: task_for_model_def list_all_iff dest: dget_in_set split: option.split)
  qed
  ultimately show ?thesis by (auto simp: start_of_def tiers_ok_def dhas_def l split: option.split)
qed

theorem every_model_starts_somewhere_witness:
  "\<exists>k. start_of (apply_two_tier_routing [] (\<lambda>_. None) (initial_routing (\<lambda>_. None) JNull)) (task_for_model (Some ''MiniMax-Text-01'')) = Some k
    \<and> 0 \<le> k \<and> k < int (length (rt_rungs (apply_two_tier_routing [] (\<lambda>_. None) (initial_routing (\<lambda>_. None) JNull))))"
  by (rule every_model_starts_somewhere [of _ _ _ "[]"]) simp

lemma ceiling_only:
  assumes "rs = extend_ladder (switch CODER_RUNG b (switch FLOOR_RUNG b' (LADDER env t)))" and "22 \<le> i" and "i < length rs"
    and "ms_cost (rs ! i) \<noteq> 0"
  shows "ms_label (rs ! i) = ''BEAM/Reflection 501B-A23B (advanced ceiling, OpenRouter, capable synthesizer)''"
proof -
  define base where "base = switch CODER_RUNG b (switch FLOOR_RUNG b' (LADDER env t))"
  define more where "more = filter (\<lambda>r. ms_model r \<notin> set (map ms_model base)) EXTRA_RUNGS"
  have rs: "rs = base @ more" by (simp add: assms(1) base_def more_def extend_ladder_def)
  have len: "length base = 24" by (simp add: base_def switch_def length_LADDER)
  have b22: "base ! 22 = LADDER env t ! 22" and b23: "ms_cost (base ! 23) = 0"
    by (simp_all add: base_def switch_def length_LADDER FLOOR_RUNG_def CODER_RUNG_def LADDER_coder)
  have "\<forall>r \<in> set EXTRA_RUNGS. ms_cost r = 0" by (simp add: EXTRA_RUNGS_def model_spec_def)
  then have "ms_cost r = 0" if "r \<in> set more" for r
    using that by (simp add: more_def)
  then have "i < 24" using assms(3,4) nth_mem [of "i - 24" more] by (auto simp: rs len nth_append not_less split: if_splits)
  then have "i = 22 \<or> i = 23" using assms(2) by linarith
  then show ?thesis using assms(4) rs len b22 b23 LADDER_ceiling by (auto simp: nth_append)
qed

text \<open>With the ceiling on, the hard tasks start at its rung and no other paid rung is in their order: the failover
  does not cascade through the frontier rungs that the docstring of the routing still promises.\<close>

theorem ceiling_drops_frontier:
  assumes "env_or env ''OPENROUTER_API_KEY'' [] \<noteq> []" and "task \<in> set CEILING_TASKS"
    and "rt = apply_two_tier_routing base env (initial_routing env t)"
    and "r \<in> set (ask_order (extend_ladder (rt_rungs rt)) 22 n)" and "ms_cost r \<noteq> 0"
  shows "start_of rt task = Some 22
    \<and> ms_label r = ''BEAM/Reflection 501B-A23B (advanced ceiling, OpenRouter, capable synthesizer)''"
proof
  have "dget (set_all (start_changes env) d) task = Some 22" for d
  proof -
    have "''code_local'' \<notin> set CEILING_TASKS" by code_simp
    then have "task \<notin> fst ` set (if tower_coder_on env then [(''code_local'', int CODER_RUNG)] else [])" using assms(2) by auto
    moreover have "dget (set_all (map (\<lambda>t. (t, int CEILING_RUNG)) CEILING_TASKS) d') task = Some (int CEILING_RUNG)" for d'
      using assms(2) by (rule set_all_same)
    moreover have "int CEILING_RUNG = 22" by (simp add: CEILING_RUNG_def)
    ultimately show ?thesis using assms(1) by (simp only: start_changes_def set_all_append if_True simp_thms set_all_other)
  qed
  moreover have "dget (set_all (start_changes env) TASK_START_TIER) ''default'' = Some 0"
  proof -
    have "''default'' \<notin> set BASELINE_TASKS" "dget TASK_START_TIER ''default'' = Some 0" by code_simp+
    then show ?thesis by (simp add: set_all_other start_changes_tasks)
  qed
  ultimately show "start_of rt task = Some 22"
    by (simp add: start_of_def assms(3) apply_two_tier_routing_def initial_routing_def)
  obtain i where i: "22 \<le> i" "i < length (extend_ladder (rt_rungs rt))" "r = extend_ladder (rt_rungs rt) ! i"
    using ask_order_paid [OF assms(4,5)] by blast
  show "ms_label r = ''BEAM/Reflection 501B-A23B (advanced ceiling, OpenRouter, capable synthesizer)''"
    unfolding i(3) by (rule ceiling_only [OF _ i(1)])
      (use i assms(3,5) in \<open>auto simp: apply_two_tier_routing_def initial_routing_def\<close>)
qed

lemma substr_in_Nil [simp]: "substr_in [] s"
  by (cases s) (simp_all add: startswith_def)

lemma substr_in_middle: "substr_in p (a @ p @ b)"
proof (induction a)
  case Nil
  show ?case
  proof (cases p)
    case (Cons c q)
    then have "startswith (c # q @ b) p" using startswith_append [of p b] by simp
    then show ?thesis using Cons by simp
  qed simp
qed simp

text \<open>Every HTTP error of a Gemini rung names its address, \<open>\<dots>:generateContent\<close>, in which the test for a rate limit
  finds its word: whatever the status, the rung is parked as if it had been limited.\<close>

theorem gemini_errors_park:
  "is_rate_limit (Some (status @ '':generateContent'' @ rest))"
proof -
  have "lower (status @ '':generateContent'' @ rest) = (lower status @ '':gene'') @ ''rate'' @ (''content'' @ lower rest)"
    by (simp add: lower_def) code_simp
  then show ?thesis by (simp only: is_rate_limit_def option.case Let_def substr_in_middle) simp
qed

end
