(* ===== verification/Sanitize.thy ===== *)
theory Sanitize
  imports PyRegex
begin

text \<open>
  The clean-up of what a model returns, \<open>src/minimax_utils.py\<close>: reasoning blocks, a dangling reasoning tag and the code
  fence around a file are cut off, but never the whole payload; answers that are too short or carry an error are refused.
\<close>

fun find_sub :: "string \<Rightarrow> string \<Rightarrow> nat option" where
  "find_sub p [] = (if p = [] then Some 0 else None)"
| "find_sub p (c # s) = (if startswith (c # s) p then Some 0 else map_option Suc (find_sub p s))"

definition any_char :: "char \<Rightarrow> bool" where
  "any_char c = True"

definition not_gt :: "char \<Rightarrow> bool" where
  "not_gt c = (c \<noteq> CHR ''>'')"

definition FENCE :: string where
  "FENCE = [CHR 0x60, CHR 0x60, CHR 0x60]"

definition REASONING_TAGS :: "string list" where
  "REASONING_TAGS = [''think'', ''reasoning'', ''thinking'', ''analysis'']"

text \<open>
  The closing tag refers back to the opening one (both up to case), so the pattern is an alternative of one pattern per tag,
  tried in the order of the tags.
\<close>

definition REASONING_CLOSED :: re where
  "REASONING_CLOSED = ralts (map (\<lambda>tag. rseqs [rlit ''<'', rilit tag, RBound, RStar (RChr not_gt), rlit ''>'',
     RLazyStar (RChr any_char), rlit ''</'', rilit tag, rlit ''>'']) REASONING_TAGS)"

definition REASONING_OPEN :: re where
  "REASONING_OPEN = rseqs [RBegin, RStar (RChr is_space), rlit ''<'', ralts (map rilit REASONING_TAGS), RBound,
     RStar (RChr not_gt), rlit ''>'']"

definition CODE_START_MARKERS :: "string list" where
  "CODE_START_MARKERS = [''<!DOCTYPE'', ''#!/'', ''import '', ''from '', ''def '', ''class '', FENCE, ''<html'', ''<!--'',
     ''function '', ''const '', ''let '', ''var '']"

definition MIN_VALID_BYTES :: nat where
  "MIN_VALID_BYTES = 300"

definition ERROR_SIGNATURES :: "string list" where
  "ERROR_SIGNATURES = [''InferenceRouter error'', ''credit balance is too low'', ''Error code: 400'', ''Error code: 402'',
     ''Error code: 503'', ''invalid_request_error'', ''[generation failed]'', ''connection refused'', ''timed out'']"

text \<open>\<open>text[min(candidates):]\<close>, when any of the marks is found.\<close>

definition from_first :: "string list \<Rightarrow> string \<Rightarrow> string" where
  "from_first marks s = (case List.map_filter (\<lambda>m. find_sub m s) marks of [] \<Rightarrow> s | c # cs \<Rightarrow> drop (fold min cs c) s)"

definition strip_reasoning :: "string \<Rightarrow> string" where
  "strip_reasoning text =
     (let t = strip (re_delete REASONING_CLOSED text);
          u = (if re_match REASONING_OPEN t \<noteq> None then from_first CODE_START_MARKERS t else t);
          stripped = strip u
      in if stripped \<noteq> [] then stripped else text)"

definition strip_reasoning_json :: "string \<Rightarrow> string \<times> bool" where
  "strip_reasoning_json text =
     (let t = strip (re_delete REASONING_CLOSED text);
          u = (if re_match REASONING_OPEN t \<noteq> None then from_first [''['', ''{''] t else t)
      in (strip u, u \<noteq> text))"

text \<open>The index of the last line that is kept, from index \<open>e\<close> down to 0.\<close>

fun last_kept :: "string list \<Rightarrow> nat \<Rightarrow> nat" where
  "last_kept ls 0 = 0"
| "last_kept ls (Suc e) = (if strip (ls ! Suc e) \<in> {[], FENCE} then last_kept ls e else Suc e)"

definition strip_code_fences_mm :: "string \<Rightarrow> string" where
  "strip_code_fences_mm text =
     (let stripped = strip text in
      if \<not> startswith stripped FENCE then text
      else
        (let ls = split_on newline stripped;
             cleaned = strip (join_with [newline] (drop 1 (take (last_kept ls (length ls - 1) + 1) ls)))
         in if cleaned \<noteq> [] then cleaned else text))"

definition normalize :: "string \<Rightarrow> string" where
  "normalize text = strip_code_fences_mm (strip_reasoning text)"

definition content_is_valid :: "string \<Rightarrow> bool \<times> string" where
  "content_is_valid content =
     (if length content < MIN_VALID_BYTES then (False, ''too short ('' @ nat_str (length content) @ '' bytes)'')
      else (case List.find (\<lambda>sig. substr_in (lower sig) (lower content)) ERROR_SIGNATURES of
          Some sig \<Rightarrow> (False, ''error sig: '' @ [CHR 0x27] @ sig @ [CHR 0x27])
        | None \<Rightarrow> (True, ''ok'')))"

subsection \<open>The payload survives\<close>

lemma strip_reasoning_kept: "text \<noteq> [] \<Longrightarrow> strip_reasoning text \<noteq> []"
  by (simp add: strip_reasoning_def Let_def)

lemma strip_code_fences_mm_kept: "text \<noteq> [] \<Longrightarrow> strip_code_fences_mm text \<noteq> []"
  by (simp add: strip_code_fences_mm_def Let_def)

lemma normalize_kept: "text \<noteq> [] \<Longrightarrow> normalize text \<noteq> []"
  by (simp add: normalize_def strip_code_fences_mm_kept strip_reasoning_kept)

lemma no_tag_no_closed:
  assumes "CHR ''<'' \<notin> set s"
  shows "search_from REASONING_CLOSED bef s = None"
proof -
  have "match_at REASONING_CLOSED b u = None" if "u = [] \<or> hd u \<noteq> CHR ''<''" for b u
    using that by (cases u) (simp_all add: match_at_def REASONING_CLOSED_def REASONING_TAGS_def rlit_match startswith_def)
  then show ?thesis using assms by (induction s arbitrary: bef) auto
qed

lemma no_tag_no_open:
  assumes "CHR ''<'' \<notin> set s"
  shows "re_match REASONING_OPEN s = None"
proof -
  let ?q = "rseqs [rlit ''<'', ralts (map rilit REASONING_TAGS), RBound, RStar (RChr not_gt), rlit ''>'']"
  have "rmatch ?q st = []" if st: "st \<in> set (rmatch (RStar (RChr is_space)) ([], [], s))" for st
  proof -
    obtain w where "s = w @ m_rest st"
      using rmatch_advances [OF st] by (auto simp: advances_def m_rest_def)
    then have "CHR ''<'' \<notin> set (m_rest st)" using assms by (metis Un_iff set_append)
    then have "\<not> startswith (m_rest st) ''<''" by (auto simp: startswith_iff)
    then show ?thesis by (cases st) (simp add: rlit_match m_rest_def)
  qed
  then have "concat (map (rmatch ?q) (rmatch (RStar (RChr is_space)) ([], [], s))) = []"
    by (simp only: concat_eq_Nil_conv set_map ball_simps) blast
  moreover have "rmatch REASONING_OPEN ([], [], s) = concat (map (rmatch ?q) (rmatch (RStar (RChr is_space)) ([], [], s)))"
    by (simp add: REASONING_OPEN_def m_before_def del: rmatch.simps(5))
  ultimately show ?thesis by (simp only: re_match_def match_at_def list.case)
qed

lemma strip_strip: "strip (strip s) = strip s"
proof -
  define y where "y = dropWhile is_space s"
  define z where "z = strip s"
  have z: "z = rev (dropWhile is_space (rev y))" by (simp add: z_def y_def strip_def)
  have "rev y = takeWhile is_space (rev y) @ dropWhile is_space (rev y)" by simp
  then have y: "y = z @ rev (takeWhile is_space (rev y))" unfolding z by (metis rev_append rev_rev_ident)
  then obtain w where w: "y = z @ w" by blast
  have "dropWhile is_space z = z"
  proof (cases z)
    case (Cons c t)
    then have "hd y = c" "y \<noteq> []" by (simp_all add: w)
    then have "\<not> is_space c" unfolding y_def by (metis hd_dropWhile)
    then show ?thesis by (simp add: Cons)
  qed simp
  moreover have "dropWhile is_space (dropWhile is_space x) = dropWhile is_space x" for x by (induction x) auto
  ultimately show ?thesis unfolding z_def [symmetric] strip_def [of z] by (simp add: z)
qed

lemma no_tag_kept:
  assumes "CHR ''<'' \<notin> set s" and "strip s \<noteq> []"
  shows "strip_reasoning s = strip s"
proof -
  have d: "re_delete REASONING_CLOSED s = s"
    by (simp add: re_delete_def re_finditer_def no_tag_no_closed [OF assms(1)])
  have "CHR ''<'' \<notin> set (strip s)" using assms(1) by (auto simp: strip_def dest!: set_dropWhileD)
  then have "re_match REASONING_OPEN (strip s) = None" by (rule no_tag_no_open)
  moreover have "strip (strip s) = strip s" by (rule strip_strip)
  ultimately show ?thesis using assms(2) by (simp add: strip_reasoning_def d)
qed

lemma join_split_on: "join_with [d] (split_on d s) = s"
proof (induction s)
  case (Cons c s)
  obtain w ws where "split_on d s = w # ws" by (cases "split_on d s") auto
  then show ?case using Cons by (cases ws) auto
qed simp

lemma strip_fenced: "strip (FENCE @ s @ FENCE) = FENCE @ s @ FENCE"
proof -
  have "\<not> is_space (CHR 0x60)" by code_simp
  then show ?thesis by (simp add: strip_def FENCE_def)
qed

text \<open>A fenced file comes out as the file: whatever language the fence names, the text between the fences is what remains, without
  its outer white space, as long as it does not itself end in a fence or a blank line; and no clean-up ever leaves nothing of an answer.\<close>

theorem fenced_file_unwrapped:
  assumes "newline \<notin> set lang" and "CHR ''<'' \<notin> set (lang @ file)" and "strip file \<noteq> []"
    and "strip (last (split_on newline file)) \<notin> {[], FENCE}"
  shows "normalize (FENCE @ lang @ newline # file @ newline # FENCE) = strip file \<and> (text \<noteq> [] \<longrightarrow> normalize text \<noteq> [])"
proof
  define s where "s = FENCE @ lang @ newline # file @ newline # FENCE"
  have st: "strip s = s" using strip_fenced [of "lang @ newline # file @ [newline]"] by (simp add: s_def)
  have ne: "s \<noteq> []" by (simp add: s_def)
  have nf: "newline \<notin> set FENCE" "CHR ''<'' \<notin> set FENCE" "CHR ''<'' \<noteq> newline" by code_simp+
  have "CHR ''<'' \<notin> set s" using assms(2) nf by (auto simp: s_def)
  then have r: "strip_reasoning s = s" using no_tag_kept [of s] st ne by simp
  have ls: "split_on newline s = (FENCE @ lang) # split_on newline file @ [FENCE]"
    using split_on_append_sep [of newline "FENCE @ lang" "file @ newline # FENCE"] nf assms(1)
    by (simp add: s_def split_on_append split_on_no_sep)
  let ?ls = "split_on newline s"
  obtain n where n: "length (split_on newline file) = Suc n" by (cases "split_on newline file") auto
  have "strip FENCE = FENCE" by code_simp
  then have l1: "last_kept ?ls (Suc (Suc n)) = last_kept ?ls (Suc n)" using n by (simp add: ls nth_append)
  have "?ls ! Suc n = last (split_on newline file)" using n by (simp add: ls nth_append last_conv_nth)
  then have l2: "last_kept ?ls (Suc n) = Suc n" using assms(4) by simp
  have "length ?ls - 1 = Suc (Suc n)" using n by (simp add: ls)
  then have "drop 1 (take (last_kept ?ls (length ?ls - 1) + 1) ?ls) = split_on newline file"
    using l1 l2 n by (simp add: ls del: last_kept.simps)
  then have "strip_code_fences_mm s = strip file"
    using assms(3) startswith_append [of FENCE "lang @ newline # file @ newline # FENCE"]
    by (simp add: strip_code_fences_mm_def st s_def [symmetric] join_split_on Let_def)
  then show "normalize (FENCE @ lang @ newline # file @ newline # FENCE) = strip file"
    by (simp add: normalize_def r s_def [symmetric])
qed (simp add: normalize_kept)

theorem fenced_file_unwrapped_witness:
  "normalize (FENCE @ ''python'' @ newline # ''x = 1'' @ newline # FENCE) = ''x = 1''"
proof -
  have h: "newline \<notin> set ''python''" "CHR ''<'' \<notin> set (''python'' @ ''x = 1'')" "strip ''x = 1'' \<noteq> []"
    "strip (last (split_on newline ''x = 1'')) \<notin> {[], FENCE}" "strip ''x = 1'' = ''x = 1''"
    by code_simp+
  show ?thesis using conjunct1 [OF fenced_file_unwrapped [OF h(1-4)]] unfolding h(5) .
qed

end
