(* ===== verification/ToolCalls.thy ===== *)
theory ToolCalls
  imports PyJson Sanitize "HOL-Library.Product_Lexorder"
begin

text \<open>
  The tool calls that models write as text, \<open>src/escalation.py\<close>: four parsers, one per shape (an XML envelope, a marker
  with JSON, a line \<open>TOOL:\<close>, a fenced Python call), turn them into structured calls and the text that is left. The
  hexadecimal digits of the identifiers of one parse (\<open>uid\<close>, by position) and the reading of float literals (\<open>fl\<close>) are arguments.
\<close>

text \<open>What a call can raise on a value that is not what the code expects.\<close>

fun type_name :: "json \<Rightarrow> string" where
  "type_name JNull = ''NoneType''"
| "type_name (JBool b) = ''bool''"
| "type_name (JInt i) = ''int''"
| "type_name (JFloat r s) = ''float''"
| "type_name (JStr s) = ''str''"
| "type_name (JList xs) = ''list''"
| "type_name (JObj d) = ''dict''"

definition attr_error :: "json \<Rightarrow> string \<Rightarrow> string" where
  "attr_error v m = ''AttributeError: '' @ [CHR 0x27] @ type_name v @ [CHR 0x27] @ '' object has no attribute '' @ [CHR 0x27] @ m @ [CHR 0x27]"

definition then_try :: "'a + string \<Rightarrow> ('a \<Rightarrow> 'b + string) \<Rightarrow> 'b + string" where
  "then_try r k = (case r of Inl v \<Rightarrow> k v | Inr e \<Rightarrow> Inr e)"

definition get_or :: "json \<Rightarrow> string \<Rightarrow> json \<Rightarrow> json + string" where
  "get_or v k d = (case v of JObj o' \<Rightarrow> Inl (jget_or o' k d) | _ \<Rightarrow> Inr (attr_error v ''get''))"

definition not_iterable :: "json \<Rightarrow> string" where
  "not_iterable v = ''TypeError: '' @ [CHR 0x27] @ type_name v @ [CHR 0x27] @ '' object is not iterable''"

definition tool_call :: "string \<Rightarrow> json \<Rightarrow> json \<Rightarrow> json" where
  "tool_call hex name args =
     JObj [(''id'', JStr (''call_'' @ take 24 hex)), (''type'', JStr ''function''),
       (''function'', JObj [(''name'', name), (''arguments'', args)])]"

definition number_calls :: "(nat \<Rightarrow> string) \<Rightarrow> (json \<times> json) list \<Rightarrow> json list" where
  "number_calls uid ps = map (\<lambda>(i, n, a). tool_call (uid i) n a) (enumerate 0 ps)"

text \<open>\<open>calls or None\<close>.\<close>

definition calls_or_none :: "json list \<Rightarrow> json list option" where
  "calls_or_none cs = (if cs = [] then None else Some cs)"

definition not_quote :: "char \<Rightarrow> bool" where
  "not_quote c = (c \<noteq> CHR 0x22)"

definition blank_char :: "char \<Rightarrow> bool" where
  "blank_char c = (c = CHR '' '' \<or> c = CHR 0x09)"

definition re_start :: "rmatch_obj \<Rightarrow> nat" where
  "re_start m = length (mo_before m)"

definition re_end :: "rmatch_obj \<Rightarrow> nat" where
  "re_end m = length (mo_before m) + length (mo_text m)"

text \<open>\<open>residual[:a] + residual[b:]\<close> for the spans from the last to the first.\<close>

definition cut_span :: "nat \<times> nat \<Rightarrow> string \<Rightarrow> string" where
  "cut_span ab s = take (fst ab) s @ drop (snd ab) s"

definition group_text :: "rmatch_obj \<Rightarrow> nat \<Rightarrow> string" where
  "group_text m n = (case mgroup m n of None \<Rightarrow> [] | Some s \<Rightarrow> s)"

subsection \<open>MiniMax envelopes\<close>

definition MMX_BLOCK :: re where
  "MMX_BLOCK = rseqs [rlit ''<minimax:tool_call>'', RGroup 1 (RLazyStar (RChr any_char)), rlit ''</minimax:tool_call>'']"

definition named_element :: "string \<Rightarrow> re" where
  "named_element tag = rseqs [rlit (CHR ''<'' # tag), rplus (RChr is_space), rlit (''name='' @ [CHR 0x22]),
     RGroup 1 (rplus (RChr not_quote)), rlit [CHR 0x22], RStar (RChr is_space), rlit ''>'',
     RGroup 2 (RLazyStar (RChr any_char)), rlit (''</'' @ tag @ ''>'')]"

definition MMX_INVOKE :: re where
  "MMX_INVOKE = named_element ''invoke''"

definition MMX_PARAM :: re where
  "MMX_PARAM = named_element ''parameter''"

definition invoke_args :: "string \<Rightarrow> json" where
  "invoke_args body = obj_of (map (\<lambda>m. (group_text m 1, JStr (strip (group_text m 2)))) (re_finditer MMX_PARAM body))"

definition block_calls :: "string \<Rightarrow> (json \<times> json) list" where
  "block_calls block =
     map (\<lambda>m. (JStr (strip (group_text m 1)), JStr (json_dumps (invoke_args (group_text m 2))))) (re_finditer MMX_INVOKE block)"

definition parse_minimax_tool_calls :: "(nat \<Rightarrow> string) \<Rightarrow> string \<Rightarrow> json list option \<times> string" where
  "parse_minimax_tool_calls uid content =
     (if \<not> substr_in ''<minimax:tool_call>'' content then (None, content)
      else (calls_or_none (number_calls uid (concat (map (\<lambda>m. block_calls (group_text m 1)) (re_finditer MMX_BLOCK content)))),
            strip (re_delete MMX_BLOCK content)))"

subsection \<open>Balanced scanning\<close>

text \<open>The position after the bracket that closes the first one, in a text that starts at position \<open>i\<close>; strings are skipped.\<close>

fun close_at :: "char \<Rightarrow> char \<Rightarrow> int \<Rightarrow> bool \<Rightarrow> bool \<Rightarrow> nat \<Rightarrow> string \<Rightarrow> nat option" where
  "close_at op cl depth instr esc i [] = None"
| "close_at op cl depth instr esc i (c # s) =
     (if instr then
        (if esc then close_at op cl depth True False (i + 1) s
         else if c = CHR 0x5C then close_at op cl depth True True (i + 1) s
         else close_at op cl depth (c \<noteq> CHR 0x22) False (i + 1) s)
      else if c = CHR 0x22 then close_at op cl depth True esc (i + 1) s
      else if c = op then close_at op cl (depth + 1) False esc (i + 1) s
      else if c = cl then (if depth - 1 = 0 then Some (i + 1) else close_at op cl (depth - 1) False esc (i + 1) s)
      else close_at op cl depth False esc (i + 1) s)"

definition scan_balanced_json :: "string \<Rightarrow> nat \<Rightarrow> string option \<times> nat" where
  "scan_balanced_json text start =
     (case close_at (CHR ''{'') (CHR ''}'') 0 False False start (drop start text) of
        Some e \<Rightarrow> (Some (take (e - start) (drop start text)), e)
      | None \<Rightarrow> (None, length text))"

subsection \<open>Marked calls\<close>

definition TC_MARKER :: string where
  "TC_MARKER = ''[TOOL_CALLS]''"

definition tc_ident_start :: "char \<Rightarrow> bool" where
  "tc_ident_start c = (is_alpha_ascii c \<or> c = CHR ''_'')"

definition tool_name_char :: "char \<Rightarrow> bool" where
  "tool_name_char c = (word_char c \<or> c = CHR ''.'' \<or> c = CHR ''-'')"

definition TOOL_NAME :: re where
  "TOOL_NAME = RSeq (RChr tc_ident_start) (RStar (RChr tool_name_char))"

definition TC_NAMED :: re where
  "TC_NAMED = rseqs [rlit TC_MARKER, RStar (RChr is_space), RGroup 1 TOOL_NAME, RStar (RChr is_space), RGroup 2 (rlit ''{'')]"

text \<open>A call and its span, when the braces that follow the name close around a JSON text; the brace ends the match.\<close>

definition named_call :: "(string \<Rightarrow> json) \<Rightarrow> string \<Rightarrow> rmatch_obj \<Rightarrow> ((json \<times> json) \<times> (nat \<times> nat)) option" where
  "named_call fl content m =
     (case scan_balanced_json content (re_end m - 1) of
        (Some obj, e) \<Rightarrow>
          if obj \<noteq> [] \<and> loads fl obj \<noteq> None then Some ((JStr (group_text m 1), JStr obj), (re_start m, e)) else None
      | (None, e) \<Rightarrow> None)"

fun json_get :: "json \<Rightarrow> string \<Rightarrow> json \<Rightarrow> json option" where
  "json_get (JObj d) k v = Some (jget_or d k v)"
| "json_get _ k v = None"

definition in_function :: "json \<Rightarrow> string \<Rightarrow> json \<Rightarrow> json option" where
  "in_function item k v = Option.bind (json_get item ''function'' (JObj [])) (\<lambda>f. json_get f k v)"

text \<open>An element of the array: the outer \<open>None\<close> is an exception, the inner one an element without a name.\<close>

definition array_item :: "json \<Rightarrow> (json \<times> json) option option" where
  "array_item item =
     Option.bind (json_get item ''name'' JNull) (\<lambda>n0.
     Option.bind (if truthy n0 then Some n0 else in_function item ''name'' JNull) (\<lambda>name.
     Option.bind (json_get item ''arguments'' JNull) (\<lambda>a0.
     Option.bind (if a0 = JNull then in_function item ''arguments'' (JObj []) else Some a0) (\<lambda>args.
     Some (if \<not> truthy name then None
           else Some (name, case args of JStr s \<Rightarrow> JStr s | _ \<Rightarrow> JStr (json_dumps args)))))))"

fun array_items :: "json list \<Rightarrow> (json \<times> json) list option" where
  "array_items [] = Some []"
| "array_items (x # xs) =
     Option.bind (array_item x) (\<lambda>r. map_option (\<lambda>rs. (case r of None \<Rightarrow> rs | Some p \<Rightarrow> p # rs)) (array_items xs))"

definition array_calls :: "(string \<Rightarrow> json) \<Rightarrow> string \<Rightarrow> ((json \<times> json) list \<times> (nat \<times> nat)) option" where
  "array_calls fl content =
     Option.bind (find_sub TC_MARKER content) (\<lambda>idx.
       (let rest = drop (idx + length TC_MARKER) content; tail = lstrip rest in
        if \<not> startswith tail ''['' then None
        else Option.bind (close_at (CHR ''['') (CHR '']'') 0 False False 0 tail) (\<lambda>e.
          Option.bind (loads fl (take e tail)) (\<lambda>v.
            (case v of
               JList xs \<Rightarrow> map_option (\<lambda>ps. (ps, (idx, idx + length TC_MARKER + (length rest - length tail) + e))) (array_items xs)
             | _ \<Rightarrow> None)))))"

text \<open>Without a call nothing is cut, an exception included.\<close>

definition parse_text_tool_calls :: "(nat \<Rightarrow> string) \<Rightarrow> (string \<Rightarrow> json) \<Rightarrow> string \<Rightarrow> json list option \<times> string" where
  "parse_text_tool_calls uid fl content =
     (if \<not> substr_in TC_MARKER content then (None, content)
      else
        (let named = List.map_filter (named_call fl content) (re_finditer TC_NAMED content);
             (ps, spans) = (if named \<noteq> [] then (map fst named, map snd named)
               else (case array_calls fl content of None \<Rightarrow> ([], []) | Some (ps, ab) \<Rightarrow> (ps, [ab])))
         in if ps = [] then (None, content)
            else (Some (number_calls uid ps), strip (fold cut_span (rev (sort spans)) content))))"

subsection \<open>Prose calls\<close>

definition PROSE_TOOL_MARKER :: string where
  "PROSE_TOOL_MARKER = ''TOOL:''"

definition PROSE_NAME :: re where
  "PROSE_NAME = rseqs [RLine, RStar (RChr blank_char), rlit ''TOOL:'', RStar (RChr blank_char), RGroup 1 TOOL_NAME,
     RStar (RChr blank_char), RLineEnd]"

definition PROSE_RESULT :: re where
  "PROSE_RESULT = rseqs [RLine, RStar (RChr blank_char), rlit ''TOOL:'', RStar (RChr blank_char), RGroup 1 (rlit ''{'')]"

definition PROSE_ARGS_PROBE :: re where
  "PROSE_ARGS_PROBE = rseqs [RStar (RChr is_space),
     ropt (rseqs [rlit FENCE, ropt (rlit ''json''), RStar (RChr is_space)]), rlit ''{'']"

definition PROSE_FENCE_CLOSE :: re where
  "PROSE_FENCE_CLOSE = RSeq (RStar (RChr is_space)) (rlit FENCE)"

definition match_between :: "re \<Rightarrow> string \<Rightarrow> nat \<Rightarrow> nat \<Rightarrow> rmatch_obj option" where
  "match_between r content pos n = re_match r (take n (drop pos content))"

definition fake_spans :: "string \<Rightarrow> (nat \<times> nat) list" where
  "fake_spans content = List.map_filter (\<lambda>m. (case scan_balanced_json content (re_end m - 1) of
     (None, e) \<Rightarrow> None | (Some obj, e) \<Rightarrow> Some (re_start m, e))) (re_finditer PROSE_RESULT content)"

text \<open>The arguments after a name that ends at \<open>pos\<close> and the end of what belongs to the call.\<close>

definition prose_args :: "(string \<Rightarrow> json) \<Rightarrow> string \<Rightarrow> nat \<Rightarrow> string \<times> nat" where
  "prose_args fl content pos =
     (case match_between PROSE_ARGS_PROBE content pos 4096 of None \<Rightarrow> (''{}'', pos)
      | Some pr \<Rightarrow>
        (case scan_balanced_json content (pos + length (mo_text pr) - 1) of
           (Some obj, e) \<Rightarrow>
             if obj \<noteq> [] \<and> loads fl obj \<noteq> None
             then (obj, (case match_between PROSE_FENCE_CLOSE content e 16 of None \<Rightarrow> e | Some f \<Rightarrow> e + length (mo_text f)))
             else (''{}'', pos)
         | (None, e) \<Rightarrow> (''{}'', pos)))"

definition prose_call :: "(string \<Rightarrow> json) \<Rightarrow> string \<Rightarrow> rmatch_obj \<Rightarrow> (json \<times> json) \<times> (nat \<times> nat)" where
  "prose_call fl content m =
     (case prose_args fl content (re_end m) of (args, e) \<Rightarrow> ((JStr (group_text m 1), JStr args), (re_start m, e)))"

definition parse_prose_tool_calls :: "(nat \<Rightarrow> string) \<Rightarrow> (string \<Rightarrow> json) \<Rightarrow> string \<Rightarrow> json list option \<times> string \<times> nat" where
  "parse_prose_tool_calls uid fl content =
     (if \<not> substr_in PROSE_TOOL_MARKER content then (None, content, 0)
      else
        (let fakes = fake_spans content; cs = map (prose_call fl content) (re_finditer PROSE_NAME content) in
         if cs = [] \<and> fakes = [] then (None, content, 0)
         else (calls_or_none (number_calls uid (map fst cs)),
               strip (fold cut_span (sort_key (\<lambda>ab. - int (fst ab)) (fakes @ map snd cs)) content), length fakes)))"

subsection \<open>Fenced Python calls\<close>

text \<open>
  What \<open>ast\<close> makes of a block, as far as the code looks: an expression statement that is a call, with its callee, the
  number of its positional arguments and its keywords (\<open>None\<close> for \<open>**\<close>), each with what \<open>literal_eval\<close> makes of its value
  (\<open>None\<close> when it raises). Values that are no JSON carry their \<open>str()\<close>.
\<close>

datatype callee = CName string | CAttribute callee string | COther

datatype pylit =
    LNone
  | LBool bool
  | LInt int
  | LFloat rat string
  | LStr string
  | LList "pylit list"
  | LTuple "pylit list"
  | LDict "(pylit \<times> pylit) list"
  | LOther string

record py_call =
  pc_func :: callee
  pc_nargs :: nat
  pc_keywords :: "(string option \<times> pylit option) list"

text \<open>A module's statements, \<open>None\<close> for those that are no calls; no module is a SyntaxError.\<close>

type_synonym py_module = "py_call option list option"

definition PYFENCE :: re where
  "PYFENCE = rseqs [rlit FENCE, RStar (RChr blank_char), ralts [rilit ''python'', rilit ''py''], RStar (RChr blank_char),
     ropt (rlit [CHR 0x0D]), rlit [newline], RGroup 1 (RLazyStar (RChr any_char)), rlit FENCE]"

definition tool_entry_name :: "json \<Rightarrow> string option + string" where
  "tool_entry_name t =
     (case t of
        JObj d \<Rightarrow>
          then_try (get_or (py_or (jget d ''function'') (JObj [])) ''name'' JNull) (\<lambda>n.
            Inl (case py_or n (jget d ''name'') of JStr s \<Rightarrow> if s = [] then None else Some s | _ \<Rightarrow> None))
      | _ \<Rightarrow> Inl None)"

fun tool_names :: "json list \<Rightarrow> string list + string" where
  "tool_names [] = Inl []"
| "tool_names (t # ts) =
     then_try (tool_entry_name t) (\<lambda>n. then_try (tool_names ts) (\<lambda>ns.
       Inl (case n of None \<Rightarrow> ns | Some s \<Rightarrow> List.insert s ns)))"

text \<open>An error is an exception: tools that cannot be iterated, a function that is no object.\<close>

definition offered_tool_names :: "json \<Rightarrow> string list + string" where
  "offered_tool_names tools =
     (if \<not> truthy tools then Inl []
      else (case tools of JList ts \<Rightarrow> tool_names ts | JObj d \<Rightarrow> Inl [] | JStr s \<Rightarrow> Inl [] | _ \<Rightarrow> Inr (not_iterable tools)))"

fun dotted_name :: "callee \<Rightarrow> string option" where
  "dotted_name (CName s) = Some s"
| "dotted_name (CAttribute f a) = map_option (\<lambda>s. s @ ''.'' @ a) (dotted_name f)"
| "dotted_name COther = None"

definition resolve_tool_name :: "string option \<Rightarrow> string list \<Rightarrow> string option" where
  "resolve_tool_name dotted offered =
     (case dotted of None \<Rightarrow> None
      | Some s \<Rightarrow>
        (let plain = replace_char (CHR ''.'') ''__'' s; tail = last (split_on (CHR ''.'') s);
             hits = filter (\<lambda>n. n = tail \<or> endswith n (''__'' @ tail)) offered
         in if s = [] then None
            else if offered \<noteq> [] then
              (if s \<in> set offered then Some s else if plain \<in> set offered then Some plain
               else case hits of [n] \<Rightarrow> Some n | _ \<Rightarrow> None)
            else if substr_in ''__'' plain then Some plain else None))"

fun lit_repr :: "pylit \<Rightarrow> string" where
  "lit_repr LNone = ''None''"
| "lit_repr (LBool b) = (if b then ''True'' else ''False'')"
| "lit_repr (LInt i) = int_str i"
| "lit_repr (LFloat q s) = s"
| "lit_repr (LStr s) = repr_str s"
| "lit_repr (LList xs) = ''['' @ join_with '', '' (map lit_repr xs) @ '']''"
| "lit_repr (LTuple xs) = ''('' @ join_with '', '' (map lit_repr xs) @ (if length xs = 1 then '','' else []) @ '')''"
| "lit_repr (LDict d) = ''{'' @ join_with '', '' (map (\<lambda>kv. lit_repr (fst kv) @ '': '' @ lit_repr (snd kv)) d) @ ''}''"
| "lit_repr (LOther s) = s"

definition lit_str :: "pylit \<Rightarrow> string" where
  "lit_str v = (case v of LStr s \<Rightarrow> s | _ \<Rightarrow> lit_repr v)"

text \<open>\<open>None\<close> is the TypeError.\<close>

fun jsonable :: "pylit \<Rightarrow> json option"
and jsonables :: "pylit list \<Rightarrow> json list option"
and json_items :: "(pylit \<times> pylit) list \<Rightarrow> (string \<times> json) list option" where
  "jsonable LNone = Some JNull"
| "jsonable (LBool b) = Some (JBool b)"
| "jsonable (LInt i) = Some (JInt i)"
| "jsonable (LFloat q s) = Some (JFloat q s)"
| "jsonable (LStr s) = Some (JStr s)"
| "jsonable (LList xs) = map_option JList (jsonables xs)"
| "jsonable (LTuple xs) = map_option JList (jsonables xs)"
| "jsonable (LDict d) = map_option obj_of (json_items d)"
| "jsonable (LOther s) = None"
| "jsonables [] = Some []"
| "jsonables (x # xs) = Option.bind (jsonable x) (\<lambda>v. map_option (\<lambda>vs. v # vs) (jsonables xs))"
| "json_items [] = Some []"
| "json_items ((k, x) # d) = Option.bind (jsonable x) (\<lambda>v. map_option (\<lambda>kvs. (lit_str k, v) # kvs) (json_items d))"

fun call_args :: "(string option \<times> pylit option) list \<Rightarrow> (string \<times> json) list option" where
  "call_args [] = Some []"
| "call_args ((n, v) # kws) =
     (case (n, Option.bind v jsonable) of (Some k, Some j) \<Rightarrow> map_option (\<lambda>as. (k, j) # as) (call_args kws) | _ \<Rightarrow> None)"

definition statement_call :: "string list \<Rightarrow> py_call \<Rightarrow> (json \<times> json) option" where
  "statement_call offered p =
     (case resolve_tool_name (dotted_name (pc_func p)) offered of None \<Rightarrow> None
      | Some name \<Rightarrow>
        if name = [] \<or> pc_nargs p \<noteq> 0 then None
        else map_option (\<lambda>as. (JStr name, JStr (json_dumps (obj_of as)))) (call_args (pc_keywords p)))"

text \<open>\<open>textwrap.dedent\<close>: blank lines are emptied, and the margin is the longest common indentation of the others.\<close>

fun shared_prefix :: "string \<Rightarrow> string \<Rightarrow> string" where
  "shared_prefix (a # s) (b # t) = (if a = b then a # shared_prefix s t else [])"
| "shared_prefix _ _ = []"

definition dedent :: "string \<Rightarrow> string" where
  "dedent s =
     (let ls = map (\<lambda>l. if list_all blank_char l then [] else l) (split_on newline s);
          indents = map (takeWhile blank_char) (filter (\<lambda>l. l \<noteq> []) ls);
          margin = (case indents of [] \<Rightarrow> [] | i # is \<Rightarrow> fold shared_prefix is i)
      in join_with [newline] (map (\<lambda>l. if startswith l margin then drop (length margin) l else l) ls))"

definition calls_in_python_block :: "(string \<Rightarrow> py_module) \<Rightarrow> string \<Rightarrow> string list \<Rightarrow> (json \<times> json) list" where
  "calls_in_python_block ast block offered =
     (case (case ast block of None \<Rightarrow> ast (dedent block) | Some t \<Rightarrow> Some t) of None \<Rightarrow> []
      | Some stmts \<Rightarrow> List.map_filter (\<lambda>p. Option.bind p (statement_call offered)) stmts)"

definition parse_pycall_tool_calls ::
    "(nat \<Rightarrow> string) \<Rightarrow> (string \<Rightarrow> py_module) \<Rightarrow> string \<Rightarrow> json \<Rightarrow> (json list option \<times> string) + string" where
  "parse_pycall_tool_calls uid ast content tools =
     (if \<not> substr_in FENCE content then Inl (None, content)
      else then_try (offered_tool_names tools) (\<lambda>offered.
        (let found = map (\<lambda>m. (m, calls_in_python_block ast (group_text m 1) offered)) (re_finditer PYFENCE content);
             used = filter (\<lambda>(m, ps). ps \<noteq> []) found
         in Inl (if used = [] then (None, content)
            else (Some (number_calls uid (concat (map snd used))),
                  strip (fold cut_span (rev (sort (map (\<lambda>(m, ps). (re_start m, re_end m)) used))) content))))))"

subsection \<open>The scanner over written JSON\<close>

lemma not_special_hex: "n < 16 \<Longrightarrow> hex_digit n \<noteq> CHR 0x22 \<and> hex_digit n \<noteq> CHR 0x5C"
proof -
  assume n: "n < 16"
  have "chr_code (hex_digit n) \<noteq> 34 \<and> chr_code (hex_digit n) \<noteq> 92"
    using n by (cases "n < 10") (simp_all add: hex_digit_def chr_code_digit_char, simp add: chr_code_def)
  then show ?thesis by (auto simp: chr_code_def)
qed

lemma json_char_cases:
  obtains (escape) e where "json_char c = [CHR 0x5C, e]"
    | (byte) "json_char c = [CHR 0x5C, CHR ''u'', CHR ''0'', CHR ''0'', hex_digit (chr_code c div 16), hex_digit (chr_code c mod 16)]"
    | (self) "json_char c = [c]" "c \<noteq> CHR 0x22" "c \<noteq> CHR 0x5C"
proof -
  have q: "chr_code (CHR 0x22) = 34" "chr_code (CHR 0x5C) = 92" by (simp_all add: chr_code_def)
  show thesis
  proof (cases "c = CHR 0x22 \<or> c = CHR 0x5C")
    case True
    then show thesis using escape [of c] by (auto simp: json_char_def q)
  next
    case False
    have "(\<exists>e. json_char c = [CHR 0x5C, e])
        \<or> json_char c = [CHR 0x5C, CHR ''u'', CHR ''0'', CHR ''0'', hex_digit (chr_code c div 16), hex_digit (chr_code c mod 16)]
        \<or> json_char c = [c]"
      unfolding json_char_def Let_def by (simp split: if_split)
    with False show thesis using escape byte self by blast
  qed
qed

lemma close_at_json_char:
  "close_at op cl depth True False i (json_char c @ s) = close_at op cl depth True False (i + length (json_char c)) s"
proof (cases c rule: json_char_cases)
  case byte
  have "hex_digit (chr_code c div 16) \<noteq> CHR 0x22 \<and> hex_digit (chr_code c div 16) \<noteq> CHR 0x5C"
    "hex_digit (chr_code c mod 16) \<noteq> CHR 0x22 \<and> hex_digit (chr_code c mod 16) \<noteq> CHR 0x5C"
    using chr_code_less [of c] not_special_hex by simp_all
  then show ?thesis by (simp add: byte)
qed simp_all

lemma close_at_json_str:
  "close_at op cl depth False False i (json_str s @ r) = close_at op cl depth False False (i + length (json_str s)) r"
proof -
  have "close_at op cl depth True False i (concat (map json_char s) @ CHR 0x22 # r)
    = close_at op cl depth False False (i + length (concat (map json_char s)) + 1) r" for i
    by (induction s arbitrary: i) (simp_all add: close_at_json_char add.assoc)
  from this [of "i + 1"] show ?thesis by (simp add: json_str_def)
qed

text \<open>Inside braces a written value is passed over as a whole.\<close>

lemma close_at_plain:
  assumes "list_all (\<lambda>c. c \<notin> {CHR 0x22, op, cl}) s"
  shows "close_at op cl depth False False i (s @ r) = close_at op cl depth False False (i + length s) r"
  using assms by (induction s arbitrary: i) auto

lemma int_str_plain: "list_all (\<lambda>c. c \<notin> {CHR 0x22, CHR ''{'', CHR ''}''}) (int_str i)"
proof -
  have "list_all (\<lambda>c. c \<notin> {CHR 0x22, CHR ''{'', CHR ''}''}) (nat_str n)" for n
    by (rule list.pred_mono_strong [OF nat_str_digits]) (use digit_not in blast)
  then show ?thesis by (simp add: int_str_def)
qed

abbreviation braces :: "int \<Rightarrow> nat \<Rightarrow> string \<Rightarrow> nat option" where
  "braces depth i s \<equiv> close_at (CHR ''{'') (CHR ''}'') depth False False i s"

lemma braces_dumps:
  "plain_json v \<Longrightarrow> 1 \<le> k \<Longrightarrow> braces k i (json_dumps v @ r) = braces k (i + length (json_dumps v)) r"
  "list_all plain_json xs \<Longrightarrow> 1 \<le> k \<Longrightarrow> braces k i (dumps_items xs @ r) = braces k (i + length (dumps_items xs)) r"
  "list_all (\<lambda>kv. plain_json (snd kv)) d \<Longrightarrow> 1 \<le> k \<Longrightarrow>
    braces k i (dumps_pairs d @ r) = braces k (i + length (dumps_pairs d)) r"
proof (induction v and xs and d arbitrary: i k r and i k r and i k r rule: json_dumps_dumps_items_dumps_pairs.induct)
  case (3 n)
  then show ?case using close_at_plain [OF int_str_plain, of k i n r] by simp
next
  case (7 d)
  have "braces k i (json_dumps (JObj d) @ r) = braces (k + 1) (i + 1) (dumps_pairs d @ CHR ''}'' # r)" by simp
  also have "\<dots> = braces (k + 1) (i + 1 + length (dumps_pairs d)) (CHR ''}'' # r)"
    using 7 by (intro 7(1)) auto
  also have "\<dots> = braces k (i + length (json_dumps (JObj d))) r" using 7(3) by simp
  finally show ?case .
next
  case (10 x y xs)
  then show ?case by (simp add: close_at_json_str add_ac)
next
  case (13 k' v kv d)
  then show ?case by (simp add: close_at_json_str add_ac)
qed (auto simp: close_at_json_str add_ac)

lemma scan_balanced_dumps:
  assumes "plain_json (JObj d)" and "start = length p"
  shows "scan_balanced_json (p @ json_dumps (JObj d) @ r) start
    = (Some (json_dumps (JObj d)), length p + length (json_dumps (JObj d)))"
proof -
  have "braces 0 i (json_dumps (JObj d) @ r) = Some (i + length (json_dumps (JObj d)))" for i
  proof -
    have "braces 0 i (json_dumps (JObj d) @ r) = braces 1 (i + 1) (dumps_pairs d @ CHR ''}'' # r)" by simp
    also have "\<dots> = braces 1 (i + 1 + length (dumps_pairs d)) (CHR ''}'' # r)"
      using assms(1) by (intro braces_dumps(3)) auto
    finally show ?thesis by simp
  qed
  then show ?thesis by (simp add: scan_balanced_json_def assms(2) del: json_dumps.simps)
qed

subsection \<open>A marked call is found\<close>

lemma TC_NAMED_fail: "\<not> startswith u TC_MARKER \<Longrightarrow> match_at TC_NAMED bef u = None"
  by (simp add: TC_NAMED_def match_at_def rlit_match)

lemma TC_NAMED_nowhere: "\<not> substr_in TC_MARKER u \<Longrightarrow> search_from TC_NAMED bef u = None"
  by (induction u arbitrary: bef) (auto simp: TC_NAMED_fail startswith_def TC_MARKER_def)

lemma TC_NAMED_skip:
  "CHR ''['' \<notin> set pre \<Longrightarrow> search_from TC_NAMED bef (pre @ u) = search_from TC_NAMED (rev pre @ bef) u"
proof (induction pre arbitrary: bef)
  case (Cons c pre)
  then have "\<not> startswith (c # pre @ u) TC_MARKER" by (auto simp: startswith_def TC_MARKER_def)
  then show ?case using Cons by (simp add: TC_NAMED_fail)
qed simp

definition tool_ident :: "string \<Rightarrow> bool" where
  "tool_ident s = (case s of [] \<Rightarrow> False | c # t \<Rightarrow> tc_ident_start c \<and> list_all tool_name_char t)"

lemma space_code: "is_space c \<Longrightarrow> chr_code c \<le> 32 \<or> chr_code c = 133 \<or> chr_code c = 160"
  by (auto simp: is_space_def Let_def)

lemma space_no_word: "is_space c \<Longrightarrow> c \<noteq> CHR ''_'' \<Longrightarrow> \<not> word_char c"
  by (drule space_code, elim disjE)
     (simp_all add: word_char_def is_alpha_ascii_def is_upper_ascii_def is_lower_ascii_def is_digit_def Let_def)

lemma name_chars: "tool_name_char c \<Longrightarrow> \<not> is_space c \<and> c \<noteq> CHR ''{''"
proof
  assume n: "tool_name_char c"
  have "\<not> is_space (CHR ''_'')" "\<not> is_space (CHR ''.'')" "\<not> is_space (CHR ''-'')" "\<not> tool_name_char (CHR ''{'')"
    by code_simp+
  with n space_no_word [of c] show "c \<noteq> CHR ''{''" and "\<not> is_space c"
    by (auto simp only: tool_name_char_def)
qed

lemma ident_name: "tc_ident_start c \<Longrightarrow> tool_name_char c"
  by (auto simp: tc_ident_start_def tool_name_char_def word_char_def Let_def)

lemma no_space_here:
  assumes "\<not> is_space c"
  shows "rmatch (RStar (RChr is_space)) (caps, bef, c # u) = [(caps, bef, c # u)]"
proof -
  have "star_run (rmatch (RChr is_space)) (Suc (length u)) (caps, bef, c # u) = [(caps, bef, c # u)]"
    using star_chr_run [of is_space "[]" "c # u" "Suc (length u)" caps bef] assms by (simp del: star_run.simps)
  then show ?thesis by (simp add: m_rest_def del: star_run.simps)
qed

lemma rmatch_space_brace:
  assumes "tool_name_char c \<or> c = CHR ''{''"
  shows "concat (map (rmatch (RGroup 2 (rlit ''{''))) (rmatch (RStar (RChr is_space)) (caps, bef, c # u)))
    = (if c = CHR ''{'' then [((2, ''{'') # caps, c # bef, u)] else [])"
proof -
  have "\<not> is_space (CHR ''{'')" by code_simp
  then have "\<not> is_space c" using assms name_chars [of c] by auto
  then have "rmatch (RStar (RChr is_space)) (caps, bef, c # u) = [(caps, bef, c # u)]"
    by (rule no_space_here)
  then show ?thesis by (simp add: rlit_match startswith_def m_before_def m_caps_def m_rest_def del: rmatch.simps(5))
qed

lemma named_tail_match:
  fixes g :: "mstate \<Rightarrow> mstate"
  assumes "list_all tool_name_char w" and "\<And>st. m_rest (g st) = m_rest st"
  shows "concat (map (rmatch (RSeq (RStar (RChr is_space)) (RGroup 2 (rlit ''{''))))
      (map g (rmatch (RStar (RChr tool_name_char)) (caps, bef, w @ CHR ''{'' # t))))
    = rmatch (RSeq (RStar (RChr is_space)) (RGroup 2 (rlit ''{''))) (g (caps, rev w @ bef, CHR ''{'' # t))"
proof -
  let ?q = "RSeq (RStar (RChr is_space)) (RGroup 2 (rlit ''{''))"
  let ?h = "\<lambda>i. (caps, rev (take i w) @ bef, drop i w @ CHR ''{'' # t)"
  have "rmatch ?q (g (?h i)) = []" if i: "i < length w" for i
  proof -
    have d: "drop i w = (w ! i) # drop (Suc i) w" using i by (simp add: Cons_nth_drop_Suc)
    have c: "tool_name_char (w ! i)" using assms(1) i by (simp add: list_all_length)
    obtain cs bf where g: "g (?h i) = (cs, bf, (w ! i) # drop (Suc i) w @ CHR ''{'' # t)"
      using assms(2) [of "?h i"] d by (cases "g (?h i)") (simp add: m_rest_def)
    show ?thesis using rmatch_space_brace [of "w ! i" cs bf] c name_chars [OF c] by (simp add: g)
  qed
  then have e: "concat (map (rmatch ?q) (map g (map ?h (rev [0..<length w])))) = []" by simp
  have "\<not> tool_name_char (CHR ''{'')" by code_simp
  then have "rmatch (RStar (RChr tool_name_char)) (caps, bef, w @ CHR ''{'' # t) = map ?h (rev [0..<Suc (length w)])"
    using star_chr_run [OF assms(1), of "CHR ''{'' # t" "length w + length t + 1" caps bef]
    by (simp add: m_rest_def del: upt_Suc)
  then have "concat (map (rmatch ?q) (map g (rmatch (RStar (RChr tool_name_char)) (caps, bef, w @ CHR ''{'' # t))))
    = rmatch ?q (g (?h (length w))) @ concat (map (rmatch ?q) (map g (map ?h (rev [0..<length w]))))"
    by (simp only: upt_Suc rev_append) simp
  then show ?thesis using e by simp
qed

lemma TC_NAMED_match:
  assumes "tool_ident name"
  shows "match_at TC_NAMED bef (TC_MARKER @ name @ CHR ''{'' # t)
    = Some \<lparr>mo_before = rev bef, mo_text = TC_MARKER @ name @ ''{'', mo_groups = [(2, ''{''), (1, name)], mo_after = t\<rparr>"
proof -
  obtain c w where n: "name = c # w" "tc_ident_start c" "list_all tool_name_char w"
    using assms by (cases name) (auto simp: tool_ident_def)
  let ?q = "RSeq (RStar (RChr is_space)) (RGroup 2 (rlit ''{''))"
  let ?bef = "rev TC_MARKER @ bef"
  let ?g = "\<lambda>t. ((1 :: nat, rev (take (length (m_before t) - length ?bef) (m_before t))) # m_caps t, m_before t, m_rest t)"
  have sp: "rmatch (RStar (RChr is_space)) (caps, b, c # u) = [(caps, b, c # u)]" for caps b u
    using name_chars [OF ident_name [OF n(2)]] by (intro no_space_here) blast
  have "rmatch TC_NAMED ([], bef, TC_MARKER @ name @ CHR ''{'' # t)
    = rmatch (rseqs [RStar (RChr is_space), RGroup 1 TOOL_NAME, RStar (RChr is_space), RGroup 2 (rlit ''{'')]) ([], ?bef, name @ CHR ''{'' # t)"
    by (simp add: TC_NAMED_def rmatch_rlit)
  also have "\<dots> = rmatch (RSeq (RGroup 1 TOOL_NAME) ?q) ([], ?bef, name @ CHR ''{'' # t)"
    using sp [of "[]" ?bef] by (simp add: n(1) del: rmatch.simps(5))
  also have "\<dots> = concat (map (rmatch ?q) (map ?g (rmatch TOOL_NAME ([], ?bef, name @ CHR ''{'' # t))))"
    by (simp only: rmatch.simps(3,7) m_before_def fst_conv snd_conv)
  also have "rmatch TOOL_NAME ([], ?bef, name @ CHR ''{'' # t) = rmatch (RStar (RChr tool_name_char)) ([], c # ?bef, w @ CHR ''{'' # t)"
    by (simp add: TOOL_NAME_def n m_rest_def m_caps_def m_before_def)
  also have "concat (map (rmatch ?q) (map ?g (rmatch (RStar (RChr tool_name_char)) ([], c # ?bef, w @ CHR ''{'' # t))))
    = rmatch ?q (?g ([], rev w @ c # ?bef, CHR ''{'' # t))"
    by (rule named_tail_match [OF n(3)]) (simp add: m_rest_def)
  also have "\<dots> = [([(2, ''{''), (1, name)], CHR ''{'' # rev name @ ?bef, t)]"
    using rmatch_space_brace [of "CHR ''{''" "[(1, name)]" "rev name @ ?bef" t] by (simp add: m_caps_def m_before_def m_rest_def n(1))
  finally show ?thesis by (simp add: match_at_def mk_match_def m_caps_def m_before_def m_rest_def)
qed

lemma substr_in_skip: "substr_in p s \<Longrightarrow> substr_in p (a @ s)"
  by (induction a) auto

lemma substr_in_start: "substr_in p (p @ s)"
proof (cases "p @ s")
  case (Cons c t)
  then have "startswith (c # t) p" using startswith_append [of p s] by simp
  then show ?thesis by (simp add: Cons)
qed simp

lemma TC_NAMED_found:
  assumes "CHR ''['' \<notin> set pre" and "tool_ident name" and "\<not> substr_in TC_MARKER t"
  shows "re_finditer TC_NAMED (pre @ TC_MARKER @ name @ CHR ''{'' # t)
    = [\<lparr>mo_before = pre, mo_text = TC_MARKER @ name @ ''{'', mo_groups = [(2, ''{''), (1, name)], mo_after = t\<rparr>]"
proof -
  define m where "m = \<lparr>mo_before = pre, mo_text = TC_MARKER @ name @ ''{'', mo_groups = [(2, ''{''), (1, name)], mo_after = t\<rparr>"
  let ?u = "TC_MARKER @ name @ CHR ''{'' # t"
  have "search_from TC_NAMED (rev pre) ?u = Some m"
    using TC_NAMED_match [OF assms(2), of "rev pre" t] by (cases ?u) (simp_all add: m_def)
  then have f: "search_from TC_NAMED [] (pre @ ?u) = Some m" using TC_NAMED_skip [OF assms(1), of "[]" ?u] by simp
  have l: "length (pre @ ?u) \<noteq> 0" by simp
  then obtain n where n: "length (pre @ ?u) = Suc n" by (cases "length (pre @ ?u)") auto
  show ?thesis unfolding re_finditer_def n m_def [symmetric]
    by (simp add: f TC_NAMED_nowhere [OF assms(3)] m_def del: append_assoc)
qed

text \<open>Between a preamble without brackets and any text without another marker, a marked name with its written JSON object is
  read back as one structured call, and the residual text is what surrounded it.\<close>

lemma marked_call_salvaged:
  assumes "CHR ''['' \<notin> set pre" and "tool_ident name" and "plain_json (JObj d)"
    and "\<not> substr_in TC_MARKER (json_dumps (JObj d) @ post)"
  shows "parse_text_tool_calls uid fl (pre @ TC_MARKER @ name @ json_dumps (JObj d) @ post)
    = (Some [tool_call (uid 0) (JStr name) (JStr (json_dumps (JObj d)))], strip (pre @ post))"
proof -
  define js where "js = json_dumps (JObj d)"
  define t where "t = dumps_pairs d @ ''}'' @ post"
  define content where "content = pre @ TC_MARKER @ name @ js @ post"
  have js: "js @ post = CHR ''{'' # t" by (simp add: js_def t_def)
  have t: "\<not> substr_in TC_MARKER t" using assms(4) by (simp add: t_def)
  define m where "m = \<lparr>mo_before = pre, mo_text = TC_MARKER @ name @ ''{'', mo_groups = [(2, ''{''), (1, name)], mo_after = t\<rparr>"
  have c: "content = pre @ TC_MARKER @ name @ CHR ''{'' # t" by (simp add: content_def js)
  have f: "re_finditer TC_NAMED content = [m]" unfolding c m_def by (rule TC_NAMED_found [OF assms(1,2) t])
  have "scan_balanced_json ((pre @ TC_MARKER @ name) @ js @ post) (re_end m - 1) = (Some js, length (pre @ TC_MARKER @ name) + length js)"
    unfolding js_def by (rule scan_balanced_dumps [OF assms(3)]) (simp add: m_def re_end_def)
  then have sc: "scan_balanced_json content (re_end m - 1) = (Some js, length (pre @ TC_MARKER @ name) + length js)"
    by (simp add: content_def)
  have "js \<noteq> []" "loads fl js = Some (JObj d)" using loads_dumps [OF assms(3)] by (simp_all add: js_def)
  moreover have g: "group_text m 1 = name" "re_start m = length pre" by (simp_all add: m_def group_text_def mgroup_def re_start_def)
  ultimately have nc: "named_call fl content m = Some ((JStr name, JStr js), (length pre, length (pre @ TC_MARKER @ name) + length js))"
    unfolding named_call_def sc g by simp
  have mk: "substr_in TC_MARKER content"
    unfolding content_def by (rule substr_in_skip [OF substr_in_start])
  have cut: "cut_span (length pre, length (pre @ TC_MARKER @ name) + length js) content = pre @ post"
    by (simp add: cut_span_def content_def)
  have mf: "List.map_filter (named_call fl content) (re_finditer TC_NAMED content)
    = [((JStr name, JStr js), (length pre, length (pre @ TC_MARKER @ name) + length js))]"
    by (simp only: f) (simp add: List.map_filter_def nc)
  show ?thesis
    unfolding js_def [symmetric] content_def [symmetric] parse_text_tool_calls_def mf Let_def using mk cut by (simp add: number_calls_def)
qed

subsection \<open>What the salvage lets through\<close>

lemma number_calls_in:
  assumes "c \<in> set (number_calls uid ps)"
  obtains i n a where "c = tool_call (uid i) n a" "(n, a) \<in> set ps"
proof -
  obtain x where x: "x \<in> set (enumerate 0 ps)" "c = (\<lambda>(i, n, a). tool_call (uid i) n a) x"
    using assms by (auto simp: number_calls_def)
  then obtain i n a where "x = (i, n, a)" by (metis surj_pair)
  moreover from this have "(n, a) \<in> set ps" using x(1) by (auto simp: in_set_enumerate_eq) (metis nth_mem)
  ultimately show thesis using that x(2) by simp
qed

lemma resolve_offered:
  assumes "resolve_tool_name dotted offered = Some n"
  shows "if offered = [] then substr_in ''__'' n else n \<in> set offered"
proof -
  obtain s where s: "dotted = Some s" using assms by (cases dotted) (auto simp: resolve_tool_name_def)
  define hits where "hits = filter (\<lambda>n. n = last (split_on (CHR ''.'') s) \<or> endswith n (''__'' @ last (split_on (CHR ''.'') s))) offered"
  have "m \<in> set offered" if "hits = [m]" for m
    using that unfolding hits_def by (metis filter_is_subset list.set_intros(1) subsetD)
  then show ?thesis using assms
    unfolding s resolve_tool_name_def Let_def option.case hits_def [symmetric] by (auto split: if_splits list.splits)
qed

lemma statement_call_offered:
  assumes "statement_call offered p = Some (n, a)"
  shows "\<exists>name args. n = JStr name \<and> a = JStr (json_dumps (JObj args))
    \<and> (if offered = [] then substr_in ''__'' name else name \<in> set offered) \<and> pc_nargs p = 0"
  using assms resolve_offered [of "dotted_name (pc_func p)" offered]
  by (auto simp: statement_call_def obj_of_def split: option.splits if_splits)

text \<open>C13: illustrative code can never run: whatever a fenced Python block contains, every call salvaged from it names a tool that was
  offered in this turn (without a list of tools, a name of the extension's own form), and its arguments are a JSON object.\<close>

theorem fenced_calls_were_offered:
  assumes "parse_pycall_tool_calls uid ast content tools = Inl (Some calls, residual)" and "offered_tool_names tools = Inl offered"
  shows "\<forall>c \<in> set calls. \<exists>hex name args. c = tool_call hex (JStr name) (JStr (json_dumps (JObj args)))
    \<and> (if offered = [] then substr_in ''__'' name else name \<in> set offered)"
proof
  fix c assume c: "c \<in> set calls"
  define found where "found = map (\<lambda>m. (m, calls_in_python_block ast (group_text m 1) offered)) (re_finditer PYFENCE content)"
  have "calls = number_calls uid (concat (map snd (filter (\<lambda>(m, ps). ps \<noteq> []) found)))"
    using assms by (auto simp: parse_pycall_tool_calls_def found_def then_try_def Let_def split: if_splits)
  then obtain i n a where i: "c = tool_call (uid i) n a" "(n, a) \<in> set (concat (map snd (filter (\<lambda>(m, ps). ps \<noteq> []) found)))"
    using number_calls_in c by blast
  then obtain m where "(n, a) \<in> set (calls_in_python_block ast (group_text m 1) offered)" by (auto simp: found_def)
  then obtain p where "statement_call offered p = Some (n, a)"
    by (auto simp: calls_in_python_block_def List.map_filter_def split: option.splits bind_splits)
  from statement_call_offered [OF this] i(1) show "\<exists>hex name args. c = tool_call hex (JStr name) (JStr (json_dumps (JObj args)))
    \<and> (if offered = [] then substr_in ''__'' name else name \<in> set offered)" by blast
qed

lemma prose_args_json: "prose_args fl content pos = (a, e) \<Longrightarrow> loads fl a \<noteq> None"
proof -
  have "loads fl ''{}'' = Some (JObj [])"
    using loads_dumps [of "JObj []" fl] by simp
  then show "prose_args fl content pos = (a, e) \<Longrightarrow> loads fl a \<noteq> None"
    by (auto simp: prose_args_def split: option.splits prod.splits if_splits)
qed

text \<open>A model that plays the tools' part achieves nothing: the results it fabricates are never among the calls salvaged from its
  prose, whose arguments all read as JSON, and when the prose names no tool there is no call at all.\<close>

theorem prose_calls_are_named:
  assumes "parse_prose_tool_calls uid fl content = (calls, residual, fakes)"
  shows "(case calls of None \<Rightarrow> re_finditer PROSE_NAME content = [] \<or> \<not> substr_in PROSE_TOOL_MARKER content
    | Some cs \<Rightarrow> length cs = length (re_finditer PROSE_NAME content)
        \<and> (\<forall>c \<in> set cs. \<exists>hex m args. m \<in> set (re_finditer PROSE_NAME content)
              \<and> c = tool_call hex (JStr (group_text m 1)) (JStr args) \<and> loads fl args \<noteq> None))"
proof (cases "substr_in PROSE_TOOL_MARKER content")
  case True
  define cs where "cs = map (prose_call fl content) (re_finditer PROSE_NAME content)"
  have calls: "calls = calls_or_none (number_calls uid (map fst cs))"
    using assms True by (auto simp: parse_prose_tool_calls_def cs_def [symmetric] Let_def calls_or_none_def number_calls_def split: if_splits)
  have "\<exists>hex m args. m \<in> set (re_finditer PROSE_NAME content) \<and> c = tool_call hex (JStr (group_text m 1)) (JStr args) \<and> loads fl args \<noteq> None"
    if c: "c \<in> set (number_calls uid (map fst cs))" for c
  proof -
    obtain i n a where i: "c = tool_call (uid i) n a" "(n, a) \<in> set (map fst cs)" using number_calls_in c by blast
    then obtain m where m: "m \<in> set (re_finditer PROSE_NAME content)" "(n, a) = fst (prose_call fl content m)"
      by (auto simp: cs_def)
    obtain args e where p: "prose_args fl content (re_end m) = (args, e)" by (metis surj_pair)
    have "n = JStr (group_text m 1)" "a = JStr args" using m(2) p by (simp_all add: prose_call_def)
    then show ?thesis using i(1) m(1) prose_args_json [OF p] by blast
  qed
  moreover have "length (number_calls uid (map fst cs)) = length (re_finditer PROSE_NAME content)"
    by (simp add: number_calls_def cs_def)
  ultimately show ?thesis by (auto simp: calls calls_or_none_def)
qed (use assms in \<open>auto simp: parse_prose_tool_calls_def\<close>)


definition one_tool :: json where
  "one_tool = JList [JObj [(''function'', JObj [(''name'', JStr ''zo__run'')])]]"

definition two_calls :: "string \<Rightarrow> py_module" where
  "two_calls s = Some [Some \<lparr>pc_func = CName ''print'', pc_nargs = 0, pc_keywords = []\<rparr>,
     Some \<lparr>pc_func = CAttribute (CName ''zo'') ''run'', pc_nargs = 0, pc_keywords = [(Some ''days'', Some (LInt 7))]\<rparr>]"

definition fenced_text :: string where
  "fenced_text = ''go '' @ FENCE @ ''py'' @ [newline] @ ''x'' @ FENCE"

theorem fenced_calls_were_offered_witness:
  "parse_pycall_tool_calls (\<lambda>i. ''ab'') two_calls fenced_text one_tool
     = Inl (Some [tool_call ''ab'' (JStr ''zo__run'') (JStr (json_dumps (JObj [(''days'', JInt 7)])))], ''go'')
   \<and> ''zo__run'' \<in> set [''zo__run'']"
proof
  have h: "parse_pycall_tool_calls (\<lambda>i. ''ab'') two_calls fenced_text one_tool
     = Inl (Some [tool_call ''ab'' (JStr ''zo__run'') (JStr (json_dumps (JObj [(''days'', JInt 7)])))], ''go'')"
    "offered_tool_names one_tool = Inl [''zo__run'']"
    by code_simp+
  show "parse_pycall_tool_calls (\<lambda>i. ''ab'') two_calls fenced_text one_tool
     = Inl (Some [tool_call ''ab'' (JStr ''zo__run'') (JStr (json_dumps (JObj [(''days'', JInt 7)])))], ''go'')"
    by (rule h(1))
  show "''zo__run'' \<in> set [''zo__run'']"
    using fenced_calls_were_offered [OF h] by (simp add: tool_call_def)
qed

definition prose_text :: string where
  "prose_text = ''TOOL: zo__run'' @ [newline] @ ''{}'' @ [newline] @ ''TOOL: { }''"

theorem prose_calls_are_named_witness:
  "case fst (parse_prose_tool_calls (\<lambda>i. ''ab'') (\<lambda>s. JNull) prose_text) of None \<Rightarrow> False | Some cs \<Rightarrow> length cs = 1"
proof -
  obtain calls residual fakes where p: "parse_prose_tool_calls (\<lambda>i. ''ab'') (\<lambda>s. JNull) prose_text = (calls, residual, fakes)"
    by (metis surj_pair)
  have "length (re_finditer PROSE_NAME prose_text) = 1" "substr_in PROSE_TOOL_MARKER prose_text" by code_simp+
  then show ?thesis using prose_calls_are_named [OF p] by (auto simp: p split: option.splits)
qed

end
