(* ===== verification/LadderCalls.thy ===== *)
theory LadderCalls
  imports Ladder ToolCalls
begin

text \<open>
  The four adapters of the ladder, \<open>src/escalation.py\<close>: what each sends, how it reads the reply, and what it salvages from
  it. The HTTP request, the digits of fresh identifiers, the reading of float literals and \<open>ast.parse\<close> are arguments.
\<close>

subsection \<open>Requests and replies\<close>

text \<open>A reply: its status, its headers, what \<open>raise_for_status\<close> raises, and its JSON or what reading it raises.\<close>

record reply =
  rp_status :: int
  rp_headers :: "(string, string) dict"
  rp_raise :: "string option"
  rp_json :: "json + string"

text \<open>
  A request gives a reply or the text of an exception (its type and message). Its arguments: address, headers, payload,
  timeout and proxy.
\<close>

record 'w ccfg = "'w lcfg" +
  cc_post :: "string \<Rightarrow> (string, string) dict \<Rightarrow> json \<Rightarrow> json \<Rightarrow> json \<Rightarrow> 'w \<Rightarrow> (reply + string) \<times> 'w"
  cc_uid :: "'w \<Rightarrow> nat \<Rightarrow> string"
  cc_float :: "string \<Rightarrow> json"
  cc_ast :: "string \<Rightarrow> py_module"

text \<open>\<open>v[0]\<close> of a true value.\<close>

definition first_of :: "json \<Rightarrow> json + string" where
  "first_of v =
     (case v of JList (x # xs) \<Rightarrow> Inl x
      | JStr (ch # s) \<Rightarrow> Inl (JStr [ch])
      | JObj d \<Rightarrow> Inr ''KeyError: 0''
      | _ \<Rightarrow> Inr (''TypeError: '' @ [CHR 0x27] @ type_name v @ [CHR 0x27] @ '' object is not subscriptable''))"

definition stripped :: "json \<Rightarrow> string + string" where
  "stripped v = (case v of JStr s \<Rightarrow> Inl (strip s) | _ \<Rightarrow> Inr (attr_error v ''strip''))"

definition checked :: "reply \<Rightarrow> json + string" where
  "checked r = (case rp_raise r of Some e \<Rightarrow> Inr e | None \<Rightarrow> rp_json r)"

definition some_text :: "string \<Rightarrow> string option" where
  "some_text s = (if s = [] then None else Some s)"

definition failure :: "string \<Rightarrow> answer" where
  "failure err = (None, Some err, JNull)"

definition answer_of :: "answer + string \<Rightarrow> answer" where
  "answer_of r = (case r of Inl a \<Rightarrow> a | Inr e \<Rightarrow> failure e)"

definition message_list :: "string option \<Rightarrow> string \<Rightarrow> json" where
  "message_list sys prompt =
     JList ((case sys of Some (ch # s) \<Rightarrow> [JObj [(''role'', JStr ''system''), (''content'', JStr (ch # s))]] | _ \<Rightarrow> [])
       @ [JObj [(''role'', JStr ''user''), (''content'', JStr prompt)]])"

definition with_tools :: "json \<Rightarrow> jobj \<Rightarrow> jobj" where
  "with_tools tools d = (if truthy tools then dput ''tools'' tools d else d)"

text \<open>\<open>f"{system}\n\n{prompt}" if system else prompt\<close>.\<close>

definition joined_prompt :: "string option \<Rightarrow> string \<Rightarrow> string" where
  "joined_prompt sys prompt = (case sys of Some (ch # s) \<Rightarrow> (ch # s) @ [newline, newline] @ prompt | _ \<Rightarrow> prompt)"

definition env_key :: "environ \<Rightarrow> string \<Rightarrow> string" where
  "env_key env k = env_or env k []"

subsection \<open>MiniMax\<close>

definition MINIMAX_429_RETRIES :: nat where
  "MINIMAX_429_RETRIES = 4"

definition retry_after_secs :: "reply \<Rightarrow> rat \<Rightarrow> rat" where
  "retry_after_secs r dflt =
     (case hget (rp_headers r) [''retry-after''] of
        Some (ch # s) \<Rightarrow> (case float_of_str (ch # s) of Some x \<Rightarrow> max 0 x | None \<Rightarrow> dflt)
      | _ \<Rightarrow> dflt)"

definition minimax_answer :: "(nat \<Rightarrow> string) \<Rightarrow> reply \<Rightarrow> answer" where
  "minimax_answer uid r =
     answer_of (then_try (checked r) (\<lambda>v.
       then_try (get_or v ''choices'' (JList [])) (\<lambda>choices.
       if \<not> truthy choices then Inl (failure ''empty choices'')
       else then_try (first_of choices) (\<lambda>x.
         then_try (get_or x ''message'' (JObj [])) (\<lambda>msg.
         then_try (get_or msg ''content'' (JStr [])) (\<lambda>t.
         then_try (stripped (py_or t (JStr []))) (\<lambda>raw.
         then_try (get_or msg ''tool_calls'' JNull) (\<lambda>tools.
           (let content = (if raw \<noteq> [] then normalize raw else []);
                (tools', content') =
                  (if \<not> truthy tools \<and> content \<noteq> [] \<and> substr_in ''<minimax:tool_call>'' content
                   then (case parse_minimax_tool_calls uid content of
                       (Some cs, residual) \<Rightarrow> (JList cs, residual) | (None, residual) \<Rightarrow> (tools, content))
                   else (tools, content))
            in Inl (if content' = [] \<and> \<not> truthy tools' then failure ''empty content and no tools''
                    else (some_text content', None, tools')))))))))))"

definition minimax_payload :: "rung \<Rightarrow> request \<Rightarrow> json" where
  "minimax_payload r rq =
     JObj (with_tools (rq_tools rq)
       [(''model'', JStr (ms_model r)), (''messages'', message_list (rq_system rq) (rq_prompt rq)),
        (''max_tokens'', JInt (rq_max_tokens rq)), (''temperature'', rq_temperature rq), (''reasoning_split'', JBool True)])"

text \<open>The retries left bound the recursion; \<open>k\<close> counts the attempts made.\<close>

fun minimax_tries :: "('w, 'y) ccfg_scheme \<Rightarrow> ('w \<Rightarrow> (reply + string) \<times> 'w) \<Rightarrow> nat \<Rightarrow> nat \<Rightarrow> 'w \<Rightarrow> answer \<times> 'w" where
  "minimax_tries c post left k w =
     (case post w of
        (Inr e, w1) \<Rightarrow> (failure e, w1)
      | (Inl r, w1) \<Rightarrow>
        (if rp_status r = 429 then
           (case left of
              0 \<Rightarrow> (failure ''429 rate-limited (backoff exhausted)'', w1)
            | Suc n \<Rightarrow> minimax_tries c post n (k + 1) (lc_sleep c (min (retry_after_secs r (2 * of_nat (k + 1))) 30) w1))
         else (minimax_answer (cc_uid c w1) r, w1)))"

definition call_minimax_direct :: "('w, 'y) ccfg_scheme \<Rightarrow> rung \<Rightarrow> request \<Rightarrow> 'w \<Rightarrow> answer \<times> 'w" where
  "call_minimax_direct c r rq w =
     (let key = env_key (lc_env c) ''MINIMAX_API_KEY'' in
      if key = [] then (failure ''MINIMAX_API_KEY not set'', w)
      else minimax_tries c
        (cc_post c ''https://api.minimax.io/v1/chat/completions''
           [(''Authorization'', ''Bearer '' @ key), (''Content-Type'', ''application/json'')] (minimax_payload r rq) (JInt 240) JNull)
        MINIMAX_429_RETRIES 0 w)"

subsection \<open>Gemini\<close>

text \<open>A declaration; the outer \<open>None\<close> is an exception, the inner one a tool that is passed over.\<close>

definition gemini_decl :: "json \<Rightarrow> json option option" where
  "gemini_decl t =
     (case t of
        JObj d \<Rightarrow>
          (let fn = jget d ''function'' in
           if \<not> truthy fn then Some None
           else (case fn of
               JObj f \<Rightarrow>
                 Some (if \<not> truthy (jget f ''name'') then None
                   else Some (JObj ([(''name'', jget f ''name'')]
                     @ (if truthy (jget f ''description'') then [(''description'', jget f ''description'')] else [])
                     @ (case jget f ''parameters'' of JObj p \<Rightarrow> [(''parameters'', JObj p)] | _ \<Rightarrow> []))))
             | _ \<Rightarrow> None))
      | _ \<Rightarrow> Some None)"

fun gemini_decls :: "json list \<Rightarrow> json list option" where
  "gemini_decls [] = Some []"
| "gemini_decls (t # ts) =
     Option.bind (gemini_decl t) (\<lambda>d. map_option (\<lambda>ds. (case d of None \<Rightarrow> ds | Some x \<Rightarrow> x # ds)) (gemini_decls ts))"

definition openai_tools_to_gemini :: "json \<Rightarrow> json option option" where
  "openai_tools_to_gemini tools =
     map_option (\<lambda>ds. if ds = [] then None else Some (JList [JObj [(''functionDeclarations'', JList ds)]]))
       (if \<not> truthy tools then Some []
        else (case tools of JList ts \<Rightarrow> gemini_decls ts | JObj d \<Rightarrow> Some [] | JStr s \<Rightarrow> Some [] | _ \<Rightarrow> None))"

text \<open>The pieces of text and the calls among the parts.\<close>

fun gemini_parts :: "json list \<Rightarrow> (string list \<times> (json \<times> json) list) + string" where
  "gemini_parts [] = Inl ([], [])"
| "gemini_parts (p # ps) =
     (case p of
        JObj d \<Rightarrow>
          (if truthy (jget d ''functionCall'') then
             then_try (get_or (jget d ''functionCall'') ''name'' (JStr [])) (\<lambda>name.
             then_try (get_or (jget d ''functionCall'') ''args'' JNull) (\<lambda>args.
             then_try (gemini_parts ps) (\<lambda>(ts, cs).
               Inl (ts, (name, JStr (json_dumps (py_or args (JObj [])))) # cs))))
           else (case jget d ''text'' of
               JStr s \<Rightarrow> then_try (gemini_parts ps) (\<lambda>(ts, cs). Inl (s # ts, cs))
             | _ \<Rightarrow> gemini_parts ps))
      | _ \<Rightarrow> gemini_parts ps)"

definition gemini_parts_to_result :: "(nat \<Rightarrow> string) \<Rightarrow> json \<Rightarrow> (string \<times> json list option) + string" where
  "gemini_parts_to_result uid parts =
     then_try
       (if \<not> truthy parts then Inl ([], [])
        else (case parts of JList ps \<Rightarrow> gemini_parts ps | JObj d \<Rightarrow> Inl ([], []) | JStr s \<Rightarrow> Inl ([], [])
          | _ \<Rightarrow> Inr (not_iterable parts)))
       (\<lambda>(ts, cs). Inl (strip (concat ts), calls_or_none (number_calls uid cs)))"

definition gemini_answer :: "(nat \<Rightarrow> string) \<Rightarrow> reply \<Rightarrow> answer" where
  "gemini_answer uid r =
     answer_of (then_try (checked r) (\<lambda>v.
       then_try (get_or v ''candidates'' JNull) (\<lambda>cands.
       if \<not> truthy cands then Inl (failure ''no candidates'')
       else then_try (first_of cands) (\<lambda>x.
         then_try (get_or x ''content'' JNull) (\<lambda>ct.
         then_try (get_or (py_or ct (JObj [])) ''parts'' JNull) (\<lambda>parts.
         then_try (gemini_parts_to_result uid parts) (\<lambda>(t, calls).
           (let text = (if t \<noteq> [] then normalize t else []) in
            Inl (case calls of
                Some cs \<Rightarrow> (some_text text, None, JList cs)
              | None \<Rightarrow> (some_text text, if text \<noteq> [] then None else Some ''empty'', JNull))))))))))"

definition is_gemma :: "rung \<Rightarrow> bool" where
  "is_gemma r = startswith (ms_model r) ''gemma-''"

definition text_parts :: "string \<Rightarrow> json" where
  "text_parts s = JObj [(''parts'', JList [JObj [(''text'', JStr s)]])]"

definition gemini_payload :: "rung \<Rightarrow> request \<Rightarrow> json option \<Rightarrow> json" where
  "gemini_payload r rq gem_tools =
     (let cfg = JObj ([(''maxOutputTokens'', JInt (rq_max_tokens rq)), (''temperature'', rq_temperature rq)]
            @ (if gem_tools = None then [(''responseMimeType'', JStr ''text/plain'')] else []));
          sys = (case rq_system rq of Some (ch # s) \<Rightarrow> [(''systemInstruction'', text_parts (ch # s))] | _ \<Rightarrow> [])
      in if is_gemma r
         then JObj [(''contents'', JList [text_parts (joined_prompt (rq_system rq) (rq_prompt rq))]), (''generationConfig'', cfg)]
         else JObj ([(''contents'', JList [text_parts (rq_prompt rq)]), (''generationConfig'', cfg)] @ sys
           @ (case gem_tools of None \<Rightarrow> [] | Some t \<Rightarrow> [(''tools'', t)])))"

text \<open>The tools are translated before the \<open>try\<close>, so a malformed one is an exception of the adapter.\<close>

definition call_gemini_direct :: "('w, 'y) ccfg_scheme \<Rightarrow> rung \<Rightarrow> request \<Rightarrow> 'w \<Rightarrow> answer option \<times> 'w" where
  "call_gemini_direct c r rq w =
     (let key = (if env_key (lc_env c) ''GEMINI_API_KEY'' \<noteq> [] then env_key (lc_env c) ''GEMINI_API_KEY''
            else env_key (lc_env c) ''RcGeminiAPIKey'') in
      if key = [] then (Some (failure ''GEMINI_API_KEY / RcGeminiAPIKey not set''), w)
      else (case (if is_gemma r then Some None else openai_tools_to_gemini (rq_tools rq)) of
          None \<Rightarrow> (None, w)
        | Some gem_tools \<Rightarrow>
          (case cc_post c (''https://generativelanguage.googleapis.com/v1beta/models/'' @ ms_model r @ '':generateContent'')
               [(''Content-Type'', ''application/json''), (''X-Goog-Api-Key'', key)] (gemini_payload r rq gem_tools)
               (JInt (if is_gemma r then 90 else 60)) JNull w of
             (Inr e, w1) \<Rightarrow> (Some (failure e), w1)
           | (Inl rp, w1) \<Rightarrow> (Some (gemini_answer (cc_uid c w1) rp), w1))))"

subsection \<open>Zo\<close>

definition zo_answer :: "reply \<Rightarrow> answer" where
  "zo_answer r =
     answer_of (then_try (checked r) (\<lambda>v.
       then_try (get_or v ''output'' (JStr [])) (\<lambda>t.
       then_try (stripped (py_or t (JStr []))) (\<lambda>raw.
         (let text = normalize raw in Inl (some_text text, if text \<noteq> [] then None else Some ''empty'', JNull))))))"

definition call_zo_routed :: "('w, 'y) ccfg_scheme \<Rightarrow> rung \<Rightarrow> request \<Rightarrow> 'w \<Rightarrow> answer \<times> 'w" where
  "call_zo_routed c r rq w =
     (let token = env_key (lc_env c) ''ZO_CLIENT_IDENTITY_TOKEN'' in
      if token = [] then (failure ''ZO_CLIENT_IDENTITY_TOKEN not set'', w)
      else (case cc_post c ''https://api.zo.computer/zo/ask'' [(''Authorization'', token), (''Content-Type'', ''application/json'')]
               (JObj [(''input'', JStr (joined_prompt (rq_system rq) (rq_prompt rq))), (''model_name'', JStr (ms_model r)),
                 (''stream'', JBool False)]) (JInt 120) JNull w of
             (Inr e, w1) \<Rightarrow> (failure e, w1)
           | (Inl rp, w1) \<Rightarrow> (zo_answer rp, w1)))"

subsection \<open>Providers with OpenAI's interface\<close>

definition CODE_ONLY_SYSTEM :: string where
  "CODE_ONLY_SYSTEM = ''Output ONLY code. No explanation, no reasoning, no prose, no markdown commentary. Return the code itself.''"

definition lang_char :: "char \<Rightarrow> bool" where
  "lang_char ch = (word_char ch \<or> ch \<in> {CHR ''.'', CHR ''+'', CHR ''-''})"

definition FENCE_BLOCK :: re where
  "FENCE_BLOCK = rseqs [rlit FENCE, RStar (RChr blank_char), RStar (RChr lang_char), RStar (RChr blank_char), ropt (rlit [CHR 0x0D]),
     ropt (rlit [newline]), RGroup 1 (RLazyStar (RChr any_char)), rlit FENCE]"

definition extract_code_only :: "string \<Rightarrow> string" where
  "extract_code_only text =
     (if text = [] then []
      else
        (let kept = strip_reasoning text;
             blocks = filter (\<lambda>b. strip b \<noteq> []) (map (\<lambda>m. strip_chars [newline] (group_text m 1)) (re_finditer FENCE_BLOCK kept));
             cleaned = strip kept
         in if blocks \<noteq> [] then strip (join_with [newline, newline] blocks)
            else if cleaned \<noteq> [] then cleaned else text))"

definition OAI_USER_AGENT :: string where
  "OAI_USER_AGENT = ''Mozilla/5.0 (Windows NT 10.0; Win64; x64) AppleWebKit/537.36 (KHTML, like Gecko) Chrome/126.0.0.0 Safari/537.36''"

text \<open>The parameters of a rung that are hints to the transport or for the answer, and the rest, which goes into the payload.\<close>

definition code_only_rung :: "rung \<Rightarrow> bool" where
  "code_only_rung r = truthy (jget_or (ms_extra r) ''code_only'' (JBool False))"

definition model_extra :: "rung \<Rightarrow> jobj" where
  "model_extra r = ddel ''code_only'' (ddel ''timeout'' (ddel ''proxy'' (ms_extra r)))"

definition oai_system :: "rung \<Rightarrow> request \<Rightarrow> string option" where
  "oai_system r rq =
     (if code_only_rung r
      then Some (case rq_system rq of Some (ch # s) \<Rightarrow> CODE_ONLY_SYSTEM @ [newline, newline] @ (ch # s) | _ \<Rightarrow> CODE_ONLY_SYSTEM)
      else rq_system rq)"

definition oai_payload :: "rung \<Rightarrow> request \<Rightarrow> json" where
  "oai_payload r rq =
     JObj (with_tools (rq_tools rq)
       (fold (\<lambda>(k, v) d. dput k v d) (model_extra r)
         [(''model'', JStr (ms_model r)), (''messages'', message_list (oai_system r rq) (rq_prompt rq)),
          (''max_tokens'', JInt (rq_max_tokens rq)), (''temperature'', rq_temperature rq)]))"

text \<open>
  The salvages, each only while there is no call: marked calls, prose calls (fabricated results alone fail the turn), fenced
  calls. \<open>Inl\<close> carries the calls and the text.
\<close>

definition marked_step :: "(nat \<Rightarrow> string) \<Rightarrow> (string \<Rightarrow> json) \<Rightarrow> json \<times> string \<Rightarrow> json \<times> string" where
  "marked_step uid fl tc =
     (if \<not> truthy (fst tc) \<and> snd tc \<noteq> [] \<and> substr_in TC_MARKER (snd tc)
      then (case parse_text_tool_calls uid fl (snd tc) of
          (Some cs, residual) \<Rightarrow> (JList cs, residual) | (None, residual) \<Rightarrow> tc)
      else tc)"

definition prose_step :: "(nat \<Rightarrow> string) \<Rightarrow> (string \<Rightarrow> json) \<Rightarrow> json \<times> string \<Rightarrow> (json \<times> string) + answer" where
  "prose_step uid fl tc =
     (if \<not> truthy (fst tc) \<and> snd tc \<noteq> [] \<and> substr_in PROSE_TOOL_MARKER (snd tc)
      then (case parse_prose_tool_calls uid fl (snd tc) of
          (Some cs, residual, nfake) \<Rightarrow> Inl (JList cs, residual)
        | (None, residual, nfake) \<Rightarrow>
            if nfake \<noteq> 0 then Inr (failure (''hallucinated TOOL: results x'' @ nat_str nfake @ '', no actionable call'')) else Inl tc)
      else Inl tc)"

definition fenced_step :: "(nat \<Rightarrow> string) \<Rightarrow> (string \<Rightarrow> py_module) \<Rightarrow> json \<Rightarrow> json \<times> string \<Rightarrow> (json \<times> string) + string" where
  "fenced_step uid ast tools tc =
     (if \<not> truthy (fst tc) \<and> snd tc \<noteq> [] \<and> substr_in FENCE (snd tc)
      then (case parse_pycall_tool_calls uid ast (snd tc) tools of
          Inr e \<Rightarrow> Inr e
        | Inl (Some cs, residual) \<Rightarrow> Inl (JList cs, residual)
        | Inl (None, residual) \<Rightarrow> Inl tc)
      else Inl tc)"

definition oai_salvage :: "(nat \<Rightarrow> string) \<Rightarrow> (string \<Rightarrow> json) \<Rightarrow> (string \<Rightarrow> py_module) \<Rightarrow> json \<Rightarrow> json \<times> string \<Rightarrow> answer + string" where
  "oai_salvage uid fl ast tools tc =
     (case prose_step uid fl (marked_step uid fl tc) of
        Inr a \<Rightarrow> Inl a
      | Inl tc' \<Rightarrow>
        then_try (fenced_step uid ast tools tc') (\<lambda>(calls, content).
          Inl (if content = [] \<and> \<not> truthy calls then failure ''empty content and no tools'' else (some_text content, None, calls))))"

definition oai_answer :: "(nat \<Rightarrow> string) \<Rightarrow> (string \<Rightarrow> json) \<Rightarrow> (string \<Rightarrow> py_module) \<Rightarrow> rung \<Rightarrow> json \<Rightarrow> reply \<Rightarrow> answer" where
  "oai_answer uid fl ast r tools rp =
     (if rp_status rp = 429 then failure ''429 rate-limited''
      else answer_of (then_try (checked rp) (\<lambda>v.
        then_try (get_or v ''choices'' (JList [])) (\<lambda>choices.
        if \<not> truthy choices then Inl (failure ''empty choices'')
        else then_try (first_of choices) (\<lambda>x.
          then_try (get_or x ''message'' (JObj [])) (\<lambda>m0.
          then_try (get_or (py_or m0 (JObj [])) ''content'' (JStr [])) (\<lambda>t.
          then_try (stripped (py_or t (JStr []))) (\<lambda>raw.
          then_try (get_or (py_or m0 (JObj [])) ''tool_calls'' JNull) (\<lambda>calls.
            (let content = (if raw \<noteq> [] then normalize raw else []);
                 content' = (if code_only_rung r \<and> content \<noteq> [] then extract_code_only content else content)
             in oai_salvage uid fl ast tools (calls, content')))))))))))"

text \<open>The quota of every reply is recorded, and the pause that a 429 asks for.\<close>

definition retry_header :: "reply \<Rightarrow> string option" where
  "retry_header rp = hget (rp_headers rp) [''retry-after'']"

definition call_openai_compatible :: "('w, 'y) ccfg_scheme \<Rightarrow> rung \<Rightarrow> request \<Rightarrow> fs \<times> 'w \<Rightarrow> answer \<times> fs \<times> 'w" where
  "call_openai_compatible c r rq fw =
     (let (f, w) = fw;
          k0 = (if ms_key_env r \<noteq> [] then env_key (lc_env c) (ms_key_env r) else []);
          base = rev (dropWhile (\<lambda>ch. ch = CHR ''/'') (rev (ms_base r)));
          key = (if k0 \<noteq> [] then k0 else ''ollama'')
      in if k0 = [] \<and> \<not> ms_key_optional r
         then (failure ((if ms_key_env r \<noteq> [] then ms_key_env r else ''key'') @ '' not set''), f, w)
         else if base = [] then (failure ''no base_url on spec'', f, w)
         else (case cc_post c (base @ ''/chat/completions'')
                [(''Authorization'', ''Bearer '' @ key), (''Content-Type'', ''application/json''), (''User-Agent'', OAI_USER_AGENT)]
                (oai_payload r rq) (jget_or (ms_extra r) ''timeout'' (JInt 240))
                (if truthy (jget (ms_extra r) ''proxy'') then jget (ms_extra r) ''proxy'' else JNull) w of
             (Inr e, w1) \<Rightarrow> (failure e, f, w1)
           | (Inl rp, w1) \<Rightarrow>
               (oai_answer (cc_uid c w1) (cc_float c) (cc_ast c) r (rq_tools rq) rp,
                quota_record (lc_quota c) (ms_model r) (rp_headers rp) (rp_status rp) (retry_header rp) (lc_wall c w1) f, w1)))"

subsection \<open>The adapters together\<close>

text \<open>A backend without an adapter is a KeyError.\<close>

definition BACKEND_ADAPTERS :: "('w, 'y) ccfg_scheme \<Rightarrow> 'w adapter" where
  "BACKEND_ADAPTERS c r rq fw =
     (if ms_backend r = ''minimax_direct''
      then (case call_minimax_direct c r rq (snd fw) of (a, w1) \<Rightarrow> (Some a, fst fw, w1))
      else if ms_backend r = ''gemini_direct''
      then (case call_gemini_direct c r rq (snd fw) of (a, w1) \<Rightarrow> (a, fst fw, w1))
      else if ms_backend r = ''zo_routed''
      then (case call_zo_routed c r rq (snd fw) of (a, w1) \<Rightarrow> (Some a, fst fw, w1))
      else if ms_backend r = ''openai_compatible''
      then (case call_openai_compatible c r rq fw of (a, fw1) \<Rightarrow> (Some a, fw1))
      else (None, fw))"

subsection \<open>What the adapters promise\<close>

definition provider_key :: "environ \<Rightarrow> rung \<Rightarrow> string" where
  "provider_key env r =
     (if ms_backend r = ''minimax_direct'' then env_key env ''MINIMAX_API_KEY''
      else if ms_backend r = ''gemini_direct''
      then (if env_key env ''GEMINI_API_KEY'' \<noteq> [] then env_key env ''GEMINI_API_KEY'' else env_key env ''RcGeminiAPIKey'')
      else if ms_backend r = ''zo_routed'' then env_key env ''ZO_CLIENT_IDENTITY_TOKEN''
      else if ms_key_env r = [] then [] else env_key env (ms_key_env r))"

text \<open>C30: without its provider's key a rung makes no request: the adapter answers with an error and leaves the files and the
  outside as they were, unless the rung is one that needs no key.\<close>

theorem no_key_no_request:
  assumes "provider_key (lc_env c) r = []" and "ms_backend r = ''openai_compatible'' \<longrightarrow> \<not> ms_key_optional r"
    and "ms_backend r \<in> {''minimax_direct'', ''gemini_direct'', ''zo_routed'', ''openai_compatible''}"
  shows "\<exists>err. BACKEND_ADAPTERS c r rq fw = (Some (failure err), fw)"
proof -
  have "ms_backend r = ''minimax_direct'' \<or> ms_backend r = ''gemini_direct'' \<or> ms_backend r = ''zo_routed'' \<or> ms_backend r = ''openai_compatible''"
    using assms(3) by simp
  then show ?thesis
  proof (elim disjE)
    assume b: "ms_backend r = ''minimax_direct''"
    then show ?thesis using assms(1) by (cases fw) (auto simp: BACKEND_ADAPTERS_def provider_key_def call_minimax_direct_def)
  next
    assume b: "ms_backend r = ''gemini_direct''"
    then show ?thesis using assms(1)
      by (cases fw) (auto simp: BACKEND_ADAPTERS_def provider_key_def call_gemini_direct_def Let_def split: if_splits)
  next
    assume b: "ms_backend r = ''zo_routed''"
    then show ?thesis using assms(1) by (cases fw) (auto simp: BACKEND_ADAPTERS_def provider_key_def call_zo_routed_def)
  next
    assume b: "ms_backend r = ''openai_compatible''"
    then show ?thesis using assms(1,2)
      by (cases fw) (auto simp: BACKEND_ADAPTERS_def provider_key_def call_openai_compatible_def split: if_splits)
  qed
qed

text \<open>The adapters of the four backends never raise on tools that a function declaration can be made of.\<close>

lemma adapters_answer:
  assumes "ms_backend r \<in> {''minimax_direct'', ''gemini_direct'', ''zo_routed'', ''openai_compatible''}"
    and "openai_tools_to_gemini (rq_tools rq) \<noteq> None"
  shows "fst (BACKEND_ADAPTERS c r rq fw) \<noteq> None"
proof -
  have b: "ms_backend r = ''minimax_direct'' \<or> ms_backend r = ''gemini_direct'' \<or> ms_backend r = ''zo_routed'' \<or> ms_backend r = ''openai_compatible''"
    using assms(1) by simp
  have "fst (call_gemini_direct c r rq w) \<noteq> None" for w
  proof -
    obtain gt where g: "(if is_gemma r then Some None else openai_tools_to_gemini (rq_tools rq)) = Some gt"
      using assms(2) by (cases "is_gemma r") auto
    show ?thesis unfolding call_gemini_direct_def Let_def g by (simp del: not_None_eq split: prod.split sum.split)
  qed
  then show ?thesis using b by (elim disjE) (simp_all add: BACKEND_ADAPTERS_def split_beta del: not_None_eq)
qed

lemma call_rung_answers: "fst (call r rq (ls_fs st, ls_ext st)) \<noteq> None \<Longrightarrow> fst (call_rung c call task rq r atts st) \<noteq> None"
  by (auto simp: call_rung_def Let_def split: prod.split option.split)

lemma ask_loop_answers:
  assumes "\<forall>r \<in> set rs. \<forall>fw. fst (call r rq fw) \<noteq> None" and "\<forall>n. backoff_secs (lc_env c) n \<noteq> None"
  shows "fst (ask_loop c call rt task rq hard rs made atts st) \<noteq> None"
  using assms(1)
proof (induction rs arbitrary: made atts st)
  case (Cons r rs)
  obtain why st1 where s: "skip_reason c rt task (rq_tools rq) r st = (why, st1)" by (metis surj_pair)
  show ?case
  proof (cases why)
    case None
    obtain pause where p: "(if made > 0 then backoff_secs (lc_env c) made else Some None) = Some pause"
      using assms(2) by (cases "made > 0") (auto simp: option.split_sel dest: spec)
    define st2 where "st2 = (case pause of None \<Rightarrow> st1 | Some s \<Rightarrow> st1\<lparr>ls_ext := lc_sleep c s (ls_ext st1)\<rparr>)"
    obtain out st3 where o: "call_rung c call task rq r atts st2 = (out, st3)" by (metis surj_pair)
    have "out \<noteq> None" using call_rung_answers [of call r rq st2 c task atts] Cons.prems o by simp
    then show ?thesis using s None p o Cons by (auto simp: st2_def [symmetric] Let_def split: sum.split)
  next
    case (Some wd)
    then show ?thesis using s Cons by (cases wd) simp
  qed
qed simp

text \<open>C22: \<open>ask\<close> always comes back: with numbers for its settings, rungs of the four backends and usable tools it returns a result
  for every task that has a start tier or a default one, whatever the providers do.\<close>

theorem ask_always_returns:
  assumes "\<forall>r \<in> set (rt_rungs rt). ms_backend r \<in> {''minimax_direct'', ''gemini_direct'', ''zo_routed'', ''openai_compatible''}"
    and "openai_tools_to_gemini (rq_tools rq) \<noteq> None" and "start_of rt task \<noteq> None"
    and "int_of_str (env_or (lc_env c) ''LADDER_FAILOVER_EXTRA'' ''6'') \<noteq> None"
    and "float_of_str (env_or (lc_env c) ''LADDER_BACKOFF_BASE'' ''0.4'') = Some b" and "0 \<le> b"
    and "float_of_str (env_or (lc_env c) ''LADDER_BACKOFF_MAX'' ''5'') = Some m" and "0 \<le> m"
  shows "fst (ask c (BACKEND_ADAPTERS c) rt task rq n st) \<noteq> None"
proof -
  have "\<forall>r \<in> set (ask_order (rt_rungs rt) i n). \<forall>fw. fst (BACKEND_ADAPTERS c r rq fw) \<noteq> None" for i
    using ask_order_sub [of "rt_rungs rt" i n] assms(1,2) adapters_answer by blast
  moreover have "\<not> b * 2 ^ k < 0" for k using assms(6) by (simp add: not_less)
  then have "\<forall>k. backoff_secs (lc_env c) k \<noteq> None"
    using assms(5,7,8) by (auto simp: backoff_secs_def Let_def min_def)
  ultimately have "fst (ask_loop c (BACKEND_ADAPTERS c) rt task rq hard (ask_order (rt_rungs rt) i n) 0 [] st) \<noteq> None" for hard i
    by (intro ask_loop_answers) auto
  then show ?thesis using assms(3,4) by (auto simp: ask_def split: option.split)
qed

subsection \<open>A call written as text\<close>

definition text_reply :: "string \<Rightarrow> reply" where
  "text_reply s = \<lparr>rp_status = 200, rp_headers = [], rp_raise = None,
     rp_json = Inl (JObj [(''choices'', JList [JObj [(''message'', JObj [(''content'', JStr s)])]])])\<rparr>"

lemma normalize_plain:
  assumes "CHR ''<'' \<notin> set s" and "strip s = s" and "\<not> startswith s FENCE" and "s \<noteq> []"
  shows "normalize s = s"
  using no_tag_kept [OF assms(1)] assms(2-4) by (simp add: normalize_def strip_code_fences_mm_def)

text \<open>C6: a call that a model writes as text drives the agent like a structured one: when a provider's message consists of a marked
  tool name with its JSON object, between a preamble and a rest without another marker, the adapter's answer carries exactly one
  structured call with this name and these arguments, and the surrounding text.\<close>

theorem text_call_reaches_agent:
  assumes "CHR ''['' \<notin> set pre" and "tool_ident name" and "plain_json (JObj d)"
    and "\<not> substr_in TC_MARKER (json_dumps (JObj d) @ post)"
    and "msg = pre @ TC_MARKER @ name @ json_dumps (JObj d) @ post"
    and "CHR ''<'' \<notin> set msg" and "strip msg = msg" and "\<not> startswith msg FENCE" and "\<not> code_only_rung r"
  shows "oai_answer uid fl ast r tools (text_reply msg)
    = (some_text (strip (pre @ post)), None, JList [tool_call (uid 0) (JStr name) (JStr (json_dumps (JObj d)))])"
proof -
  have mk: "substr_in TC_MARKER msg" unfolding assms(5) by (rule substr_in_skip [OF substr_in_start])
  have ne: "msg \<noteq> []" using mk by (cases msg) (auto simp: TC_MARKER_def)
  have p: "parse_text_tool_calls uid fl msg = (Some [tool_call (uid 0) (JStr name) (JStr (json_dumps (JObj d)))], strip (pre @ post))"
    unfolding assms(5) by (rule marked_call_salvaged [OF assms(1-4)])
  have n: "normalize msg = msg" by (rule normalize_plain [OF assms(6-8) ne])
  have "marked_step uid fl (JNull, msg) = (JList [tool_call (uid 0) (JStr name) (JStr (json_dumps (JObj d)))], strip (pre @ post))"
    using ne mk p by (simp add: marked_step_def)
  then have "oai_salvage uid fl ast tools (JNull, msg)
    = Inl (some_text (strip (pre @ post)), None, JList [tool_call (uid 0) (JStr name) (JStr (json_dumps (JObj d)))])"
    by (simp add: oai_salvage_def prose_step_def fenced_step_def then_try_def)
  then show ?thesis using ne n assms(7,9)
    by (simp add: oai_answer_def text_reply_def checked_def then_try_def get_or_def first_of_def stripped_def py_or_def answer_of_def)
qed

subsection \<open>Instances\<close>

definition limited_post :: "string \<Rightarrow> (string, string) dict \<Rightarrow> json \<Rightarrow> json \<Rightarrow> json \<Rightarrow> rat \<Rightarrow> (reply + string) \<times> rat" where
  "limited_post url headers payload timeout proxy w =
     (Inl \<lparr>rp_status = 429, rp_headers = [(''Retry-After'', ''3600'')], rp_raise = None, rp_json = Inl JNull\<rparr>, w + 1)"

definition test_ccfg :: "rat ccfg" where
  "test_ccfg = \<lparr>lc_env = (\<lambda>_. None), lc_quota = test_quota, lc_mono = (\<lambda>w. w), lc_wall = (\<lambda>w. w), lc_day = (\<lambda>w. ''d1''),
     lc_iso = (\<lambda>w. ''t''), lc_sleep = (\<lambda>s w. w + s), lc_log = (\<lambda>row w. w), cc_post = limited_post,
     cc_uid = (\<lambda>w i. ''ab''), cc_float = (\<lambda>s. JNull), cc_ast = (\<lambda>s. None)\<rparr>"

definition open_rung :: rung where
  "open_rung = (model_spec ''openai_compatible'' ''m1'' 1000 2 0 ''M1'')\<lparr>ms_base := ''http://x/'', ms_key_optional := True\<rparr>"

definition closed_rung :: rung where
  "closed_rung = (model_spec ''openai_compatible'' ''m2'' 1000 2 0 ''M2'')\<lparr>ms_base := ''http://x/'', ms_key_env := ''KEY2''\<rparr>"

definition open_routing :: routing where
  "open_routing = \<lparr>rt_rungs = [open_rung], rt_start = [(''default'', 0)], rt_paid = []\<rparr>"

theorem no_key_no_request_witness:
  "BACKEND_ADAPTERS test_ccfg closed_rung test_request (quota_fs, 1000) = (Some (failure ''KEY2 not set''), (quota_fs, 1000))"
proof -
  have h: "provider_key (lc_env test_ccfg) closed_rung = []" "ms_backend closed_rung = ''openai_compatible'' \<longrightarrow> \<not> ms_key_optional closed_rung"
    "ms_backend closed_rung \<in> {''minimax_direct'', ''gemini_direct'', ''zo_routed'', ''openai_compatible''}"
    by code_simp+
  obtain err where e: "BACKEND_ADAPTERS test_ccfg closed_rung test_request (quota_fs, 1000) = (Some (failure err), (quota_fs, 1000))"
    using no_key_no_request [OF h] by blast
  have "fst (BACKEND_ADAPTERS test_ccfg closed_rung test_request (quota_fs, 1000)) = Some (failure ''KEY2 not set'')" by code_simp
  then show ?thesis using e by simp
qed

theorem ask_always_returns_witness:
  "fst (ask test_ccfg (BACKEND_ADAPTERS test_ccfg) open_routing ''builder'' test_request 2 test_state) \<noteq> None"
proof -
  have h: "\<forall>r \<in> set (rt_rungs open_routing). ms_backend r \<in> {''minimax_direct'', ''gemini_direct'', ''zo_routed'', ''openai_compatible''}"
    "openai_tools_to_gemini (rq_tools test_request) \<noteq> None" "start_of open_routing ''builder'' \<noteq> None"
    "int_of_str (env_or (lc_env test_ccfg) ''LADDER_FAILOVER_EXTRA'' ''6'') \<noteq> None"
    "float_of_str (env_or (lc_env test_ccfg) ''LADDER_BACKOFF_BASE'' ''0.4'') = Some (2 / 5)" "0 \<le> (2 / 5 :: rat)"
    "float_of_str (env_or (lc_env test_ccfg) ''LADDER_BACKOFF_MAX'' ''5'') = Some 5" "0 \<le> (5 :: rat)"
    by code_simp+
  show ?thesis by (rule ask_always_returns [OF h])
qed

text \<open>The pause that a provider asks for with its 429 is recorded by the adapter and then overwritten by the default pause of the
  caller, which parks the rung again: whatever \<open>Retry-After\<close> says, the rung is available from the end of the default pause on.\<close>

theorem retry_after_is_overwritten:
  assumes "work_dir f d" and "qc_file (lc_quota c) = path_child d n" and "path_stem (qc_file (lc_quota c)) @ ''.tmp'' \<noteq> n"
    and "quota_entry (lc_quota c) (ms_model r) f = Some (x, e)"
    and "BACKEND_ADAPTERS c r rq (f, w) = (Some (None, Some ''429 rate-limited'', JNull),
           quota_record (lc_quota c) (ms_model r) hs 429 retry (lc_wall c w1) f, w1)"
    and "ls_fs st = f" and "ls_ext st = w"
  shows "\<exists>ok. \<forall>t. fst (quota_available (lc_quota c) (ms_model r) t
      (ls_fs (snd (call_rung c (BACKEND_ADAPTERS c) task rq r atts st))))
    = (lc_wall c w1 + qc_park (lc_quota c) \<le> t \<and> ok)"
proof -
  obtain x' e' where w: "work_dir (quota_record (lc_quota c) (ms_model r) hs 429 retry (lc_wall c w1) f) d"
    "quota_entry (lc_quota c) (ms_model r) (quota_record (lc_quota c) (ms_model r) hs 429 retry (lc_wall c w1) f) = Some (x', e')"
    using record_then_entry [OF assms(1-4)] by blast
  have "is_rate_limit (Some ''429 rate-limited'')" by code_simp
  then have "ls_fs (snd (call_rung c (BACKEND_ADAPTERS c) task rq r atts st))
    = quota_park (lc_quota c) (ms_model r) (Some (qc_park (lc_quota c))) (lc_wall c w1)
        (quota_record (lc_quota c) (ms_model r) hs 429 retry (lc_wall c w1) f)"
    using assms(5-7) by (simp add: call_rung_def log_call_def park_default)
  then show ?thesis using conjunct1 [OF park_effect [OF w(1) assms(2,3) w(2)]] by auto
qed

theorem text_call_reaches_agent_witness:
  "oai_answer (\<lambda>i. ''ab'') (\<lambda>s. JNull) (\<lambda>s. None) open_rung JNull
     (text_reply (''I propose: '' @ TC_MARKER @ ''zo__run'' @ json_dumps (JObj [(''task'', JStr ''a } b'')]) @ '' done''))
   = (some_text (strip (''I propose: '' @ '' done'')), None,
      JList [tool_call ''ab'' (JStr ''zo__run'') (JStr (json_dumps (JObj [(''task'', JStr ''a } b'')])))])"
proof -
  let ?d = "[(''task'', JStr ''a } b'')]"
  let ?msg = "''I propose: '' @ TC_MARKER @ ''zo__run'' @ json_dumps (JObj ?d) @ '' done''"
  have h: "CHR ''['' \<notin> set ''I propose: ''" "tool_ident ''zo__run''" "plain_json (JObj ?d)"
    "\<not> substr_in TC_MARKER (json_dumps (JObj ?d) @ '' done'')" by code_simp+
  have g: "CHR ''<'' \<notin> set ?msg" "strip ?msg = ?msg" "\<not> startswith ?msg FENCE" "\<not> code_only_rung open_rung" by code_simp+
  show ?thesis by (rule text_call_reaches_agent [OF h HOL.refl g])
qed

end
