(* ===== verification/AnchorRefill.thy ===== *)
theory AnchorRefill
  imports Progress AutoStage
begin

text \<open>
  \<open>zo_sentinel/anchor_refill.py\<close>: when the specification names few modules that are not
  on disk, names of modules are mined from the design documents and appended, as candidate
  lines, to a file of their own. The clock and the environment are arguments; a fault that the
  outer handler catches ends the pass with the reason \<open>RFault\<close>.
\<close>

subsection \<open>Constants and names\<close>

definition SENTINEL_NAME :: string where
  "SENTINEL_NAME = ''.anchor_refill_on''"

definition ENV_FLAG :: string where
  "ENV_FLAG = ''ZO_ANCHOR_REFILL''"

definition AUTO_ANCHOR_NAME :: string where
  "AUTO_ANCHOR_NAME = ''PRODUCT_SPEC_AUTO_ANCHOR.md''"

text \<open>The two numbers read at import time; \<open>None\<close>: the import raises.\<close>

definition import_default :: "environ \<Rightarrow> string \<Rightarrow> int option" where
  "import_default env k = int_of_str (case env k of None \<Rightarrow> ''5'' | Some s \<Rightarrow> s)"

definition CANDIDATE_FLAGS :: "string list" where
  "CANDIDATE_FLAGS = [''not yet'', ''directive candidate'', ''candidate:'', ''candidates:'', ''propose directives'', ''dormant'']"

definition EXCLUDE_PREFIXES :: "string list" where
  "EXCLUDE_PREFIXES = [''test_'', ''conftest'']"

definition stem_char :: "char \<Rightarrow> bool" where
  "stem_char c = (is_lower_ascii c \<or> is_digit c \<or> c = CHR ''_'')"

text \<open>\<open>p{0,n}\<close>, the longest run first.\<close>

fun rupto :: "(char \<Rightarrow> bool) \<Rightarrow> nat \<Rightarrow> re" where
  "rupto p 0 = REps"
| "rupto p (Suc n) = ropt (RSeq (RChr p) (rupto p n))"

definition NAME_RX :: "string list \<Rightarrow> re" where
  "NAME_RX exts = rseqs [RBound, RGroup 1 (rseqs [RChr is_lower_ascii, RChr stem_char, RChr stem_char,
     rupto stem_char 38, rlit ''.'', ralts (map rlit exts)]), RBound]"

definition FILENAME_RX :: re where
  "FILENAME_RX = NAME_RX [''py'', ''html'']"

definition SPEC_RX :: re where
  "SPEC_RX = NAME_RX [''py'', ''html'', ''md'']"

definition group1 :: "rmatch_obj \<Rightarrow> string" where
  "group1 m = (case mgroup m 1 of None \<Rightarrow> [] | Some g \<Rightarrow> g)"

subsection \<open>The gate\<close>

definition enabled :: "environ \<Rightarrow> jobj option \<Rightarrow> path \<Rightarrow> fs \<Rightarrow> bool" where
  "enabled env toml droot f =
     (case flag env toml (Some droot) f ''architect.anchor_refill'' of
        Some b \<Rightarrow> b
      | None \<Rightarrow>
        (if lower (strip (case env ENV_FLAG of None \<Rightarrow> [] | Some s \<Rightarrow> s)) \<notin> set off_values then True
         else let sf = path_child droot SENTINEL_NAME in
           is_file f sf \<and> (case read_text f sf of None \<Rightarrow> False
             | Some t \<Rightarrow> lower (strip (content_text t)) \<notin> set off_values)))"

subsection \<open>What is known already\<close>

definition flagged :: "string \<Rightarrow> bool" where
  "flagged l = (let low = lower l in list_ex (\<lambda>fl. substr_in fl low) CANDIDATE_FLAGS)"

definition add_new :: "'a \<Rightarrow> 'a list \<Rightarrow> 'a list" where
  "add_new x out = (if x \<in> set out then out else out @ [x])"

text \<open>The lines from each position on: \<open>lines[i:i + 4]\<close> is the start of the tail at \<open>i\<close>.\<close>

fun spec_lines :: "string list \<Rightarrow> string list \<Rightarrow> string list" where
  "spec_lines [] out = out"
| "spec_lines (l # ls) out =
     spec_lines ls
       (if flagged l
        then fold add_new (map group1 (re_finditer SPEC_RX (join_with [newline] (take 4 (l # ls))))) out
        else out)"

definition spec_candidate_files :: "string \<Rightarrow> string list" where
  "spec_candidate_files spec_text = spec_lines (splitlines spec_text) []"

definition disk_names :: "fs \<Rightarrow> path \<Rightarrow> string list" where
  "disk_names f d = map path_name (iterdir_files f d)"

definition failed_suffix :: string where
  "failed_suffix = ''.failed.json''"

definition terminal_stems :: "fs \<Rightarrow> path \<Rightarrow> path option \<Rightarrow> string list" where
  "terminal_stems f droot quarantine =
     (let retired = path_child droot ''retired'' in
      (if is_dir f retired
       then map (\<lambda>p. lower (path_stem p))
         (filter (\<lambda>p. is_below retired p \<and> endswith (path_name p) ''.json'') (keys (files f) @ dirs f))
       else [])
      @ (case quarantine of None \<Rightarrow> []
         | Some q \<Rightarrow> if is_dir f q
             then map (\<lambda>p. lower (take (length (path_name p) - length failed_suffix) (path_name p)))
               (filter (\<lambda>p. path_parts p \<noteq> [] \<and> path_parent p = q \<and> endswith (path_name p) failed_suffix)
                 (keys (files f) @ dirs f))
             else []))"

definition excluded_by_terminal :: "string \<Rightarrow> string list \<Rightarrow> bool" where
  "excluded_by_terminal name stems =
     (let stem = lower (name_stem name) in
      list_ex (\<lambda>t. t \<noteq> [] \<and> (substr_in stem t \<or> substr_in t stem)) stems)"

subsection \<open>Mining\<close>

definition blank_line :: "string \<Rightarrow> bool" where
  "blank_line l = (strip l = [])"

fun para_start :: "string list \<Rightarrow> nat \<Rightarrow> nat" where
  "para_start ls 0 = 0"
| "para_start ls (Suc k) = (if blank_line (ls ! k) then Suc k else para_start ls k)"

function para_end :: "string list \<Rightarrow> nat \<Rightarrow> nat" where
  "para_end ls e = (if e + 1 < length ls \<and> \<not> blank_line (ls ! (e + 1)) then para_end ls (e + 1) else e)"
  by auto
termination by (relation "measure (\<lambda>(ls, e). length ls - e)") auto

definition paragraph_around :: "string list \<Rightarrow> nat \<Rightarrow> nat \<Rightarrow> string" where
  "paragraph_around ls idx cap =
     (let start = para_start ls idx; stop = para_end ls idx;
          txt = join_with '' '' (map (\<lambda>l. strip (lstrip_chars ''-*# '' (strip l)))
                  (filter (\<lambda>l. \<not> blank_line l) (take (stop + 1 - start) (drop start ls))))
      in take cap (strip (re_sub_runs is_space '' '' txt)))"

record mined =
  m_file :: string
  m_desc :: string
  m_source :: string
  m_line :: nat

definition refused_name :: "string list \<Rightarrow> string list \<Rightarrow> string list \<Rightarrow> string \<Rightarrow> bool" where
  "refused_name seen exclude stems name =
     (name \<in> set seen \<or> name \<in> set exclude \<or> list_ex (startswith name) EXCLUDE_PREFIXES
      \<or> excluded_by_terminal name stems)"

text \<open>The accumulator is \<open>(seen, found)\<close>.\<close>

definition mine_name :: "string list \<Rightarrow> string list \<Rightarrow> string list \<Rightarrow> nat \<Rightarrow> string \<Rightarrow> string
    \<Rightarrow> string list \<times> mined list \<Rightarrow> string list \<times> mined list" where
  "mine_name exclude stems ls i src name st =
     (if refused_name (fst st) exclude stems name then st
      else (fst st @ [name],
            snd st @ [\<lparr>m_file = name, m_desc = paragraph_around ls i 420, m_source = src, m_line = i + 1\<rparr>]))"

definition mine_text :: "string list \<Rightarrow> string list \<Rightarrow> string \<Rightarrow> string
    \<Rightarrow> string list \<times> mined list \<Rightarrow> string list \<times> mined list" where
  "mine_text exclude stems src txt st =
     (let ls = splitlines txt in
      fold (\<lambda>i. fold (mine_name exclude stems ls i src) (map group1 (re_finditer FILENAME_RX (ls ! i))))
        [0..<length ls] st)"

definition mine_candidates :: "fs \<Rightarrow> path list \<Rightarrow> string list \<Rightarrow> string list \<Rightarrow> mined list" where
  "mine_candidates f sources exclude stems =
     snd (fold (\<lambda>src st. case read_text f src of None \<Rightarrow> st
              | Some c \<Rightarrow> mine_text exclude stems (path_name src) (content_text c) st)
            sources ([], []))"

subsection \<open>One pass\<close>

datatype refill_reason = RNone | RSpecUnreadable | RSufficient | RNothingNew | RRefilled | RFault

record refill_stats =
  st_missing :: "nat option"
  st_mined :: nat
  st_appended :: nat
  st_reason :: refill_reason
  st_files :: "string list"

text \<open>
  An explicit bound first, then the policy layer, then the default of the import; a fault at
  the first bound leaves the second one to its default too.
\<close>

definition refill_bounds :: "environ \<Rightarrow> jobj option \<Rightarrow> fs \<Rightarrow> int \<Rightarrow> int \<Rightarrow> int option \<Rightarrow> int option \<Rightarrow> int \<times> int" where
  "refill_bounds env toml f dth dmx threshold max_new =
     (let asked = (\<lambda>k. Option.bind (pvalue env toml None f k) py_int);
          t = (case threshold of Some n \<Rightarrow> Some n | None \<Rightarrow> asked ''architect.refill_threshold'');
          m = (case max_new of Some n \<Rightarrow> Some n
               | None \<Rightarrow> if t = None then None else asked ''architect.refill_max_new'')
      in (case t of None \<Rightarrow> dth | Some n \<Rightarrow> n, case m of None \<Rightarrow> dmx | Some n \<Rightarrow> n))"

text \<open>\<open>xs[:n]\<close>; a negative bound counts from the end.\<close>

definition slice_to :: "int \<Rightarrow> 'a list \<Rightarrow> 'a list" where
  "slice_to n xs = (if 0 \<le> n then take (nat n) xs else take (length xs - nat (- n)) xs)"

definition quarantine_of :: "environ \<Rightarrow> path option \<Rightarrow> path" where
  "quarantine_of env q = (case q of Some p \<Rightarrow> p
     | None \<Rightarrow> path_of (case env ''ZO_DURABLE_QUARANTINE_DIR'' of
         None \<Rightarrow> ''/home/workspace/zo_sentinel_state/quarantine'' | Some s \<Rightarrow> s))"

definition default_sources :: "fs \<Rightarrow> path \<Rightarrow> path list" where
  "default_sources f home =
     sort (filter (\<lambda>p. startswith (path_name p) ''DESIGN_'' \<and> endswith (path_name p) ''.md'')
        (iterdir_files f (path_child home ''docs'')))
     @ filter (is_file f) (map (path_child home) [''SENTINEL_ROADMAP_v2.md'', ''SENTINEL_ROADMAP_v2_addendum.md''])"

definition candidate_line :: "mined \<Rightarrow> string" where
  "candidate_line c = ''- directive candidate: '' @ [CHR 0x60] @ m_file c @ [CHR 0x60] @ '' -- '' @ m_desc c
     @ '' [auto-anchor: '' @ m_source c @ ''#L'' @ nat_str (m_line c) @ '']''"

definition mined_note :: "nat \<Rightarrow> int \<Rightarrow> string" where
  "mined_note missing threshold = ''*Mined deterministically from the Graphify KL (docs/DESIGN_*.md, roadmap) by zo_sentinel/anchor_refill.py because the live anchor ran low (missing='' @ nat_str missing @ '' < threshold='' @ int_str threshold @ ''). Provenance per line. Delete this file to revert all auto candidates.*''"

definition refill_block :: "string \<Rightarrow> nat \<Rightarrow> int \<Rightarrow> mined list \<Rightarrow> string list" where
  "refill_block ts missing threshold batch =
     [[], ''## Auto-anchor refill '' @ ts @ '' (directive candidates, NOT YET BUILT)'', [],
      mined_note missing threshold, []] @ map candidate_line batch @ [[]]"

definition append_file :: "int \<Rightarrow> path \<Rightarrow> string \<Rightarrow> fs \<Rightarrow> fs option" where
  "append_file now p s f =
     write_text now p (Text ((case fs_get f p of None \<Rightarrow> [] | Some x \<Rightarrow> content_text (body x)) @ s)) f"

definition auto_path :: "path \<Rightarrow> path" where
  "auto_path home = path_child home AUTO_ANCHOR_NAME"

text \<open>The specification a reader sees; \<open>None\<close>: reading the machine's own file raised.\<close>

definition combined_spec :: "fs \<Rightarrow> path \<Rightarrow> string \<Rightarrow> string option" where
  "combined_spec f home spec_text =
     (if is_file f (auto_path home)
      then map_option (\<lambda>c. spec_text @ [newline] @ content_text c) (read_text f (auto_path home))
      else Some (spec_text @ [newline]))"

definition run_refill :: "environ \<Rightarrow> jobj option \<Rightarrow> int \<Rightarrow> int \<Rightarrow> path \<Rightarrow> int option \<Rightarrow> int option \<Rightarrow> path list option
    \<Rightarrow> path option \<Rightarrow> string \<Rightarrow> int \<Rightarrow> fs \<Rightarrow> refill_stats \<times> fs" where
  "run_refill env toml dth dmx home threshold0 max_new0 sources quarantine ts now f =
     (let stats = \<lparr>st_missing = None, st_mined = 0, st_appended = 0, st_reason = RNone, st_files = []\<rparr>;
          (threshold, max_new) = refill_bounds env toml f dth dmx threshold0 max_new0
      in case read_text f (path_child home ''PRODUCT_SPEC.md'') of
           None \<Rightarrow> (stats\<lparr>st_reason := RSpecUnreadable\<rparr>, f)
         | Some spec \<Rightarrow>
       (case combined_spec f home (content_text spec) of
           None \<Rightarrow> (stats\<lparr>st_reason := RFault\<rparr>, f)
         | Some combined \<Rightarrow>
       (let candidates = spec_candidate_files combined;
            disk = disk_names f home;
            missing = filter (\<lambda>c. c \<notin> set disk) candidates;
            stats = stats\<lparr>st_missing := Some (length missing)\<rparr>
        in if threshold \<le> int (length missing) then (stats\<lparr>st_reason := RSufficient\<rparr>, f)
           else
       (let mined = mine_candidates f (case sources of Some s \<Rightarrow> s | None \<Rightarrow> default_sources f home)
                      (candidates @ disk)
                      (terminal_stems f (path_child home ''directives'') (Some (quarantine_of env quarantine)));
            stats = stats\<lparr>st_mined := length mined\<rparr>
        in if mined = [] then (stats\<lparr>st_reason := RNothingNew\<rparr>, f)
           else
       (let batch = slice_to max_new mined;
            block = refill_block ts (length missing) threshold batch
        in case append_file now (auto_path home) (join_with [newline] block) f of
             None \<Rightarrow> (stats\<lparr>st_reason := RFault\<rparr>, f)
           | Some g \<Rightarrow> (stats\<lparr>st_appended := length batch, st_reason := RRefilled, st_files := map m_file batch\<rparr>, g))))))"


subsection \<open>What the pattern of a name matches\<close>

definition build_name :: "string list \<Rightarrow> string \<Rightarrow> bool" where
  "build_name exts w \<longleftrightarrow> (\<exists>a b c v e. w = a # b # c # v @ CHR ''.'' # e \<and> is_lower_ascii a \<and> stem_char b \<and> stem_char c
     \<and> list_all stem_char v \<and> length v \<le> 38 \<and> e \<in> set exts)"

definition plain_exts :: "string list \<Rightarrow> bool" where
  "plain_exts exts \<longleftrightarrow> (\<forall>e \<in> set exts. e \<noteq> [] \<and> list_all is_lower_ascii e \<and>
     (\<forall>d \<in> set exts. \<forall>x. startswith (e @ x) d \<longrightarrow> d = e))"

lemma char_classes:
  "is_lower_ascii c \<Longrightarrow> stem_char c" "stem_char c \<Longrightarrow> word_char c"
  unfolding stem_char_def word_char_def is_alpha_ascii_def by (auto simp: Let_def)

lemma dot_classes: "\<not> stem_char (CHR ''.'')" "\<not> word_char (CHR ''.'')"
  by code_simp+

lemma rupto_longest:
  assumes "list_all p w" and "\<not> p c" and "length w \<le> n"
  shows "\<exists>ts. rmatch (rupto p n) (caps, bef, w @ c # s) = (caps, rev w @ bef, c # s) # ts"
  using assms
proof (induction w arbitrary: bef n)
  case Nil
  then show ?case by (cases n) (auto simp: ropt_def m_rest_def)
next
  case (Cons x w)
  then obtain k where n: "n = Suc k" "length w \<le> k" by (cases n) auto
  have "\<exists>ts. rmatch (rupto p k) (caps, x # bef, w @ c # s) = (caps, rev w @ x # bef, c # s) # ts"
    by (rule Cons.IH) (use Cons.prems n in auto)
  then show ?case using Cons.prems by (auto simp: n ropt_def m_rest_def m_caps_def m_before_def)
qed

lemma rupto_ways:
  "t \<in> set (rmatch (rupto p n) (caps, bef, s)) \<Longrightarrow>
     \<exists>w r. s = w @ r \<and> t = (caps, rev w @ bef, r) \<and> list_all p w \<and> length w \<le> n"
proof (induction n arbitrary: bef s)
  case (Suc n)
  show ?case
  proof (cases "t = (caps, bef, s)")
    case False
    then obtain c u where s: "s = c # u" "p c" and t: "t \<in> set (rmatch (rupto p n) (caps, c # bef, u))"
      using Suc.prems by (cases s) (auto simp: ropt_def m_rest_def m_caps_def m_before_def split: if_splits)
    from Suc.IH [OF t] obtain w r where "u = w @ r \<and> t = (caps, rev w @ c # bef, r) \<and> list_all p w \<and> length w \<le> n" by blast
    then show ?thesis using s by (intro exI [of _ "c # w"] exI [of _ r]) auto
  qed (intro exI [of _ "[]"] exI [of _ s], simp)
qed simp

lemma ralts_rlit:
  "exts \<noteq> [] \<Longrightarrow> rmatch (ralts (map rlit exts)) (caps, bef, u) =
     map (\<lambda>e. (caps, rev e @ bef, drop (length e) u)) (filter (startswith u) exts)"
  by (induction exts rule: induct_list012) (simp_all add: rlit_match)

definition stem_rest :: "string list \<Rightarrow> re" where
  "stem_rest exts = RSeq (rupto stem_char 38) (RSeq (rlit ''.'') (ralts (map rlit exts)))"

lemma stem_rest_first:
  assumes "list_all stem_char v" and "length v \<le> 38" and "plain_exts exts" and "e \<in> set exts" and "distinct exts"
  shows "\<exists>ts. rmatch (stem_rest exts) (caps, bef, v @ CHR ''.'' # e @ s) = (caps, rev e @ CHR ''.'' # rev v @ bef, s) # ts"
proof -
  from rupto_longest [OF assms(1) dot_classes(1) assms(2)] obtain ts where
    ts: "rmatch (rupto stem_char 38) (caps, bef, v @ CHR ''.'' # e @ s) = (caps, rev v @ bef, CHR ''.'' # e @ s) # ts" by blast
  have "filter (startswith (e @ s)) exts = filter (\<lambda>d. d = e) exts"
    using assms(3,4) unfolding plain_exts_def by (intro filter_cong) auto
  also have "\<dots> = [e]" using assms(4,5) by (induction exts) (auto simp: filter_empty_conv)
  finally have "filter (startswith (e @ s)) exts = [e]" .
  moreover have "exts \<noteq> []" using assms(4) by auto
  ultimately show ?thesis by (simp add: stem_rest_def ts rlit_match ralts_rlit startswith_def)
qed

lemma stem_rest_ways:
  assumes "t \<in> set (rmatch (stem_rest exts) (caps, bef, s))" and "exts \<noteq> []"
  shows "\<exists>v e r. s = v @ CHR ''.'' # e @ r \<and> t = (caps, rev e @ CHR ''.'' # rev v @ bef, r)
    \<and> list_all stem_char v \<and> length v \<le> 38 \<and> e \<in> set exts"
proof -
  from assms(1) obtain t1 where t1: "t1 \<in> set (rmatch (rupto stem_char 38) (caps, bef, s))"
    and t: "t \<in> set (rmatch (RSeq (rlit ''.'') (ralts (map rlit exts))) t1)" by (auto simp: stem_rest_def)
  from rupto_ways [OF t1] obtain v r1 where v: "s = v @ r1" "t1 = (caps, rev v @ bef, r1)" "list_all stem_char v" "length v \<le> 38"
    by blast
  from t obtain e where r1: "startswith r1 ''.''" and e: "e \<in> set exts" "startswith (drop 1 r1) e"
    and t': "t = (caps, rev e @ CHR ''.'' # rev v @ bef, drop (length e) (drop 1 r1))"
    using assms(2) by (auto simp: v(2) rlit_match ralts_rlit split: if_splits)
  from r1 e(2) obtain r where "r1 = CHR ''.'' # e @ r" by (auto simp: startswith_iff)
  with v e t' show ?thesis by auto
qed

lemma chr_seq_ways:
  "t \<in> set (rmatch (RSeq (RChr p) q) (caps, bef, s)) \<longleftrightarrow> (\<exists>c u. s = c # u \<and> p c \<and> t \<in> set (rmatch q (caps, c # bef, u)))"
  by (cases s) (simp_all add: m_rest_def m_caps_def m_before_def)

lemma chr_seq_run:
  "p c \<Longrightarrow> rmatch (RSeq (RChr p) q) (caps, bef, c # s) = rmatch q (caps, c # bef, s)"
  by (simp add: m_rest_def m_caps_def m_before_def)

definition name_body :: "string list \<Rightarrow> re" where
  "name_body exts = RSeq (RChr is_lower_ascii) (RSeq (RChr stem_char) (RSeq (RChr stem_char) (stem_rest exts)))"

lemma NAME_RX_body: "NAME_RX exts = RSeq RBound (RSeq (RGroup 1 (name_body exts)) RBound)"
  by (simp add: NAME_RX_def name_body_def stem_rest_def)

lemma name_first:
  assumes "build_name exts w" and "plain_exts exts" and "distinct exts" and "\<not> word_start bef" and "\<not> word_start s"
  shows "\<exists>ts. rmatch (NAME_RX exts) ([], bef, w @ s) = ([(1, w)], rev w @ bef, s) # ts"
proof -
  from assms(1) obtain a b c v e where w: "w = a # b # c # v @ CHR ''.'' # e"
    and chars: "is_lower_ascii a" "stem_char b" "stem_char c" "list_all stem_char v" "length v \<le> 38" and e: "e \<in> set exts"
    by (auto simp: build_name_def)
  from e assms(2) have el: "e \<noteq> []" "list_all is_lower_ascii e" by (auto simp: plain_exts_def)
  have "word_char (last e)" using el char_classes by (auto simp: list_all_iff)
  then have ends: "word_start (rev w @ bef)" using el(1) by (cases e rule: rev_cases) (simp_all add: w)
  have starts: "word_start (w @ s)" using chars(1) char_classes by (simp add: w)
  from stem_rest_first [OF chars(4,5) assms(2) e assms(3)] obtain ts where
    "rmatch (stem_rest exts) ([], c # b # a # bef, v @ CHR ''.'' # e @ s) = ([], rev e @ CHR ''.'' # rev v @ c # b # a # bef, s) # ts" by blast
  then have "rmatch (name_body exts) ([], bef, w @ s) = ([], rev w @ bef, s) # ts"
    using chars unfolding name_body_def w by (simp add: chr_seq_run del: rmatch.simps)
  then show ?thesis using starts ends assms(4,5)
    by (simp add: NAME_RX_body m_rest_def m_caps_def m_before_def)
qed

lemma name_ways:
  assumes "t \<in> set (rmatch (NAME_RX exts) ([], bef, s))" and "exts \<noteq> []"
  shows "\<exists>w r. s = w @ r \<and> t = ([(1, w)], rev w @ bef, r) \<and> build_name exts w"
proof -
  from assms(1) obtain u where u: "u \<in> set (rmatch (name_body exts) ([], bef, s))"
    and t: "t = ((1, rev (take (length (m_before u) - length bef) (m_before u))) # m_caps u, m_before u, m_rest u)"
    by (auto simp: NAME_RX_body m_before_def m_caps_def m_rest_def split: if_splits)
  from u obtain a b c s' where s: "s = a # b # c # s'" "is_lower_ascii a" "stem_char b" "stem_char c"
    and u': "u \<in> set (rmatch (stem_rest exts) ([], c # b # a # bef, s'))"
    unfolding name_body_def chr_seq_ways by blast
  from stem_rest_ways [OF u' assms(2)] obtain v e r where v: "s' = v @ CHR ''.'' # e @ r"
    "u = ([], rev e @ CHR ''.'' # rev v @ c # b # a # bef, r)" "list_all stem_char v" "length v \<le> 38" "e \<in> set exts" by blast
  define w where "w = a # b # c # v @ CHR ''.'' # e"
  have "s = w @ r" using s(1) v(1) by (simp add: w_def)
  moreover from v(2) have "u = ([], rev w @ bef, r)" by (simp add: w_def)
  then have "t = ([(1, w)], rev w @ bef, r)" by (simp add: t m_before_def m_caps_def m_rest_def)
  moreover have "build_name exts w" using s(2-4) v(3-5) unfolding build_name_def w_def by blast
  ultimately show ?thesis by blast
qed

subsection \<open>Where a name is found\<close>

text \<open>No name can reach over this boundary.\<close>

definition fresh_start :: "string \<Rightarrow> bool" where
  "fresh_start bef \<longleftrightarrow> (case bef of [] \<Rightarrow> True | c # _ \<Rightarrow> \<not> word_char c \<and> c \<noteq> CHR ''.'')"

lemma fresh_no_word: "fresh_start bef \<Longrightarrow> \<not> word_start bef"
  by (cases bef) (auto simp: fresh_start_def)

lemma build_name_chars:
  assumes "build_name exts w" and "plain_exts exts" and "x \<in> set w"
  shows "word_char x \<or> x = CHR ''.''"
  using assms char_classes unfolding build_name_def plain_exts_def by (auto simp: list_all_iff)

lemma match_name:
  assumes "match_at (NAME_RX exts) bef s = Some m" and "exts \<noteq> []"
  shows "\<exists>w. build_name exts w \<and> mgroup m 1 = Some w \<and> mo_text m = w \<and> s = w @ mo_after m \<and> mo_before m = rev bef"
proof -
  from assms(1) obtain t ts where t: "rmatch (NAME_RX exts) ([], bef, s) = t # ts" "m = mk_match bef t"
    by (auto simp: match_at_def split: list.splits)
  from name_ways [of t exts bef s] t(1) assms(2) obtain w r where w: "s = w @ r" "t = ([(1, w)], rev w @ bef, r)" "build_name exts w"
    by auto
  then show ?thesis by (auto simp: t(2) mk_match_def mgroup_def m_before_def m_caps_def m_rest_def)
qed

lemma name_matches_here:
  assumes "build_name exts w" and "plain_exts exts" and "distinct exts" and "fresh_start bef" and "\<not> word_start s"
  shows "\<exists>m. match_at (NAME_RX exts) bef (w @ s) = Some m \<and> mgroup m 1 = Some w"
  using name_first [OF assms(1-3) fresh_no_word [OF assms(4)] assms(5)]
  by (auto simp: match_at_def mk_match_def mgroup_def m_caps_def)

lemma name_stays_before:
  assumes "build_name exts u" and "plain_exts exts" and "u @ r = c # a @ y" and "fresh_start (rev a @ c # bef)"
  shows "\<exists>a2. a2 \<noteq> [] \<and> c # a = u @ a2 \<and> r = a2 @ y"
proof -
  have l: "\<not> word_char (last (c # a)) \<and> last (c # a) \<noteq> CHR ''.''"
    using assms(4) by (cases a rule: rev_cases) (auto simp: fresh_start_def)
  from assms(3) obtain z where "(c # a = u @ z \<and> r = z @ y) \<or> (u = (c # a) @ z \<and> z @ r = y)"
    by (metis append_Cons append_eq_append_conv2)
  moreover have "last (c # a) \<notin> set u" using build_name_chars [OF assms(1,2)] l by blast
  ultimately show ?thesis
    by (metis append.right_neutral append_is_Nil_conv in_set_conv_decomp last_in_set list.distinct(1) Un_iff set_append)
qed

lemma search_name:
  assumes "build_name exts w" and "plain_exts exts" and "distinct exts" and "fresh_start (rev a @ bef)" and "\<not> word_start s"
  shows "\<exists>m. search_from (NAME_RX exts) bef (a @ w @ s) = Some m \<and>
     (mgroup m 1 = Some w \<or> (mo_text m \<noteq> [] \<and> (\<exists>a1 a2. a = a1 @ mo_text m @ a2 \<and> a2 \<noteq> [] \<and>
        mo_before m = rev bef @ a1 \<and> mo_after m = a2 @ w @ s)))"
  using assms(4)
proof (induction a arbitrary: bef)
  case Nil
  from name_matches_here [OF assms(1-3) _ assms(5), of bef] Nil obtain m where
    "match_at (NAME_RX exts) bef (w @ s) = Some m" "mgroup m 1 = Some w" by auto
  then show ?case by (cases "w @ s") auto
next
  case (Cons c a)
  have ne: "exts \<noteq> []" using assms(1) by (auto simp: build_name_def)
  show ?case
  proof (cases "match_at (NAME_RX exts) bef (c # a @ w @ s)")
    case None
    with Cons.IH [of "c # bef"] Cons.prems show ?thesis by fastforce
  next
    case (Some m)
    from match_name [OF Some ne] obtain u where u: "build_name exts u" "mo_text m = u"
      "c # a @ w @ s = u @ mo_after m" "mo_before m = rev bef" by blast
    from name_stays_before [OF u(1) assms(2) u(3) [symmetric]] Cons.prems obtain a2 where
      a2: "a2 \<noteq> []" "c # a = u @ a2" "mo_after m = a2 @ w @ s" by auto
    have "search_from (NAME_RX exts) bef ((c # a) @ w @ s) = Some m" using Some by simp
    moreover have "mo_text m \<noteq> []" using u(1,2) by (auto simp: build_name_def)
    ultimately show ?thesis
      by (intro exI [of _ m] conjI disjI2 exI [of _ "[]"] exI [of _ a2]) (use a2 u in simp_all)
  qed
qed

lemma finditer_name:
  assumes "build_name exts w" and "plain_exts exts" and "distinct exts" and "\<not> word_start s"
    and "fresh_start (rev a @ bef)" and "length a < n"
  shows "w \<in> set (map group1 (finditer_from n (NAME_RX exts) bef (a @ w @ s)))"
  using assms(5,6)
proof (induction n arbitrary: a bef)
  case (Suc n)
  from search_name [OF assms(1-3) Suc.prems(1) assms(4)] obtain m where
    m: "search_from (NAME_RX exts) bef (a @ w @ s) = Some m" and
    or: "mgroup m 1 = Some w \<or> (mo_text m \<noteq> [] \<and> (\<exists>a1 a2. a = a1 @ mo_text m @ a2 \<and> a2 \<noteq> [] \<and>
        mo_before m = rev bef @ a1 \<and> mo_after m = a2 @ w @ s))" by blast
  from or show ?case
  proof
    assume "mgroup m 1 = Some w"
    then show ?thesis using m by (simp add: group1_def)
  next
    assume "mo_text m \<noteq> [] \<and> (\<exists>a1 a2. a = a1 @ mo_text m @ a2 \<and> a2 \<noteq> [] \<and>
        mo_before m = rev bef @ a1 \<and> mo_after m = a2 @ w @ s)"
    then obtain a1 a2 where st: "mo_text m \<noteq> []" "a = a1 @ mo_text m @ a2" "a2 \<noteq> []"
      "mo_before m = rev bef @ a1" "mo_after m = a2 @ w @ s" by blast
    have "fresh_start (rev a2 @ rev (mo_text m) @ rev (mo_before m))"
      using Suc.prems(1) by (simp add: st(4)) (simp add: st(2))
    moreover have "length a2 < n" using Suc.prems(2) st(1) by (subst (asm) st(2)) (cases "mo_text m"; simp)
    ultimately have "w \<in> set (map group1 (finditer_from n (NAME_RX exts) (rev (mo_text m) @ rev (mo_before m)) (a2 @ w @ s)))"
      by (rule Suc.IH)
    then show ?thesis using st(1) by (simp add: m st(5))
  qed
qed simp

lemma finditer_names:
  "exts \<noteq> [] \<Longrightarrow> w \<in> set (map group1 (finditer_from n (NAME_RX exts) bef s)) \<Longrightarrow> build_name exts w"
proof (induction n arbitrary: bef s)
  case (Suc n)
  have found: "search_from (NAME_RX exts) b t = Some m \<Longrightarrow> build_name exts (group1 m)" for b t m
  proof (induction "NAME_RX exts" b t rule: search_from.induct)
    case (1 b)
    then show ?case using match_name [of exts b "[]" m] Suc.prems(1) by (auto simp: group1_def)
  next
    case (2 b c t)
    then show ?case using match_name [of exts b "c # t" m] Suc.prems(1) by (auto simp: group1_def split: option.splits)
  qed
  obtain m where m: "search_from (NAME_RX exts) bef s = Some m"
    using Suc.prems(2) by (cases "search_from (NAME_RX exts) bef s") simp_all
  then show ?case using Suc.prems(2) Suc.IH [OF Suc.prems(1)] found [OF m]
    by (auto split: if_splits list.splits simp del: search_from.simps)
qed simp

lemma extensions:
  "plain_exts [''py'', ''html'']" "plain_exts [''py'', ''html'', ''md'']"
  unfolding plain_exts_def by (auto simp: startswith_def is_lower_ascii_def chr_code_def)

lemma spec_finds:
  assumes "build_name [''py'', ''html'', ''md''] w" and "fresh_start (rev a)" and "\<not> word_start s"
  shows "w \<in> set (map group1 (re_finditer SPEC_RX (a @ w @ s)))"
  unfolding re_finditer_def SPEC_RX_def
  by (rule finditer_name) (use assms extensions in \<open>simp_all add: fresh_start_def\<close>)

lemma mined_is_name: "w \<in> set (map group1 (re_finditer FILENAME_RX s)) \<Longrightarrow> build_name [''py'', ''html''] w"
  unfolding re_finditer_def FILENAME_RX_def by (rule finditer_names [rotated]) (assumption, simp)

subsection \<open>Candidate lines and the gaps they name\<close>

lemma set_fold_add_new: "set (fold add_new xs out) = set xs \<union> set out"
  by (induction xs arbitrary: out) (auto simp: add_new_def)

lemma distinct_fold_add_new: "distinct out \<Longrightarrow> distinct (fold add_new xs out)"
  by (induction xs arbitrary: out) (auto simp: add_new_def)

lemma spec_lines_keeps: "set out \<subseteq> set (spec_lines ls out)"
proof (induction ls arbitrary: out)
  case (Cons l ls)
  have "set out \<subseteq> set (if flagged l
        then fold add_new (map group1 (re_finditer SPEC_RX (join_with [newline] (take 4 (l # ls))))) out
        else out)" by (simp only: set_fold_add_new split: if_splits) blast
  then show ?case using Cons.IH by (simp only: spec_lines.simps) blast
qed simp

lemma spec_lines_finds:
  assumes "flagged l" and "x \<in> set (map group1 (re_finditer SPEC_RX (join_with [newline] (take 4 (l # q)))))"
  shows "x \<in> set (spec_lines (p @ l # q) out)"
proof (induction p arbitrary: out)
  case Nil
  have "x \<in> set (fold add_new (map group1 (re_finditer SPEC_RX (join_with [newline] (take 4 (l # q))))) out)"
    using assms(2) by (simp only: set_fold_add_new) blast
  then show ?case using assms(1) spec_lines_keeps by (simp only: append_Nil spec_lines.simps if_True) blast
qed (simp only: append_Cons spec_lines.simps)

lemma lines_from_run: "list_all (\<lambda>c. \<not> line_end c) p \<Longrightarrow> lines_from acc False (p @ s) = lines_from (rev p @ acc) False s"
  by (induction p arbitrary: acc) auto

lemma lines_from_head: "acc \<noteq> [] \<Longrightarrow> \<exists>y zs. lines_from acc False s = (rev acc @ y) # zs"
proof (induction s arbitrary: acc)
  case (Cons c s)
  show ?case
  proof (cases "line_end c")
    case False
    with Cons.IH [of "c # acc"] show ?thesis by auto
  qed auto
qed simp

lemma splitlines_head:
  assumes "list_all (\<lambda>c. \<not> line_end c) p" and "p \<noteq> []"
  shows "\<exists>y zs. splitlines (p @ s) = (p @ y) # zs"
  using lines_from_head [of "rev p" s] assms by (simp add: splitlines_def lines_from_run)

lemma splitlines_line:
  assumes "list_all (\<lambda>c. \<not> line_end c) p"
  shows "splitlines (p @ newline # s) = p # splitlines s"
proof -
  have "line_end newline" "chr_code newline \<noteq> 13" by code_simp+
  with assms show ?thesis by (simp add: splitlines_def lines_from_run)
qed

lemma join_with_head: "\<exists>r. join_with d (l # xs) = l @ r"
  by (cases xs) simp_all

lemma substr_in_append: "substr_in fl s \<Longrightarrow> substr_in fl (s @ t)"
proof (induction s)
  case Nil
  then show ?case by (cases t) (simp_all add: startswith_def)
next
  case (Cons c s)
  have "startswith (c # s) fl \<Longrightarrow> startswith ((c # s) @ t) fl" unfolding startswith_iff by fastforce
  then show ?case using Cons by auto
qed

lemma substr_in_prepend: "substr_in fl s \<Longrightarrow> substr_in fl (t @ s)"
  by (induction t) auto

lemma flagged_append: "flagged s \<Longrightarrow> flagged (s @ t)"
  unfolding flagged_def lower_def Let_def list_ex_iff map_append using substr_in_append by fast

lemma fresh_start_append: "a \<noteq> [] \<Longrightarrow> fresh_start (rev a @ r) = fresh_start (rev a)"
  by (cases a rule: rev_cases) (simp_all add: fresh_start_def)

lemma word_start_append: "b \<noteq> [] \<Longrightarrow> word_start (b @ r) = word_start b"
  by (cases b) simp_all

lemma line_names_candidate:
  assumes "build_name [''py'', ''html'', ''md''] w" and "fresh_start (rev a)" and "\<not> word_start b" and "b \<noteq> []"
    and "list_all (\<lambda>c. \<not> line_end c) (a @ w @ b)" and "flagged (a @ w @ b)"
  shows "w \<in> set (spec_candidate_files (X @ newline # (a @ w @ b) @ Z))"
proof -
  from splitlines_head [OF assms(5), of Z] assms(4) obtain y zs where "splitlines ((a @ w @ b) @ Z) = ((a @ w @ b) @ y) # zs" by auto
  then have lines: "splitlines (X @ newline # (a @ w @ b) @ Z) = splitlines (X @ [newline]) @ ((a @ w @ b) @ y) # zs"
    by (subst splitlines_append) simp
  obtain r where r: "join_with [newline] (take 4 (((a @ w @ b) @ y) # zs)) = a @ w @ (b @ y @ r)"
    using join_with_head [of "[newline]" "(a @ w @ b) @ y" "take 3 zs"] by auto
  have "w \<in> set (map group1 (re_finditer SPEC_RX (join_with [newline] (take 4 (((a @ w @ b) @ y) # zs)))))"
    unfolding r by (rule spec_finds [OF assms(1,2)]) (simp add: word_start_append assms(3,4))
  then show ?thesis unfolding spec_candidate_files_def lines
    by (rule spec_lines_finds [OF flagged_append [OF assms(6)]])
qed

lemma window_names_candidate:
  assumes "build_name [''py'', ''html'', ''md''] w" and "fresh_start (rev a)" and "\<not> word_start b" and "a \<noteq> []" and "b \<noteq> []"
    and "list_all (\<lambda>c. \<not> line_end c) (a @ w @ b)" and "list_all (\<lambda>c. \<not> line_end c) h" and "flagged h"
  shows "w \<in> set (spec_candidate_files (X @ newline # h @ newline # newline # (a @ w @ b) @ Z))"
proof -
  from splitlines_head [OF assms(6), of Z] assms(5) obtain y zs where "splitlines ((a @ w @ b) @ Z) = ((a @ w @ b) @ y) # zs" by auto
  then have lines: "splitlines (X @ newline # h @ newline # newline # (a @ w @ b) @ Z)
      = splitlines (X @ [newline]) @ h # [] # ((a @ w @ b) @ y) # zs"
    using splitlines_line [of "[]" "(a @ w @ b) @ Z"] by (subst splitlines_append) (simp add: splitlines_line [OF assms(7)])
  obtain r where r: "join_with [newline] (take 4 (h # [] # ((a @ w @ b) @ y) # zs)) = (h @ newline # newline # a) @ w @ (b @ y @ r)"
    using join_with_head [of "[newline]" "(a @ w @ b) @ y" "take 1 zs"] by auto
  have "w \<in> set (map group1 (re_finditer SPEC_RX (join_with [newline] (take 4 (h # [] # ((a @ w @ b) @ y) # zs)))))"
    unfolding r by (rule spec_finds [OF assms(1)]) (simp_all add: word_start_append fresh_start_append assms)
  then show ?thesis unfolding spec_candidate_files_def lines
    by (rule spec_lines_finds [OF assms(8)])
qed

subsection \<open>What a pass appends\<close>

definition mine_ok :: "string list \<Rightarrow> string list \<Rightarrow> string list \<times> mined list \<Rightarrow> bool" where
  "mine_ok exclude stems st \<longleftrightarrow> fst st = map m_file (snd st) \<and> distinct (fst st) \<and>
     (\<forall>x \<in> set (snd st). build_name [''py'', ''html''] (m_file x) \<and> \<not> refused_name [] exclude stems (m_file x)
        \<and> list_all (\<lambda>c. \<not> line_end c) (m_desc x))"

lemma sub_runs_without: "list_all (\<lambda>c. \<not> q c) w \<Longrightarrow> (\<And>c. q c \<Longrightarrow> p c) \<Longrightarrow> list_all (\<lambda>c. \<not> q c) (sub_runs p w b s)"
  by (induction p w b s rule: sub_runs.induct) auto

lemma paragraph_one_line: "list_all (\<lambda>c. \<not> line_end c) (paragraph_around ls i cap)"
proof -
  have "list_all (\<lambda>c. \<not> line_end c) (re_sub_runs is_space '' '' u)" for u
    unfolding re_sub_runs_def by (rule sub_runs_without) (auto simp: line_end_def is_space_def Let_def chr_code_def)
  then have "\<not> line_end c" if "c \<in> set (take cap (strip (re_sub_runs is_space '' '' u)))" for c u
    using that strip_chars_sub [of "re_sub_runs is_space '' '' u"] by (auto simp: list_all_iff dest!: in_set_takeD)
  then show ?thesis unfolding paragraph_around_def Let_def list_all_iff by blast
qed

lemma mine_name_ok:
  "build_name [''py'', ''html''] name \<Longrightarrow> mine_ok exclude stems st \<Longrightarrow> mine_ok exclude stems (mine_name exclude stems ls i src name st)"
  unfolding mine_name_def mine_ok_def by (auto simp: refused_name_def paragraph_one_line)

lemma fold_keeps: "(\<And>x s. x \<in> set xs \<Longrightarrow> P s \<Longrightarrow> P (f x s)) \<Longrightarrow> P s \<Longrightarrow> P (fold f xs s)"
  by (induction xs arbitrary: s) auto

lemma mine_text_ok: "mine_ok exclude stems st \<Longrightarrow> mine_ok exclude stems (mine_text exclude stems src txt st)"
  unfolding mine_text_def Let_def
  by (intro fold_keeps [where P = "mine_ok exclude stems"] mine_name_ok mined_is_name) auto

lemma mine_candidates_ok: "mine_ok exclude stems (map m_file (mine_candidates f sources exclude stems), mine_candidates f sources exclude stems)"
proof -
  let ?r = "fold (\<lambda>src st. case read_text f src of None \<Rightarrow> st
              | Some c \<Rightarrow> mine_text exclude stems (path_name src) (content_text c) st) sources ([], [])"
  have "mine_ok exclude stems ?r"
    by (intro fold_keeps [where P = "mine_ok exclude stems"]) (auto simp: mine_ok_def [of _ _ "([], [])"] mine_text_ok split: option.split)
  then show ?thesis by (cases ?r) (simp add: mine_candidates_def mine_ok_def)
qed

lemma slice_to_sub: "set (slice_to n xs) \<subseteq> set xs" "distinct (map g xs) \<Longrightarrow> distinct (map g (slice_to n xs))"
  "0 \<le> n \<Longrightarrow> int (length (slice_to n xs)) \<le> n"
  by (auto simp: slice_to_def take_map [symmetric] dest: in_set_takeD)

text \<open>Everything a pass that refilled has found and written.\<close>

definition refilled :: "path list \<Rightarrow> string list \<Rightarrow> int \<times> int \<Rightarrow> path \<Rightarrow> string \<Rightarrow> int \<Rightarrow> fs \<Rightarrow> string \<Rightarrow> mined list \<Rightarrow> fs \<Rightarrow> bool" where
  "refilled srcs stems bounds home ts now f combined batch g \<longleftrightarrow>
     (let candidates = spec_candidate_files combined;
          disk = disk_names f home;
          missing = length (filter (\<lambda>c. c \<notin> set disk) candidates)
      in int missing < fst bounds
       \<and> batch = slice_to (snd bounds) (mine_candidates f srcs (candidates @ disk) stems)
       \<and> append_file now (auto_path home) (join_with [newline] (refill_block ts missing (fst bounds) batch)) f = Some g)"

lemma run_refill_cases:
  assumes "run_refill env toml dth dmx home th mx sources quarantine ts now f = (st, g)"
  shows "(st_reason st \<noteq> RRefilled \<and> st_files st = [] \<and> st_appended st = 0 \<and> g = f) \<or>
    (\<exists>spec combined batch. st_reason st = RRefilled \<and> read_text f (path_child home ''PRODUCT_SPEC.md'') = Some spec
       \<and> combined_spec f home (content_text spec) = Some combined
       \<and> refilled (case sources of Some s \<Rightarrow> s | None \<Rightarrow> default_sources f home)
           (terminal_stems f (path_child home ''directives'') (Some (quarantine_of env quarantine)))
           (refill_bounds env toml f dth dmx th mx) home ts now f combined batch g
       \<and> st_files st = map m_file batch \<and> st_appended st = length batch)"
proof -
  obtain t m where b: "refill_bounds env toml f dth dmx th mx = (t, m)" by fastforce
  show ?thesis
    using assms unfolding run_refill_def b prod.case Let_def refilled_def
    by (auto split: option.splits if_splits)
qed

lemma append_file_get:
  assumes "append_file now p t f = Some g"
  shows "fs_get g q = (if q = p then Some \<lparr>body = Text ((case fs_get f p of None \<Rightarrow> [] | Some x \<Rightarrow> content_text (body x)) @ t), mtime = now\<rparr>
      else fs_get f q)" "noread g = noread f"
  using assms fs_put_frame unfolding append_file_def write_text_def by (auto simp: fs_put_get)

lemma combined_after:
  assumes "combined_spec f home s = Some c" and "append_file now (auto_path home) t f = Some g" and "combined_spec g home s = Some c'"
  shows "c' = c @ t"
  using assms append_file_get [OF assms(2)]
  by (auto simp: combined_spec_def is_file_def read_text_def content_text_def split: if_splits option.splits)

lemma join_split_at: "p \<noteq> [] \<Longrightarrow> \<exists>P Z. join_with [newline] (p @ x # q) = P @ newline # x @ Z"
proof (induction p rule: induct_list012)
  case (2 l)
  then show ?case using join_with_head [of "[newline]" x q] by (auto intro: exI [of _ l])
next
  case (3 l m p)
  then obtain P Z where "join_with [newline] ((m # p) @ x # q) = P @ newline # x @ Z" by auto
  then have "join_with [newline] ((l # m # p) @ x # q) = (l @ newline # P) @ newline # x @ Z" by simp
  then show ?case by blast
qed simp

lemma batch_line:
  assumes "c \<in> set batch"
  shows "\<exists>P Z. join_with [newline] (refill_block ts n th batch) = P @ newline # candidate_line c @ Z"
proof -
  from assms obtain b1 b2 where b: "batch = b1 @ c # b2" by (meson split_list)
  have "refill_block ts n th batch = ([[], ''## Auto-anchor refill '' @ ts @ '' (directive candidates, NOT YET BUILT)'', [],
      mined_note n th, []] @ map candidate_line b1) @ candidate_line c # (map candidate_line b2 @ [[]])"
    by (simp add: refill_block_def b)
  then show ?thesis by (simp only:) (rule join_split_at, simp)
qed

text \<open>A name that stands anywhere in a candidate line.\<close>

lemma batch_names_candidate:
  assumes "c \<in> set batch" and "candidate_line c = (a @ w @ b) @ r" and "flagged (a @ w @ b)"
    and "build_name [''py'', ''html'', ''md''] w" and "fresh_start (rev a)" and "\<not> word_start b" and "b \<noteq> []"
    and "list_all (\<lambda>x. \<not> line_end x) (a @ w @ b)"
  shows "w \<in> set (spec_candidate_files (X @ join_with [newline] (refill_block ts n th batch)))"
proof -
  from batch_line [OF assms(1)] obtain P Z where "join_with [newline] (refill_block ts n th batch) = P @ newline # candidate_line c @ Z"
    by blast
  with line_names_candidate [OF assms(4-8) assms(3), of "X @ P" "r @ Z"] show ?thesis by (simp add: assms(2))
qed

lemma line_start_flagged: "flagged (''- directive candidate: '' @ s)"
  by (rule flagged_append) code_simp

lemma build_name_md: "build_name [''py'', ''html''] w \<Longrightarrow> build_name [''py'', ''html'', ''md''] w"
  unfolding build_name_def by fastforce

lemma build_name_one_line:
  assumes "build_name exts w" and "plain_exts exts"
  shows "list_all (\<lambda>x. \<not> line_end x) w"
proof -
  have "\<not> line_end x" if "word_char x \<or> x = CHR ''.''" for x
    using that by (auto simp: line_end_def word_char_def is_alpha_ascii_def is_upper_ascii_def is_lower_ascii_def is_digit_def
      chr_code_def Let_def)
  then show ?thesis using build_name_chars [OF assms] by (auto simp: list_all_iff)
qed

lemma batch_becomes_candidate:
  assumes "c \<in> set batch" and "build_name [''py'', ''html''] (m_file c)"
  shows "m_file c \<in> set (spec_candidate_files (X @ join_with [newline] (refill_block ts n th batch)))"
proof (rule batch_names_candidate [OF assms(1), where a = "''- directive candidate: '' @ [CHR 0x60]" and b = "[CHR 0x60]"
    and r = "'' -- '' @ m_desc c @ '' [auto-anchor: '' @ m_source c @ ''#L'' @ nat_str (m_line c) @ '']''"])
  show "candidate_line c = ((''- directive candidate: '' @ [CHR 0x60]) @ m_file c @ [CHR 0x60]) @
      '' -- '' @ m_desc c @ '' [auto-anchor: '' @ m_source c @ ''#L'' @ nat_str (m_line c) @ '']''"
    by (simp add: candidate_line_def)
  show "flagged ((''- directive candidate: '' @ [CHR 0x60]) @ m_file c @ [CHR 0x60])"
    using line_start_flagged [of "[CHR 0x60] @ m_file c @ [CHR 0x60]"] by simp
  show "list_all (\<lambda>x. \<not> line_end x) ((''- directive candidate: '' @ [CHR 0x60]) @ m_file c @ [CHR 0x60])"
    using build_name_one_line [OF assms(2) extensions(1)] by (simp add: line_end_def chr_code_def)
  show "build_name [''py'', ''html'', ''md''] (m_file c)" using assms(2) by (rule build_name_md)
qed (simp, code_simp | code_simp)+

subsection \<open>Properties of a pass\<close>

lemma refilledE:
  assumes "run_refill env toml dth dmx home th mx sources quarantine ts now f = (st, g)"
    and "st_reason st = RRefilled \<or> st_files st \<noteq> []"
  obtains spec combined batch srcs b where "read_text f (path_child home ''PRODUCT_SPEC.md'') = Some spec"
    "combined_spec f home (content_text spec) = Some combined"
    "refilled srcs (terminal_stems f (path_child home ''directives'') (Some (quarantine_of env quarantine))) b home ts now f combined batch g"
    "st_files st = map m_file batch"
  using run_refill_cases [OF assms(1)] assms(2) by blast

lemma batch_ok:
  assumes "refilled srcs stems b home ts now f combined batch g"
  shows "distinct (map m_file batch)"
    and "x \<in> set batch \<Longrightarrow> build_name [''py'', ''html''] (m_file x)
      \<and> \<not> refused_name [] (spec_candidate_files combined @ disk_names f home) stems (m_file x)"
proof -
  let ?m = "mine_candidates f srcs (spec_candidate_files combined @ disk_names f home) stems"
  have ok: "mine_ok (spec_candidate_files combined @ disk_names f home) stems (map m_file ?m, ?m)" by (rule mine_candidates_ok)
  have batch: "batch = slice_to (snd b) ?m" using assms by (simp add: refilled_def Let_def)
  from ok have "distinct (map m_file ?m)" by (simp add: mine_ok_def)
  then show "distinct (map m_file batch)" unfolding batch by (rule slice_to_sub(2))
  show "build_name [''py'', ''html''] (m_file x)
      \<and> \<not> refused_name [] (spec_candidate_files combined @ disk_names f home) stems (m_file x)" if "x \<in> set batch"
    using ok that slice_to_sub(1) [of "snd b" ?m] unfolding batch mine_ok_def by auto
qed

lemma heading_flags_note:
  assumes "list_all (\<lambda>c. \<not> line_end c) ts"
  shows "''anchor_refill.py'' \<in> set (spec_candidate_files (X @ join_with [newline] (refill_block ts n th batch)))"
proof -
  define h where "h = ''## Auto-anchor refill '' @ ts @ '' (directive candidates, NOT YET BUILT)''"
  define a where "a = ''*Mined deterministically from the Graphify KL (docs/DESIGN_*.md, roadmap) by zo_sentinel/''"
  define b where "b = '' because''"
  obtain Z where mn: "mined_note n th = (a @ ''anchor_refill.py'' @ b) @ Z" by (simp add: mined_note_def a_def b_def)
  obtain l ls where rest: "map candidate_line batch @ [[]] = l # ls" by (cases "map candidate_line batch @ [[]]") auto
  have "join_with [newline] (refill_block ts n th batch)
      = newline # h @ newline # newline # (a @ ''anchor_refill.py'' @ b) @ Z @ newline # newline # join_with [newline] (l # ls)"
    unfolding refill_block_def append_assoc rest mn h_def [symmetric] by simp
  moreover have "''anchor_refill.py'' \<in> set (spec_candidate_files (X @ newline # h @ newline # newline # (a @ ''anchor_refill.py'' @ b) @ Z'))" for Z'
  proof (rule window_names_candidate)
    show "build_name [''py'', ''html'', ''md''] ''anchor_refill.py''"
      unfolding build_name_def
      by (intro exI [of _ "CHR ''a''"] exI [of _ "CHR ''n''"] exI [of _ "CHR ''c''"] exI [of _ "''hor_refill''"] exI [of _ "''py''"]) code_simp
    have "flagged ('' (directive candidates, NOT YET BUILT)'')" by code_simp
    then show "flagged h" unfolding h_def flagged_def lower_def Let_def map_append list_ex_iff using substr_in_prepend by metis
    show "list_all (\<lambda>c. \<not> line_end c) h" using assms by (simp add: h_def line_end_def chr_code_def)
  qed (unfold a_def b_def, code_simp+)
  ultimately show ?thesis by simp
qed

text \<open>A pass touches the machine's own file only, and only when it refills.\<close>

lemma refill_frame:
  assumes "run_refill env toml dth dmx home th mx sources quarantine ts now f = (st, g)" and "p \<noteq> auto_path home"
  shows "fs_get g p = fs_get f p \<and> noread g = noread f"
  using run_refill_cases [OF assms(1)] assms(2) append_file_get
  by (auto simp: refilled_def Let_def)

lemma refill_names:
  assumes "run_refill env toml dth dmx home th mx sources quarantine ts now f = (st, g)" and "w \<in> set (st_files st)"
  shows "\<exists>spec combined. read_text f (path_child home ''PRODUCT_SPEC.md'') = Some spec
    \<and> combined_spec f home (content_text spec) = Some combined
    \<and> build_name [''py'', ''html''] w
    \<and> \<not> refused_name [] (spec_candidate_files combined @ disk_names f home)
         (terminal_stems f (path_child home ''directives'') (Some (quarantine_of env quarantine))) w"
proof -
  from assms(2) have "st_reason st = RRefilled \<or> st_files st \<noteq> []" by auto
  from refilledE [OF assms(1) this] obtain spec combined batch srcs b where
    r: "read_text f (path_child home ''PRODUCT_SPEC.md'') = Some spec" "combined_spec f home (content_text spec) = Some combined"
    "refilled srcs (terminal_stems f (path_child home ''directives'') (Some (quarantine_of env quarantine))) b home ts now f combined batch g"
    "st_files st = map m_file batch" .
  from assms(2) r(4) obtain x where "x \<in> set batch" "w = m_file x" by auto
  with batch_ok(2) [OF r(3)] r(1,2) show ?thesis by blast
qed

lemma refill_distinct:
  assumes "run_refill env toml dth dmx home th mx sources quarantine ts now f = (st, g)"
  shows "distinct (st_files st)"
proof (cases "st_files st = []")
  case False
  then obtain spec combined batch srcs b where
    "refilled srcs (terminal_stems f (path_child home ''directives'') (Some (quarantine_of env quarantine))) b home ts now f combined batch g"
    "st_files st = map m_file batch" using refilledE [OF assms] by metis
  then show ?thesis using batch_ok(1) by metis
qed simp

lemma refill_bounded:
  assumes "run_refill env toml dth dmx home th (Some n) sources quarantine ts now f = (st, g)" and "0 \<le> n"
  shows "int (length (st_files st)) \<le> n"
  using run_refill_cases [OF assms(1)] slice_to_sub(3) [OF assms(2)] assms(2)
  unfolding refilled_def Let_def refill_bounds_def by (auto simp: Let_def)

lemma refill_writes:
  assumes "run_refill env toml dth dmx home th mx sources quarantine ts now f = (st, g)"
  shows "st_reason st \<noteq> RRefilled \<longrightarrow> g = f \<and> st_files st = []"
    and "st_reason st = RRefilled \<longrightarrow> (\<exists>missing low batch. map m_file batch = st_files st
          \<and> append_file now (auto_path home) (join_with [newline] (refill_block ts missing low batch)) f = Some g)"
proof -
  show "st_reason st \<noteq> RRefilled \<longrightarrow> g = f \<and> st_files st = []" using run_refill_cases [OF assms] by blast
  show "st_reason st = RRefilled \<longrightarrow> (\<exists>missing low batch. map m_file batch = st_files st
          \<and> append_file now (auto_path home) (join_with [newline] (refill_block ts missing low batch)) f = Some g)"
  proof
    assume "st_reason st = RRefilled"
    then have "st_reason st = RRefilled \<or> st_files st \<noteq> []" ..
    from refilledE [OF assms this] show "\<exists>missing low batch. map m_file batch = st_files st
          \<and> append_file now (auto_path home) (join_with [newline] (refill_block ts missing low batch)) f = Some g"
      unfolding refilled_def Let_def by metis
  qed
qed

text \<open>What a pass appended is a candidate of the specification from then on.\<close>

lemma refilled_are_candidates:
  assumes "run_refill env toml dth dmx home th mx sources quarantine ts now f = (st, g)" and "w \<in> set (st_files st)"
    and "read_text g (path_child home ''PRODUCT_SPEC.md'') = Some spec" and "combined_spec g home (content_text spec) = Some c"
  shows "w \<in> set (spec_candidate_files c)"
proof -
  from assms(2) have "st_reason st = RRefilled \<or> st_files st \<noteq> []" by auto
  from refilledE [OF assms(1) this] obtain spec0 combined batch srcs b where
    r: "read_text f (path_child home ''PRODUCT_SPEC.md'') = Some spec0" "combined_spec f home (content_text spec0) = Some combined"
    "refilled srcs (terminal_stems f (path_child home ''directives'') (Some (quarantine_of env quarantine))) b home ts now f combined batch g"
    "st_files st = map m_file batch" .
  have "path_child home ''PRODUCT_SPEC.md'' \<noteq> auto_path home" by (simp add: auto_path_def AUTO_ANCHOR_NAME_def)
  then have "read_text g (path_child home ''PRODUCT_SPEC.md'') = read_text f (path_child home ''PRODUCT_SPEC.md'')"
    using refill_frame [OF assms(1)] by (simp add: read_text_def)
  then have spec: "spec0 = spec" using r(1) assms(3) by simp
  from assms(2) r(4) obtain x where x: "x \<in> set batch" "w = m_file x" by auto
  have name: "build_name [''py'', ''html''] (m_file x)" using refill_names [OF assms(1,2)] by (auto simp: x(2))
  from r(3) obtain n where "append_file now (auto_path home) (join_with [newline] (refill_block ts n (fst b) batch)) f = Some g"
    by (auto simp: refilled_def Let_def)
  from combined_after [OF r(2) [unfolded spec] this assms(4)] batch_becomes_candidate [OF x(1) name] show ?thesis by (simp add: x(2))
qed

subsection \<open>An example\<close>

text \<open>
  A design document names a retired view and a new one: only the new one is appended.
\<close>

definition anchor_home :: path where
  "anchor_home = Path True [''w'']"

definition anchor_world :: fs where
  "anchor_world =
     \<lparr>files = [(Path True [''w'', ''PRODUCT_SPEC.md''], \<lparr>body = Text ''Spec'', mtime = 1\<rparr>),
        (Path True [''w'', ''docs'', ''DESIGN_a.md''], \<lparr>body = Text ''old_view.py, new_view.py'', mtime = 1\<rparr>),
        (Path True [''w'', ''directives'', ''retired'', ''build_old_view.json''], \<lparr>body = Text [], mtime = 1\<rparr>)],
      dirs = [Path True [''w''], Path True [''w'', ''docs''], Path True [''w'', ''directives''], Path True [''w'', ''directives'', ''retired'']],
      noread = [], nowrite = []\<rparr>"

definition anchor_run :: "fs \<Rightarrow> refill_stats \<times> fs" where
  "anchor_run f = run_refill (\<lambda>_. None) None 5 5 anchor_home (Some 5) (Some 5) None None ''T'' 9 f"

lemma anchor_first: "let r = fst (anchor_run anchor_world) in st_reason r = RRefilled \<and> st_files r = [''new_view.py'']"
  by code_simp

subsection \<open>What a pass promises\<close>



text \<open>C40: No name is appended twice: the next pass over the files that a pass left, with any
  environment, sources, bounds and clock, appends none of the names of the first.
\<close>

theorem refill_never_repeats:
  assumes "run_refill env toml dth dmx home th mx sources quarantine ts now f = (st, g)"
    and "run_refill env' toml' dth' dmx' home th' mx' sources' quarantine' ts' now' g = (st', h)"
  shows "set (st_files st) \<inter> set (st_files st') = {}"
proof -
  have "w \<notin> set (st_files st)" if w: "w \<in> set (st_files st')" for w
  proof
    assume v: "w \<in> set (st_files st)"
    from refill_names [OF assms(2) w] obtain spec c where
      r: "read_text g (path_child home ''PRODUCT_SPEC.md'') = Some spec" "combined_spec g home (content_text spec) = Some c"
      "w \<notin> set (spec_candidate_files c)" by (auto simp: refused_name_def)
    from refilled_are_candidates [OF assms(1) v r(1,2)] r(3) show False by contradiction
  qed
  then show ?thesis by blast
qed

theorem refill_never_repeats_witness:
  "st_files (fst (anchor_run anchor_world)) = [''new_view.py'']
   \<and> filter (\<lambda>w. w = ''new_view.py'') (st_files (fst (anchor_run (snd (anchor_run anchor_world))))) = []"
proof -
  let ?r = "\<lambda>f. run_refill (\<lambda>_. None) None 5 5 anchor_home (Some 5) (Some 5) None None ''T'' 9 f"
  have f: "st_files (fst (anchor_run anchor_world)) = [''new_view.py'']" using anchor_first by (simp add: Let_def)
  have r: "?r f = (fst (anchor_run f), snd (anchor_run f))" for f
    unfolding anchor_run_def by (rule prod.collapse [symmetric])
  from refill_never_repeats [OF r r, of anchor_world] f show ?thesis by (auto simp: filter_empty_conv)
qed

text \<open>
  The heading of a refill flags the note below it, which names this module itself: after
  every refill \<open>anchor_refill.py\<close> counts as a module to build.
\<close>

theorem refill_names_itself:
  assumes "run_refill env toml dth dmx home th mx sources quarantine ts now f = (st, g)" and "st_reason st = RRefilled"
    and "list_all (\<lambda>c. \<not> line_end c) ts"
    and "read_text g (path_child home ''PRODUCT_SPEC.md'') = Some spec" and "combined_spec g home (content_text spec) = Some c"
  shows "''anchor_refill.py'' \<in> set (spec_candidate_files c)"
proof -
  from assms(2) have "st_reason st = RRefilled \<or> st_files st \<noteq> []" by simp
  from refilledE [OF assms(1) this] obtain spec0 combined batch srcs b where
    r: "read_text f (path_child home ''PRODUCT_SPEC.md'') = Some spec0" "combined_spec f home (content_text spec0) = Some combined"
    "refilled srcs (terminal_stems f (path_child home ''directives'') (Some (quarantine_of env quarantine))) b home ts now f combined batch g" .
  have "path_child home ''PRODUCT_SPEC.md'' \<noteq> auto_path home" by (simp add: auto_path_def AUTO_ANCHOR_NAME_def)
  then have "read_text g (path_child home ''PRODUCT_SPEC.md'') = read_text f (path_child home ''PRODUCT_SPEC.md'')"
    using refill_frame [OF assms(1)] by (simp add: read_text_def)
  then have spec: "spec0 = spec" using r(1) assms(4) by simp
  from r(3) obtain n where "append_file now (auto_path home) (join_with [newline] (refill_block ts n (fst b) batch)) f = Some g"
    by (auto simp: refilled_def Let_def)
  from combined_after [OF r(2) [unfolded spec] this assms(5)] heading_flags_note [OF assms(3)] show ?thesis by simp
qed

end
