(* ===== verification/Spec2Isabelle.thy ===== *)
theory Spec2Isabelle
  imports PyRegex BreakerState BuildCompletion BuildLessons Policy QueueJanitor ServiceUnit Promoter
    BuildRouting MeshStore Contracts Ingestor Governor HollowGate AutoStage GitOps Publisher
    BuildLoop LadderCalls AnchorRefill
begin

text \<open>
  A model of the control plane of zo-sentinel, the Python package \<open>src/zo_sentinel/\<close> and the
  modules it works with: an unattended factory in which a model writes directives, a builder turns
  each into a file, an ingestor judges the files and a publisher opens pull requests, while latches,
  a circuit breaker and an activation governor decide what may happen at all. The parts talk
  through directories of JSON files (the directive queues, sentinels, lessons, the outbox), the
  breaker's state file, the rows of a mesh store, and git.

  \<^bold>\<open>Theories, in the order of their dependencies\<close>

  \<^item> \<open>Prelude\<close>, \<open>PyBase\<close>, \<open>PyRegex\<close>, \<open>PyFs\<close>: dictionaries, bounded logs, strings, numbers and JSON as Python
    has them, the part of \<open>re\<close> that the code uses (a backtracking matcher that lists all matches in the
    engine's order), paths and a file system with refused reads and writes. The locale
    \<open>file_store\<close> states what an atomic write relies on.
  \<^item> \<open>BreakerState\<close> (\<open>src/gate_quality_state.py\<close>): cohorts, the three states of the breaker, retries,
    quarantines, retirement (the record \<open>brk\<close> is the JSON document), and the locked state file
    around them (\<open>with_locked\<close>: missing, blank, corrupt, busy). Lemmas: a well-formedness invariant
    of every operation, when the breaker trips and closes, the retry budget, recovery, the sweep
    of stale quarantines.
  \<^item> \<open>BuildCompletion\<close> (\<open>build_completion.py\<close>): parking a directive, its sentinels, declared outputs and
    requirements, the ghost counter. \<open>BuildLessons\<close> (\<open>build_lessons.py\<close>): the lessons loop.
  \<^item> \<open>Policy\<close> (\<open>policy.py\<close>): the five layers of a policy value, overrides and the migration of legacy
    sentinels; the abstract specification is \<open>opinions\<close>, \<open>resolve\<close> refines it.
  \<^item> \<open>QueueJanitor\<close> (\<open>queue_janitor.py\<close>): the pass that retires quarantined and redundant directives,
    refined to a sequence of moves (\<open>retires\<close>).
  \<^item> \<open>ServiceUnit\<close> (\<open>tools/service_decomposer.py\<close>, \<open>builder_exclusions.py\<close>): a service as five
    directives with their requirements; excluded families.
  \<^item> \<open>Promoter\<close> (\<open>promoters/proposed_to_pending_promoter.py\<close>): validation, fan-out, one promotion, the
    cycle and the daemon.
  \<^item> \<open>BuildRouting\<close> (\<open>build_routing.py\<close>): model choice from the failure matrix, the escalation ladder,
    the identity of a directive, the rows a build leaves.
  \<^item> \<open>MeshStore\<close> (\<open>ingestor/model.py\<close>, \<open>ingestor/store.py\<close>): artifacts, verdicts and the store seam; the
    locale \<open>mesh_store\<close> states what a store that answers promises. It is interpreted on the store in memory,
    and the HTTP store has its laws over every service that answers and keeps what it is sent (the locale
    \<open>mesh_service\<close>, a \<open>sublocale\<close>, interpreted on a service whose state is its rows). While the service is down the
    laws fail; \<open>Governor\<close> shows what the governor then forgets.
  \<^item> \<open>Contracts\<close> (\<open>ingestor/contracts.py\<close>), \<open>Ingestor\<close> (\<open>ingestor/ingestor.py\<close>), \<open>Governor\<close>
    (\<open>ingestor/governor.py\<close>): the checks of a built file, one cycle of the ingestor with its
    watermark, and the state machine that activates it after enough clean cycles.
  \<^item> \<open>AutoStage\<close> (\<open>publisher/auto_stage.py\<close>, \<open>publisher/auto_declare.py\<close>) and \<open>GitOps\<close> (\<open>publisher/gitops.py\<close>): where
    the publisher writes an artifact in its clone and what it writes beside it, the ledger of
    unmounted routers, the backoff, and the command sequence from the fetch to the pull request.
    The locale \<open>git_seam\<close> states what an answer says of the branches pushed; it is interpreted on the
    real implementation and on the double for tests.
  \<^item> \<open>HollowGate\<close> (\<open>gates/hollow.py\<close>): the rule against modules that are wired to nothing.
  \<^item> \<open>Publisher\<close> (\<open>publisher/publisher.py\<close>): the durable outbox, the refusal rules, eviction, one
    attempt, \<open>commit\<close>, \<open>drain\<close>, \<open>backfill\<close>, \<open>evict_held\<close>. An entry is a small state machine;
    \<open>settles\<close> is its specification, and every operation on the outbox is shown to keep to it. What
    a drain reports is compared with what reaches the remote inside the locale \<open>git_seam\<close>.
  \<^item> \<open>Loopback\<close> (\<open>src/state_loopback.py\<close>): the manifest in which every step reads as failed until a proof
    is recorded; its specification is the set of steps that read as passed. \<open>OrphanChains\<close>
    (\<open>tools/park_orphan_chain_directives.py\<close>, \<open>tools/quarantine_topup.py\<close>): parking of directives whose
    requirements nobody produces, revival, and the decision to refill the queue.
  \<^item> \<open>Engine\<close> (\<open>engine_build.py\<close>, \<open>tools/selftest_verdict.py\<close>): one completion, its local check and the
    bounded repair rounds; the verdict on a self test.
  \<^item> \<open>WriteGuard\<close> (\<open>undeclared_write_guard.py\<close>): what a run wrote and did not declare is put back; its
    contract with git is \<open>is_work_tree\<close>. \<open>GooseTask\<close> (\<open>goose_runner_lib/context.py\<close>): the build task, the
    recipe, the daily counters of the service recipe and the run of the agent inside the guard.
  \<^item> \<open>SpineRouter\<close> (\<open>tools/spine_mount_router.py\<close>): the mount, the new service or the orphan that a
    directive is. \<open>BuildGates\<close> (\<open>goose_runner_lib/completion.py\<close>, the linter of \<open>schema_kl.py\<close>, tier 0 of
    \<open>tools/uv_gate_runner.py\<close>): the seven gates between a build and its completion.
  \<^item> \<open>Progress\<close> (the checkpoint log of \<open>src/state_loopback.py\<close>): what a restarted runner resumes from.
  \<^item> \<open>Builder\<close> (\<open>goose_runner_lib/core.py\<close>, \<open>completion.py\<close>): loading and merging the directives, which of
    them may be built, and what completion, a ghost, giving up, a handoff and a bare completion leave
    (the record \<open>bworld\<close>: files, the state behind git, accepted rows, the memory of the process).
    \<open>BuildLoop\<close> (the body of the loop in \<open>goose_runner_lib/runner.py\<close>): one directive through its attempts,
    written bytes, agent, engine and repair, each behind the gates, and a cycle that an exception ends.
    It composes most theories above: a completion row is shown to need the gates, an outage to be
    counted, and unusable content to stop every cycle.
  \<^item> \<open>PyJson\<close>: \<open>json.loads\<close> on a text, with the lemma that it reads back what \<open>json.dumps\<close> wrote (\<open>loads_dumps\<close>).
    \<open>Sanitize\<close> (\<open>src/minimax_utils.py\<close>): reasoning blocks and code fences are cut off an answer. \<open>ToolCalls\<close>
    (\<open>src/escalation.py\<close>): the four parsers for tool calls that a model writes as text. Lemmas: the scanner for
    balanced braces finds the end of any written JSON object, a marked call is read back exactly.
  \<^item> \<open>RungQuota\<close> (\<open>src/rung_quota.py\<close>): the quota file, its gauge and parking. \<open>Ladder\<close> (\<open>src/escalation.py\<close>,
    \<open>src/ladder_extensions.py\<close>): the rungs, start tiers and their rewriting, rate limiter, daily budget and \<open>ask\<close>, the walk over
    the rungs, over any adapter. Lemmas: an invariant of each limit along the walk, and \<open>ladder_walk\<close>, what the
    walk reports. \<open>LadderCalls\<close>: the four adapters behind it, from the payload to the salvaged answer.
  \<^item> \<open>AnchorRefill\<close> (\<open>zo_sentinel/anchor_refill.py\<close>): names of modules mined from the design documents become candidate
    lines when the specification runs low. Lemmas: what its pattern matches, that an appended line is read back as a
    candidate, and so that no name is appended twice.
  \<^item> This theory: what holds between components.

  \<^bold>\<open>How the code is represented\<close>

  A JSON value is the datatype \<open>json\<close>, an object an association list in insertion order; a class is a
  record, an enumeration a datatype. A function that may raise gives an option (\<open>None\<close> is the
  exception) or a sum, together with the state it leaves. A file holds either a document (the text
  that \<open>json.dumps\<close> writes for a value) or another text. An operation reads its clock once: the
  times are arguments, and modification times are whole seconds. A float is an exact rational;
  infinities and rounding are outside the model.
  Characters are the code points below 256. Paths are compared by their components; \<open>..\<close> and symbolic
  links are not followed. An identity that is no text is itself in the runner's rows and its text in
  paths, lessons and the manifest. Every definition computes, so that the witnesses evaluate it.

  \<^bold>\<open>Bounds\<close>

  The matcher's repetition and \<open>finditer\<close> use the length of the text as fuel: every iteration that
  counts consumes a character (\<open>rmatch_advances\<close>). The search for a free name of a rejected proposal
  uses one more than the number of files and directories, and \<open>free_rejected_found\<close> shows that this is
  enough. The backoff and the retries after a 429 recurse on the retries that remain, the engine on the
  repair rounds, the walk of \<open>ask\<close> on the rungs. \<open>loads\<close> uses twice the length of its text, for which \<open>scan_dumps\<close> shows that
  every written value is read. All other recursion is structural; a
  daemon is a run over a list of cycles.

  \<^bold>\<open>Arguments\<close>

  What is not Python code of the repository is an argument: the events of the HTML parser, the import
  of a module, \<open>ast.parse\<close>, HTTP posts, subprocesses (\<open>git\<close>, \<open>gh\<close>, the manifest check), the query
  of the eighth gate, reading of timestamps, the jitter, the model behind the shim, the agent, the run of
  a file, the introspection of the schema, the answers of the write service, the rows of the mesh, Bandit, the clocks and
  the digits of fresh identifiers, the value of a float literal in a JSON text. Hypotheses on them are named:
  \<open>git_frame\<close> (restoring a tracked file changes nobody's permissions), \<open>sane_backoff\<close> (a draw lies in the
  unit interval, base and cap are not negative), \<open>quiet_checks\<close> (compiling and running an output changes
  no file the builder reads) and \<open>is_work_tree\<close> (asking git for dirty files changes nothing, checking out
  one file touches that file only, copies for inspection are not tracked).

  \<^bold>\<open>Not modelled\<close>

  Command lines, logging, the sleeping of daemons, log rotation, the providers behind HTTP and fixed prompt texts, the start of
  the runner (heartbeat, instance lock, signals), its optional git commit of the state files, the typed
  questions of \<open>decide/core.py\<close> (probability vectors over floats, which no modelled part asks), the event bus, the
  directive generator (prompts and calls of a model), the web application and the generated
  services, batch exports, and an executable that cannot be started. Concurrency is modelled where the
  code locks: an operation under a lock is one step; interleavings are sequences of steps.
\<close>

subsection \<open>Properties that span components\<close>

lemma park_directive_kept:
  assumes "work_dir f r" and "plain_id did"
  shows "\<exists>g. park_directive now did reason whn r du f = (True, g) \<and> fs_exists g (failed_path r did)"
proof -
  let ?pl = "park_payload did reason whn"
  obtain f1 where f1: "mkdirs r f = Some f1" "work_dir f1 r" using work_dir_mkdirs [OF assms(1)] by blast
  obtain f2 where f2: "write_text now (failed_path r did) ?pl f1 = Some f2"
    using work_dir_write [OF f1(2)] unfolding sentinel_paths [OF assms(2)] by blast
  have s1: "park_one now did ?pl (Some r) (False, f) = (True, f2)" by (simp add: park_one_def f1 f2)
  obtain w2 f3 where s2: "park_one now did ?pl du (True, f2) = (w2, f3)" by fastforce
  have w2: w2 using s2 by (auto simp: park_one_def split: option.splits)
  have "fs_exists f2 (failed_path r did)" using write_text_get [OF f2] by (simp add: fs_exists_def is_file_def)
  then have e: "fs_exists f3 (failed_path r did)" using park_one_spec(1) [OF s2] by blast
  define g where "g = (if fs_exists f3 (done_path r did)
      then (case unlink (done_path r did) f3 of None \<Rightarrow> f3 | Some f4 \<Rightarrow> f4) else f3)"
  have "fs_exists g (failed_path r did)"
    using e failed_not_done [OF assms(2), of r r] fs_exists_unlink_other by (auto simp: g_def split: option.splits)
  moreover have "park_directive now did reason whn r du f = (True, g)"
    using w2 by (simp add: park_directive_def s1 s2 g_def Let_def)
  ultimately show ?thesis by blast
qed

lemma failed_not_eligible:
  assumes "fs_exists g (failed_path (b_droot b) did)" and "plain_id did" and "did_of d = did"
  shows "\<not> fst (is_goose_eligible b d g)"
proof -
  have q: "failed_quarantined h did [Some (b_droot b), Some (bc_durable b)]" if "fs_exists h (failed_path (b_droot b) did)" for h
    using that by (auto simp: failed_quarantined_iff intro!: exI [of _ "b_droot b"])
  have "fs_exists h (failed_path (b_droot b) did)" if "unlink (done_path (b_droot b) did) g = Some h" for h
    using fs_exists_unlink_other [OF that failed_not_done [OF assms(2)] assms(1)] .
  then show ?thesis using q assms(1,3)
    by (auto simp: is_goose_eligible_def not_failed_def Let_def split: option.splits)
qed

text \<open>C18: parking a directive reaches every consumer. When its identity is a plain file name and the directory of the
  directives is a working one, parking succeeds there, whatever becomes of the durable copy; then the janitor classifies
  every queued directive of that identity as quarantined, the promoter promotes no proposal of it, whatever the
  proposal's name, the queues and the counters are, and the builder does not take it up.\<close>

theorem parking_reaches_everyone:
  assumes "work_dir f r" and "plain_id did" and "did \<noteq> []"
  shows "\<exists>g. park_directive now did reason whn r durable f = (True, g)
    \<and> (\<forall>d ds home lessons. janitor_id d = did \<longrightarrow> classify g (Some r # ds) home lessons d = Some ''quarantined'')
    \<and> (\<forall>c src k d. read_json g src = Some (JObj d) \<longrightarrow> resolve_directive_id d = did \<longrightarrow>
          fst (do_promote c (Some r) src (k, g)) \<noteq> Some Promoted)
    \<and> (\<forall>(b :: 'g bcfg) d. b_droot b = r \<longrightarrow> did_of d = did \<longrightarrow> \<not> fst (is_goose_eligible b d g))"
proof -
  obtain g where g: "park_directive now did reason whn r durable f = (True, g)" and failed: "fs_exists g (failed_path r did)"
    using park_directive_kept [OF assms(1,2)] by blast
  have "failed_quarantined g did (Some r # ds)" for ds
    using failed by (auto simp: failed_quarantined_iff)
  then have j: "janitor_id d = did \<Longrightarrow> classify g (Some r # ds) home lessons d = Some ''quarantined''" for d ds home lessons
    using parked_is_quarantined assms(3) by blast
  have p: "fst (do_promote c (Some r) src (k, g)) \<noteq> Some Promoted"
    if "read_json g src = Some (JObj d)" "resolve_directive_id d = did" for c src k d
  proof -
    have "\<not> no_sentinel c (Some r) did g"
      using failed assms(3) by (simp add: no_sentinel_def)
    then have "\<not> promotable c (Some r) src g d'" for d'
      using that by (auto simp: promotable_def)
    then show ?thesis
      using do_promote_cases [of c "Some r" src "(k, g)"]
      by (cases "do_promote c (Some r) src (k, g)") auto
  qed
  have "\<not> fst (is_goose_eligible b d g)" if "b_droot b = r" "did_of d = did" for b :: "'g bcfg" and d
    by (rule failed_not_eligible) (use failed that assms(2) in simp_all)
  with g j p show ?thesis by blast
qed

theorem parking_reaches_everyone_witness:
  "\<exists>g. park_directive 7 ''m1'' ''hollow'' ''t'' (path_of ''/d'') (Some (path_of ''/q''))
      \<lparr>files = [], dirs = [path_of ''/'', path_of ''/d''], noread = [], nowrite = []\<rparr> = (True, g)
    \<and> classify g [Some (path_of ''/d''), Some (path_of ''/q'')] (path_of ''/h'') (path_of ''/l'') [(''task'', JStr ''m1'')] = Some ''quarantined''"
proof -
  have "work_dir \<lparr>files = [], dirs = [path_of ''/'', path_of ''/d''], noread = [], nowrite = []\<rparr> (path_of ''/d'')"
    "plain_id ''m1''" "janitor_id [(''task'', JStr ''m1'')] = ''m1''" by code_simp+
  with parking_reaches_everyone [of _ "path_of ''/d''" "''m1''" 7 "''hollow''" "''t''" "Some (path_of ''/q'')"] show ?thesis by blast
qed

end
